(* ===== verification/Rest_Prelude.thy ===== *)
theory Rest_Prelude
  imports Main "HOL-Library.Word" "HOL-Library.List_Lexorder" "HOL-Library.Char_ord"
    "HOL-Library.Code_Target_Nat"
begin

text \<open>
  Shared vocabulary of the development.

  \<^item> Exceptions are values: a computation that may throw has type \<open>'e + 'a\<close> (\<open>Inl\<close> is
    the exception) and is sequenced with \<open>bindE\<close>; a computation that also reads and writes a
    store (the data base behind a connection, the members of an object) has type
    \<open>('s, 'e, 'a) prog\<close> and is sequenced with \<open>andThen\<close>. The store survives an exception, as
    it does in C++.
  \<^item> A \<open>std::set<std::string>\<close> is the ordered duplicate-free list of its members, so that a
    range-based \<open>for\<close> visits it in the order the container does; a \<open>std::map\<close> is the
    ordered association list of its entries.
  \<^item> \<open>ctype.h\<close> is modelled on bytes in the "C" locale.
\<close>

named_theorems prog_simps \<open>evaluation of the program combinators\<close>
named_theorems cstring_simps \<open>facts about C strings and decimal numbers\<close>

subsection \<open>Computations that may throw\<close>

fun bindE :: "'e + 'a \<Rightarrow> ('a \<Rightarrow> 'e + 'b) \<Rightarrow> 'e + 'b" where
  "bindE (Inl e) f = Inl e"
| "bindE (Inr x) f = f x"

lemma bindE_eq_Inr_iff: "bindE m f = Inr y \<longleftrightarrow> (\<exists>x. m = Inr x \<and> f x = Inr y)"
  by (cases m) auto

lemma bindE_eq_Inl_iff:
  "bindE m f = Inl e \<longleftrightarrow> m = Inl e \<or> (\<exists>x. m = Inr x \<and> f x = Inl e)"
  by (cases m) auto

lemma bindE_assoc: "bindE (bindE m f) g = bindE m (\<lambda>x. bindE (f x) g)"
  by (cases m) auto

type_synonym ('s, 'e, 'a) prog = "'s \<Rightarrow> ('e + 'a) \<times> 's"

definition ret :: "'a \<Rightarrow> ('s, 'e, 'a) prog" where
  "ret x = (\<lambda>s. (Inr x, s))"

definition throw :: "'e \<Rightarrow> ('s, 'e, 'a) prog" where
  "throw e = (\<lambda>s. (Inl e, s))"

definition andThen :: "('s, 'e, 'a) prog \<Rightarrow> ('a \<Rightarrow> ('s, 'e, 'b) prog) \<Rightarrow> ('s, 'e, 'b) prog" where
  "andThen m f = (\<lambda>s. case m s of (Inl e, t) \<Rightarrow> (Inl e, t) | (Inr x, t) \<Rightarrow> f x t)"

definition call :: "('s \<Rightarrow> 'a \<times> 's) \<Rightarrow> ('s, 'e, 'a) prog" where
  "call f = (\<lambda>s. case f s of (x, t) \<Rightarrow> (Inr x, t))"

definition lift :: "'e + 'a \<Rightarrow> ('s, 'e, 'a) prog" where
  "lift r = (\<lambda>s. (r, s))"

definition unlessP :: "bool \<Rightarrow> 'e \<Rightarrow> ('s, 'e, unit) prog" where
  "unlessP b e = (if b then ret () else throw e)"

lemma ret_apply [simp, prog_simps]: "ret x s = (Inr x, s)"
  by (simp add: ret_def)

lemma throw_apply [simp, prog_simps]: "throw e s = (Inl e, s)"
  by (simp add: throw_def)

lemma lift_apply [simp, prog_simps]: "lift r s = (r, s)"
  by (simp add: lift_def)

lemma unlessP_apply [prog_simps]: "unlessP b e s = (if b then Inr () else Inl e, s)"
  by (simp add: unlessP_def)

lemma call_apply [prog_simps]: "call f s = (Inr (fst (f s)), snd (f s))"
  by (simp add: call_def split: prod.splits)

lemma andThen_apply [prog_simps]:
  "andThen m f s = (case m s of (Inl e, t) \<Rightarrow> (Inl e, t) | (Inr x, t) \<Rightarrow> f x t)"
  by (simp add: andThen_def)

lemma andThen_eq_Inr_iff:
  "andThen m f s = (Inr y, u) \<longleftrightarrow> (\<exists>x t. m s = (Inr x, t) \<and> f x t = (Inr y, u))"
  by (auto simp: andThen_def split: prod.splits sum.splits)

lemma andThen_eq_Inl_iff:
  "andThen m f s = (Inl e, u) \<longleftrightarrow>
     m s = (Inl e, u) \<or> (\<exists>x t. m s = (Inr x, t) \<and> f x t = (Inl e, u))"
  by (auto simp: andThen_def split: prod.splits sum.splits)

lemma andThen_assoc: "andThen (andThen m f) g = andThen m (\<lambda>x. andThen (f x) g)"
  by (rule ext) (auto simp: andThen_def split: prod.splits sum.splits)

lemma andThen_ret_left [simp]: "andThen (ret x) f = f x"
  by (rule ext) (simp add: andThen_def)

lemma andThen_throw [simp]: "andThen (throw e) f = throw e"
  by (rule ext) (simp add: andThen_def)

subsection \<open>A program that only reads\<close>

definition reads_only :: "('s, 'e, 'a) prog \<Rightarrow> bool" where
  "reads_only m \<longleftrightarrow> (\<forall>s. snd (m s) = s)"

lemma reads_onlyD: "reads_only m \<Longrightarrow> snd (m s) = s"
  by (simp add: reads_only_def)

lemma reads_only_ret [simp, intro]: "reads_only (ret x)"
  by (simp add: reads_only_def)

lemma reads_only_throw [simp, intro]: "reads_only (throw e)"
  by (simp add: reads_only_def)

lemma reads_only_lift [simp, intro]: "reads_only (lift r)"
  by (simp add: reads_only_def)

lemma reads_only_unlessP [simp, intro]: "reads_only (unlessP b e)"
  by (simp add: reads_only_def unlessP_apply)

lemma reads_only_call [intro]: "(\<And>s. snd (f s) = s) \<Longrightarrow> reads_only (call f)"
  by (simp add: reads_only_def call_apply)

lemma reads_only_andThen [intro]:
  assumes "reads_only m" and "\<And>x. reads_only (f x)"
  shows "reads_only (andThen m f)"
  unfolding reads_only_def
proof
  fix s
  obtain r t where m: "m s = (r, t)" by (cases "m s")
  with reads_onlyD [OF assms(1), of s] have "t = s" by simp
  then show "snd (andThen m f s) = s"
    using m reads_onlyD [OF assms(2)] by (cases r) (simp_all add: andThen_def)
qed

subsection \<open>Characters (ctype.h in the "C" locale)\<close>

definition char_code :: "char \<Rightarrow> nat" where
  "char_code c = of_char c"

definition isdigit :: "char \<Rightarrow> bool" where
  "isdigit c \<longleftrightarrow> 48 \<le> char_code c \<and> char_code c \<le> 57"

definition isupper :: "char \<Rightarrow> bool" where
  "isupper c \<longleftrightarrow> 65 \<le> char_code c \<and> char_code c \<le> 90"

definition islower :: "char \<Rightarrow> bool" where
  "islower c \<longleftrightarrow> 97 \<le> char_code c \<and> char_code c \<le> 122"

definition isalnum :: "char \<Rightarrow> bool" where
  "isalnum c \<longleftrightarrow> isdigit c \<or> isupper c \<or> islower c"

definition isspace :: "char \<Rightarrow> bool" where
  "isspace c \<longleftrightarrow> char_code c = 32 \<or> (9 \<le> char_code c \<and> char_code c \<le> 13)"

definition tolower :: "char \<Rightarrow> char" where
  "tolower c = (if isupper c then char_of (char_code c + 32) else c)"

definition toupper :: "char \<Rightarrow> char" where
  "toupper c = (if islower c then char_of (char_code c - 32) else c)"

lemma char_code_char_of: "n < 256 \<Longrightarrow> char_code (char_of n) = n"
  by (simp add: char_code_def)

lemma tolower_idem [simp]: "tolower (tolower c) = tolower c"
  by (auto simp: tolower_def isupper_def char_code_char_of)

lemma not_isupper_tolower [simp]: "\<not> isupper (tolower c)"
  by (auto simp: tolower_def isupper_def char_code_char_of)

lemma isalnum_tolower [simp]: "isalnum (tolower c) = isalnum c"
  by (auto simp: tolower_def isalnum_def isupper_def islower_def isdigit_def char_code_char_of)

lemma tolower_eq_underscore [simp]: "tolower c = CHR ''_'' \<longleftrightarrow> c = CHR ''_''"
proof (cases "isupper c")
  case True
  then have "char_code (tolower c) \<noteq> char_code (CHR ''_'')" and "char_code c \<noteq> char_code (CHR ''_'')"
    by (auto simp: tolower_def isupper_def char_code_char_of) (simp add: char_code_def)+
  then show ?thesis by auto
qed (simp add: tolower_def)

subsection \<open>C strings and decimal numbers\<close>

definition c_str :: "string \<Rightarrow> string" where
  "c_str s = takeWhile (\<lambda>c. c \<noteq> CHR 0x00) s"

definition digit_char :: "nat \<Rightarrow> char" where
  "digit_char d = char_of (48 + d)"

definition digit_val :: "char \<Rightarrow> nat" where
  "digit_val c = char_code c - 48"


lemma digit_val_digit_char [simp]: "d < 10 \<Longrightarrow> digit_val (digit_char d) = d"
  by (simp add: digit_val_def digit_char_def char_code_char_of)

lemma isdigit_digit_char [simp]: "d < 10 \<Longrightarrow> isdigit (digit_char d)"
  by (simp add: isdigit_def digit_char_def char_code_char_of)

lemma isspace_digit_char [simp]: "d < 10 \<Longrightarrow> \<not> isspace (digit_char d)"
  by (simp add: isspace_def digit_char_def char_code_char_of)

lemma isdigit_not_isspace: "isdigit c \<Longrightarrow> \<not> isspace c"
  by (auto simp: isdigit_def isspace_def)

text \<open>\<open>std::to_string\<close> of an unsigned integer, and the value of a string of digits.\<close>

fun to_string :: "nat \<Rightarrow> string" where
  "to_string n = (if n < 10 then [digit_char n] else to_string (n div 10) @ [digit_char (n mod 10)])"

declare to_string.simps [simp del]

definition digits_val :: "string \<Rightarrow> nat" where
  "digits_val s = foldl (\<lambda>v c. v * 10 + digit_val c) 0 s"

lemma digits_val_snoc [simp]: "digits_val (s @ [c]) = digits_val s * 10 + digit_val c"
  by (simp add: digits_val_def)

lemma digits_val_to_string [simp, cstring_simps]: "digits_val (to_string n) = n"
proof (induction n rule: to_string.induct)
  case (1 n)
  show ?case
  proof (cases "n < 10")
    case True
    then show ?thesis by (subst to_string.simps) (simp add: digits_val_def)
  next
    case False
    with "1.IH" show ?thesis by (subst to_string.simps) simp
  qed
qed

lemma to_string_inj [simp, cstring_simps]: "to_string m = to_string n \<longleftrightarrow> m = n"
  by (metis digits_val_to_string)

lemma to_string_not_Nil [simp]: "to_string n \<noteq> []"
  by (subst to_string.simps) simp

lemma to_string_digits: "c \<in> set (to_string n) \<Longrightarrow> isdigit c"
proof (induction n rule: to_string.induct)
  case (1 n)
  show ?case
  proof (cases "n < 10")
    case True
    with "1.prems" show ?thesis by (subst (asm) to_string.simps) simp
  next
    case False
    with 1 show ?thesis by (subst (asm) to_string.simps) auto
  qed
qed

lemma c_str_clean: "CHR 0x00 \<notin> set s \<Longrightarrow> c_str s = s"
  by (auto simp: c_str_def)

lemma c_str_to_string [simp, cstring_simps]: "c_str (to_string n) = to_string n"
  by (rule c_str_clean) (auto dest!: to_string_digits simp: isdigit_def char_code_def)

definition int_to_string :: "int \<Rightarrow> string" where
  "int_to_string i = (if i < 0 then CHR ''-'' # to_string (nat (- i)) else to_string (nat i))"

text \<open>\<open>std::string\<close> searches: prefix test (\<open>compare(0, n, s) == 0\<close>), occurrence of a character.\<close>

definition starts_with :: "string \<Rightarrow> string \<Rightarrow> bool" where
  "starts_with s p \<longleftrightarrow> take (length p) s = p"

lemma starts_with_append [simp]: "starts_with (p @ s) p"
  by (simp add: starts_with_def)

lemma starts_with_iff: "starts_with s p \<longleftrightarrow> (\<exists>t. s = p @ t)"
proof
  assume "starts_with s p"
  then show "\<exists>t. s = p @ t"
    unfolding starts_with_def by (metis append_take_drop_id)
qed auto

fun join_with :: "string \<Rightarrow> string list \<Rightarrow> string" where
  "join_with sep [] = []"
| "join_with sep [x] = x"
| "join_with sep (x # y # xs) = x @ sep @ join_with sep (y # xs)"

subsection \<open>Ordered containers\<close>

text \<open>
  \<open>std::set<T>\<close>: \<open>emplace\<close>/\<open>insert\<close>, \<open>count\<close>, \<open>erase\<close>. The list is strictly increasing
  (\<open>sset\<close>), an invariant every operation keeps.
\<close>

definition sset :: "'a::linorder list \<Rightarrow> bool" where
  "sset xs \<longleftrightarrow> sorted xs \<and> distinct xs"

definition set_insert :: "'a::linorder \<Rightarrow> 'a list \<Rightarrow> 'a list" where
  "set_insert x xs = (if x \<in> set xs then xs else insort x xs)"

definition set_erase :: "'a \<Rightarrow> 'a list \<Rightarrow> 'a list" where
  "set_erase x xs = removeAll x xs"

definition set_of_list :: "'a::linorder list \<Rightarrow> 'a list" where
  "set_of_list xs = fold set_insert xs []"

lemma sset_Nil [simp]: "sset []"
  by (simp add: sset_def)

lemma sset_insert [simp]: "sset xs \<Longrightarrow> sset (set_insert x xs)"
  by (auto simp: sset_def set_insert_def distinct_insort sorted_insort)

lemma sset_erase [simp]: "sset xs \<Longrightarrow> sset (set_erase x xs)"
  by (auto simp: sset_def set_erase_def removeAll_filter_not_eq sorted_filter [where f = id, simplified])

lemma set_set_insert [simp]: "set (set_insert x xs) = insert x (set xs)"
  by (auto simp: set_insert_def set_insort_key)

lemma set_set_erase [simp]: "set (set_erase x xs) = set xs - {x}"
  by (simp add: set_erase_def)

lemma fold_set_insert: "sset acc \<Longrightarrow> sset (fold set_insert xs acc)"
  by (induction xs arbitrary: acc) simp_all

lemma set_fold_set_insert: "set (fold set_insert xs acc) = set xs \<union> set acc"
  by (induction xs arbitrary: acc) auto

lemma sset_set_of_list [simp]: "sset (set_of_list xs)"
  by (simp add: set_of_list_def fold_set_insert)

lemma set_set_of_list [simp]: "set (set_of_list xs) = set xs"
  by (simp add: set_of_list_def set_fold_set_insert)

lemma sset_unique: "sset xs \<Longrightarrow> sset ys \<Longrightarrow> set xs = set ys \<Longrightarrow> xs = ys"
  by (auto simp: sset_def intro: sorted_distinct_set_unique)

text \<open>\<open>std::map<K, V>\<close>: \<open>m[k] = v\<close>, \<open>emplace\<close>, \<open>find\<close>, \<open>erase\<close>.\<close>

fun map_put :: "'k::linorder \<Rightarrow> 'v \<Rightarrow> ('k \<times> 'v) list \<Rightarrow> ('k \<times> 'v) list" where
  "map_put k v [] = [(k, v)]"
| "map_put k v ((k', v') # m) =
     (if k < k' then (k, v) # (k', v') # m
      else if k = k' then (k, v) # m
      else (k', v') # map_put k v m)"

definition map_emplace :: "'k::linorder \<Rightarrow> 'v \<Rightarrow> ('k \<times> 'v) list \<Rightarrow> ('k \<times> 'v) list" where
  "map_emplace k v m = (case map_of m k of None \<Rightarrow> map_put k v m | Some _ \<Rightarrow> m)"

definition map_erase :: "'k \<Rightarrow> ('k \<times> 'v) list \<Rightarrow> ('k \<times> 'v) list" where
  "map_erase k m = filter (\<lambda>p. fst p \<noteq> k) m"

definition smap :: "('k::linorder \<times> 'v) list \<Rightarrow> bool" where
  "smap m \<longleftrightarrow> sset (map fst m)"

lemma smap_Nil [simp]: "smap []"
  by (simp add: smap_def)

lemma set_fst_map_put [simp]: "set (map fst (map_put k v m)) = insert k (set (map fst m))"
  by (induction m rule: map_put.induct) auto

lemma smap_Cons: "smap ((k, v) # m) \<longleftrightarrow> smap m \<and> (\<forall>k' \<in> set (map fst m). k < k')"
  by (auto simp: smap_def sset_def less_le)

lemma smap_put [simp]: "smap m \<Longrightarrow> smap (map_put k v m)"
proof (induction m rule: map_put.induct)
  case (2 k v k' v' m)
  then show ?case
    by (auto simp: smap_Cons not_less_iff_gr_or_eq simp del: set_map simp flip: set_map)
qed (simp add: smap_Cons)

lemma map_of_map_put [simp]: "smap m \<Longrightarrow> map_of (map_put k v m) = (map_of m)(k \<mapsto> v)"
proof (induction m)
  case (Cons p m)
  obtain k' v' where p: "p = (k', v')" by (cases p)
  from Cons.prems p have sm: "smap m" by (simp add: smap_Cons)
  with Cons.IH p show ?case by (auto simp: fun_eq_iff)
qed simp

lemma smap_emplace [simp]: "smap m \<Longrightarrow> smap (map_emplace k v m)"
  by (simp add: map_emplace_def split: option.splits)

lemma map_of_map_emplace [simp]:
  "smap m \<Longrightarrow>
   map_of (map_emplace k v m) = (case map_of m k of None \<Rightarrow> (map_of m)(k \<mapsto> v) | Some _ \<Rightarrow> map_of m)"
  by (simp add: map_emplace_def split: option.splits)

lemma map_of_map_erase [simp]: "map_of (map_erase k m) = (map_of m)(k := None)"
  by (induction m) (auto simp: map_erase_def)

lemma smap_erase [simp]: "smap m \<Longrightarrow> smap (map_erase k m)"
  by (induction m) (auto simp: map_erase_def smap_Cons)

end
