(* ===== verification/Utils.thy ===== *)
theory Utils
  imports Rest_Prelude
begin

text \<open>
  \<open>src/shared/utils.cc\<close> and \<open>src/shared/utilspp.cc\<close>: conversions of strings to integers of a
  given width, decimal fixed-point values (value times ten to the scale), joining and escaping
  of strings, average steps.

  Values of a signed type are \<open>int\<close>; a narrowing conversion is \<open>signed_take_bit\<close> or
  \<open>take_bit\<close>, and a signed overflow or a read past an array, which C++ leaves undefined, is
  \<open>Undefined\<close> of \<open>'a outcome\<close> or \<open>None\<close>. \<open>strtoll\<close>, \<open>strtoull\<close> and \<open>atoi\<close> are those of
  the C library with a 64-bit \<open>long\<close>: leading white space, an optional sign, decimal digits,
  saturation with \<open>ERANGE\<close>.
\<close>

subsection \<open>Integers of a given width\<close>

definition INT8_MAX :: int where "INT8_MAX = 2 ^ 7 - 1"
definition INT8_MIN :: int where "INT8_MIN = - (2 ^ 7)"
definition INT16_MAX :: int where "INT16_MAX = 2 ^ 15 - 1"
definition INT16_MIN :: int where "INT16_MIN = - (2 ^ 15)"
definition INT32_MAX :: int where "INT32_MAX = 2 ^ 31 - 1"
definition INT32_MIN :: int where "INT32_MIN = - (2 ^ 31)"
definition INT64_MAX :: int where "INT64_MAX = 2 ^ 63 - 1"
definition INT64_MIN :: int where "INT64_MIN = - (2 ^ 63)"
definition UINT8_MAX :: int where "UINT8_MAX = 2 ^ 8 - 1"
definition UINT16_MAX :: int where "UINT16_MAX = 2 ^ 16 - 1"
definition UINT32_MAX :: int where "UINT32_MAX = 2 ^ 32 - 1"
definition UINT64_MAX :: int where "UINT64_MAX = 2 ^ 64 - 1"

lemmas int_limits =
  INT8_MAX_def INT8_MIN_def INT16_MAX_def INT16_MIN_def INT32_MAX_def INT32_MIN_def
  INT64_MAX_def INT64_MIN_def UINT8_MAX_def UINT16_MAX_def UINT32_MAX_def UINT64_MAX_def

definition is_int32 :: "int \<Rightarrow> bool" where
  "is_int32 v \<longleftrightarrow> INT32_MIN \<le> v \<and> v \<le> INT32_MAX"

definition to_int32 :: "int \<Rightarrow> int" where
  "to_int32 v = signed_take_bit 31 v"

definition to_uint32 :: "int \<Rightarrow> int" where
  "to_uint32 v = take_bit 32 v"

lemma to_int32_id: "is_int32 v \<Longrightarrow> to_int32 v = v"
  by (simp add: to_int32_def is_int32_def int_limits signed_take_bit_int_eq_self)

lemma to_int32_range: "is_int32 (to_int32 v)"
  using signed_take_bit_int_greater_eq_minus_exp [of 31 v] signed_take_bit_int_less_exp [of 31 v]
  by (simp add: to_int32_def is_int32_def int_limits)

subsection \<open>The C library's integer scanners\<close>

datatype errno = NoError | EINVAL | ERANGE

definition scan_sign :: "string \<Rightarrow> bool \<times> string" where
  "scan_sign t = (case t of
       [] \<Rightarrow> (False, [])
     | c # u \<Rightarrow> if c = CHR ''-'' then (True, u) else if c = CHR ''+'' then (False, u) else (False, t))"

definition scan_int :: "string \<Rightarrow> bool \<times> string \<times> string" where
  "scan_int s =
     (let (neg, u) = scan_sign (dropWhile isspace s)
      in (neg, takeWhile isdigit u, dropWhile isdigit u))"

definition strtoll :: "string \<Rightarrow> int \<times> string \<times> bool" where
  "strtoll s =
     (case scan_int s of (neg, ds, rest) \<Rightarrow>
        if ds = [] then (0, s, False)
        else (let v = (if neg then - int (digits_val ds) else int (digits_val ds))
              in if INT64_MAX < v then (INT64_MAX, rest, True)
                 else if v < INT64_MIN then (INT64_MIN, rest, True)
                 else (v, rest, False)))"

definition strtoull :: "string \<Rightarrow> int \<times> string \<times> bool" where
  "strtoull s =
     (case scan_int s of (neg, ds, rest) \<Rightarrow>
        if ds = [] then (0, s, False)
        else (let m = int (digits_val ds)
              in if UINT64_MAX < m then (UINT64_MAX, rest, True)
                 else ((if neg then take_bit 64 (- m) else m), rest, False)))"

definition atoi :: "string \<Rightarrow> int" where
  "atoi s = to_int32 (fst (strtoll s))"

lemma scan_int_digits:
  assumes "\<forall>c \<in> set ds. isdigit c" and "ds \<noteq> []"
  shows "scan_int ds = (False, ds, [])" and "scan_int (CHR ''-'' # ds) = (True, ds, [])"
proof -
  obtain d ds' where ds: "ds = d # ds'" using assms(2) by (cases ds) auto
  have d: "isdigit d" using assms(1) ds by simp
  then have ns: "\<not> isspace d" and nm: "d \<noteq> CHR ''-''" and np: "d \<noteq> CHR ''+''"
    by (auto simp: isdigit_not_isspace) (auto simp: isdigit_def char_code_def)
  have m: "\<not> isspace (CHR ''-'')" by (simp add: isspace_def char_code_def)
  show "scan_int ds = (False, ds, [])"
    using ds ns nm np assms(1)
    by (simp add: scan_int_def scan_sign_def)
  show "scan_int (CHR ''-'' # ds) = (True, ds, [])"
    using m assms(1)
    by (simp add: scan_int_def scan_sign_def)
qed

lemma strtoll_int_to_string:
  assumes "INT64_MIN \<le> n" and "n \<le> INT64_MAX"
  shows "strtoll (int_to_string n) = (n, [], False)"
proof (cases "n < 0")
  case True
  have "scan_int (int_to_string n) = (True, to_string (nat (- n)), [])"
    using True to_string_digits by (simp add: int_to_string_def scan_int_digits)
  then show ?thesis using assms True by (simp add: strtoll_def)
next
  case False
  have "scan_int (int_to_string n) = (False, to_string (nat n), [])"
    using False to_string_digits by (simp add: int_to_string_def scan_int_digits)
  then show ?thesis using assms False by (simp add: strtoll_def int_limits)
qed

lemma strtoull_to_string:
  assumes "int n \<le> UINT64_MAX"
  shows "strtoull (to_string n) = (int n, [], False)"
proof -
  have "scan_int (to_string n) = (False, to_string n, [])"
    using to_string_digits by (simp add: scan_int_digits)
  then show ?thesis using assms by (simp add: strtoull_def)
qed

lemma atoi_int_to_string: "is_int32 n \<Longrightarrow> atoi (int_to_string n) = n"
  by (simp add: atoi_def strtoll_int_to_string to_int32_id is_int32_def int_limits
      to_int32_def signed_take_bit_int_eq_self)

subsection \<open>string\_to\_int64 and its siblings\<close>

text \<open>The result and the value of \<open>errno\<close> after the call.\<close>

definition finish_scan :: "int \<Rightarrow> int \<times> string \<times> bool \<Rightarrow> (int \<Rightarrow> int) \<Rightarrow> int \<times> errno" where
  "finish_scan bad r conv =
     (case r of (v, end_, erange) \<Rightarrow>
        let e = (if end_ \<noteq> [] then EINVAL else if erange then ERANGE else NoError)
        in if e \<noteq> NoError then (bad, e) else (conv v, NoError))"

definition string_to_int64 :: "string option \<Rightarrow> int \<times> errno" where
  "string_to_int64 value = (case value of
       None \<Rightarrow> (INT64_MAX, EINVAL)
     | Some s \<Rightarrow> finish_scan INT64_MAX (strtoll s) (\<lambda>v. v))"

definition string_to_int32 :: "string option \<Rightarrow> int \<times> errno" where
  "string_to_int32 value = (case value of
       None \<Rightarrow> (INT32_MAX, EINVAL)
     | Some s \<Rightarrow> finish_scan INT32_MAX (strtoll s) to_int32)"

definition string_to_uint64 :: "string option \<Rightarrow> int \<times> errno" where
  "string_to_uint64 value = (case value of
       None \<Rightarrow> (UINT64_MAX, EINVAL)
     | Some s \<Rightarrow> finish_scan UINT64_MAX (strtoull s) (\<lambda>v. v))"

definition string_to_uint32 :: "string option \<Rightarrow> int \<times> errno" where
  "string_to_uint32 value = (case value of
       None \<Rightarrow> (UINT32_MAX, EINVAL)
     | Some s \<Rightarrow> finish_scan UINT32_MAX (strtoull s) to_uint32)"

definition string_to_int16 :: "string option \<Rightarrow> int \<times> errno" where
  "string_to_int16 value =
     (case string_to_int32 value of (result, e) \<Rightarrow>
        if result > INT16_MAX \<or> result < INT16_MIN then (INT16_MAX, EINVAL)
        else (signed_take_bit 15 result, e))"

definition string_to_uint16 :: "string option \<Rightarrow> int \<times> errno" where
  "string_to_uint16 value =
     (case string_to_uint32 value of (result, e) \<Rightarrow>
        if result > UINT16_MAX then (UINT16_MAX, EINVAL) else (take_bit 16 result, e))"

definition string_to_int8 :: "string option \<Rightarrow> int \<times> errno" where
  "string_to_int8 value =
     (case string_to_int32 value of (result, e) \<Rightarrow>
        if result > INT8_MAX \<or> result < INT8_MIN then (INT8_MAX, EINVAL)
        else (signed_take_bit 7 result, e))"

definition string_to_uint8 :: "string option \<Rightarrow> int \<times> errno" where
  "string_to_uint8 value =
     (case string_to_uint32 value of (result, e) \<Rightarrow>
        if result > UINT8_MAX then (UINT8_MAX, EINVAL) else (take_bit 8 result, e))"

lemmas string_to_defs =
  string_to_int64_def string_to_int32_def string_to_uint64_def string_to_uint32_def
  string_to_int16_def string_to_uint16_def string_to_int8_def string_to_uint8_def finish_scan_def

lemma string_to_int64_decimal:
  "INT64_MIN \<le> n \<Longrightarrow> n \<le> INT64_MAX \<Longrightarrow> string_to_int64 (Some (int_to_string n)) = (n, NoError)"
  by (simp add: string_to_defs strtoll_int_to_string)

lemma string_to_int32_decimal:
  "INT64_MIN \<le> n \<Longrightarrow> n \<le> INT64_MAX \<Longrightarrow>
     string_to_int32 (Some (int_to_string n)) = (to_int32 n, NoError)"
  by (simp add: string_to_defs strtoll_int_to_string)

lemma string_to_uint32_decimal:
  "int n \<le> UINT64_MAX \<Longrightarrow> string_to_uint32 (Some (to_string n)) = (to_uint32 (int n), NoError)"
  by (simp add: string_to_defs strtoull_to_string)


subsection \<open>Decimal fixed-point values\<close>

text \<open>
  \<open>Undefined\<close>: the C++ expression overflows a signed type. \<open>Fails\<close>: the function returns
  \<open>false\<close>. \<open>Value v\<close>: it returns \<open>true\<close> and stores \<open>v\<close>.
\<close>

datatype 'a outcome = Undefined | Fails | Value 'a

definition c_div :: "int \<Rightarrow> int \<Rightarrow> int" where
  \<comment> \<open>division of C++, towards zero, for a positive divisor\<close>
  "c_div a b = (if a < 0 then - ((- a) div b) else a div b)"

definition addi32_overflow :: "int \<Rightarrow> int \<Rightarrow> int outcome" where
  "addi32_overflow a b =
     (if \<not> is_int32 (a + b) then Undefined \<comment> \<open>a + b is evaluated in 32 bits\<close>
      else (let l_res = a + b
            in if l_res > INT32_MAX \<or> l_res < INT32_MIN then Fails else Value (to_int32 l_res)))"

fun rescale_up :: "nat \<Rightarrow> int \<Rightarrow> int option" where
  "rescale_up 0 l_value = Some l_value"
| "rescale_up (Suc n) l_value =
     (if l_value \<ge> c_div INT32_MAX 10 \<or> l_value \<le> c_div INT32_MIN 10 then None
      else rescale_up n (l_value * 10))"

fun rescale_down :: "nat \<Rightarrow> int \<Rightarrow> int" where
  "rescale_down 0 l_value = l_value"
| "rescale_down (Suc n) l_value = rescale_down n (c_div l_value 10)"

definition bsi32_rescale :: "int \<Rightarrow> int \<Rightarrow> int \<Rightarrow> int option" where
  "bsi32_rescale in_value in_scale new_scale =
     (if in_scale = new_scale then Some in_value
      else if in_scale > new_scale then rescale_up (nat \<bar>in_scale - new_scale\<bar>) in_value
      else Some (rescale_down (nat \<bar>in_scale - new_scale\<bar>) in_value))"

definition bsi32_add :: "int \<Rightarrow> int \<Rightarrow> int \<Rightarrow> int \<Rightarrow> (int \<times> int) outcome" where
  "bsi32_add value1 scale1 value2 scale2 =
     (let l_scale = (if scale1 < scale2 then scale1 else scale2) in
      case bsi32_rescale value1 scale1 l_scale of
        None \<Rightarrow> Fails
      | Some l_value1 \<Rightarrow>
         (case bsi32_rescale value2 scale2 l_scale of
            None \<Rightarrow> Fails
          | Some l_value2 \<Rightarrow>
             (case addi32_overflow l_value1 l_value2 of
                Undefined \<Rightarrow> Undefined
              | Fails \<Rightarrow> Fails
              | Value l_value \<Rightarrow> Value (l_value, l_scale))))"

lemma c_div_limits: "c_div INT32_MAX 10 = 214748364" "c_div INT32_MIN 10 = - 214748364"
  by (simp_all add: c_div_def int_limits)

lemma rescale_up_Some: "rescale_up n v = Some w \<Longrightarrow> w = v * 10 ^ n"
proof (induction n arbitrary: v)
  case (Suc n)
  then have "rescale_up n (v * 10) = Some w" by (simp split: if_splits)
  then show ?case using Suc.IH by fastforce
qed simp

lemma rescale_up_int32: "rescale_up n v = Some w \<Longrightarrow> is_int32 v \<Longrightarrow> is_int32 w"
proof (induction n arbitrary: v)
  case (Suc n)
  then have "rescale_up n (v * 10) = Some w" and "v < 214748364" and "- 214748364 < v"
    by (auto simp: c_div_limits split: if_splits)
  moreover from this have "is_int32 (v * 10)" by (simp add: is_int32_def int_limits)
  ultimately show ?case using Suc.IH by blast
qed simp

lemma rescale_up_defined:
  "rescale_up n v \<noteq> None \<longleftrightarrow> n = 0 \<or> \<bar>v * 10 ^ (n - 1)\<bar> < 214748364"
proof (induction n arbitrary: v)
  case (Suc n)
  show ?case
  proof (cases n)
    case (Suc m)
    have "\<bar>v\<bar> \<le> \<bar>v * 10 * 10 ^ m\<bar>"
    proof -
      have "(1::int) \<le> 10 * 10 ^ m" using one_le_power [of "10::int" "Suc m"] by simp
      then have "\<bar>v\<bar> * 1 \<le> \<bar>v\<bar> * (10 * 10 ^ m)" by (rule mult_left_mono) simp
      then show ?thesis by (simp add: abs_mult mult.assoc)
    qed
    with Suc.IH [of "v * 10"] \<open>n = Suc m\<close> show ?thesis
      by (auto simp: c_div_limits algebra_simps)
  qed (auto simp: c_div_limits)
qed simp

lemma c_div_c_div: "0 < b \<Longrightarrow> 0 < c \<Longrightarrow> c_div (c_div a b) c = c_div a (b * c)"
proof -
  assume b: "0 < b" and c: "0 < c"
  have pos: "0 \<le> x div b" if "0 \<le> x" for x :: int
    using that b by (simp add: pos_imp_zdiv_nonneg_iff)
  show ?thesis
  proof (cases "a < 0")
    case True
    with pos [of "- a"] show ?thesis using b c
      by (cases "- a div b = 0") (simp_all add: c_div_def zdiv_zmult2_eq)
  next
    case False
    with pos [of a] show ?thesis using b c
      by (simp add: c_div_def zdiv_zmult2_eq not_less)
  qed
qed

lemma rescale_down_eq: "rescale_down n v = c_div v (10 ^ n)"
proof (induction n arbitrary: v)
  case 0
  show ?case by (simp add: c_div_def)
next
  case (Suc n)
  then show ?case by (simp add: c_div_c_div)
qed

text \<open>\<open>bsi32_rescale\<close> to a finer or equal scale is exact multiplication by a power of ten,
  stays a 32-bit value, and is refused exactly when a value before the last multiplication reaches
  a tenth of the 32-bit range.\<close>

theorem bsi32_rescale_finer:
  assumes "is_int32 v" and "new_scale \<le> in_scale"
  shows "(bsi32_rescale v in_scale new_scale = Some w \<longrightarrow>
            w = v * 10 ^ nat (in_scale - new_scale) \<and> is_int32 w) \<and>
         (bsi32_rescale v in_scale new_scale = None \<longleftrightarrow>
            new_scale < in_scale \<and> 214748364 \<le> \<bar>v * 10 ^ (nat (in_scale - new_scale) - 1)\<bar>)"
proof -
  let ?n = "nat (in_scale - new_scale)"
  have "bsi32_rescale v in_scale new_scale = rescale_up ?n v"
    using assms(2) by (auto simp: bsi32_rescale_def)
  then show ?thesis
    using assms rescale_up_Some [of ?n v w] rescale_up_int32 [of ?n v w] rescale_up_defined [of ?n v]
    by (auto simp: not_less)
qed

theorem bsi32_rescale_finer_witness:
  "is_int32 2147 \<and> bsi32_rescale 2147 0 (-3) = Some 2147000"
  using bsi32_rescale_finer [of 2147 "-3" 0 2147000]
  by (auto simp: bsi32_rescale_def is_int32_def int_limits c_div_def numeral_eq_Suc)

text \<open>\<open>bsi32_add\<close> never reports an overflow of its own: it fails only when a rescaling
  fails; otherwise it stores the exact sum at the finer scale, or, when that sum leaves the 32-bit
  range, its behaviour is undefined, because \<open>addi32_overflow\<close> tests the sum only after adding in
  32 bits.\<close>

theorem bsi32_add_spec:
  assumes "is_int32 v1" and "is_int32 v2"
  shows "bsi32_add v1 s1 v2 s2 =
     (let s = min s1 s2;
          t = v1 * 10 ^ nat (s1 - s) + v2 * 10 ^ nat (s2 - s)
      in if bsi32_rescale v1 s1 s = None \<or> bsi32_rescale v2 s2 s = None then Fails
         else if is_int32 t then Value (t, s) else Undefined)"
proof -
  define s where "s = min s1 s2"
  have le: "s \<le> s1" "s \<le> s2" by (simp_all add: s_def)
  have s: "(if s1 < s2 then s1 else s2) = s" by (simp add: s_def)
  have v: "w = v1 * 10 ^ nat (s1 - s)" if "bsi32_rescale v1 s1 s = Some w" for w
    using that le by (auto simp: bsi32_rescale_def dest: rescale_up_Some split: if_splits)
  have u: "w = v2 * 10 ^ nat (s2 - s)" if "bsi32_rescale v2 s2 s = Some w" for w
    using that le by (auto simp: bsi32_rescale_def dest: rescale_up_Some split: if_splits)
  show ?thesis
    by (auto simp: bsi32_add_def s Let_def addi32_overflow_def to_int32_id is_int32_def
        s_def [symmetric] dest: v u split: option.split)
qed

theorem bsi32_add_spec_witness:
  "is_int32 2147483647 \<and> is_int32 1 \<and> bsi32_add 2147483647 0 1 0 = Undefined"
  using bsi32_add_spec [of 2147483647 1 0 0]
  by (simp add: is_int32_def int_limits bsi32_rescale_def)


subsection \<open>Averages\<close>

text \<open>
  \<open>AVG_STEPS\<close> and \<open>AVG_TYPES\<close> come from the fty-common library: they are the parameter
  \<open>supported\<close>. A null pointer is \<open>None\<close>.
\<close>

fun strcmp_search :: "string list \<Rightarrow> string \<Rightarrow> bool" where
  "strcmp_search [] s = False"
| "strcmp_search (a # as) s = (if s = a then True else strcmp_search as s)"

definition is_average_step_supported :: "string list \<Rightarrow> string option \<Rightarrow> bool" where
  "is_average_step_supported supported step =
     (case step of None \<Rightarrow> False | Some s \<Rightarrow> strcmp_search supported s)"

definition is_average_type_supported :: "string list \<Rightarrow> string option \<Rightarrow> bool" where
  "is_average_type_supported supported type =
     (case type of None \<Rightarrow> False | Some s \<Rightarrow> strcmp_search supported s)"

definition average_step_seconds :: "string list \<Rightarrow> string option \<Rightarrow> int outcome" where
  "average_step_seconds supported step =
     (case step of
        None \<Rightarrow> Value (- 1)
      | Some s \<Rightarrow>
          if \<not> is_average_step_supported supported step then Value (- 1)
          else if s = [] then Undefined \<comment> \<open>reads before the string\<close>
          else
            (let c = last s;
                 multiplier = (if char_code c = 109 then Some 60
                               else if char_code c = 104 then Some 3600
                               else if char_code c = 100 then Some 86400
                               else None)
             in case multiplier of
                  None \<Rightarrow> Value (- 1)
                | Some m \<Rightarrow>
                    (let number = atoi (butlast s)
                     in if is_int32 (number * m) then Value (number * m) else Undefined)))"

lemma strcmp_search_iff [simp]: "strcmp_search xs s \<longleftrightarrow> s \<in> set xs"
  by (induction xs) auto

text \<open>A supported step written as a decimal number followed by \<open>m\<close>, \<open>h\<close> or \<open>d\<close> is
  that many minutes, hours or days in seconds, as long as the product fits in 32 bits.\<close>

theorem average_step_seconds_spec:
  assumes "to_string n @ [u] \<in> set supported"
    and "(u, k) \<in> {(CHR ''m'', 60), (CHR ''h'', 3600), (CHR ''d'', 86400)}"
    and "is_int32 (int n * k)"
  shows "average_step_seconds supported (Some (to_string n @ [u])) = Value (int n * k)"
proof -
  have "int n \<le> int n * k"
    using assms(2) mult_left_mono [of 1 k "int n"] by auto
  then have "is_int32 (int n)" using assms(3) by (auto simp: is_int32_def int_limits)
  then have "atoi (to_string n) = int n"
    using atoi_int_to_string [of "int n"] by (simp add: int_to_string_def)
  then show ?thesis
    using assms by (auto simp: average_step_seconds_def is_average_step_supported_def char_code_def)
qed

theorem average_step_seconds_spec_witness:
  "average_step_seconds [''15m'', ''24h''] (Some ''15m'') = Value 900"
proof -
  have n: "to_string 15 @ ''m'' = ''15m''" by code_simp
  show ?thesis
    using average_step_seconds_spec [of 15 "CHR ''m''" "[''15m'', ''24h'']" 60] n
    by (simp add: is_int32_def int_limits)
qed

subsection \<open>strip, escape, join\<close>

definition strip :: "string \<Rightarrow> string" where
  "strip str = filter (\<lambda>c. \<not> isspace c) str"

definition find_first_of :: "string \<Rightarrow> string \<Rightarrow> bool" where
  \<comment> \<open>\<open>s.find_first_of(chars) != npos\<close>\<close>
  "find_first_of s chars = list_ex (\<lambda>c. c \<in> set chars) s"

fun escape_loop :: "string \<Rightarrow> string \<Rightarrow> string" where
  "escape_loop chars [] = []"
| "escape_loop chars (c # cs) =
     (if c = CHR 0x5C
      then (case cs of
              [] \<Rightarrow> [c, CHR 0x00] \<comment> \<open>\<open>in[in.size()]\<close> is the terminating null\<close>
            | d # ds \<Rightarrow> c # d # escape_loop chars ds)
      else if c \<in> set chars then CHR 0x5C # c # escape_loop chars cs
      else c # escape_loop chars cs)"

definition escape :: "string \<Rightarrow> string \<Rightarrow> string" where
  "escape inp escape_chars =
     (if inp = [] \<or> escape_chars = [] then inp
      else if length inp = 1 \<and> find_first_of inp escape_chars then CHR 0x5C # inp
      else if CHR 0x5C \<in> set escape_chars then inp
      else if \<not> find_first_of inp escape_chars then inp
      else escape_loop escape_chars inp)"

definition sql_escape :: "string \<Rightarrow> string" where
  "sql_escape inp = escape inp ''_%''"

text \<open>Whether some character of \<open>chars\<close> stands in the string with no backslash before it that
  escapes it.\<close>

fun raw_occurrence :: "string \<Rightarrow> string \<Rightarrow> bool" where
  "raw_occurrence chars [] = False"
| "raw_occurrence chars (c # cs) =
     (if c = CHR 0x5C then (case cs of [] \<Rightarrow> False | d # ds \<Rightarrow> raw_occurrence chars ds)
      else c \<in> set chars \<or> raw_occurrence chars cs)"

lemma raw_occurrence_escape_loop: "\<not> raw_occurrence chars (escape_loop chars s)"
  by (induction chars s rule: escape_loop.induct) (auto split: list.splits)

lemma raw_occurrence_in: "raw_occurrence chars s \<Longrightarrow> find_first_of s chars"
proof (induction chars s rule: raw_occurrence.induct)
  case (2 chars c cs)
  then show ?case by (auto simp: find_first_of_def list_ex_iff split: if_splits list.splits)
qed simp

lemma escape_loop_idem: "escape_loop chars (escape_loop chars s) = escape_loop chars s"
  by (induction chars s rule: escape_loop.induct) (auto split: list.splits)

text \<open>After \<open>sql_escape\<close> no wildcard of SQL's \<open>LIKE\<close> is left unescaped.\<close>

theorem sql_escape_no_raw_wildcard: "\<not> raw_occurrence ''_%'' (sql_escape s)"
proof -
  have "\<not> raw_occurrence ''_%'' s" if "\<not> find_first_of s ''_%''"
    using that raw_occurrence_in by blast
  moreover have "\<not> raw_occurrence ''_%'' (CHR 0x5C # s)" if "length s = 1"
    using that by (cases s) auto
  ultimately show ?thesis
    by (auto simp: sql_escape_def escape_def raw_occurrence_escape_loop)
qed

text \<open>Escaping is idempotent: text that is already escaped is not escaped again.\<close>

theorem escape_idempotent: "escape (escape s chars) chars = escape s chars"
proof (cases "s = [] \<or> chars = [] \<or> CHR 0x5C \<in> set chars \<or> \<not> find_first_of s chars")
  case True
  then show ?thesis by (cases s) (auto simp: escape_def)
next
  case False
  then have e: "escape s chars = escape_loop chars s"
    by (cases s) (auto simp: escape_def find_first_of_def)
  have l: "length (escape_loop chars s) \<noteq> 1"
    using False by (cases s) (auto simp: find_first_of_def split: list.splits)
  have n: "escape_loop chars s \<noteq> []" using False by (cases s) (auto split: list.splits)
  show ?thesis
    using False l n by (simp add: e) (simp add: escape_def escape_loop_idem)
qed

text \<open>A string that ends in a backslash gains a null character when anything else in it is
  escaped: the loop reads \<open>in[i+1]\<close> one past the last character.\<close>

theorem sql_escape_trailing_backslash:
  "sql_escape (CHR ''%'' # [CHR 0x5C]) = [CHR 0x5C, CHR ''%'', CHR 0x5C, CHR 0x00]"
  by (simp add: sql_escape_def escape_def find_first_of_def)

text \<open>
  \<open>utils::math::dtos\<close> prints with a string stream set to fixed notation and the given precision;
  what the stream writes for a number is a parameter.
\<close>

definition dtos :: "(int \<Rightarrow> 'n \<Rightarrow> string) \<Rightarrow> 'n \<Rightarrow> int \<Rightarrow> string" where
  "dtos print_fixed number precision = print_fixed precision number"

text \<open>
  An array of C strings is a list of \<open>string option\<close>, a null pointer is \<open>None\<close>; an index past
  the array is undefined, which is the result \<open>None\<close>.
\<close>

fun join_n_loop :: "string option list \<Rightarrow> nat \<Rightarrow> string \<Rightarrow> string \<Rightarrow> string option" where
  "join_n_loop rest 0 separator result = Some result"
| "join_n_loop [] (Suc n) separator result = None"
| "join_n_loop (None # rest) (Suc n) separator result = Some result"
| "join_n_loop (Some x # rest) (Suc n) separator result =
     join_n_loop rest n separator (result @ separator @ x)"

definition join_n :: "string option list option \<Rightarrow> nat \<Rightarrow> string option \<Rightarrow> string option" where
  "join_n str_arr len separator =
     (case (str_arr, separator) of
        (Some (Some x # rest), Some sep) \<Rightarrow> join_n_loop rest (len - 1) sep x
      | (Some [], _) \<Rightarrow> None
      | _ \<Rightarrow> Some [])"

fun join_loop :: "string option list \<Rightarrow> string \<Rightarrow> string \<Rightarrow> string option" where
  "join_loop [] separator result = None"
| "join_loop (None # rest) separator result = Some result"
| "join_loop (Some x # rest) separator result = join_loop rest separator (result @ separator @ x)"

definition join_null :: "string option list option \<Rightarrow> string option \<Rightarrow> string option" where
  "join_null str_arr separator =
     (case (str_arr, separator) of
        (Some (Some x # rest), Some sep) \<Rightarrow> join_loop rest sep x
      | (Some [], _) \<Rightarrow> None
      | _ \<Rightarrow> Some [])"

lemma join_with_fold: "join_with sep ((r @ sep @ x) # xs) = join_with sep (r # x # xs)"
  by (cases xs) simp_all

lemma join_n_loop_eq:
  "n \<le> length xs \<Longrightarrow>
   join_n_loop (map Some xs @ rest) n sep r = Some (join_with sep (r # take n xs))"
proof (induction n arbitrary: xs r)
  case (Suc n)
  then obtain y ys where xs: "xs = y # ys" by (cases xs) auto
  with Suc have "join_n_loop (map Some ys @ rest) n sep (r @ sep @ y) =
      Some (join_with sep ((r @ sep @ y) # take n ys))" by simp
  with xs show ?case by (simp only: join_with_fold) simp
qed (cases xs; simp)

lemma join_loop_eq:
  "join_loop (map Some xs @ None # rest) sep r = Some (join_with sep (r # xs))"
proof (induction xs arbitrary: r)
  case (Cons y ys)
  from Cons.IH [of "r @ sep @ y"] show ?case by (simp only: join_with_fold) simp
qed simp

text \<open>Both overloads of \<open>join\<close> put the separator between the strings: the counted one
  takes the first \<open>n\<close> strings of the array, the other all strings before the null pointer.\<close>

theorem join_spec:
  assumes "xs \<noteq> []" and "0 < n" and "n \<le> length xs"
  shows "join_n (Some (map Some xs @ rest)) n (Some sep) = Some (join_with sep (take n xs)) \<and>
         join_null (Some (map Some xs @ None # rest)) (Some sep) = Some (join_with sep xs)"
proof -
  obtain y ys where xs: "xs = y # ys" using assms(1) by (cases xs) auto
  obtain m where n: "n = Suc m" using assms(2) by (cases n) auto
  show ?thesis
    using assms(3) by (simp add: xs n join_n_def join_null_def join_n_loop_eq join_loop_eq)
qed

theorem join_spec_witness:
  "join_n (Some [Some ''15m'', Some ''8h'']) 2 (Some '', '') = Some ''15m, 8h'' \<and>
   join_null (Some [Some ''15m'', Some ''8h'', None]) (Some '', '') = Some ''15m, 8h''"
  using join_spec [of "[''15m'', ''8h'']" 2 "[]" "'', ''"] by simp

end
