(* ===== verification/UpsStatus.thy ===== *)
theory UpsStatus
  imports Utils
begin

unbundle bit_operations_syntax

text \<open>
  \<open>src/shared/upsstatus.cc\<close>: the state of a UPS as the text that Network UPS Tools prints
  (\<open>"OL CHRG"\<close>) and as a 16-bit map of flags. The main result is that printing and reading are
  inverse on the fourteen flags the table knows.
\<close>

subsection \<open>The table\<close>

record status_lkp_t =
  status_str :: string
  status_value :: "32 word"

definition status_info :: "status_lkp_t list" where
  "status_info =
     [\<lparr>status_str = ''CAL'', status_value = push_bit 0 1\<rparr>,
      \<lparr>status_str = ''TRIM'', status_value = push_bit 1 1\<rparr>,
      \<lparr>status_str = ''BOOST'', status_value = push_bit 2 1\<rparr>,
      \<lparr>status_str = ''OL'', status_value = push_bit 3 1\<rparr>,
      \<lparr>status_str = ''OB'', status_value = push_bit 4 1\<rparr>,
      \<lparr>status_str = ''OVER'', status_value = push_bit 5 1\<rparr>,
      \<lparr>status_str = ''LB'', status_value = push_bit 6 1\<rparr>,
      \<lparr>status_str = ''RB'', status_value = push_bit 7 1\<rparr>,
      \<lparr>status_str = ''BYPASS'', status_value = push_bit 8 1\<rparr>,
      \<lparr>status_str = ''OFF'', status_value = push_bit 9 1\<rparr>,
      \<lparr>status_str = ''CHRG'', status_value = push_bit 10 1\<rparr>,
      \<lparr>status_str = ''DISCHRG'', status_value = push_bit 11 1\<rparr>,
      \<lparr>status_str = ''HB'', status_value = push_bit 12 1\<rparr>,
      \<lparr>status_str = ''FSD'', status_value = push_bit 13 1\<rparr>,
      \<lparr>status_str = ''NULL'', status_value = 0\<rparr>]"

subsection \<open>From text to flags\<close>

definition strncasecmp_eq :: "string \<Rightarrow> string \<Rightarrow> nat \<Rightarrow> bool" where
  \<comment> \<open>\<open>strncasecmp(a, b, n) == 0\<close> for \<open>n \<le> strlen(a)\<close>\<close>
  "strncasecmp_eq a b n \<longleftrightarrow> n \<le> length b \<and> map tolower (take n b) = map tolower (take n a)"

fun single_status_loop :: "status_lkp_t list \<Rightarrow> string \<Rightarrow> 16 word" where
  "single_status_loop [] status = 0"
| "single_status_loop (e # es) status =
     (if status_value e = 0 then 0
      else if strncasecmp_eq (status_str e) status (length (status_str e))
      then ucast (status_value e)
      else single_status_loop es status)"

definition upsstatus_single_status_to_int :: "string option \<Rightarrow> 16 word" where
  "upsstatus_single_status_to_int status =
     (case status of None \<Rightarrow> 0 | Some s \<Rightarrow> single_status_loop status_info s)"

function (sequential) status_words_loop :: "string \<Rightarrow> 32 word \<Rightarrow> 32 word" where
  "status_words_loop b result =
     (case dropWhile (\<lambda>c. c \<noteq> CHR '' '') b of
        [] \<Rightarrow> result OR ucast (upsstatus_single_status_to_int (Some b))
      | _ # e \<Rightarrow>
          status_words_loop e
            (result OR ucast (upsstatus_single_status_to_int
                                (Some (takeWhile (\<lambda>c. c \<noteq> CHR '' '') b)))))"
  by pat_completeness auto
termination
proof (relation "measure (\<lambda>(b, _). length b)")
  fix b e :: string and x and r r' :: "32 word"
  assume "dropWhile (\<lambda>c. c \<noteq> CHR '' '') b = x # e"
  then have "length (x # e) \<le> length b" by (metis length_dropWhile_le)
  then show "((e, r'), (b, r)) \<in> measure (\<lambda>(b, _). length b)" by simp
qed simp

declare status_words_loop.simps [simp del]

definition upsstatus_to_int :: "string \<Rightarrow> 16 word" where
  "upsstatus_to_int status = ucast (status_words_loop (c_str status) 0)"

subsection \<open>From flags to text\<close>

fun status_string_loop :: "status_lkp_t list \<Rightarrow> 16 word \<Rightarrow> 32 word \<Rightarrow> string \<Rightarrow> string" where
  "status_string_loop [] status b result = result"
| "status_string_loop (e # es) status b result =
     status_string_loop es status (push_bit 1 b)
       (if ucast status AND b \<noteq> 0
        then (if result \<noteq> [] then result @ '' '' else result) @ status_str e
        else result)"

definition upsstatus_to_string :: "16 word \<Rightarrow> string" where
  "upsstatus_to_string status = status_string_loop (butlast status_info) status 1 []"

definition upsstatus_string_to_string :: "string \<Rightarrow> string" where
  "upsstatus_string_to_string status = upsstatus_to_string (word_of_int (atoi (c_str status)))"

subsection \<open>Reading back what was printed\<close>

text \<open>The entries of the table from flag \<open>k\<close> on: each name reads back as its own flag and can be
  put between blanks.\<close>

fun table_from :: "nat \<Rightarrow> status_lkp_t list \<Rightarrow> bool" where
  "table_from k [] \<longleftrightarrow> True"
| "table_from k (e # es) \<longleftrightarrow>
     upsstatus_single_status_to_int (Some (status_str e)) = push_bit k 1 \<and>
     status_str e \<noteq> [] \<and> CHR '' '' \<notin> set (status_str e) \<and> CHR 0x00 \<notin> set (status_str e) \<and>
     table_from (Suc k) es"

lemma table_from_status_info: "table_from 0 (butlast status_info)"
  by (simp add: status_info_def upsstatus_single_status_to_int_def strncasecmp_eq_def
      tolower_def isupper_def char_code_def)

fun selected :: "status_lkp_t list \<Rightarrow> nat \<Rightarrow> 16 word \<Rightarrow> string list" where
  "selected [] k st = []"
| "selected (e # es) k st =
     (if bit st k then status_str e # selected es (Suc k) st else selected es (Suc k) st)"

lemma selected_plain:
  "table_from k es \<Longrightarrow> w \<in> set (selected es k st) \<Longrightarrow>
     w \<noteq> [] \<and> CHR '' '' \<notin> set w \<and> CHR 0x00 \<notin> set w"
  by (induction es arbitrary: k) (auto split: if_splits)

lemma flag_test:
  "k < 16 \<Longrightarrow> b = push_bit k 1 \<Longrightarrow> ((ucast (st :: 16 word) :: 32 word) AND b \<noteq> 0) \<longleftrightarrow> bit st k"
  by (simp add: and_exp_eq_0_iff_not_bit bit_simps)

lemma status_string_loop_eq:
  assumes "table_from k es" and "k + length es \<le> 16" and "b = push_bit k 1"
  shows "status_string_loop es st b r =
     join_with '' '' ((if r = [] then [] else [r]) @ selected es k st)"
  using assms
proof (induction es arbitrary: k b r)
  case (Cons e es)
  have t: "table_from (Suc k) es" "Suc k + length es \<le> 16" and ne: "status_str e \<noteq> []"
    using Cons.prems by simp_all
  have b: "push_bit 1 b = push_bit (Suc k) 1"
    using Cons.prems(3) by (simp add: push_bit_push_bit)
  have flag: "((ucast st :: 32 word) AND b \<noteq> 0) \<longleftrightarrow> bit st k"
    using Cons.prems by (intro flag_test) simp_all
  note IH = Cons.IH [OF t b]
  show ?case
  proof (cases "bit st k")
    case True
    with flag show ?thesis
      using IH [of "(if r \<noteq> [] then r @ '' '' else r) @ status_str e"] ne
        join_with_fold [of "'' ''" r "status_str e"]
      by (cases "r = []") simp_all
  next
    case False
    with flag IH [of r] show ?thesis by simp
  qed
qed simp

lemma words_loop_last:
  assumes "CHR '' '' \<notin> set b"
  shows "status_words_loop b r = r OR ucast (upsstatus_single_status_to_int (Some b))"
proof -
  have "dropWhile (\<lambda>c. c \<noteq> CHR '' '') b = []" using assms by auto
  then show ?thesis by (subst status_words_loop.simps) (simp only: list.case)
qed

lemma words_loop_step:
  "CHR '' '' \<notin> set b \<Longrightarrow>
   status_words_loop (b @ CHR '' '' # e) r =
     status_words_loop e (r OR ucast (upsstatus_single_status_to_int (Some b)))"
  by (subst status_words_loop.simps) (auto simp: dropWhile_append takeWhile_append)

lemma words_loop_join:
  "ws \<noteq> [] \<Longrightarrow> \<forall>w \<in> set ws. CHR '' '' \<notin> set w \<Longrightarrow>
   status_words_loop (join_with '' '' ws) r =
     fold (\<lambda>w r. r OR ucast (upsstatus_single_status_to_int (Some w))) ws r"
proof (induction ws arbitrary: r)
  case (Cons w ws)
  then show ?case
    by (cases ws) (simp_all add: words_loop_last words_loop_step)
qed simp

lemma fold_selected_bit:
  assumes "table_from k es" and "k + length es \<le> 16"
  shows "bit (fold (\<lambda>w r. r OR ucast (upsstatus_single_status_to_int (Some w))) (selected es k st) r) n
     \<longleftrightarrow> bit (r :: 32 word) n \<or> k \<le> n \<and> n < k + length es \<and> bit st n"
  using assms
proof (induction es arbitrary: k r)
  case (Cons e es)
  let ?one = "ucast (upsstatus_single_status_to_int (Some (status_str e))) :: 32 word"
  have t: "table_from (Suc k) es" "Suc k + length es \<le> 16" using Cons.prems by simp_all
  have "bit ?one n \<longleftrightarrow> n = k"
    using Cons.prems by (auto simp: bit_simps)
  then have r: "bit (r OR ?one) n \<longleftrightarrow> bit r n \<or> n = k" by (simp add: bit_or_iff)
  show ?case
  proof (cases "bit st k")
    case True
    then show ?thesis using Cons.IH [OF t, of "r OR ?one"] r by (auto simp only: selected.simps fold_simps if_True list.size)
  next
    case False
    then show ?thesis using Cons.IH [OF t, of r] le_eq_less_or_eq [of k n] by auto
  qed
qed auto

lemma single_status_empty: "upsstatus_single_status_to_int (Some []) = 0"
  by (simp add: upsstatus_single_status_to_int_def status_info_def strncasecmp_eq_def)

lemma set_join_with: "set (join_with sep ws) \<subseteq> set sep \<union> (\<Union> (set ` set ws))"
  by (induction sep ws rule: join_with.induct) auto

text \<open>C40. Printing a flag map and reading the text back keeps exactly the fourteen flags of the
  table: \<open>upsstatus_to_int(upsstatus_to_string(s)) == (s & 0x3FFF)\<close>, whatever the other bits.\<close>

theorem upsstatus_roundtrip:
  "upsstatus_to_int (upsstatus_to_string st) = st AND 0x3FFF"
proof -
  let ?es = "butlast status_info" and ?ws = "selected (butlast status_info) 0 st"
  have len: "length ?es = 14" by (simp add: status_info_def)
  have str: "upsstatus_to_string st = join_with '' '' ?ws"
    using status_string_loop_eq [OF table_from_status_info, where st = st and r = "[]" and b = 1] len
    by (simp add: upsstatus_to_string_def)
  have plain: "\<forall>w \<in> set ?ws. CHR '' '' \<notin> set w" "\<forall>w \<in> set ?ws. CHR 0x00 \<notin> set w"
    using selected_plain [OF table_from_status_info] by blast+
  have "CHR 0x00 \<notin> set (join_with '' '' ?ws)"
    using set_join_with [of "'' ''" ?ws] plain(2) by auto
  then have c: "c_str (upsstatus_to_string st) = join_with '' '' ?ws"
    by (simp add: str c_str_clean)
  let ?f = "fold (\<lambda>w r. r OR ucast (upsstatus_single_status_to_int (Some w))) ?ws (0 :: 32 word)"
  have loop: "status_words_loop (join_with '' '' ?ws) 0 = ?f"
    using plain(1) words_loop_join [of ?ws 0]
    by (cases "?ws = []") (simp_all add: words_loop_last single_status_empty)
  have "bit (ucast ?f :: 16 word) n \<longleftrightarrow> bit (st AND 0x3FFF) n" if "n < 16" for n
  proof -
    have m: "(0x3FFF :: 16 word) = mask 14" by (simp add: mask_eq_exp_minus_1)
    show ?thesis
      using that fold_selected_bit [OF table_from_status_info, where st = st and r = 0 and n = n] len
      by (auto simp: m bit_simps)
  qed
  then have "(ucast ?f :: 16 word) = st AND 0x3FFF" by (auto intro: bit_word_eqI)
  then show ?thesis by (simp add: upsstatus_to_int_def c loop)
qed

end
