(* ===== verification/Cidr.thy ===== *)
theory Cidr
  imports Rest_Prelude
begin

text \<open>
  \<open>src/shared/cidr.cc\<close>, class \<open>CIDRAddress\<close>: an IPv4 or IPv6 address with a prefix length,
  wrapped around a \<open>CIDR*\<close> of the libcidr library.

  libcidr is not part of the repository: its functions are the fields of a \<open>libcidr\<close> record, a
  parameter \<open>L\<close> of every definition, and \<open>'c\<close> is its \<open>CIDR\<close> structure. What the library
  documents is \<open>libcidr_doc L\<close>, a hypothesis of the theorems that need it. Each \<open>CIDRAddress\<close>
  owns its structure, so an object is the value behind its pointer: \<open>'c option\<close>, \<open>None\<close> for the
  null pointer. An \<open>in_addr\<close> is four bytes in network order, an \<open>in6_addr\<close> sixteen.
\<close>

subsection \<open>Addresses as bytes\<close>

type_synonym u8 = "8 word"

datatype in_addr = In_addr u8 u8 u8 u8
datatype in6_addr = In6_addr in_addr in_addr in_addr in_addr

fun bytes4 :: "in_addr \<Rightarrow> u8 list" where
  "bytes4 (In_addr a b c d) = [a, b, c, d]"

fun bytes16 :: "in6_addr \<Rightarrow> u8 list" where
  "bytes16 (In6_addr p q r s) = bytes4 p @ bytes4 q @ bytes4 r @ bytes4 s"

definition of_bytes4 :: "u8 list \<Rightarrow> in_addr" where
  "of_bytes4 bs = In_addr (bs ! 0) (bs ! 1) (bs ! 2) (bs ! 3)"

definition of_bytes16 :: "u8 list \<Rightarrow> in6_addr" where
  "of_bytes16 bs = In6_addr (of_bytes4 bs) (of_bytes4 (drop 4 bs)) (of_bytes4 (drop 8 bs))
                            (of_bytes4 (drop 12 bs))"

lemma length_bytes4 [simp]: "length (bytes4 i) = 4"
  by (cases i) simp

lemma length_bytes16 [simp]: "length (bytes16 i) = 16"
  by (cases i) simp

lemma bytes4_of_bytes4: "length bs = 4 \<Longrightarrow> bytes4 (of_bytes4 bs) = bs"
  by (auto simp: of_bytes4_def numeral_eq_Suc length_Suc_conv)

lemma bytes16_of_bytes16: "length bs = 16 \<Longrightarrow> bytes16 (of_bytes16 bs) = bs"
  by (auto simp: of_bytes16_def of_bytes4_def numeral_eq_Suc length_Suc_conv)

lemma bytes4_inj: "bytes4 i = bytes4 j \<longleftrightarrow> i = j"
  by (cases i; cases j) auto

definition be_val :: "u8 list \<Rightarrow> nat" where
  \<comment> \<open>the number the bytes write in base 256, most significant first\<close>
  "be_val bs = foldl (\<lambda>v b. v * 256 + unat b) 0 bs"

lemma be_val_Nil [simp]: "be_val [] = 0"
  by (simp add: be_val_def)

lemma be_val_snoc [simp]: "be_val (bs @ [b]) = be_val bs * 256 + unat b"
  by (simp add: be_val_def)

lemma unat_u8_lt [simp]: "unat (b :: u8) < 256"
  using unsigned_less [of b] by simp

lemma be_val_lt: "be_val bs < 256 ^ length bs"
proof (induction bs rule: rev_induct)
  case (snoc b bs)
  have "be_val bs * 256 + unat b < (be_val bs + 1) * 256" by simp
  also have "\<dots> \<le> 256 ^ length bs * 256" using snoc by (intro mult_right_mono) simp_all
  finally show ?case by simp
qed simp

lemma be_val_inj: "length xs = length ys \<Longrightarrow> be_val xs = be_val ys \<Longrightarrow> xs = ys"
proof (induction xs ys rule: rev_induct2)
  case (4 x xs y ys)
  have eq: "be_val xs * 256 + unat x = be_val ys * 256 + unat y" using 4(3) by simp
  have "be_val xs = (be_val xs * 256 + unat x) div 256" and "unat x = (be_val xs * 256 + unat x) mod 256"
    using unat_u8_lt [of x] by simp_all
  moreover have "be_val ys = (be_val ys * 256 + unat y) div 256" and "unat y = (be_val ys * 256 + unat y) mod 256"
    using unat_u8_lt [of y] by simp_all
  ultimately have "be_val xs = be_val ys" and "unat x = unat y" using eq by simp_all
  with 4 show ?case by (simp add: word_unat_eq_iff)
qed auto

subsection \<open>The byte loops of the operators\<close>

fun inc_loop :: "nat \<Rightarrow> u8 list \<Rightarrow> u8 list" where
  "inc_loop 0 bytes = bytes[0 := bytes ! 0 + 1]"
| "inc_loop (Suc i) bytes =
     (let bytes' = bytes[Suc i := bytes ! Suc i + 1]
      in if bytes' ! Suc i \<noteq> 0 then bytes' else inc_loop i bytes')"

fun dec_loop :: "nat \<Rightarrow> u8 list \<Rightarrow> u8 list" where
  "dec_loop 0 bytes = bytes[0 := bytes ! 0 - 1]"
| "dec_loop (Suc i) bytes =
     (let bytes' = bytes[Suc i := bytes ! Suc i - 1]
      in if bytes' ! Suc i \<noteq> 255 then bytes' else dec_loop i bytes')"

fun cmp_loop :: "u8 list \<Rightarrow> u8 list \<Rightarrow> int" where
  "cmp_loop (b1 # bytes1) (b2 # bytes2) =
     (if b1 < b2 then - 1 else if b1 > b2 then 1 else cmp_loop bytes1 bytes2)"
| "cmp_loop _ _ = 0"

lemma length_inc_loop [simp]: "length (inc_loop i bs) = length bs"
  by (induction i arbitrary: bs) (auto simp: Let_def)

lemma length_dec_loop [simp]: "length (dec_loop i bs) = length bs"
  by (induction i arbitrary: bs) (auto simp: Let_def)

lemma unat_inc_u8: "unat ((b :: u8) + 1) = (if b + 1 = 0 then 0 else unat b + 1)"
  by (simp add: unatSuc add.commute)

lemma unat_inc_zero_u8: "(b :: u8) + 1 = 0 \<Longrightarrow> unat b = 255"
proof -
  assume "b + 1 = 0"
  then have "b = - 1" by (simp add: eq_neg_iff_add_eq_0)
  then have "b = 255" by simp
  then show ?thesis by (simp only: unat_numeral) simp
qed

lemma inc_loop_parts:
  "i < length bs \<Longrightarrow>
   be_val (take (Suc i) (inc_loop i bs)) = (be_val (take (Suc i) bs) + 1) mod 256 ^ Suc i \<and>
   drop (Suc i) (inc_loop i bs) = drop (Suc i) bs"
proof (induction i arbitrary: bs)
  case 0
  then obtain b r where bs: "bs = b # r" by (cases bs) auto
  have "be_val [b + 1] = (be_val [b] + 1) mod 256"
    using unat_inc_zero_u8 [of b] unat_u8_lt [of b] unat_u8_lt [of "b + 1"]
    by (auto simp: be_val_def unat_inc_u8)
  then show ?case by (simp add: bs)
next
  case (Suc i)
  let ?b = "bs ! Suc i" and ?bs = "bs[Suc i := bs ! Suc i + 1]" and ?V = "be_val (take (Suc i) bs)"
  have take: "take (Suc (Suc i)) xs = take (Suc i) xs @ [xs ! Suc i]" if "length xs = length bs" for xs :: "u8 list"
    using that Suc.prems by (simp add: take_Suc_conv_app_nth)
  have V: "?V < 256 ^ Suc i"
    using be_val_lt [of "take (Suc i) bs"] Suc.prems by (simp add: min_def)
  show ?case
  proof (cases "?b + 1 = 0")
    case False
    have "?V * 256 + unat ?b + 1 < 256 ^ Suc (Suc i)"
    proof -
      have "unat ?b + 1 < 256 \<or> unat ?b + 1 = 256" using unat_u8_lt [of ?b] by linarith
      moreover have "unat ?b + 1 \<noteq> 256" using False unat_u8_lt [of "?b + 1"] by (simp add: unat_inc_u8)
      ultimately have "?V * 256 + unat ?b + 1 < (?V + 1) * 256" by simp
      also have "\<dots> \<le> 256 ^ Suc i * 256" using V by (intro mult_right_mono) simp_all
      finally show ?thesis by simp
    qed
    then show ?thesis
      using False Suc.prems by (simp add: take Let_def unat_inc_u8)
  next
    case True
    define bs' where "bs' = bs[Suc i := 0]"
    have lb: "length bs' = length bs" by (simp add: bs'_def)
    have len: "i < length bs'" using Suc.prems by (simp add: lb)
    have tk: "take (Suc i) bs' = take (Suc i) bs" by (simp add: bs'_def)
    have dr: "drop (Suc i) (inc_loop i bs') = drop (Suc i) bs'"
      and v: "be_val (take (Suc i) (inc_loop i bs')) = (?V + 1) mod 256 ^ Suc i"
      using Suc.IH [OF len] by (simp_all only: tk)
    have nth: "inc_loop i bs' ! Suc i = 0"
    proof -
      have "inc_loop i bs' ! Suc i = drop (Suc i) (inc_loop i bs') ! 0"
        using Suc.prems by (simp add: bs'_def)
      then show ?thesis using Suc.prems by (simp add: dr) (simp add: bs'_def)
    qed
    have "drop (Suc (Suc i)) (inc_loop i bs') = drop 1 (drop (Suc i) (inc_loop i bs'))" by simp
    also have "\<dots> = drop (Suc (Suc i)) bs" by (simp only: dr) (simp add: bs'_def)
    finally have d2: "drop (Suc (Suc i)) (inc_loop i bs') = drop (Suc (Suc i)) bs" .
    have step: "inc_loop (Suc i) bs = inc_loop i bs'"
      using True Suc.prems by (simp add: bs'_def)
    have "be_val (take (Suc (Suc i)) (inc_loop i bs')) = (?V + 1) mod 256 ^ Suc i * 256"
      by (subst take) (simp_all add: lb v nth)
    also have "\<dots> = ((?V + 1) * 256) mod (256 ^ Suc i * 256)"
      by (simp only: mod_mult_mult2)
    also have "(?V + 1) * 256 = be_val (take (Suc (Suc i)) bs) + 1"
      using unat_inc_zero_u8 [OF True] by (subst take) simp_all
    finally show ?thesis unfolding step using d2 by (simp add: mult.commute)
  qed
qed

lemma dec_loop_drop: "i < length bs \<Longrightarrow> drop (Suc i) (dec_loop i bs) = drop (Suc i) bs"
proof (induction i arbitrary: bs)
  case (Suc i)
  define bs' where "bs' = bs[Suc i := bs ! Suc i - 1]"
  have "drop (Suc i) (dec_loop i bs') = drop (Suc i) bs'" using Suc.prems by (intro Suc.IH) (simp add: bs'_def)
  then have "drop 1 (drop (Suc i) (dec_loop i bs')) = drop 1 (drop (Suc i) bs')" by simp
  then have "drop (Suc (Suc i)) (dec_loop i bs') = drop (Suc (Suc i)) bs" by (simp add: bs'_def)
  then show ?case by (simp add: Let_def bs'_def)
qed simp

lemma dec_loop_update: "i < j \<Longrightarrow> (dec_loop i bs)[j := b] = dec_loop i (bs[j := b])"
proof (induction i arbitrary: bs)
  case 0
  then show ?case by (simp add: list_update_swap)
next
  case (Suc i)
  then have "Suc i \<noteq> j" by simp
  then have ne: "Suc i \<noteq> j" "j \<noteq> Suc i" by auto
  show ?case
  proof (cases "bs[Suc i := bs ! Suc i - 1] ! Suc i = 255")
    case True
    moreover from this have "bs[j := b, Suc i := bs ! Suc i - 1] ! Suc i = 255"
      using ne by (subst list_update_swap) simp_all
    ultimately show ?thesis
      using Suc ne by (simp add: Let_def list_update_swap [of j "Suc i"])
  next
    case False
    moreover from this have "bs[j := b, Suc i := bs ! Suc i - 1] ! Suc i \<noteq> 255"
      using ne by (subst list_update_swap) simp_all
    ultimately show ?thesis
      using ne by (simp add: Let_def list_update_swap [of j "Suc i"])
  qed
qed

lemma inc_dec_loop: "i < length bs \<Longrightarrow> inc_loop i (dec_loop i bs) = bs"
proof (induction i arbitrary: bs)
  case 0
  then show ?case by (cases bs) auto
next
  case (Suc i)
  define bs' where "bs' = bs[Suc i := bs ! Suc i - 1]"
  show ?case
  proof (cases "bs ! Suc i = 0")
    case False
    have "bs ! Suc i - 1 \<noteq> 255"
    proof
      assume "bs ! Suc i - 1 = 255"
      then have "bs ! Suc i = 255 + 1" by (simp only: diff_eq_eq)
      with False show False by simp
    qed
    with False Suc.prems show ?thesis by (simp add: Let_def)
  next
    case True
    have len: "i < length bs'" using Suc.prems by (simp add: bs'_def)
    have lb: "length bs' = length bs" by (simp add: bs'_def)
    have "dec_loop i bs' ! Suc i = drop (Suc i) (dec_loop i bs') ! 0"
      using Suc.prems by (simp add: lb)
    also have "\<dots> = bs' ! Suc i" using Suc.prems by (simp only: dec_loop_drop [OF len]) (simp add: lb)
    also have "\<dots> = - 1" using True Suc.prems by (simp add: bs'_def)
    finally have nth: "dec_loop i bs' ! Suc i = - 1" .
    have "inc_loop (Suc i) (dec_loop i bs') = inc_loop i ((dec_loop i bs')[Suc i := 0])"
      using nth Suc.prems by (simp add: lb Let_def)
    also have "(dec_loop i bs')[Suc i := 0] = dec_loop i (bs'[Suc i := 0])"
      using len by (simp add: dec_loop_update)
    also have "inc_loop i \<dots> = bs'[Suc i := 0]"
      using len by (intro Suc.IH) simp
    also have "\<dots> = bs"
      using True by (metis bs'_def list_update_id list_update_overwrite)
    finally have "inc_loop (Suc i) (dec_loop i bs') = bs" .
    moreover have "dec_loop (Suc i) bs = dec_loop i bs'"
      using True Suc.prems by (simp add: bs'_def Let_def)
    ultimately show ?thesis by (simp only:)
  qed
qed

lemma be_val_Cons: "be_val (b # bs) = unat b * 256 ^ length bs + be_val bs"
proof (induction bs rule: rev_induct)
  case (snoc x xs)
  have "be_val (b # xs @ [x]) = be_val (b # xs) * 256 + unat x"
    by (metis append_Cons be_val_snoc)
  then show ?case by (simp add: snoc algebra_simps)
qed (simp add: be_val_def)

lemma be_val_Cons_less:
  assumes "length xs = length ys" and "a < b"
  shows "be_val (a # xs) < be_val (b # ys)"
proof -
  have "unat a < unat b" using assms(2) by (simp add: word_less_nat_alt)
  then have "(unat a + 1) * 256 ^ length ys \<le> unat b * 256 ^ length ys"
    by (intro mult_right_mono) simp_all
  moreover have "be_val xs < 256 ^ length ys" using be_val_lt [of xs] assms(1) by simp
  ultimately show ?thesis by (simp add: be_val_Cons assms(1))
qed

lemma cmp_loop_be_val:
  "length xs = length ys \<Longrightarrow>
   cmp_loop xs ys = (if be_val xs < be_val ys then - 1 else if be_val xs > be_val ys then 1 else 0)"
proof (induction xs ys rule: list_induct2)
  case (Cons x xs y ys)
  then show ?case
    using be_val_Cons_less [of xs ys x y] be_val_Cons_less [of ys xs y x]
    by (cases x y rule: linorder_cases) (auto simp: be_val_Cons)
qed simp

lemma be_val_eq_0_iff: "be_val bs = 0 \<longleftrightarrow> (\<forall>b \<in> set bs. b = 0)"
  by (induction bs) (auto simp: be_val_Cons unat_eq_0)

subsection \<open>libcidr\<close>

datatype cidr_proto = CIDR_NOPROTO | CIDR_IPV4 | CIDR_IPV6

datatype cidr_strflag = CIDR_NOFLAGS | CIDR_ONLYADDR | CIDR_NETMASK

datatype CIDROptions = CIDR_AUTO_PREFIX | CIDR_WITH_PREFIX | CIDR_WITHOUT_PREFIX

record 'c libcidr =
  cidr_from_str :: "string \<Rightarrow> 'c option"
  cidr_to_str :: "'c \<Rightarrow> cidr_strflag \<Rightarrow> string option"
  cidr_get_proto :: "'c \<Rightarrow> cidr_proto"
  cidr_get_pflen :: "'c \<Rightarrow> int"
  cidr_to_inaddr :: "'c \<Rightarrow> in_addr option"
  cidr_from_inaddr :: "in_addr \<Rightarrow> 'c"
  cidr_to_in6addr :: "'c \<Rightarrow> in6_addr option"
  cidr_from_in6addr :: "in6_addr \<Rightarrow> 'c"
  cidr_contains :: "'c \<Rightarrow> 'c \<Rightarrow> int"
  cidr_equals :: "'c \<Rightarrow> 'c \<Rightarrow> int"
  cidr_addr_hostmin :: "'c \<Rightarrow> 'c option"
  cidr_addr_hostmax :: "'c \<Rightarrow> 'c option"
  cidr_addr_network :: "'c \<Rightarrow> 'c option"
  cidr_addr_broadcast :: "'c \<Rightarrow> 'c option"
  cidr_dup :: "'c \<Rightarrow> 'c option"

text \<open>
  The out-parameter of \<open>cidr_to_inaddr\<close> after a call whose result is not tested. Every such call
  comes after \<open>valid()\<close>, in which the same call on the same object succeeded; a failing call
  leaves the bytes as they were, here zero.
\<close>

definition inaddr_of :: "'c libcidr \<Rightarrow> 'c \<Rightarrow> in_addr" where
  "inaddr_of L c = (case cidr_to_inaddr L c of Some i \<Rightarrow> i | None \<Rightarrow> In_addr 0 0 0 0)"

definition in6addr_of :: "'c libcidr \<Rightarrow> 'c \<Rightarrow> in6_addr" where
  "in6addr_of L c =
     (case cidr_to_in6addr L c of Some i \<Rightarrow> i
      | None \<Rightarrow> In6_addr (In_addr 0 0 0 0) (In_addr 0 0 0 0) (In_addr 0 0 0 0) (In_addr 0 0 0 0))"

subsection \<open>CIDRAddress\<close>

type_synonym 'c CIDRAddress = "'c option"

definition valid :: "'c libcidr \<Rightarrow> 'c CIDRAddress \<Rightarrow> bool" where
  "valid L a =
     (case a of
        None \<Rightarrow> False
      | Some cidr \<Rightarrow>
          if cidr_get_proto L cidr = CIDR_IPV4
          then (case cidr_to_inaddr L cidr of
                  Some i \<Rightarrow> (\<exists>b \<in> set (bytes4 i). b \<noteq> 0) \<comment> \<open>\<open>s_addr != 0\<close>\<close>
                | None \<Rightarrow> False)
          else if cidr_get_proto L cidr = CIDR_IPV6
          then (case cidr_to_in6addr L cidr of
                  Some i \<Rightarrow> (\<exists>b \<in> set (bytes16 i). b \<noteq> 0)
                | None \<Rightarrow> False)
          else False)"

text \<open>\<open>operator++\<close> and \<open>operator--\<close>: the second \<open>if\<close> reads the pointer the first one may have replaced.\<close>

definition inc :: "'c libcidr \<Rightarrow> 'c CIDRAddress \<Rightarrow> 'c CIDRAddress" where
  "inc L a =
     (case a of
        Some cidr \<Rightarrow>
          if \<not> valid L a then a
          else
            let cidr = (if cidr_get_proto L cidr = CIDR_IPV4
                        then cidr_from_inaddr L (of_bytes4 (inc_loop 3 (bytes4 (inaddr_of L cidr))))
                        else cidr);
                cidr = (if cidr_get_proto L cidr = CIDR_IPV6
                        then cidr_from_in6addr L (of_bytes16 (inc_loop 15 (bytes16 (in6addr_of L cidr))))
                        else cidr)
            in Some cidr
      | None \<Rightarrow> a)"

definition dec :: "'c libcidr \<Rightarrow> 'c CIDRAddress \<Rightarrow> 'c CIDRAddress" where
  "dec L a =
     (case a of
        Some cidr \<Rightarrow>
          if \<not> valid L a then a
          else
            let cidr = (if cidr_get_proto L cidr = CIDR_IPV4
                        then cidr_from_inaddr L (of_bytes4 (dec_loop 3 (bytes4 (inaddr_of L cidr))))
                        else cidr);
                cidr = (if cidr_get_proto L cidr = CIDR_IPV6
                        then cidr_from_in6addr L (of_bytes16 (dec_loop 15 (bytes16 (in6addr_of L cidr))))
                        else cidr)
            in Some cidr
      | None \<Rightarrow> a)"

text \<open>The operations that set an object return its new value and the result of the call.\<close>

definition addr_dup :: "'c libcidr \<Rightarrow> 'c CIDRAddress \<Rightarrow> 'c CIDRAddress" where
  \<comment> \<open>\<open>_cidr ? cidr_dup(_cidr) : nullptr\<close>\<close>
  "addr_dup L a = (case a of Some cidr \<Rightarrow> cidr_dup L cidr | None \<Rightarrow> None)"

definition set_string :: "'c libcidr \<Rightarrow> string \<Rightarrow> 'c CIDRAddress \<times> bool" where
  "set_string L text = (let a = cidr_from_str L (c_str text) in (a, a \<noteq> None))"

definition set_addr :: "'c libcidr \<Rightarrow> 'c CIDRAddress \<Rightarrow> 'c CIDRAddress \<times> bool" where
  "set_addr L from = (let a = addr_dup L from in (a, a \<noteq> None))"

definition set_inaddr :: "'c libcidr \<Rightarrow> in_addr \<Rightarrow> 'c CIDRAddress \<times> bool" where
  "set_inaddr L i = (let a = Some (cidr_from_inaddr L i) in (a, a \<noteq> None))"

definition set_in6addr :: "'c libcidr \<Rightarrow> in6_addr \<Rightarrow> 'c CIDRAddress \<times> bool" where
  "set_in6addr L i = (let a = Some (cidr_from_in6addr L i) in (a, a \<noteq> None))"

datatype sockaddr = AF_INET in_addr | AF_INET6 in6_addr | AF_OTHER

definition set_sockaddr :: "'c libcidr \<Rightarrow> sockaddr option \<Rightarrow> 'c CIDRAddress \<times> bool" where
  "set_sockaddr L address =
     (case address of
        None \<Rightarrow> (None, False)
      | Some (AF_INET i) \<Rightarrow> set_inaddr L i
      | Some (AF_INET6 i) \<Rightarrow> set_in6addr L i
      | Some AF_OTHER \<Rightarrow> (None, False))"

definition CIDRAddress_string :: "'c libcidr \<Rightarrow> string \<Rightarrow> 'c CIDRAddress" where
  "CIDRAddress_string L address = fst (set_string L address)"

definition CIDRAddress_string_prefix :: "'c libcidr \<Rightarrow> string \<Rightarrow> string \<Rightarrow> 'c CIDRAddress" where
  "CIDRAddress_string_prefix L address prefix = fst (set_string L (address @ ''/'' @ prefix))"

definition CIDRAddress_string_uint :: "'c libcidr \<Rightarrow> string \<Rightarrow> nat \<Rightarrow> 'c CIDRAddress" where
  "CIDRAddress_string_uint L address prefix = fst (set_string L (address @ ''/'' @ to_string prefix))"

definition CIDRAddress_inaddr :: "'c libcidr \<Rightarrow> in_addr \<Rightarrow> 'c CIDRAddress" where
  "CIDRAddress_inaddr L address = fst (set_inaddr L address)"

definition CIDRAddress_in6addr :: "'c libcidr \<Rightarrow> in6_addr \<Rightarrow> 'c CIDRAddress" where
  "CIDRAddress_in6addr L address = fst (set_in6addr L address)"

definition CIDRAddress_sockaddr :: "'c libcidr \<Rightarrow> sockaddr option \<Rightarrow> 'c CIDRAddress" where
  "CIDRAddress_sockaddr L address = fst (set_sockaddr L address)"

definition CIDRAddress_copy :: "'c libcidr \<Rightarrow> 'c CIDRAddress \<Rightarrow> 'c CIDRAddress" where
  "CIDRAddress_copy L address = fst (set_addr L address)"

definition CIDRAddress_move :: "'c CIDRAddress \<Rightarrow> 'c CIDRAddress \<times> 'c CIDRAddress" where
  \<comment> \<open>the new object and what is left of the other one\<close>
  "CIDRAddress_move other = (other, None)"

definition invalidate :: "'c CIDRAddress \<Rightarrow> 'c CIDRAddress" where
  "invalidate a = None"

text \<open>The postfix operators return the copy made before and the new value of the object.\<close>

definition post_inc :: "'c libcidr \<Rightarrow> 'c CIDRAddress \<Rightarrow> 'c CIDRAddress \<times> 'c CIDRAddress" where
  "post_inc L a = (let result = addr_dup L a in (result, inc L a))"

definition post_dec :: "'c libcidr \<Rightarrow> 'c CIDRAddress \<Rightarrow> 'c CIDRAddress \<times> 'c CIDRAddress" where
  "post_dec L a = (let result = addr_dup L a in (result, dec L a))"

definition protocol :: "'c libcidr \<Rightarrow> 'c CIDRAddress \<Rightarrow> int" where
  "protocol L a =
     (case a of
        Some cidr \<Rightarrow>
          if \<not> valid L a then 0
          else if cidr_get_proto L cidr = CIDR_IPV4 then 4
          else if cidr_get_proto L cidr = CIDR_IPV6 then 6
          else 0
      | None \<Rightarrow> 0)"

definition prefix_len :: "'c libcidr \<Rightarrow> 'c CIDRAddress \<Rightarrow> int" where
  "prefix_len L a =
     (case a of
        Some cidr \<Rightarrow> if valid L a then cidr_get_pflen L cidr else - 1
      | None \<Rightarrow> - 1)"

definition toString_opt :: "'c libcidr \<Rightarrow> 'c CIDRAddress \<Rightarrow> CIDROptions \<Rightarrow> string" where
  "toString_opt L a opt =
     (let showprefix = (opt \<noteq> CIDR_WITHOUT_PREFIX)
      in case a of
           None \<Rightarrow> ''''
         | Some cidr \<Rightarrow>
             let showprefix =
                   (if opt = CIDR_AUTO_PREFIX \<and>
                       ((cidr_get_proto L cidr = CIDR_IPV4 \<and> prefix_len L a = 32) \<or>
                        (cidr_get_proto L cidr = CIDR_IPV6 \<and> prefix_len L a = 128))
                    then False else showprefix);
                 cstr = (if showprefix then cidr_to_str L cidr CIDR_NOFLAGS
                         else cidr_to_str L cidr CIDR_ONLYADDR)
             in (case cstr of Some s \<Rightarrow> s | None \<Rightarrow> ''''))"

definition toString :: "'c libcidr \<Rightarrow> 'c CIDRAddress \<Rightarrow> string" where
  "toString L a = toString_opt L a CIDR_AUTO_PREFIX"

definition netmask :: "'c libcidr \<Rightarrow> 'c CIDRAddress \<Rightarrow> string" where
  "netmask L a =
     (case a of
        Some cidr \<Rightarrow>
          if protocol L a = 4
          then (case cidr_to_str L cidr CIDR_NETMASK of
                  Some cstr \<Rightarrow> drop 1 (dropWhile (\<lambda>c. c \<noteq> CHR ''/'') cstr)
                | None \<Rightarrow> '''')
          else ''''
      | None \<Rightarrow> '''')"

definition isNetmask :: "'c libcidr \<Rightarrow> 'c CIDRAddress \<Rightarrow> bool" where
  "isNetmask L a \<longleftrightarrow>
     protocol L a = 4 \<and> valid L (CIDRAddress_string L (''1.1.1.1/'' @ toString L a))"

definition contains :: "'c libcidr \<Rightarrow> 'c CIDRAddress \<Rightarrow> 'c CIDRAddress \<Rightarrow> bool" where
  "contains L a address =
     (case (a, address) of
        (Some c, Some d) \<Rightarrow> valid L a \<and> valid L address \<and> cidr_contains L c d = 0
      | _ \<Rightarrow> False)"

definition addr_in :: "'c libcidr \<Rightarrow> 'c CIDRAddress \<Rightarrow> 'c CIDRAddress \<Rightarrow> bool" where
  "addr_in L a address =
     (case (a, address) of
        (Some c, Some d) \<Rightarrow> valid L a \<and> valid L address \<and> cidr_contains L d c = 0
      | _ \<Rightarrow> False)"

definition equals :: "'c libcidr \<Rightarrow> 'c CIDRAddress \<Rightarrow> 'c CIDRAddress \<Rightarrow> bool" where
  "equals L a address =
     (if \<not> valid L a \<and> \<not> valid L address then True
      else case (a, address) of
        (Some c, Some d) \<Rightarrow> valid L a \<and> valid L address \<and> cidr_equals L d c = 0
      | _ \<Rightarrow> False)"

definition hostMin :: "'c libcidr \<Rightarrow> 'c CIDRAddress \<Rightarrow> 'c CIDRAddress" where
  "hostMin L a =
     (case a of Some c \<Rightarrow> if valid L a then cidr_addr_hostmin L c else None | None \<Rightarrow> None)"

definition hostMax :: "'c libcidr \<Rightarrow> 'c CIDRAddress \<Rightarrow> 'c CIDRAddress" where
  "hostMax L a =
     (case a of Some c \<Rightarrow> if valid L a then cidr_addr_hostmax L c else None | None \<Rightarrow> None)"

definition host :: "'c libcidr \<Rightarrow> 'c CIDRAddress \<Rightarrow> 'c CIDRAddress" where
  "host L a =
     (case a of
        Some c \<Rightarrow>
          if \<not> valid L a then None
          else let result = (if cidr_get_proto L c = CIDR_IPV4
                             then Some (cidr_from_inaddr L (inaddr_of L c)) else None)
               in if cidr_get_proto L c = CIDR_IPV6
                  then Some (cidr_from_in6addr L (in6addr_of L c)) else result
      | None \<Rightarrow> None)"

definition network :: "'c libcidr \<Rightarrow> 'c CIDRAddress \<Rightarrow> 'c CIDRAddress" where
  "network L a =
     (case a of Some c \<Rightarrow> if valid L a then cidr_addr_network L c else None | None \<Rightarrow> None)"

definition broadcast :: "'c libcidr \<Rightarrow> 'c CIDRAddress \<Rightarrow> 'c CIDRAddress" where
  "broadcast L a =
     (case a of Some c \<Rightarrow> if valid L a then cidr_addr_broadcast L c else None | None \<Rightarrow> None)"

definition compare :: "'c libcidr \<Rightarrow> 'c CIDRAddress \<Rightarrow> 'c CIDRAddress \<Rightarrow> int" where
  "compare L a1 a2 =
     (if \<not> valid L a1 \<and> \<not> valid L a2 then 0
      else if \<not> valid L a1 \<or> \<not> valid L a2 then (if valid L a1 then 1 else - 1)
      else case (a1, a2) of
        (Some c1, Some c2) \<Rightarrow>
          (let proto1 = cidr_get_proto L c1; proto2 = cidr_get_proto L c2
           in if proto1 = CIDR_IPV4 \<and> proto2 = CIDR_IPV4
              then cmp_loop (bytes4 (inaddr_of L c1)) (bytes4 (inaddr_of L c2))
              else if proto1 = CIDR_IPV6 \<and> proto2 = CIDR_IPV6
              then cmp_loop (bytes16 (in6addr_of L c1)) (bytes16 (in6addr_of L c2))
              else if proto1 = CIDR_IPV6 \<and> proto2 = CIDR_IPV4 then 1 else - 1)
      | _ \<Rightarrow> 0)"

definition addr_gt :: "'c libcidr \<Rightarrow> 'c CIDRAddress \<Rightarrow> 'c CIDRAddress \<Rightarrow> bool" where
  "addr_gt L a1 a2 \<longleftrightarrow> compare L a1 a2 = 1"

definition addr_lt :: "'c libcidr \<Rightarrow> 'c CIDRAddress \<Rightarrow> 'c CIDRAddress \<Rightarrow> bool" where
  "addr_lt L a1 a2 \<longleftrightarrow> compare L a1 a2 = - 1"

definition addr_eq :: "'c libcidr \<Rightarrow> 'c CIDRAddress \<Rightarrow> 'c CIDRAddress \<Rightarrow> bool" where
  "addr_eq L a1 a2 = equals L a1 a2"

definition addr_neq :: "'c libcidr \<Rightarrow> 'c CIDRAddress \<Rightarrow> 'c CIDRAddress \<Rightarrow> bool" where
  "addr_neq L a1 a2 = (\<not> equals L a1 a2)"

definition print_addr :: "'c libcidr \<Rightarrow> string \<Rightarrow> 'c CIDRAddress \<Rightarrow> string" where
  \<comment> \<open>\<open>operator<<\<close>, on what the stream has so far\<close>
  "print_addr L os address = os @ toString L address"

definition addr_eq_string :: "'c libcidr \<Rightarrow> 'c CIDRAddress \<Rightarrow> string \<Rightarrow> bool" where
  "addr_eq_string L a text = equals L a (CIDRAddress_string L text)"

definition addr_neq_string :: "'c libcidr \<Rightarrow> 'c CIDRAddress \<Rightarrow> string \<Rightarrow> bool" where
  \<comment> \<open>\<open>!equals(a2)\<close> converts the string once more\<close>
  "addr_neq_string L a text = (\<not> equals L a (CIDRAddress_string L text))"

text \<open>
  Copy and move assignment of two objects of a store, with the test for self-assignment: a move
  leaves the source null.
\<close>

definition assign_copy ::
  "'c libcidr \<Rightarrow> nat \<Rightarrow> nat \<Rightarrow> (nat \<Rightarrow> 'c CIDRAddress) \<Rightarrow> (nat \<Rightarrow> 'c CIDRAddress)" where
  "assign_copy L this from s = (if this \<noteq> from then s(this := addr_dup L (s from)) else s)"

definition assign_move :: "nat \<Rightarrow> nat \<Rightarrow> (nat \<Rightarrow> 'c CIDRAddress) \<Rightarrow> (nat \<Rightarrow> 'c CIDRAddress)" where
  "assign_move this from s = (if this \<noteq> from then s(this := s from, from := None) else s)"

subsection \<open>The order of addresses\<close>

text \<open>
  A three-way comparison that agrees with a numeric rank: the contract the list of networks relies
  on when it looks for the lowest and the highest address.
\<close>

locale ranked_compare =
  fixes cmp :: "'a \<Rightarrow> 'a \<Rightarrow> int"
    and rank :: "'a \<Rightarrow> nat"
  assumes cmp_rank: "cmp x y = (if rank x < rank y then - 1 else if rank x > rank y then 1 else 0)"
begin

lemma cmp_sgn: "cmp x y = sgn (int (rank x) - int (rank y))"
  by (simp add: cmp_rank)

lemma cmp_swap: "cmp y x = - cmp x y"
  by (simp add: cmp_rank)

lemma lt_iff: "cmp x y = - 1 \<longleftrightarrow> rank x < rank y"
  by (simp add: cmp_rank)

lemma gt_iff: "cmp x y = 1 \<longleftrightarrow> rank y < rank x"
  by (simp add: cmp_rank)

lemma scan_min:
  "fold (\<lambda>x m. if cmp x m = - 1 then x else m) xs m \<in> set (m # xs) \<and>
   (\<forall>x \<in> set (m # xs). rank (fold (\<lambda>x m. if cmp x m = - 1 then x else m) xs m) \<le> rank x)"
proof (induction xs arbitrary: m)
  case (Cons y ys)
  show ?case
    using Cons.IH [of "if cmp y m = - 1 then y else m"]
    by (cases "rank y < rank m") (auto simp: lt_iff)
qed simp

lemma scan_max:
  "fold (\<lambda>x m. if cmp x m = 1 then x else m) xs m \<in> set (m # xs) \<and>
   (\<forall>x \<in> set (m # xs). rank x \<le> rank (fold (\<lambda>x m. if cmp x m = 1 then x else m) xs m))"
proof (induction xs arbitrary: m)
  case (Cons y ys)
  show ?case
    using Cons.IH [of "if cmp y m = 1 then y else m"]
    by (cases "rank m < rank y") (auto simp: gt_iff)
qed simp

end

definition c_val :: "'c libcidr \<Rightarrow> 'c \<Rightarrow> nat" where
  "c_val L c =
     (case cidr_get_proto L c of
        CIDR_IPV4 \<Rightarrow> be_val (bytes4 (inaddr_of L c))
      | CIDR_IPV6 \<Rightarrow> be_val (bytes16 (in6addr_of L c))
      | CIDR_NOPROTO \<Rightarrow> 0)"

definition addr_rank :: "'c libcidr \<Rightarrow> 'c CIDRAddress \<Rightarrow> nat" where
  \<comment> \<open>invalid addresses first, then IPv4 by value, then IPv6 by value\<close>
  "addr_rank L a =
     (case a of
        Some c \<Rightarrow> if \<not> valid L a then 0
                  else if cidr_get_proto L c = CIDR_IPV4 then c_val L c else 2 ^ 32 + c_val L c
      | None \<Rightarrow> 0)"

lemma validE:
  assumes "valid L a"
  obtains (ipv4) c i where "a = Some c" and "cidr_get_proto L c = CIDR_IPV4"
      and "cidr_to_inaddr L c = Some i" and "c_val L c = be_val (bytes4 i)" and "0 < c_val L c"
    | (ipv6) c i where "a = Some c" and "cidr_get_proto L c = CIDR_IPV6"
      and "cidr_to_in6addr L c = Some i" and "c_val L c = be_val (bytes16 i)" and "0 < c_val L c"
proof -
  from assms obtain c where a: "a = Some c" by (cases a) (auto simp: valid_def)
  show thesis
  proof (cases "cidr_get_proto L c = CIDR_IPV4")
    case True
    with assms a obtain i where "cidr_to_inaddr L c = Some i" and "\<exists>b \<in> set (bytes4 i). b \<noteq> 0"
      by (auto simp: valid_def split: option.splits)
    with a True show thesis
      by (intro ipv4 [of c i]) (auto simp: c_val_def inaddr_of_def be_val_eq_0_iff simp flip: neq0_conv)
  next
    case False
    with assms a have p6: "cidr_get_proto L c = CIDR_IPV6" by (auto simp: valid_def split: if_splits)
    with assms a obtain i where "cidr_to_in6addr L c = Some i" and "\<exists>b \<in> set (bytes16 i). b \<noteq> 0"
      by (auto simp: valid_def split: option.splits)
    with a p6 show thesis
      by (intro ipv6 [of c i]) (auto simp: c_val_def in6addr_of_def be_val_eq_0_iff simp flip: neq0_conv)
  qed
qed

lemma be_val4_lt: "be_val (bytes4 i) < 2 ^ 32"
  using be_val_lt [of "bytes4 i"] by simp

lemma v4_below_v6:
  "be_val (bytes4 i) < 4294967296 + n" "\<not> 4294967296 + n < be_val (bytes4 i)"
  "be_val (bytes4 i) \<noteq> 4294967296 + n"
  using be_val4_lt [of i] by simp_all

lemma be_val16_lt: "be_val (bytes16 i) < 2 ^ 128"
  using be_val_lt [of "bytes16 i"] by simp

lemma addr_rank_eq_0 [simp]: "addr_rank L a = 0 \<longleftrightarrow> \<not> valid L a"
  by (cases "valid L a") (auto simp: addr_rank_def split: option.splits elim: validE)

lemma compare_rank:
  "compare L a b = (if addr_rank L a < addr_rank L b then - 1
                    else if addr_rank L a > addr_rank L b then 1 else 0)"
proof (cases "valid L a \<and> valid L b")
  case False
  then show ?thesis
    using addr_rank_eq_0 [of L a] addr_rank_eq_0 [of L b]
    by (cases "valid L a"; cases "valid L b") (simp_all add: compare_def del: addr_rank_eq_0)
next
  case True
  then have va: "valid L a" and vb: "valid L b" by auto
  show ?thesis
    by (rule validE [OF va]; rule validE [OF vb])
       (use va vb in \<open>auto simp: compare_def addr_rank_def cmp_loop_be_val inaddr_of_def in6addr_of_def
          v4_below_v6\<close>)
qed

interpretation address_order: ranked_compare "compare L" "addr_rank L" for L
  by unfold_locales (rule compare_rank)

lemma addr_lt_iff: "addr_lt L a b \<longleftrightarrow> addr_rank L a < addr_rank L b"
  by (simp add: addr_lt_def address_order.lt_iff)

lemma addr_gt_iff: "addr_gt L a b \<longleftrightarrow> addr_rank L b < addr_rank L a"
  by (simp add: addr_gt_def address_order.gt_iff)

text \<open>C12. Comparison of addresses is a total preorder, the numeric order of a rank: invalid
  addresses are all equal and lowest, IPv4 addresses come next in the order of their 32-bit value,
  IPv6 addresses last in the order of their 128-bit value; the prefix length does not matter. The
  operators \<open><\<close> and \<open>>\<close> are each other's converse.\<close>

theorem compare_total_preorder:
  "compare L a b = sgn (int (addr_rank L a) - int (addr_rank L b)) \<and>
   compare L b a = - compare L a b \<and>
   addr_lt L a b = addr_gt L b a"
  using address_order.cmp_sgn [of L a b] address_order.cmp_swap [of L b a]
  by (simp add: addr_lt_iff addr_gt_iff)

subsection \<open>What libcidr documents\<close>

definition c_bits :: "'c libcidr \<Rightarrow> 'c \<Rightarrow> nat" where
  "c_bits L c = (if cidr_get_proto L c = CIDR_IPV4 then 32 else 128)"

definition net_size :: "'c libcidr \<Rightarrow> 'c \<Rightarrow> nat" where
  "net_size L c = 2 ^ (c_bits L c - nat (cidr_get_pflen L c))"

definition net_lo :: "'c libcidr \<Rightarrow> 'c \<Rightarrow> nat" where
  "net_lo L c = c_val L c - c_val L c mod net_size L c"

definition net_hi :: "'c libcidr \<Rightarrow> 'c \<Rightarrow> nat" where
  "net_hi L c = net_lo L c + (net_size L c - 1)"

text \<open>
  A \<open>CIDR\<close> with a protocol has the bytes of that protocol and a prefix length in its range;
  \<open>cidr_equals\<close> is 0 for the same address with the same prefix length.
\<close>

definition doc_structures :: "'c libcidr \<Rightarrow> bool" where
  "doc_structures L \<longleftrightarrow>
     (\<forall>c. cidr_dup L c = Some c) \<and>
     (\<forall>c. cidr_get_proto L c = CIDR_IPV4 \<longrightarrow> cidr_to_inaddr L c \<noteq> None) \<and>
     (\<forall>c. cidr_get_proto L c = CIDR_IPV6 \<longrightarrow> cidr_to_in6addr L c \<noteq> None) \<and>
     (\<forall>c. 0 \<le> cidr_get_pflen L c \<and> cidr_get_pflen L c \<le> int (c_bits L c)) \<and>
     (\<forall>c d. cidr_equals L c d = 0 \<longleftrightarrow>
        cidr_get_proto L c = cidr_get_proto L d \<and> c_val L c = c_val L d \<and>
        cidr_get_pflen L c = cidr_get_pflen L d)"

text \<open>A structure made from an address is a host: the full prefix length.\<close>

definition doc_from_addr :: "'c libcidr \<Rightarrow> bool" where
  "doc_from_addr L \<longleftrightarrow>
     (\<forall>i. cidr_get_proto L (cidr_from_inaddr L i) = CIDR_IPV4 \<and>
          cidr_to_inaddr L (cidr_from_inaddr L i) = Some i \<and>
          cidr_get_pflen L (cidr_from_inaddr L i) = 32) \<and>
     (\<forall>i. cidr_get_proto L (cidr_from_in6addr L i) = CIDR_IPV6 \<and>
          cidr_to_in6addr L (cidr_from_in6addr L i) = Some i \<and>
          cidr_get_pflen L (cidr_from_in6addr L i) = 128)"

text \<open>
  \<open>cidr_contains(big, little)\<close> is 0 when the block of \<open>little\<close> lies in the block of \<open>big\<close>;
  \<open>cidr_addr_broadcast\<close> and \<open>cidr_addr_hostmax\<close> are the last address of a block and the last one
  that is a host (the last one itself in a block of one or two addresses).
\<close>

definition doc_blocks :: "'c libcidr \<Rightarrow> bool" where
  "doc_blocks L \<longleftrightarrow>
     (\<forall>b l. cidr_contains L b l = 0 \<longleftrightarrow>
        cidr_get_proto L b = cidr_get_proto L l \<and> net_lo L b \<le> net_lo L l \<and> net_hi L l \<le> net_hi L b) \<and>
     (\<forall>c. \<exists>d. cidr_addr_broadcast L c = Some d \<and> cidr_get_proto L d = cidr_get_proto L c \<and>
        (cidr_get_proto L c \<noteq> CIDR_NOPROTO \<longrightarrow> c_val L d = net_hi L c)) \<and>
     (\<forall>c. \<exists>d. cidr_addr_hostmax L c = Some d \<and> cidr_get_proto L d = cidr_get_proto L c \<and>
        (cidr_get_proto L c \<noteq> CIDR_NOPROTO \<longrightarrow>
           c_val L d = (if net_size L c \<le> 2 then net_hi L c else net_hi L c - 1)))"

definition libcidr_doc :: "'c libcidr \<Rightarrow> bool" where
  "libcidr_doc L \<longleftrightarrow> doc_structures L \<and> doc_from_addr L \<and> doc_blocks L"

text \<open>A library that satisfies the documentation, for concrete inputs (without text conversion).\<close>

datatype ref_cidr = R4 in_addr nat | R6 in6_addr nat

fun bytes_of :: "nat \<Rightarrow> nat \<Rightarrow> u8 list" where
  "bytes_of 0 v = []"
| "bytes_of (Suc n) v = bytes_of n (v div 256) @ [word_of_nat (v mod 256)]"

fun ref_val :: "ref_cidr \<Rightarrow> nat" where
  "ref_val (R4 i p) = be_val (bytes4 i)"
| "ref_val (R6 i p) = be_val (bytes16 i)"

fun ref_proto :: "ref_cidr \<Rightarrow> cidr_proto" where
  "ref_proto (R4 i p) = CIDR_IPV4"
| "ref_proto (R6 i p) = CIDR_IPV6"

fun ref_size :: "ref_cidr \<Rightarrow> nat" where
  "ref_size (R4 i p) = 2 ^ (32 - min 32 p)"
| "ref_size (R6 i p) = 2 ^ (128 - min 128 p)"

fun ref_pflen :: "ref_cidr \<Rightarrow> int" where
  "ref_pflen (R4 i p) = int (min 32 p)"
| "ref_pflen (R6 i p) = int (min 128 p)"

definition ref_lo :: "ref_cidr \<Rightarrow> nat" where
  "ref_lo c = ref_val c - ref_val c mod ref_size c"

definition ref_hi :: "ref_cidr \<Rightarrow> nat" where
  "ref_hi c = ref_lo c + (ref_size c - 1)"

fun ref_host :: "ref_cidr \<Rightarrow> nat \<Rightarrow> ref_cidr" where
  "ref_host (R4 i p) v = R4 (of_bytes4 (bytes_of 4 v)) 32"
| "ref_host (R6 i p) v = R6 (of_bytes16 (bytes_of 16 v)) 128"

fun ref_to_inaddr :: "ref_cidr \<Rightarrow> in_addr option" where
  "ref_to_inaddr (R4 i p) = Some i"
| "ref_to_inaddr (R6 i p) = None"

fun ref_to_in6addr :: "ref_cidr \<Rightarrow> in6_addr option" where
  "ref_to_in6addr (R4 i p) = None"
| "ref_to_in6addr (R6 i p) = Some i"

definition ref_libcidr :: "ref_cidr libcidr" where
  "ref_libcidr =
     \<lparr> cidr_from_str = (\<lambda>s. None), cidr_to_str = (\<lambda>c f. None),
       cidr_get_proto = ref_proto, cidr_get_pflen = ref_pflen,
       cidr_to_inaddr = ref_to_inaddr, cidr_from_inaddr = (\<lambda>i. R4 i 32),
       cidr_to_in6addr = ref_to_in6addr, cidr_from_in6addr = (\<lambda>i. R6 i 128),
       cidr_contains = (\<lambda>b l. if ref_proto b = ref_proto l \<and> ref_lo b \<le> ref_lo l \<and> ref_hi l \<le> ref_hi b
                              then 0 else - 1),
       cidr_equals = (\<lambda>c d. if ref_proto c = ref_proto d \<and> ref_val c = ref_val d \<and> ref_pflen c = ref_pflen d
                            then 0 else - 1),
       cidr_addr_hostmin = (\<lambda>c. Some (ref_host c (if ref_size c \<le> 2 then ref_lo c else ref_lo c + 1))),
       cidr_addr_hostmax = (\<lambda>c. Some (ref_host c (if ref_size c \<le> 2 then ref_hi c else ref_hi c - 1))),
       cidr_addr_network = (\<lambda>c. Some (ref_host c (ref_lo c))),
       cidr_addr_broadcast = (\<lambda>c. Some (ref_host c (ref_hi c))),
       cidr_dup = Some \<rparr>"

lemma length_bytes_of [simp]: "length (bytes_of n v) = n"
  by (induction n v rule: bytes_of.induct) simp_all

lemma be_val_bytes_of: "v < 256 ^ n \<Longrightarrow> be_val (bytes_of n v) = v"
proof (induction n v rule: bytes_of.induct)
  case (2 n v)
  then have "v div 256 < 256 ^ n" by (simp add: less_mult_imp_div_less mult.commute)
  moreover have "unat (word_of_nat (v mod 256) :: u8) = v mod 256"
    by (simp add: unsigned_of_nat take_bit_eq_mod)
  ultimately show ?case using 2 by simp
qed simp

lemma ref_simps [simp]:
  "cidr_get_proto ref_libcidr = ref_proto" "cidr_get_pflen ref_libcidr = ref_pflen"
  "cidr_to_inaddr ref_libcidr = ref_to_inaddr" "cidr_to_in6addr ref_libcidr = ref_to_in6addr"
  "cidr_from_inaddr ref_libcidr i = R4 i 32" "cidr_from_in6addr ref_libcidr j = R6 j 128"
  "cidr_dup ref_libcidr = Some"
  by (simp_all add: ref_libcidr_def)

lemma c_val_ref [simp]: "c_val ref_libcidr c = ref_val c"
  by (cases c) (simp_all add: c_val_def inaddr_of_def in6addr_of_def)

lemma net_size_ref [simp]: "net_size ref_libcidr c = ref_size c"
  by (cases c) (simp_all add: net_size_def c_bits_def)

lemma net_ref [simp]: "net_lo ref_libcidr c = ref_lo c" "net_hi ref_libcidr c = ref_hi c"
  by (simp_all add: net_lo_def net_hi_def ref_lo_def ref_hi_def)

lemma block_top_lt:
  assumes "v < 2 ^ n" and "k \<le> n"
  shows "v - v mod 2 ^ k + (2 ^ k - 1) < (2 ^ n :: nat)"
proof -
  have p: "(2 ^ n :: nat) = 2 ^ (n - k) * 2 ^ k" using assms(2) by (simp flip: power_add)
  then have "v div 2 ^ k < 2 ^ (n - k)" using assms(1) by (simp add: less_mult_imp_div_less)
  then have "(v div 2 ^ k + 1) * 2 ^ k \<le> 2 ^ (n - k) * 2 ^ k" by (intro mult_right_mono) simp_all
  moreover have "v - v mod 2 ^ k = v div 2 ^ k * 2 ^ k"
    by (simp add: minus_mod_eq_div_mult)
  ultimately have "(v - v mod 2 ^ k) + 2 ^ k \<le> 2 ^ n" using p by (simp only: add_mult_distrib mult_1)
  moreover have "0 < (2 :: nat) ^ k" by simp
  ultimately show ?thesis by linarith
qed

lemma ref_hi_lt: "ref_hi c < (case c of R4 i p \<Rightarrow> 256 ^ 4 | R6 i p \<Rightarrow> 256 ^ 16)"
proof (cases c)
  case (R4 i p)
  then show ?thesis
    using block_top_lt [OF be_val4_lt [of i], of "32 - min 32 p"] by (simp add: ref_hi_def ref_lo_def)
next
  case (R6 i p)
  then show ?thesis
    using block_top_lt [OF be_val16_lt [of i], of "128 - min 128 p"] by (simp add: ref_hi_def ref_lo_def)
qed

lemma ref_val_host: "v \<le> ref_hi c \<Longrightarrow> ref_val (ref_host c v) = v"
  using ref_hi_lt [of c]
  by (cases c) (simp_all add: bytes4_of_bytes4 bytes16_of_bytes16 be_val_bytes_of)

lemma ref_proto_host [simp]: "ref_proto (ref_host c v) = ref_proto c"
  by (cases c) simp_all

lemma libcidr_doc_ref: "libcidr_doc ref_libcidr"
proof -
  have "0 \<le> ref_pflen c \<and> ref_pflen c \<le> int (c_bits ref_libcidr c)" for c
    by (cases c) (simp_all add: c_bits_def)
  moreover have "ref_proto c = CIDR_IPV4 \<longrightarrow> ref_to_inaddr c \<noteq> None"
    and "ref_proto c = CIDR_IPV6 \<longrightarrow> ref_to_in6addr c \<noteq> None" for c
    by (cases c; simp)+
  moreover have "cidr_equals ref_libcidr c d = 0 \<longleftrightarrow>
      ref_proto c = ref_proto d \<and> ref_val c = ref_val d \<and> ref_pflen c = ref_pflen d" for c d
    by (simp add: ref_libcidr_def)
  ultimately have "doc_structures ref_libcidr" by (simp add: doc_structures_def)
  moreover have "doc_from_addr ref_libcidr" by (simp add: doc_from_addr_def)
  moreover have "doc_blocks ref_libcidr"
    by (auto simp: doc_blocks_def ref_val_host) (simp_all add: ref_libcidr_def ref_val_host split: if_splits)
  ultimately show ?thesis by (simp add: libcidr_doc_def)
qed

lemmas docD = libcidr_doc_def doc_structures_def doc_from_addr_def doc_blocks_def

lemma inc_loop_val:
  "length bs = Suc n \<Longrightarrow> be_val (inc_loop n bs) = (be_val bs + 1) mod 256 ^ Suc n"
  using inc_loop_parts [of n bs] by (simp del: power_Suc)

lemma dec_loop_val:
  assumes "length bs = Suc n" and "0 < be_val bs"
  shows "be_val (dec_loop n bs) = be_val bs - 1"
proof -
  have "be_val bs = (be_val (dec_loop n bs) + 1) mod 256 ^ Suc n"
    using inc_loop_val [of "dec_loop n bs" n] inc_dec_loop [of n bs] assms(1) by simp
  moreover have "be_val (dec_loop n bs) < 256 ^ Suc n"
    using be_val_lt [of "dec_loop n bs"] assms(1) by simp
  ultimately show ?thesis
    using assms(2) by (cases "be_val (dec_loop n bs) + 1 = 256 ^ Suc n") simp_all
qed

text \<open>What a step does to a valid address: the same protocol, a host, the value moved by one.\<close>

definition host_with :: "'c libcidr \<Rightarrow> cidr_proto \<Rightarrow> nat \<Rightarrow> 'c CIDRAddress \<Rightarrow> bool" where
  "host_with L p v a \<longleftrightarrow>
     (\<exists>d. a = Some d \<and> cidr_get_proto L d = p \<and> c_val L d = v \<and>
          cidr_get_pflen L d = int (c_bits L d))"

lemma host_with_inaddr:
  "doc_from_addr L \<Longrightarrow> host_with L CIDR_IPV4 (be_val (bytes4 i)) (Some (cidr_from_inaddr L i))"
  by (simp add: host_with_def doc_from_addr_def c_val_def inaddr_of_def c_bits_def)

lemma host_with_in6addr:
  "doc_from_addr L \<Longrightarrow> host_with L CIDR_IPV6 (be_val (bytes16 i)) (Some (cidr_from_in6addr L i))"
  by (simp add: host_with_def doc_from_addr_def c_val_def in6addr_of_def c_bits_def)

lemma inc_invalid [simp]: "\<not> valid L a \<Longrightarrow> inc L a = a"
  by (cases a) (simp_all add: inc_def)

lemma dec_invalid [simp]: "\<not> valid L a \<Longrightarrow> dec L a = a"
  by (cases a) (simp_all add: dec_def)

lemma inc_host:
  assumes "libcidr_doc L" and "valid L (Some c)"
  shows "host_with L (cidr_get_proto L c) ((c_val L c + 1) mod 2 ^ c_bits L c) (inc L (Some c))"
  using assms(2)
proof (cases rule: validE)
  case (ipv4 c' i)
  have "inc L (Some c) = Some (cidr_from_inaddr L (of_bytes4 (inc_loop 3 (bytes4 i))))"
    using assms ipv4 by (simp add: inc_def inaddr_of_def docD)
  moreover have "be_val (bytes4 (of_bytes4 (inc_loop 3 (bytes4 i)))) = (c_val L c + 1) mod 2 ^ c_bits L c"
    using inc_loop_val [of "bytes4 i" 3] ipv4 by (simp add: bytes4_of_bytes4 c_bits_def)
  ultimately show ?thesis
    using host_with_inaddr [of L "of_bytes4 (inc_loop 3 (bytes4 i))"] assms(1) ipv4
    by (simp add: libcidr_doc_def)
next
  case (ipv6 c' i)
  have "inc L (Some c) = Some (cidr_from_in6addr L (of_bytes16 (inc_loop 15 (bytes16 i))))"
    using assms ipv6 by (simp add: inc_def in6addr_of_def docD)
  moreover have "be_val (bytes16 (of_bytes16 (inc_loop 15 (bytes16 i)))) = (c_val L c + 1) mod 2 ^ c_bits L c"
    using inc_loop_val [of "bytes16 i" 15] ipv6 by (simp add: bytes16_of_bytes16 c_bits_def)
  ultimately show ?thesis
    using host_with_in6addr [of L "of_bytes16 (inc_loop 15 (bytes16 i))"] assms(1) ipv6
    by (simp add: libcidr_doc_def)
qed

text \<open>\<open>operator++\<close> turns a valid address into the host whose value is one more, wrapping
  around at the end of the address space (32 bits for IPv4, 128 for IPv6), of the same protocol
  and with the full prefix length.\<close>

theorem inc_spec:
  assumes "libcidr_doc L" and "valid L (Some c)"
  shows "host_with L (cidr_get_proto L c) ((c_val L c + 1) mod 2 ^ c_bits L c) (inc L (Some c))"
  using assms by (rule inc_host)

lemma valid_ref4 [simp]: "valid ref_libcidr (Some (R4 (In_addr a b c d) p)) \<longleftrightarrow> \<not> (a = 0 \<and> b = 0 \<and> c = 0 \<and> d = 0)"
  by (auto simp: valid_def)

theorem inc_spec_witness:
  "host_with ref_libcidr CIDR_IPV4 (10 * 256 ^ 3 + 4 * 256)
     (inc ref_libcidr (Some (R4 (In_addr 10 0 3 255) 24)))"
  using inc_spec [OF libcidr_doc_ref, of "R4 (In_addr 10 0 3 255) 24"]
  by (simp add: be_val_def c_bits_def)

lemma dec_host:
  assumes "libcidr_doc L" and "valid L (Some c)"
  shows "0 < c_val L c \<and> host_with L (cidr_get_proto L c) (c_val L c - 1) (dec L (Some c))"
  using assms(2)
proof (cases rule: validE)
  case (ipv4 c' i)
  have "dec L (Some c) = Some (cidr_from_inaddr L (of_bytes4 (dec_loop 3 (bytes4 i))))"
    using assms ipv4 by (simp add: dec_def inaddr_of_def docD)
  moreover have "be_val (bytes4 (of_bytes4 (dec_loop 3 (bytes4 i)))) = c_val L c - 1"
    using dec_loop_val [of "bytes4 i" 3] ipv4 by (simp add: bytes4_of_bytes4)
  ultimately show ?thesis
    using host_with_inaddr [of L "of_bytes4 (dec_loop 3 (bytes4 i))"] assms(1) ipv4
    by (simp add: libcidr_doc_def)
next
  case (ipv6 c' i)
  have "dec L (Some c) = Some (cidr_from_in6addr L (of_bytes16 (dec_loop 15 (bytes16 i))))"
    using assms ipv6 by (simp add: dec_def in6addr_of_def docD)
  moreover have "be_val (bytes16 (of_bytes16 (dec_loop 15 (bytes16 i)))) = c_val L c - 1"
    using dec_loop_val [of "bytes16 i" 15] ipv6 by (simp add: bytes16_of_bytes16)
  ultimately show ?thesis
    using host_with_in6addr [of L "of_bytes16 (dec_loop 15 (bytes16 i))"] assms(1) ipv6
    by (simp add: libcidr_doc_def)
qed

text \<open>\<open>operator--\<close> turns a valid address into the host whose value is one less: it never
  wraps, since a valid address is not zero.\<close>

theorem dec_spec:
  assumes "libcidr_doc L" and "valid L (Some c)"
  shows "0 < c_val L c \<and> host_with L (cidr_get_proto L c) (c_val L c - 1) (dec L (Some c))"
  using assms by (rule dec_host)

theorem dec_spec_witness:
  "host_with ref_libcidr CIDR_IPV4 (10 * 256 ^ 3 + 3 * 256 + 255)
     (dec ref_libcidr (Some (R4 (In_addr 10 0 4 0) 24)))"
  using dec_spec [OF libcidr_doc_ref, of "R4 (In_addr 10 0 4 0) 24"]
  by (simp add: be_val_def)

end
