(* ===== verification/CidrList.thy ===== *)
theory CidrList
  imports Cidr
begin

text \<open>
  \<open>src/shared/cidr.cc\<close>, class \<open>CIDRList\<close>: iteration over the addresses of a list of networks with
  excludes. The object is a record; \<open>next\<close>, whose \<open>do\<close>/\<open>while\<close> need not end, is a
  \<open>partial_function\<close>: \<open>None\<close> is a call that does not return.
\<close>

record 'c CIDRList =
  networks :: "'c CIDRAddress list"
  excludedNetworks :: "'c CIDRAddress list"
  last_addr :: "'c CIDRAddress" \<comment> \<open>\<open>_last\<close>\<close>

definition CIDRList_new :: "'c CIDRList" where
  "CIDRList_new = \<lparr> networks = [], excludedNetworks = [], last_addr = None \<rparr>"

definition add :: "'c libcidr \<Rightarrow> 'c CIDRList \<Rightarrow> 'c CIDRAddress \<Rightarrow> 'c CIDRList \<times> bool" where
  "add L l net =
     (if \<not> valid L net then (l, False)
      else if (\<exists>n \<in> set (networks l). equals L n net) then (l, False)
      else (l\<lparr> networks := networks l @ [addr_dup L net] \<rparr>, True))"

definition add_string :: "'c libcidr \<Rightarrow> 'c CIDRList \<Rightarrow> string \<Rightarrow> 'c CIDRList \<times> bool" where
  "add_string L l net = add L l (CIDRAddress_string L net)"

definition exclude :: "'c libcidr \<Rightarrow> 'c CIDRList \<Rightarrow> 'c CIDRAddress \<Rightarrow> 'c CIDRList \<times> bool" where
  "exclude L l net =
     (if \<not> valid L net then (l, False)
      else if (\<exists>n \<in> set (excludedNetworks l). equals L n net) then (l, False)
      else (l\<lparr> excludedNetworks := excludedNetworks l @ [addr_dup L net] \<rparr>, True))"

definition exclude_string :: "'c libcidr \<Rightarrow> 'c CIDRList \<Rightarrow> string \<Rightarrow> 'c CIDRList \<times> bool" where
  "exclude_string L l net = exclude L l (CIDRAddress_string L net)"

definition firstAddress :: "'c libcidr \<Rightarrow> 'c CIDRList \<Rightarrow> 'c CIDRAddress" where
  "firstAddress L l =
     (case networks l of
        [] \<Rightarrow> None
      | n # ns \<Rightarrow>
          fold (\<lambda>n result. let addr = host L n in if addr_lt L addr result then addr_dup L addr else result)
            ns (host L n))"

definition lastAddress :: "'c libcidr \<Rightarrow> 'c CIDRList \<Rightarrow> 'c CIDRAddress" where
  "lastAddress L l =
     (case networks l of
        [] \<Rightarrow> None
      | n # ns \<Rightarrow>
          fold (\<lambda>n result. let addr = hostMax L n in if addr_gt L addr result then addr_dup L addr else result)
            ns (hostMax L n))"

text \<open>\<open>bestNetworkFor\<close> and \<open>bestExcludeFor\<close> are one loop over two vectors.\<close>

definition best_step ::
  "'c libcidr \<Rightarrow> 'c CIDRAddress \<Rightarrow> 'c CIDRAddress \<Rightarrow> int \<times> 'c CIDRAddress \<Rightarrow> int \<times> 'c CIDRAddress" where
  "best_step L address n acc =
     (case acc of (bestprefix, net) \<Rightarrow>
        if contains L n address
        then let prefix = prefix_len L n
             in if prefix > bestprefix then (prefix, addr_dup L n) else (bestprefix, net)
        else (bestprefix, net))"

definition bestNetworkFor :: "'c libcidr \<Rightarrow> 'c CIDRList \<Rightarrow> 'c CIDRAddress \<Rightarrow> 'c CIDRAddress" where
  "bestNetworkFor L l address = snd (fold (best_step L address) (networks l) (- 1, None))"

definition bestNetworkPrefixFor :: "'c libcidr \<Rightarrow> 'c CIDRList \<Rightarrow> 'c CIDRAddress \<Rightarrow> int" where
  "bestNetworkPrefixFor L l address =
     (let bestnet = bestNetworkFor L l address
      in if valid L bestnet then prefix_len L bestnet else - 1)"

definition bestExcludeFor :: "'c libcidr \<Rightarrow> 'c CIDRList \<Rightarrow> 'c CIDRAddress \<Rightarrow> 'c CIDRAddress" where
  "bestExcludeFor L l address = snd (fold (best_step L address) (excludedNetworks l) (- 1, None))"

definition bestExcludePrefixFor :: "'c libcidr \<Rightarrow> 'c CIDRList \<Rightarrow> 'c CIDRAddress \<Rightarrow> int" where
  "bestExcludePrefixFor L l address =
     (let bestnet = bestExcludeFor L l address
      in if valid L bestnet then prefix_len L bestnet else - 1)"

definition includes_addr :: "'c libcidr \<Rightarrow> 'c CIDRList \<Rightarrow> 'c CIDRAddress \<Rightarrow> bool" where
  "includes_addr L l address = (\<exists>n \<in> set (networks l). contains L n address)"

definition excludes_addr :: "'c libcidr \<Rightarrow> 'c CIDRList \<Rightarrow> 'c CIDRAddress \<Rightarrow> bool" where
  "excludes_addr L l address = (\<exists>n \<in> set (excludedNetworks l). contains L n address)"

definition pool_step :: "'c libcidr \<Rightarrow> 'c CIDRAddress \<Rightarrow> 'c CIDRAddress \<Rightarrow> 'c CIDRAddress \<Rightarrow> 'c CIDRAddress" where
  "pool_step L address n selected =
     (if addr_gt L n address \<and> protocol L n = 4
      then if valid L selected
           then if addr_lt L n selected then host L n else selected
           else host L n
      else selected)"

definition skipToNextPool :: "'c libcidr \<Rightarrow> 'c CIDRList \<Rightarrow> 'c CIDRAddress \<Rightarrow> 'c CIDRAddress" where
  \<comment> \<open>the new value of \<open>address\<close>\<close>
  "skipToNextPool L l address =
     (let selected = fold (pool_step L address) (networks l) None;
          selected = dec L selected
      in fst (set_addr L selected))"

definition exclude_step ::
  "'c libcidr \<Rightarrow> 'c CIDRAddress \<Rightarrow> 'c CIDRAddress \<Rightarrow> 'c CIDRAddress \<Rightarrow> 'c CIDRAddress \<Rightarrow> 'c CIDRAddress" where
  "exclude_step L address excludeEnd n selected =
     (if addr_gt L n address \<and> addr_lt L n excludeEnd
      then if valid L selected
           then if addr_lt L n selected then dec L (host L n) else selected
           else dec L (host L n)
      else selected)"

definition skipToExcludeEnd :: "'c libcidr \<Rightarrow> 'c CIDRList \<Rightarrow> 'c CIDRAddress \<Rightarrow> 'c CIDRAddress" where
  "skipToExcludeEnd L l address =
     (let currentExclude = bestExcludeFor L l address;
          excludeEnd = broadcast L currentExclude;
          selected = fold (exclude_step L address excludeEnd) (networks l) (addr_dup L excludeEnd)
      in fst (set_addr L selected))"

text \<open>\<open>_nextSimple\<close>: the new address and the new \<open>_last\<close>; its result is \<open>address.valid()\<close>.\<close>

definition nextSimple ::
  "'c libcidr \<Rightarrow> 'c CIDRList \<Rightarrow> 'c CIDRAddress \<Rightarrow> 'c CIDRAddress \<times> 'c CIDRList" where
  "nextSimple L l address =
     (if \<not> valid L address
      then (fst (set_addr L (firstAddress L l)), l\<lparr> last_addr := lastAddress L l \<rparr>)
      else let address = inc L address
           in (if addr_gt L address (last_addr l) then None else address, l))"

text \<open>The body of the loop of \<open>next\<close>: whether the address is filtered, its value, the list.\<close>

definition next_body ::
  "'c libcidr \<Rightarrow> 'c CIDRList \<Rightarrow> 'c CIDRAddress \<Rightarrow> bool \<times> 'c CIDRAddress \<times> 'c CIDRList" where
  "next_body L l address =
     (case nextSimple L l address of (address, l) \<Rightarrow>
        if \<not> valid L address then (False, address, l)
        else
          let iprefix = bestNetworkPrefixFor L l address
          in if iprefix = - 1 then (True, skipToNextPool L l address, l)
             else
               let eprefix = bestExcludePrefixFor L l address
               in if eprefix > iprefix then (True, skipToExcludeEnd L l address, l)
                  else
                    let net = bestNetworkFor L l address
                    in if prefix_len L net < 31 \<and>
                          (equals L address (host L net) \<or> equals L address (broadcast L net))
                       then (True, address, l)
                       else (False, address, l))"

partial_function (option) next_loop ::
  "'c libcidr \<Rightarrow> 'c CIDRList \<Rightarrow> 'c CIDRAddress \<Rightarrow> ('c CIDRAddress \<times> 'c CIDRList) option" where
  "next_loop L l address =
     (case next_body L l address of (filtered, address', l') \<Rightarrow>
        if filtered then next_loop L l' address' else Some (address', l'))"

definition next_addr ::
  "'c libcidr \<Rightarrow> 'c CIDRList \<Rightarrow> 'c CIDRAddress \<Rightarrow> (bool \<times> 'c CIDRAddress \<times> 'c CIDRList) option" where
  "next_addr L l address =
     (case next_loop L l address of
        Some (address', l') \<Rightarrow> Some (valid L address', address', l')
      | None \<Rightarrow> None)"

subsection \<open>Addresses of an IPv4 list, by value\<close>

definition is_v4 :: "'c libcidr \<Rightarrow> 'c CIDRAddress \<Rightarrow> bool" where
  "is_v4 L a \<longleftrightarrow> (\<exists>c. a = Some c \<and> cidr_get_proto L c = CIDR_IPV4 \<and> 0 < c_val L c)"

lemma addr_dup_id: "libcidr_doc L \<Longrightarrow> addr_dup L a = a"
  by (cases a) (simp_all add: addr_dup_def docD)

lemma is_v4_valid:
  assumes "libcidr_doc L" and "is_v4 L a"
  shows "valid L a"
proof -
  from assms(2) obtain c where c: "a = Some c" "cidr_get_proto L c = CIDR_IPV4" "0 < c_val L c"
    by (auto simp: is_v4_def)
  with assms(1) obtain i where "cidr_to_inaddr L c = Some i" by (auto simp: docD)
  with c show ?thesis by (auto simp: valid_def c_val_def inaddr_of_def be_val_eq_0_iff simp flip: neq0_conv)
qed

lemma is_v4E:
  assumes "libcidr_doc L" and "is_v4 L a"
  obtains c where "a = Some c" and "cidr_get_proto L c = CIDR_IPV4" and "0 < c_val L c"
    and "valid L (Some c)" and "addr_rank L a = c_val L c" and "c_val L c < 2 ^ 32"
proof -
  from assms(2) obtain c where c: "a = Some c" "cidr_get_proto L c = CIDR_IPV4" "0 < c_val L c"
    by (auto simp: is_v4_def)
  moreover from this have "c_val L c < 2 ^ 32" using be_val4_lt by (simp add: c_val_def)
  ultimately show thesis
    using that is_v4_valid [OF assms] by (simp add: addr_rank_def)
qed

lemma host_with_v4:
  assumes "libcidr_doc L" and "host_with L CIDR_IPV4 v a"
  shows "if 0 < v then is_v4 L a \<and> addr_rank L a = v else \<not> valid L a"
proof -
  from assms(2) obtain d where d: "a = Some d" "cidr_get_proto L d = CIDR_IPV4" "c_val L d = v"
    by (auto simp: host_with_def)
  show ?thesis
  proof (cases "0 < v")
    case True
    with d have "is_v4 L a" by (simp add: is_v4_def)
    with True d show ?thesis by (auto elim: is_v4E [OF assms(1)])
  next
    case False
    with d show ?thesis by (auto elim!: validE)
  qed
qed

lemma inc_v4:
  assumes "libcidr_doc L" and "is_v4 L a"
  shows "if addr_rank L a + 1 < 2 ^ 32 then is_v4 L (inc L a) \<and> addr_rank L (inc L a) = addr_rank L a + 1
         else \<not> valid L (inc L a)"
proof -
  from assms obtain c where c: "a = Some c" "cidr_get_proto L c = CIDR_IPV4" "0 < c_val L c"
    "valid L (Some c)" "addr_rank L a = c_val L c" "c_val L c < 2 ^ 32"
    by (rule is_v4E)
  have h: "host_with L CIDR_IPV4 ((c_val L c + 1) mod 2 ^ 32) (inc L a)"
    using inc_host [OF assms(1) c(4)] c by (simp add: c_bits_def)
  show ?thesis
  proof (cases "c_val L c + 1 < 2 ^ 32")
    case True
    then show ?thesis using host_with_v4 [OF assms(1) h] c by simp
  next
    case False
    with c(6) have "c_val L c + 1 = 2 ^ 32" by simp
    then show ?thesis using host_with_v4 [OF assms(1) h] c(5) by simp
  qed
qed

lemma dec_v4:
  assumes "libcidr_doc L" and "is_v4 L a" and "1 < addr_rank L a"
  shows "is_v4 L (dec L a)" and "addr_rank L (dec L a) = addr_rank L a - 1"
proof -
  from assms(1,2) obtain c where c: "a = Some c" "cidr_get_proto L c = CIDR_IPV4" "0 < c_val L c"
    "valid L (Some c)" "addr_rank L a = c_val L c" "c_val L c < 2 ^ 32"
    by (rule is_v4E)
  have "host_with L CIDR_IPV4 (c_val L c - 1) (dec L a)"
    using dec_host [OF assms(1) c(4)] c by simp
  from host_with_v4 [OF assms(1) this] assms(3) c(5)
  show "is_v4 L (dec L a)" and "addr_rank L (dec L a) = addr_rank L a - 1" by simp_all
qed

lemma host_v4:
  assumes "libcidr_doc L" and "is_v4 L a"
  shows "is_v4 L (host L a)" and "addr_rank L (host L a) = addr_rank L a"
    and "host_with L CIDR_IPV4 (addr_rank L a) (host L a)"
proof -
  from assms obtain c where c: "a = Some c" "cidr_get_proto L c = CIDR_IPV4" "0 < c_val L c"
    "valid L (Some c)" "addr_rank L a = c_val L c" "c_val L c < 2 ^ 32"
    by (rule is_v4E)
  have "host L a = Some (cidr_from_inaddr L (inaddr_of L c))" using c by (simp add: host_def)
  moreover have "c_val L c = be_val (bytes4 (inaddr_of L c))" using c by (simp add: c_val_def)
  ultimately show h: "host_with L CIDR_IPV4 (addr_rank L a) (host L a)"
    using host_with_inaddr [of L] assms(1) c by (simp add: libcidr_doc_def)
  from host_with_v4 [OF assms(1) h] c
  show "is_v4 L (host L a)" and "addr_rank L (host L a) = addr_rank L a" by simp_all
qed

definition block_of :: "'c libcidr \<Rightarrow> 'c CIDRAddress \<Rightarrow> nat \<times> nat" where
  "block_of L a = (case a of Some c \<Rightarrow> (net_lo L c, net_hi L c) | None \<Rightarrow> (1, 0))"

lemma net_lo_le: "net_lo L c \<le> c_val L c"
  by (simp add: net_lo_def)

lemma net_hi_ge: "c_val L c \<le> net_hi L c"
proof -
  have "c_val L c mod net_size L c < net_size L c" by (simp add: net_size_def)
  then show ?thesis by (simp add: net_hi_def net_lo_def)
qed

lemma broadcast_v4:
  assumes "libcidr_doc L" and "is_v4 L a"
  shows "is_v4 L (broadcast L a)" and "addr_rank L (broadcast L a) = snd (block_of L a)"
proof -
  from assms obtain c where c: "a = Some c" "cidr_get_proto L c = CIDR_IPV4" "0 < c_val L c"
    "valid L (Some c)"
    by (rule is_v4E)
  obtain d where d: "cidr_addr_broadcast L c = Some d" "cidr_get_proto L d = CIDR_IPV4"
      "c_val L d = net_hi L c"
    using assms(1) c(2) unfolding docD by (metis cidr_proto.distinct(1))
  have "broadcast L a = Some d" using c d by (simp add: broadcast_def)
  moreover have "0 < c_val L d" using c(3) d(3) net_hi_ge [of L c] by simp
  ultimately show v4: "is_v4 L (broadcast L a)" using d by (simp add: is_v4_def)
  show "addr_rank L (broadcast L a) = snd (block_of L a)"
    using v4 \<open>broadcast L a = Some d\<close> d(3) c(1) by (auto elim!: is_v4E [OF assms(1)] simp: block_of_def)
qed

lemma hostMax_v4:
  assumes "libcidr_doc L" and "is_v4 L a"
  shows "addr_rank L (hostMax L a) \<le> snd (block_of L a) \<and> addr_rank L (hostMax L a) < 2 ^ 32"
proof -
  from assms obtain c where c: "a = Some c" "cidr_get_proto L c = CIDR_IPV4" "0 < c_val L c"
    "valid L (Some c)"
    by (rule is_v4E)
  obtain d where d: "cidr_addr_hostmax L c = Some d" "cidr_get_proto L d = CIDR_IPV4"
      "c_val L d \<le> net_hi L c"
    using assms(1) c(2) unfolding docD by (metis cidr_proto.distinct(1) diff_le_self order_refl)
  have "hostMax L a = Some d" using c d by (simp add: hostMax_def)
  moreover have "c_val L d < 2 ^ 32" using d(2) be_val4_lt by (simp add: c_val_def)
  ultimately show ?thesis using c d by (simp add: addr_rank_def block_of_def)
qed

lemma contains_v4:
  assumes "libcidr_doc L" and "is_v4 L n" and "host_with L CIDR_IPV4 v a" and "0 < v"
  shows "contains L n a \<longleftrightarrow> fst (block_of L n) \<le> v \<and> v \<le> snd (block_of L n)"
proof -
  from assms(1,2) obtain c where c: "n = Some c" "cidr_get_proto L c = CIDR_IPV4" "valid L (Some c)"
    by (rule is_v4E)
  from assms(3) obtain d where d: "a = Some d" "cidr_get_proto L d = CIDR_IPV4" "c_val L d = v"
      "cidr_get_pflen L d = 32"
    by (auto simp: host_with_def c_bits_def)
  have "valid L (Some d)" using assms d by (simp add: is_v4_valid is_v4_def)
  moreover have "net_lo L d = v" and "net_hi L d = v"
    using d by (simp_all add: net_hi_def net_lo_def net_size_def c_bits_def)
  ultimately show ?thesis
    using c d assms(1) by (simp add: contains_def block_of_def docD)
qed

subsection \<open>The most specific network\<close>

lemma contains_prefix_nonneg:
  assumes "libcidr_doc L" and "contains L n a"
  shows "0 \<le> prefix_len L n" and "valid L n"
  using assms by (auto simp: contains_def prefix_len_def docD split: option.splits)

lemma best_step_apply:
  "libcidr_doc L \<Longrightarrow>
   best_step L a n (p, b) = (if contains L n a \<and> p < prefix_len L n then (prefix_len L n, n) else (p, b))"
  by (simp add: best_step_def Let_def addr_dup_id)

lemma best_fold:
  assumes "libcidr_doc L"
  shows "fold (best_step L a) ns (p, b) = (q, r) \<Longrightarrow>
    p \<le> q \<and> (\<forall>n \<in> set ns. contains L n a \<longrightarrow> prefix_len L n \<le> q) \<and>
    (q = p \<and> r = b \<or> r \<in> set ns \<and> contains L r a \<and> prefix_len L r = q \<and> p < q)"
proof (induction ns arbitrary: p b)
  case (Cons n ns)
  show ?case
  proof (cases "contains L n a \<and> prefix_len L n > p")
    case True
    then have "fold (best_step L a) ns (prefix_len L n, n) = (q, r)"
      using Cons.prems by (simp add: best_step_apply [OF assms])
    from Cons.IH [OF this] True show ?thesis by auto
  next
    case False
    then have "fold (best_step L a) ns (p, b) = (q, r)"
      using Cons.prems by (auto simp: best_step_apply [OF assms])
    from Cons.IH [OF this] False show ?thesis by auto
  qed
qed simp

definition best_of :: "'c libcidr \<Rightarrow> 'c CIDRAddress \<Rightarrow> 'c CIDRAddress list \<Rightarrow> 'c CIDRAddress \<Rightarrow> bool" where
  \<comment> \<open>\<open>r\<close> is a most specific network of \<open>ns\<close> around \<open>a\<close>, or null when there is none\<close>
  "best_of L a ns r \<longleftrightarrow>
     (if \<exists>n \<in> set ns. contains L n a
      then r \<in> set ns \<and> contains L r a \<and> (\<forall>n \<in> set ns. contains L n a \<longrightarrow> prefix_len L n \<le> prefix_len L r)
      else r = None)"

lemma best_of_fold:
  assumes "libcidr_doc L"
  shows "best_of L a ns (snd (fold (best_step L a) ns (- 1, None)))"
proof -
  obtain q r where qr: "fold (best_step L a) ns (- 1, None) = (q, r)" by force
  note f = best_fold [OF assms qr]
  show ?thesis
  proof (cases "\<exists>n \<in> set ns. contains L n a")
    case True
    then obtain n where "n \<in> set ns" "contains L n a" by auto
    with f contains_prefix_nonneg(1) [OF assms, of n a] have "- 1 < q" by force
    with f qr True show ?thesis by (auto simp: best_of_def)
  next
    case False
    with f qr show ?thesis by (auto simp: best_of_def)
  qed
qed

lemma best_prefix:
  assumes "libcidr_doc L" and "best_of L a ns r" and "p = (if valid L r then prefix_len L r else - 1)"
  shows "p = - 1 \<longleftrightarrow> (\<forall>n \<in> set ns. \<not> contains L n a)" and "- 1 \<le> p"
    and "\<And>n. n \<in> set ns \<Longrightarrow> contains L n a \<Longrightarrow> prefix_len L n \<le> p"
    and "p \<noteq> - 1 \<Longrightarrow> r \<in> set ns \<and> contains L r a \<and> prefix_len L r = p"
proof -
  have none: "\<not> valid L None" by (simp add: valid_def)
  have in_case: "r \<in> set ns \<and> contains L r a \<and> 0 \<le> prefix_len L r \<and> p = prefix_len L r \<and>
      (\<forall>n \<in> set ns. contains L n a \<longrightarrow> prefix_len L n \<le> p)" if "\<exists>n \<in> set ns. contains L n a"
    using that assms(2,3) contains_prefix_nonneg [OF assms(1), of r a] by (auto simp: best_of_def)
  have out_case: "p = - 1" if "\<not> (\<exists>n \<in> set ns. contains L n a)"
    using that assms(2,3) none by (simp add: best_of_def)
  show "p = - 1 \<longleftrightarrow> (\<forall>n \<in> set ns. \<not> contains L n a)" and "- 1 \<le> p"
    and "\<And>n. n \<in> set ns \<Longrightarrow> contains L n a \<Longrightarrow> prefix_len L n \<le> p"
    and "p \<noteq> - 1 \<Longrightarrow> r \<in> set ns \<and> contains L r a \<and> prefix_len L r = p"
    using in_case out_case by fastforce+
qed

lemma bestNetwork: "libcidr_doc L \<Longrightarrow> best_of L a (networks l) (bestNetworkFor L l a)"
  unfolding bestNetworkFor_def by (rule best_of_fold)

lemma bestExclude: "libcidr_doc L \<Longrightarrow> best_of L a (excludedNetworks l) (bestExcludeFor L l a)"
  unfolding bestExcludeFor_def by (rule best_of_fold)

lemmas bestNetworkPrefix = best_prefix [OF _ bestNetwork bestNetworkPrefixFor_def [unfolded Let_def]]
lemmas bestExcludePrefix = best_prefix [OF _ bestExclude bestExcludePrefixFor_def [unfolded Let_def]]

text \<open>\<open>bestNetworkFor\<close> returns one of the networks of the list that contain the address, with
  the longest prefix among them, and a null address exactly when the address is in no network of
  the list; \<open>bestExcludeFor\<close> does the same for the excludes.\<close>

theorem best_network_longest_prefix:
  assumes "libcidr_doc L"
  shows "best_of L a (networks l) (bestNetworkFor L l a) \<and>
         best_of L a (excludedNetworks l) (bestExcludeFor L l a) \<and>
         (bestNetworkPrefixFor L l a = - 1 \<longleftrightarrow> \<not> includes_addr L l a) \<and>
         (bestExcludePrefixFor L l a = - 1 \<longleftrightarrow> \<not> excludes_addr L l a)"
  using bestNetwork [OF assms] bestExclude [OF assms] bestNetworkPrefix(1) [OF assms assms]
    bestExcludePrefix(1) [OF assms assms]
  by (simp add: includes_addr_def excludes_addr_def)

theorem best_network_longest_prefix_witness:
  "bestNetworkPrefixFor ref_libcidr
     \<lparr> networks = [Some (R4 (In_addr 1 2 3 0) 24)], excludedNetworks = [], last_addr = None \<rparr>
     (Some (R4 (In_addr 9 9 9 9) 32)) = - 1"
  using best_network_longest_prefix [OF libcidr_doc_ref, of "Some (R4 (In_addr 9 9 9 9) 32)"
    "\<lparr> networks = [Some (R4 (In_addr 1 2 3 0) 24)], excludedNetworks = [], last_addr = None \<rparr>"]
  by (simp add: includes_addr_def contains_def ref_libcidr_def ref_lo_def ref_hi_def be_val_def)

subsection \<open>What \<open>next\<close> may return\<close>

definition reserved :: "'c libcidr \<Rightarrow> 'c CIDRAddress \<Rightarrow> 'c CIDRAddress \<Rightarrow> bool" where
  \<comment> \<open>the address that a network of more than two addresses was written with, or its broadcast address\<close>
  "reserved L net a \<longleftrightarrow>
     prefix_len L net < 31 \<and> (equals L a (host L net) \<or> equals L a (broadcast L net))"

definition eligible :: "'c libcidr \<Rightarrow> 'c CIDRList \<Rightarrow> 'c CIDRAddress \<Rightarrow> bool" where
  "eligible L l a \<longleftrightarrow>
     valid L a \<and>
     (\<exists>n \<in> set (networks l). contains L n a \<and>
        (\<forall>e \<in> set (excludedNetworks l). contains L e a \<longrightarrow> prefix_len L e \<le> prefix_len L n)) \<and>
     \<not> reserved L (bestNetworkFor L l a) a"

lemma same_networks [simp]:
  "bestNetworkFor L (l\<lparr> last_addr := x \<rparr>) a = bestNetworkFor L l a"
  "bestExcludeFor L (l\<lparr> last_addr := x \<rparr>) a = bestExcludeFor L l a"
  "bestNetworkPrefixFor L (l\<lparr> last_addr := x \<rparr>) a = bestNetworkPrefixFor L l a"
  "bestExcludePrefixFor L (l\<lparr> last_addr := x \<rparr>) a = bestExcludePrefixFor L l a"
  "eligible L (l\<lparr> last_addr := x \<rparr>) a = eligible L l a"
  by (simp_all add: bestNetworkFor_def bestExcludeFor_def bestNetworkPrefixFor_def
      bestExcludePrefixFor_def eligible_def Let_def)

lemma eligible_prefixes:
  assumes "libcidr_doc L"
  shows "eligible L l a \<longleftrightarrow>
    valid L a \<and> bestNetworkPrefixFor L l a \<noteq> - 1 \<and>
    bestExcludePrefixFor L l a \<le> bestNetworkPrefixFor L l a \<and>
    \<not> reserved L (bestNetworkFor L l a) a"
proof -
  let ?i = "bestNetworkPrefixFor L l a" and ?e = "bestExcludePrefixFor L l a"
  note I = bestNetworkPrefix [OF assms assms, where l = l and a = a]
  note E = bestExcludePrefix [OF assms assms, where l = l and a = a]
  have "(\<exists>n \<in> set (networks l). contains L n a \<and>
        (\<forall>e \<in> set (excludedNetworks l). contains L e a \<longrightarrow> prefix_len L e \<le> prefix_len L n)) \<longleftrightarrow>
      ?i \<noteq> - 1 \<and> ?e \<le> ?i"
  proof
    assume "\<exists>n \<in> set (networks l). contains L n a \<and>
        (\<forall>e \<in> set (excludedNetworks l). contains L e a \<longrightarrow> prefix_len L e \<le> prefix_len L n)"
    then obtain n where n: "n \<in> set (networks l)" "contains L n a"
      and le: "\<And>e. e \<in> set (excludedNetworks l) \<Longrightarrow> contains L e a \<Longrightarrow> prefix_len L e \<le> prefix_len L n"
      by auto
    have i: "?i \<noteq> - 1" and ni: "prefix_len L n \<le> ?i" using n I by auto
    moreover have "?e \<le> ?i"
    proof (cases "?e = - 1")
      case True
      then show ?thesis using I(2) by simp
    next
      case False
      then show ?thesis using le E(4) ni by force
    qed
    ultimately show "?i \<noteq> - 1 \<and> ?e \<le> ?i" by simp
  next
    assume "?i \<noteq> - 1 \<and> ?e \<le> ?i"
    then show "\<exists>n \<in> set (networks l). contains L n a \<and>
        (\<forall>e \<in> set (excludedNetworks l). contains L e a \<longrightarrow> prefix_len L e \<le> prefix_len L n)"
      using I(4) E(3) by force
  qed
  then show ?thesis by (simp add: eligible_def)
qed

lemma next_body_eligible:
  assumes "libcidr_doc L" and "nextSimple L l a = (b, l')"
  shows "next_body L l a =
    (if \<not> valid L b \<or> eligible L l' b then (False, b, l')
     else (True, (if bestNetworkPrefixFor L l' b = - 1 then skipToNextPool L l' b
                  else if bestExcludePrefixFor L l' b > bestNetworkPrefixFor L l' b
                  then skipToExcludeEnd L l' b
                  else b), l'))"
  unfolding next_body_def eligible_prefixes [OF assms(1)] assms(2) prod.case Let_def reserved_def
  by auto

lemma nextSimple_list:
  "nextSimple L l a = (b, l') \<Longrightarrow> l' = l \<or> (\<exists>x. l' = l\<lparr> last_addr := x \<rparr>)"
  by (auto simp: nextSimple_def Let_def split: if_splits)

lemmas next_loop_induct = next_loop.raw_induct [rotated, consumes 1, case_names step]

lemma next_loop_eligible:
  assumes "next_loop L l a = Some r" and "libcidr_doc L"
  shows "networks (snd r) = networks l \<and> excludedNetworks (snd r) = excludedNetworks l \<and>
    (valid L (fst r) \<longrightarrow> eligible L l (fst r))"
  using assms
proof (induction L l a r rule: next_loop_induct)
  case (step loop L l a r)
  obtain c m where ns: "nextSimple L l a = (c, m)" by force
  obtain f a1 m1 where body: "next_body L l a = (f, a1, m1)" using prod_cases3 by blast
  note b = body [unfolded next_body_eligible [OF step.prems ns]]
  from b have m1: "m1 = l \<or> (\<exists>x. m1 = l\<lparr> last_addr := x \<rparr>)"
    using nextSimple_list [OF ns] by (auto split: if_splits)
  show ?case
  proof (cases f)
    case True
    with step.hyps body have "loop L m1 a1 = Some r" by simp
    from step.IH [OF this step.prems] m1 show ?thesis by auto
  next
    case False
    with step.hyps body have "r = (a1, m1)" by simp
    with m1 b False show ?thesis by (auto split: if_splits)
  qed
qed

subsection \<open>Progress on a list of IPv4 networks\<close>

definition v4_list :: "'c libcidr \<Rightarrow> 'c CIDRList \<Rightarrow> bool" where
  "v4_list L l \<longleftrightarrow> (\<forall>n \<in> set (networks l). is_v4 L n)"

definition last_covered :: "'c libcidr \<Rightarrow> 'c CIDRList \<Rightarrow> bool" where
  \<comment> \<open>\<open>_last\<close> is not set, or lies in (or before) a network of the list\<close>
  "last_covered L l \<longleftrightarrow>
     \<not> valid L (last_addr l) \<or> (\<exists>n \<in> set (networks l). addr_rank L (last_addr l) \<le> snd (block_of L n))"

lemma is_v4_rank: "libcidr_doc L \<Longrightarrow> is_v4 L a \<Longrightarrow> 0 < addr_rank L a \<and> addr_rank L a < 2 ^ 32"
  by (auto elim!: is_v4E)

lemma protocol_v4: "libcidr_doc L \<Longrightarrow> is_v4 L a \<Longrightarrow> protocol L a = 4"
  by (auto elim!: is_v4E simp: protocol_def)

lemma rank_in_block:
  "libcidr_doc L \<Longrightarrow> is_v4 L a \<Longrightarrow> fst (block_of L a) \<le> addr_rank L a \<and> addr_rank L a \<le> snd (block_of L a)"
  using net_lo_le [of L] net_hi_ge [of L] by (auto elim!: is_v4E simp: block_of_def)

lemma not_valid_None [simp]: "\<not> valid L None"
  by (simp add: valid_def)

lemma pool_fold:
  assumes "libcidr_doc L"
  shows "\<forall>n \<in> set ns. is_v4 L n \<Longrightarrow> s = None \<or> is_v4 L s \<and> addr_rank L a < addr_rank L s \<Longrightarrow>
    (let r = fold (pool_step L a) ns s
     in (if s = None \<and> (\<forall>n \<in> set ns. addr_rank L n \<le> addr_rank L a) then r = None
         else is_v4 L r \<and> addr_rank L a < addr_rank L r) \<and>
        (s \<noteq> None \<longrightarrow> addr_rank L r \<le> addr_rank L s) \<and>
        (\<forall>n \<in> set ns. addr_rank L a < addr_rank L n \<longrightarrow> addr_rank L r \<le> addr_rank L n))"
proof (induction ns arbitrary: s)
  case (Cons n ns)
  define s' where "s' = pool_step L a n s"
  have n: "is_v4 L n" using Cons.prems by simp
  note h = host_v4 [OF assms n] is_v4_valid [OF assms]
  have s': "s' = (if addr_rank L a < addr_rank L n \<and> (s = None \<or> addr_rank L n < addr_rank L s)
                  then host L n else s)"
    using Cons.prems(2) h(4)
    by (auto simp: s'_def pool_step_def addr_gt_iff addr_lt_iff protocol_v4 [OF assms n])
  then have "s' = None \<or> is_v4 L s' \<and> addr_rank L a < addr_rank L s'"
    using Cons.prems(2) h by auto
  note IH = Cons.IH [OF _ this]
  have ne: "host L n \<noteq> None" using h(1) by (auto simp: is_v4_def)
  have "fold (pool_step L a) (n # ns) s = fold (pool_step L a) ns s'" by (simp add: s'_def)
  then show ?case
    using IH Cons.prems s' h(2) ne by (auto simp: Let_def split: if_splits)
qed (auto simp: Let_def)

lemma skipToNextPool_v4:
  assumes "libcidr_doc L" and "v4_list L l" and "host_with L CIDR_IPV4 v a" and "0 < v"
    and "\<forall>n \<in> set (networks l). \<not> contains L n a" and "\<exists>n \<in> set (networks l). v \<le> snd (block_of L n)"
  shows "is_v4 L (skipToNextPool L l a)" and "v \<le> addr_rank L (skipToNextPool L l a)"
    and "n \<in> set (networks l) \<Longrightarrow> v < addr_rank L n \<Longrightarrow> addr_rank L (skipToNextPool L l a) < addr_rank L n"
proof -
  have v4: "\<forall>n \<in> set (networks l). is_v4 L n" using assms(2) by (simp add: v4_list_def)
  have a: "addr_rank L a = v" using host_with_v4 [OF assms(1,3)] assms(4) by simp
  define r where "r = fold (pool_step L a) (networks l) None"
  from assms(6) obtain m where m: "m \<in> set (networks l)" "v \<le> snd (block_of L m)" by auto
  with assms v4 have "v < fst (block_of L m)" by (auto simp: contains_v4)
  then have "v < addr_rank L m" using rank_in_block [OF assms(1), of m] m v4 by force
  with m have "\<not> (\<forall>n \<in> set (networks l). addr_rank L n \<le> v)" by (meson not_le)
  then have r: "is_v4 L r" "v < addr_rank L r"
    "\<And>n. n \<in> set (networks l) \<Longrightarrow> v < addr_rank L n \<Longrightarrow> addr_rank L r \<le> addr_rank L n"
    using pool_fold [OF assms(1) v4, of None a, unfolded Let_def a] by (auto simp: r_def split: if_splits)
  then have "1 < addr_rank L r" using assms(4) by simp
  note d = dec_v4 [OF assms(1) r(1) this]
  have s: "skipToNextPool L l a = dec L r"
    by (simp add: skipToNextPool_def set_addr_def Let_def addr_dup_id [OF assms(1)] r_def)
  show "is_v4 L (skipToNextPool L l a)" and "v \<le> addr_rank L (skipToNextPool L l a)"
    using d r s by simp_all
  show "addr_rank L (skipToNextPool L l a) < addr_rank L n"
    if "n \<in> set (networks l)" and "v < addr_rank L n"
    using r(3) [OF that] d s r(2) by simp
qed

lemma exclude_fold:
  assumes "libcidr_doc L" and "0 < addr_rank L a"
  shows "\<forall>n \<in> set ns. is_v4 L n \<Longrightarrow> is_v4 L s \<Longrightarrow> addr_rank L a \<le> addr_rank L s \<Longrightarrow>
    is_v4 L (fold (exclude_step L a e) ns s) \<and> addr_rank L a \<le> addr_rank L (fold (exclude_step L a e) ns s)"
proof (induction ns arbitrary: s)
  case (Cons n ns)
  have n: "is_v4 L n" using Cons.prems by simp
  note h = host_v4 [OF assms(1) n]
  have "is_v4 L (exclude_step L a e n s) \<and> addr_rank L a \<le> addr_rank L (exclude_step L a e n s)"
    using Cons.prems dec_v4 [OF assms(1) h(1)] h(2) assms(2)
    by (auto simp: exclude_step_def addr_gt_iff addr_lt_iff)
  then show ?case using Cons by simp
qed simp

lemma contains_same_proto:
  assumes "libcidr_doc L" and "contains L e a" and "is_v4 L a"
  shows "is_v4 L e" and "addr_rank L a \<le> snd (block_of L e)"
proof -
  from assms(1,3) obtain c where c: "a = Some c" "cidr_get_proto L c = CIDR_IPV4" "addr_rank L a = c_val L c"
    by (rule is_v4E)
  with assms(1,2) obtain d where d: "e = Some d" "valid L (Some d)" "cidr_get_proto L d = CIDR_IPV4"
      "net_hi L c \<le> net_hi L d"
    by (auto simp: contains_def docD split: option.splits)
  show "is_v4 L e" using d by (auto simp: is_v4_def elim!: validE)
  show "addr_rank L a \<le> snd (block_of L e)" using c d net_hi_ge [of L c] by (simp add: block_of_def)
qed

lemma skipToExcludeEnd_v4:
  assumes "libcidr_doc L" and "v4_list L l" and "is_v4 L a"
    and "bestExcludePrefixFor L l a \<noteq> - 1"
  shows "is_v4 L (skipToExcludeEnd L l a)" and "addr_rank L a \<le> addr_rank L (skipToExcludeEnd L l a)"
proof -
  let ?e = "bestExcludeFor L l a"
  have "contains L ?e a" using bestExcludePrefix(4) [OF assms(1,1)] assms(4) by blast
  note e = contains_same_proto [OF assms(1) this assms(3)]
  note b = broadcast_v4 [OF assms(1) e(1)]
  have "skipToExcludeEnd L l a = fold (exclude_step L a (broadcast L ?e)) (networks l) (broadcast L ?e)"
    by (simp add: skipToExcludeEnd_def set_addr_def Let_def addr_dup_id [OF assms(1)])
  then show "is_v4 L (skipToExcludeEnd L l a)" and "addr_rank L a \<le> addr_rank L (skipToExcludeEnd L l a)"
    using exclude_fold [OF assms(1), of a "networks l" "broadcast L ?e" "broadcast L ?e"] assms(2,3) b e(2)
      is_v4_rank [OF assms(1,3)]
    by (simp_all add: v4_list_def)
qed

lemma fold_choose_member: "(\<And>x m. g x m = x \<or> g x m = m) \<Longrightarrow> fold g xs m \<in> set (m # xs)"
proof (induction xs arbitrary: m)
  case (Cons x xs)
  from Cons.IH [OF Cons.prems, of "g x m"] Cons.prems [of x m] show ?case by auto
qed simp

lemma firstAddress_v4:
  assumes "libcidr_doc L" and "v4_list L l"
  shows "if networks l = [] then firstAddress L l = None
         else firstAddress L l \<in> host L ` set (networks l) \<and>
              (\<forall>n \<in> set (networks l). addr_rank L (firstAddress L l) \<le> addr_rank L n)"
proof (cases "networks l")
  case (Cons n ns)
  let ?g = "\<lambda>n result. if compare L n result = - 1 then n else result"
  have "firstAddress L l = fold ?g (map (host L) ns) (host L n)"
    by (simp add: firstAddress_def Cons Let_def addr_lt_def addr_dup_id [OF assms(1)] fold_map comp_def cong: if_cong)
  with address_order.scan_min [of L "map (host L) ns" "host L n"]
  have f: "firstAddress L l \<in> host L ` set (networks l)"
    "\<forall>x \<in> set (networks l). addr_rank L (firstAddress L l) \<le> addr_rank L (host L x)"
    using Cons by simp_all
  then show ?thesis using Cons assms(2) host_v4(2) [OF assms(1)] by (auto simp: v4_list_def)
qed (simp add: firstAddress_def)

lemma lastAddress_v4:
  assumes "libcidr_doc L" and "v4_list L l"
  shows "if networks l = [] then lastAddress L l = None
         else lastAddress L l \<in> hostMax L ` set (networks l) \<and>
              (\<forall>n \<in> set (networks l). addr_rank L (hostMax L n) \<le> addr_rank L (lastAddress L l))"
proof (cases "networks l")
  case (Cons n ns)
  let ?g = "\<lambda>n result. if compare L n result = 1 then n else result"
  have "lastAddress L l = fold ?g (map (hostMax L) ns) (hostMax L n)"
    by (simp add: lastAddress_def Cons Let_def addr_gt_def addr_dup_id [OF assms(1)] fold_map comp_def cong: if_cong)
  with address_order.scan_max [of L "map (hostMax L) ns" "hostMax L n"]
  show ?thesis using Cons by simp
qed (simp add: lastAddress_def)

lemma last_covered_lastAddress:
  assumes "libcidr_doc L" and "v4_list L l"
  shows "last_covered L (l\<lparr> last_addr := lastAddress L l \<rparr>)"
proof (cases "networks l = []")
  case True
  then show ?thesis using lastAddress_v4 [OF assms] by (simp add: last_covered_def)
next
  case False
  with lastAddress_v4 [OF assms] obtain n where "n \<in> set (networks l)" "lastAddress L l = hostMax L n"
    by auto
  with hostMax_v4 [OF assms(1), of n] assms(2) show ?thesis by (auto simp: last_covered_def v4_list_def)
qed

text \<open>The address \<open>next\<close> evaluates after \<open>_nextSimple\<close> is a host of the range up to \<open>_last\<close>.\<close>

lemma nextSimple_v4:
  assumes "libcidr_doc L" and "v4_list L l" and "last_covered L l" and "\<not> valid L a \<or> is_v4 L a"
    and "nextSimple L l a = (b, l')" and "valid L b"
  shows "last_covered L l'" and "host_with L CIDR_IPV4 (addr_rank L b) b" and "is_v4 L b"
    and "\<exists>n \<in> set (networks l). addr_rank L b \<le> snd (block_of L n)"
    and "valid L a \<Longrightarrow> l' = l \<and> addr_rank L b = addr_rank L a + 1 \<and> addr_rank L b \<le> addr_rank L (last_addr l)"
    and "\<not> valid L a \<Longrightarrow> l' = l\<lparr> last_addr := lastAddress L l \<rparr> \<and>
           (\<forall>n \<in> set (networks l). addr_rank L b \<le> addr_rank L n)"
proof -
  have all: "last_covered L l' \<and> host_with L CIDR_IPV4 (addr_rank L b) b \<and> is_v4 L b \<and>
      (\<exists>n \<in> set (networks l). addr_rank L b \<le> snd (block_of L n)) \<and>
      (valid L a \<longrightarrow> l' = l \<and> addr_rank L b = addr_rank L a + 1 \<and> addr_rank L b \<le> addr_rank L (last_addr l)) \<and>
      (\<not> valid L a \<longrightarrow> l' = l\<lparr> last_addr := lastAddress L l \<rparr> \<and>
           (\<forall>n \<in> set (networks l). addr_rank L b \<le> addr_rank L n))"
  proof (cases "valid L a")
    case True
    with assms(4) have a: "is_v4 L a" by simp
    from True assms(5,6) have b: "b = inc L a" "l' = l" "addr_rank L b \<le> addr_rank L (last_addr l)"
      by (auto simp: nextSimple_def Let_def addr_gt_iff split: if_splits)
    with inc_v4 [OF assms(1) a] assms(6)
    have v4: "is_v4 L b" "addr_rank L b = addr_rank L a + 1" by (auto split: if_splits)
    from assms(1) a obtain c where c: "a = Some c" "cidr_get_proto L c = CIDR_IPV4" "valid L (Some c)"
      by (rule is_v4E)
    have "\<exists>v. host_with L CIDR_IPV4 v b" using inc_host [OF assms(1) c(3)] c b(1) by auto
    with host_with_v4 [OF assms(1)] assms(6) have "host_with L CIDR_IPV4 (addr_rank L b) b"
      by (metis (full_types))
    moreover have "valid L (last_addr l)"
      using b(3) v4(2) by (metis add_is_0 addr_rank_eq_0 le_zero_eq one_neq_zero)
    ultimately show ?thesis using v4 b True assms(3) by (auto simp: last_covered_def intro: order_trans)
  next
    case False
    with assms(5) have b: "b = firstAddress L l" "l' = l\<lparr> last_addr := lastAddress L l \<rparr>"
      by (auto simp: nextSimple_def set_addr_def addr_dup_id [OF assms(1)] Let_def)
    with assms(6) firstAddress_v4 [OF assms(1,2)]
    obtain n where n: "n \<in> set (networks l)" "b = host L n"
      and le: "\<forall>n \<in> set (networks l). addr_rank L b \<le> addr_rank L n"
      by (auto split: if_splits)
    with assms(2) have v4: "is_v4 L n" by (simp add: v4_list_def)
    show ?thesis
      using False b(2) le n host_v4 [OF assms(1) v4] rank_in_block [OF assms(1) v4]
        last_covered_lastAddress [OF assms(1,2)]
      by auto
  qed
  then show "last_covered L l'" and "host_with L CIDR_IPV4 (addr_rank L b) b" and "is_v4 L b"
    and "\<exists>n \<in> set (networks l). addr_rank L b \<le> snd (block_of L n)"
    and "valid L a \<Longrightarrow> l' = l \<and> addr_rank L b = addr_rank L a + 1 \<and> addr_rank L b \<le> addr_rank L (last_addr l)"
    and "\<not> valid L a \<Longrightarrow> l' = l\<lparr> last_addr := lastAddress L l \<rparr> \<and>
           (\<forall>n \<in> set (networks l). addr_rank L b \<le> addr_rank L n)"
    by blast+
qed

lemma next_body_v4:
  assumes "libcidr_doc L" and "v4_list L l" and "last_covered L l" and "\<not> valid L a \<or> is_v4 L a"
    and "next_body L l a = (f, b, l')"
  shows "v4_list L l' \<and> last_covered L l' \<and> (f \<longrightarrow> is_v4 L b \<and> addr_rank L a < addr_rank L b) \<and>
         (\<not> f \<and> valid L b \<longrightarrow> is_v4 L b \<and> addr_rank L a < addr_rank L b)"
proof -
  obtain c m where ns: "nextSimple L l a = (c, m)" by force
  note body = next_body_eligible [OF assms(1) ns] assms(5)
  have l': "l' = m" using body by (auto split: if_splits)
  have nets: "networks m = networks l" using nextSimple_list [OF ns] by auto
  have v4m: "v4_list L m" using assms(2) by (simp add: v4_list_def nets)
  show ?thesis
  proof (cases "valid L c")
    case False
    then have "f = False" "b = c" using body by auto
    moreover have "last_covered L m"
      using ns last_covered_lastAddress [OF assms(1,2)] assms(3)
      by (auto simp: nextSimple_def Let_def split: if_splits)
    ultimately show ?thesis using False v4m l' by simp
  next
    case True
    note c = nextSimple_v4 [OF assms(1-4) ns True]
    have lt: "addr_rank L a < addr_rank L c"
      using c(5) is_v4_rank [OF assms(1) c(3)] addr_rank_eq_0 [of L a] by (cases "valid L a") (auto simp del: addr_rank_eq_0)
    have pos: "0 < addr_rank L c" using True by (simp flip: neq0_conv)
    have "is_v4 L b \<and> addr_rank L c \<le> addr_rank L b"
    proof (cases "eligible L m c")
      case True
      then show ?thesis using body c(3) by auto
    next
      case False
      show ?thesis
      proof (cases "bestNetworkPrefixFor L m c = - 1")
        case True
        have "\<forall>n \<in> set (networks m). \<not> contains L n c"
          using bestNetworkPrefix(1) [OF assms(1,1), of m c] True by simp
        note s = skipToNextPool_v4 [OF assms(1) v4m c(2) pos this] c(4)
        then show ?thesis using body False True \<open>valid L c\<close> nets by auto
      next
        case np: False
        show ?thesis
        proof (cases "bestExcludePrefixFor L m c > bestNetworkPrefixFor L m c")
          case True
          then have "bestExcludePrefixFor L m c \<noteq> - 1"
            using bestNetworkPrefix(2) [OF assms(1,1), of m c] by linarith
          note s = skipToExcludeEnd_v4 [OF assms(1) v4m c(3) this]
          then show ?thesis using body False True np \<open>valid L c\<close> by auto
        next
          case False
          then show ?thesis using body \<open>\<not> eligible L m c\<close> np \<open>valid L c\<close> c(3) by auto
        qed
      qed
    qed
    then show ?thesis using lt v4m c(1) l' by auto
  qed
qed

lemma next_loop_v4:
  assumes "libcidr_doc L"
  shows "v4_list L l \<Longrightarrow> last_covered L l \<Longrightarrow> \<not> valid L a \<or> is_v4 L a \<Longrightarrow>
    \<exists>b l'. next_loop L l a = Some (b, l') \<and> v4_list L l' \<and> last_covered L l' \<and>
      (valid L b \<longrightarrow> is_v4 L b \<and> addr_rank L a < addr_rank L b)"
proof (induction "2 ^ 32 - addr_rank L a" arbitrary: l a rule: less_induct)
  case less
  obtain f b m where body: "next_body L l a = (f, b, m)" using prod_cases3 by blast
  note B = next_body_v4 [OF assms less.prems body]
  show ?case
  proof (cases f)
    case False
    with body B show ?thesis by (subst next_loop.simps) auto
  next
    case True
    with B have b: "is_v4 L b" "addr_rank L a < addr_rank L b" by auto
    have "2 ^ 32 - addr_rank L b < 2 ^ 32 - addr_rank L a"
      using b(2) is_v4_rank [OF assms b(1)] by auto
    from less.hyps [OF this, of m] B b(1) obtain b' l' where
      "next_loop L m b = Some (b', l')" "v4_list L l'" "last_covered L l'"
      "valid L b' \<longrightarrow> is_v4 L b' \<and> addr_rank L b < addr_rank L b'"
      by auto
    with body True b(2) show ?thesis by (subst next_loop.simps) auto
  qed
qed

text \<open>What \<open>next\<close> leaves is a host, and never the address its most specific network was written with.\<close>

lemma next_loop_host:
  assumes "next_loop L l a = Some r" and "libcidr_doc L" and "v4_list L l" and "last_covered L l"
    and "\<not> valid L a \<or> is_v4 L a" and "valid L (fst r)"
  shows "host_with L CIDR_IPV4 (addr_rank L (fst r)) (fst r)"
  using assms
proof (induction L l a r rule: next_loop_induct)
  case (step loop L l a r)
  obtain c m where ns: "nextSimple L l a = (c, m)" by force
  obtain f b m1 where body: "next_body L l a = (f, b, m1)" using prod_cases3 by blast
  note B = next_body_v4 [OF step.prems(1-4) body]
  show ?case
  proof (cases f)
    case True
    with step.hyps body have "loop L m1 b = Some r" by simp
    from step.IH [OF this step.prems(1)] B True step.prems(5) show ?thesis by blast
  next
    case False
    with step.hyps body have r: "r = (b, m1)" by simp
    with False step.prems(5) have "b = c"
      using body [unfolded next_body_eligible [OF step.prems(1) ns]] by (auto split: if_splits)
    with r step.prems(5) nextSimple_v4(2) [OF step.prems(1-4) ns] show ?thesis by simp
  qed
qed

lemma reserved_value:
  assumes "libcidr_doc L" and "host_with L CIDR_IPV4 v b" and "is_v4 L net" and "0 < v"
    and "prefix_len L net < 31" and "addr_rank L net = v"
  shows "reserved L net b"
proof -
  note h = host_v4 [OF assms(1,3)]
  have valid: "valid L b" "valid L (host L net)"
    using host_with_v4 [OF assms(1,2)] assms(4) is_v4_valid [OF assms(1)] h(1) by simp_all
  from assms(2) obtain c where c: "b = Some c" "cidr_get_proto L c = CIDR_IPV4" "c_val L c = v"
      "cidr_get_pflen L c = int (c_bits L c)" by (auto simp: host_with_def)
  from h(3) assms(6) obtain d where d: "host L net = Some d" "cidr_get_proto L d = CIDR_IPV4" "c_val L d = v"
      "cidr_get_pflen L d = int (c_bits L d)" by (auto simp: host_with_def)
  have "cidr_equals L d c = 0" using assms(1) c d by (simp add: docD c_bits_def)
  with valid c d have "equals L b (host L net)" by (simp add: equals_def)
  with assms(5) show ?thesis by (simp add: reserved_def)
qed

lemma eligible_not_written:
  assumes "libcidr_doc L" and "v4_list L l" and "eligible L l b" and "host_with L CIDR_IPV4 (addr_rank L b) b"
    and "prefix_len L (bestNetworkFor L l b) < 31"
  shows "addr_rank L b \<noteq> addr_rank L (bestNetworkFor L l b)"
proof
  assume eq: "addr_rank L b = addr_rank L (bestNetworkFor L l b)"
  have "bestNetworkFor L l b \<in> set (networks l)"
    using bestNetwork [OF assms(1), of b l] assms(3) by (auto simp: best_of_def eligible_def split: if_splits)
  with assms(2) have "is_v4 L (bestNetworkFor L l b)" by (simp add: v4_list_def)
  moreover have "0 < addr_rank L b" using assms(3) by (simp add: eligible_def flip: neq0_conv)
  ultimately have "reserved L (bestNetworkFor L l b) b"
    using reserved_value [OF assms(1,4)] assms(5) eq by simp
  with assms(3) show False by (simp add: eligible_def)
qed

text \<open>C8. On a list of IPv4 networks (with any excludes) every call of \<open>next\<close> returns, from an
  invalid address or from an IPv4 address. When it answers true, the address it leaves lies in a
  network of the list at least as specific as every exclude around it, is neither the address its
  most specific network was written with, \<open>host(net)\<close>, nor that network's \<open>broadcast()\<close> (where the
  prefix length is below 31), and is higher than the address before the call. The networks and the
  excludes are unchanged, and the call can be repeated. (The comment of \<open>next\<close> promises that network
  addresses are filtered. That holds where a network is written with its network address; one that
  is written with another address keeps it in the walk, by \<open>network_address_returned\<close>.) The list has
  not been walked, or the last address it remembers is not above its networks; libcidr is as
  documented.\<close>

theorem next_ipv4_terminates_and_advances:
  assumes "libcidr_doc L" and "v4_list L l" and "last_covered L l" and "\<not> valid L a \<or> is_v4 L a"
  shows "\<exists>b l'. next_addr L l a = Some (valid L b, b, l') \<and>
    networks l' = networks l \<and> excludedNetworks l' = excludedNetworks l \<and> last_covered L l' \<and>
    (valid L b \<longrightarrow> eligible L l b \<and> is_v4 L b \<and> addr_rank L a < addr_rank L b \<and>
       (prefix_len L (bestNetworkFor L l b) < 31 \<longrightarrow> addr_rank L b \<noteq> addr_rank L (bestNetworkFor L l b)))"
proof -
  from next_loop_v4 [OF assms] obtain b l' where r: "next_loop L l a = Some (b, l')"
    "last_covered L l'" "valid L b \<longrightarrow> is_v4 L b \<and> addr_rank L a < addr_rank L b"
    by blast
  then show ?thesis
    using next_loop_eligible [OF r(1) assms(1)] next_loop_host [OF r(1) assms] eligible_not_written [OF assms(1,2)]
    by (auto simp: next_addr_def)
qed

subsection \<open>Nothing is skipped on a list without excludes\<close>

definition plain_list :: "'c libcidr \<Rightarrow> 'c CIDRList \<Rightarrow> bool" where
  \<comment> \<open>IPv4 networks given by their network address, no excludes\<close>
  "plain_list L l \<longleftrightarrow>
     v4_list L l \<and> (\<forall>n \<in> set (networks l). fst (block_of L n) = addr_rank L n) \<and> excludedNetworks l = []"

definition skipped_ok :: "'c libcidr \<Rightarrow> 'c CIDRList \<Rightarrow> nat \<Rightarrow> nat \<Rightarrow> bool" where
  \<comment> \<open>no host of a value in the interval may be returned\<close>
  "skipped_ok L l lo hi \<longleftrightarrow>
     (\<forall>v x. lo < v \<longrightarrow> v \<le> hi \<longrightarrow> host_with L CIDR_IPV4 v x \<longrightarrow> \<not> eligible L l x)"

lemma skipped_ok_trans: "skipped_ok L l i j \<Longrightarrow> skipped_ok L l j k \<Longrightarrow> skipped_ok L l i k"
  unfolding skipped_ok_def by (meson not_le)

lemma equals_host_cong:
  assumes "libcidr_doc L" and "host_with L p v x" and "host_with L p v y"
    and "valid L x" and "valid L y"
  shows "equals L x z \<longleftrightarrow> equals L y z"
proof -
  from assms(2,3) obtain c d where "x = Some c" "y = Some d" and cd: "cidr_get_proto L c = cidr_get_proto L d"
      "c_val L c = c_val L d" "cidr_get_pflen L c = cidr_get_pflen L d"
    by (auto simp: host_with_def c_bits_def)
  moreover have "cidr_equals L e c = 0 \<longleftrightarrow> cidr_equals L e d = 0" for e
    using assms(1) cd by (simp add: docD)
  ultimately show ?thesis using assms(4,5) by (simp add: equals_def split: option.splits)
qed

lemma eligible_host_cong:
  assumes "libcidr_doc L" and "plain_list L l"
    and "host_with L CIDR_IPV4 v x" and "host_with L CIDR_IPV4 v y" and "0 < v"
  shows "eligible L l x \<longleftrightarrow> eligible L l y"
proof -
  have v: "valid L x" "valid L y"
    using host_with_v4 [OF assms(1,3)] host_with_v4 [OF assms(1,4)] assms(5) is_v4_valid [OF assms(1)] by simp_all
  have c: "contains L n x \<longleftrightarrow> contains L n y" if "n \<in> set (networks l)" for n
    using that assms contains_v4 [OF assms(1)] by (simp add: plain_list_def v4_list_def)
  have "fold (best_step L x) (networks l) s = fold (best_step L y) (networks l) s" for s
    by (rule fold_cong) (auto simp: best_step_def c split: prod.splits)
  then have "bestNetworkFor L l x = bestNetworkFor L l y" by (simp add: bestNetworkFor_def)
  moreover have "excludedNetworks l = []" using assms(2) by (simp add: plain_list_def)
  ultimately show ?thesis
    using v c equals_host_cong [OF assms(1,3,4) v] by (auto simp: eligible_def reserved_def)
qed

lemma next_body_gap:
  assumes "libcidr_doc L" and "plain_list L l" and "last_covered L l" and "\<not> valid L a \<or> is_v4 L a"
    and "next_body L l a = (f, b, l')"
  shows "skipped_ok L l (addr_rank L a)
           (if f then addr_rank L b else if valid L b then addr_rank L b - 1 else addr_rank L (last_addr l'))"
proof -
  obtain c m where ns: "nextSimple L l a = (c, m)" by force
  note body = next_body_eligible [OF assms(1) ns] assms(5)
  have v4: "v4_list L l" using assms(2) by (simp add: plain_list_def)
  have ms: "m = l \<or> (\<exists>x. m = l\<lparr> last_addr := x \<rparr>)" by (rule nextSimple_list [OF ns])
  have l': "l' = m" using body by (auto split: if_splits)
  show ?thesis
  proof (cases "valid L c")
    case False
    then have fb: "f = False" "b = c" using body by auto
    show ?thesis
    proof (cases "valid L a")
      case True
      with assms(4) have a: "is_v4 L a" by simp
      have "m = l" using ns True by (simp add: nextSimple_def Let_def)
      have "addr_rank L (last_addr l) \<le> addr_rank L a \<or> 2 ^ 32 \<le> addr_rank L a + 1"
        using ns False True inc_v4 [OF assms(1) a] is_v4_valid [OF assms(1)]
        by (auto simp: nextSimple_def Let_def addr_gt_iff split: if_splits)
      moreover have "v < 2 ^ 32" if "host_with L CIDR_IPV4 v x" for v x
        using that be_val4_lt by (auto simp: host_with_def c_val_def)
      ultimately show ?thesis
        using fb False l' \<open>m = l\<close> by (fastforce simp: skipped_ok_def)
    next
      case F: False
      then have "networks l = []"
        using ns False firstAddress_v4 [OF assms(1) v4] host_v4(1) [OF assms(1)] is_v4_valid [OF assms(1)] v4
        by (auto simp: nextSimple_def set_addr_def addr_dup_id [OF assms(1)] v4_list_def Let_def split: if_splits)
      then show ?thesis by (simp add: skipped_ok_def eligible_def)
    qed
  next
    case True
    note c = nextSimple_v4 [OF assms(1) v4 assms(3,4) ns True]
    have pos: "0 < addr_rank L c" using True by (simp flip: neq0_conv)
    have el: "eligible L m x = eligible L l x" for x using ms by auto
    have nets: "networks m = networks l" and ex: "excludedNetworks m = []"
      using ms assms(2) by (auto simp: plain_list_def)
    have v4m: "v4_list L m" using v4 nets by (simp add: v4_list_def)
    have outside: "\<not> eligible L l x" if "host_with L CIDR_IPV4 v x" "0 < v"
      and "\<And>n. n \<in> set (networks l) \<Longrightarrow> \<not> (addr_rank L n \<le> v \<and> v \<le> snd (block_of L n))" for v x
      using that contains_v4 [OF assms(1)] assms(2) by (auto simp: eligible_def plain_list_def v4_list_def)
    have before: "skipped_ok L l (addr_rank L a) (addr_rank L c - 1)"
    proof (cases "valid L a")
      case True
      then show ?thesis using c(5) by (simp add: skipped_ok_def)
    next
      case False
      then show ?thesis using c(6) outside by (fastforce simp: skipped_ok_def)
    qed
    show ?thesis
    proof (cases "eligible L m c")
      case True
      then show ?thesis using body before \<open>valid L c\<close> by auto
    next
      case False
      then have "skipped_ok L l (addr_rank L c - 1) (addr_rank L c)"
        using eligible_host_cong [OF assms(1,2) _ c(2) pos] el pos
        by (auto simp: skipped_ok_def dest!: Suc_leI intro: le_antisym) (metis Suc_pred le_antisym Suc_leI pos)
      from skipped_ok_trans [OF before this] have upto: "skipped_ok L l (addr_rank L a) (addr_rank L c)" .
      show ?thesis
      proof (cases "bestNetworkPrefixFor L m c = - 1")
        case True
        have out: "\<forall>n \<in> set (networks m). \<not> contains L n c"
          using bestNetworkPrefix(1) [OF assms(1,1), of m c] True by simp
        have "skipped_ok L l (addr_rank L c) (addr_rank L (skipToNextPool L m c))"
          unfolding skipped_ok_def
        proof (intro allI impI)
          fix v x
          assume v: "addr_rank L c < v" "v \<le> addr_rank L (skipToNextPool L m c)" and x: "host_with L CIDR_IPV4 v x"
          show "\<not> eligible L l x"
          proof (rule outside [OF x])
            fix n assume n: "n \<in> set (networks l)"
            have "\<not> (addr_rank L n \<le> addr_rank L c \<and> addr_rank L c \<le> snd (block_of L n))"
              using out n nets contains_v4 [OF assms(1) _ c(2) pos] assms(2)
              by (simp add: plain_list_def v4_list_def)
            then show "\<not> (addr_rank L n \<le> v \<and> v \<le> snd (block_of L n))"
              using skipToNextPool_v4(3) [OF assms(1) v4m c(2) pos out] c(4) n nets v by fastforce
          qed (use v in simp)
        qed
        from skipped_ok_trans [OF upto this] show ?thesis
          using body False True \<open>valid L c\<close> by auto
      next
        case np: False
        have "bestExcludePrefixFor L m c = - 1" using bestExcludePrefix(1) [OF assms(1,1)] ex by simp
        then have "\<not> bestExcludePrefixFor L m c > bestNetworkPrefixFor L m c"
          using bestNetworkPrefix(2) [OF assms(1,1), of m c] by simp
        then show ?thesis using body False np \<open>valid L c\<close> upto by auto
      qed
    qed
  qed
qed

lemma next_loop_gap:
  assumes "next_loop L l a = Some r" and "libcidr_doc L" and "plain_list L l" and "last_covered L l"
    and "\<not> valid L a \<or> is_v4 L a"
  shows "skipped_ok L l (addr_rank L a)
           (if valid L (fst r) then addr_rank L (fst r) - 1 else addr_rank L (last_addr (snd r)))"
  using assms
proof (induction L l a r rule: next_loop_induct)
  case (step loop L l a r)
  obtain f b m where body: "next_body L l a = (f, b, m)" using prod_cases3 by blast
  obtain c m' where ns: "nextSimple L l a = (c, m')" by force
  have v4: "v4_list L l" using step.prems(2) by (simp add: plain_list_def)
  note B = next_body_v4 [OF step.prems(1) v4 step.prems(3,4) body]
  note G = next_body_gap [OF step.prems(1-4) body]
  have m: "m = l \<or> (\<exists>x. m = l\<lparr> last_addr := x \<rparr>)"
    using body next_body_eligible [OF step.prems(1) ns] nextSimple_list [OF ns] by (auto split: if_splits)
  then have same: "plain_list L m" "\<And>i j. skipped_ok L m i j = skipped_ok L l i j"
    using step.prems(2) by (auto simp: plain_list_def v4_list_def skipped_ok_def)
  show ?case
  proof (cases f)
    case True
    with step.hyps body have "loop L m b = Some r" by simp
    from step.IH [OF this step.prems(1) same(1)] B True G skipped_ok_trans show ?thesis
      by (auto simp: same(2))
  next
    case False
    with step.hyps body have "r = (b, m)" by simp
    with G False show ?thesis by (simp split: if_splits)
  qed
qed

text \<open>The end of the list, from the networks alone: the greatest of their last hosts.\<close>

definition last_host :: "'c libcidr \<Rightarrow> 'c CIDRAddress \<Rightarrow> nat" where
  \<comment> \<open>the address before the broadcast address, in a network of more than two addresses\<close>
  "last_host L n = (case n of Some c \<Rightarrow> if net_size L c \<le> 2 then net_hi L c else net_hi L c - 1 | None \<Rightarrow> 0)"

definition walked_to_end :: "'c libcidr \<Rightarrow> 'c CIDRList \<Rightarrow> bool" where
  \<comment> \<open>no network was added since the walk began: \<open>_last\<close> is not below the last host of any\<close>
  "walked_to_end L l \<longleftrightarrow> (\<forall>n \<in> set (networks l). last_host L n \<le> addr_rank L (last_addr l))"

lemma host_or_invalid_rank:
  assumes "libcidr_doc L" and "cidr_get_proto L d = CIDR_IPV4"
  shows "addr_rank L (Some d) = c_val L d"
proof (cases "0 < c_val L d")
  case True
  with assms(2) have "is_v4 L (Some d)" by (simp add: is_v4_def)
  then show ?thesis by (auto elim: is_v4E [OF assms(1)])
next
  case False
  with assms(2) have "\<not> valid L (Some d)" by (auto elim!: validE)
  with False show ?thesis by simp
qed

lemma hostMax_rank:
  assumes "libcidr_doc L" and "is_v4 L n"
  shows "addr_rank L (hostMax L n) = last_host L n"
proof -
  from assms obtain c where c: "n = Some c" "cidr_get_proto L c = CIDR_IPV4" "valid L (Some c)"
    by (rule is_v4E)
  obtain d where d: "cidr_addr_hostmax L c = Some d" "cidr_get_proto L d = CIDR_IPV4"
      "c_val L d = (if net_size L c \<le> 2 then net_hi L c else net_hi L c - 1)"
    using assms(1) c(2) unfolding docD by (metis cidr_proto.distinct(1))
  have "hostMax L n = Some d" using c d by (simp add: hostMax_def)
  moreover have "addr_rank L (Some d) = c_val L d"
    using host_or_invalid_rank [OF assms(1) d(2)] .
  ultimately show ?thesis using c d by (simp add: last_host_def)
qed

lemma walked_lastAddress:
  assumes "libcidr_doc L" and "v4_list L l"
  shows "walked_to_end L (l\<lparr> last_addr := lastAddress L l \<rparr>)"
  using lastAddress_v4 [OF assms] hostMax_rank [OF assms(1)] assms(2)
  by (auto simp: walked_to_end_def v4_list_def split: if_splits)

lemma next_body_walked:
  assumes "libcidr_doc L" and "v4_list L l" and "valid L a \<Longrightarrow> walked_to_end L l"
    and "next_body L l a = (f, b, l')"
  shows "walked_to_end L l'"
proof -
  obtain c m where ns: "nextSimple L l a = (c, m)" by force
  have "l' = m" using assms(4) [unfolded next_body_eligible [OF assms(1) ns]] by (auto split: if_splits)
  with ns assms(3) walked_lastAddress [OF assms(1,2)] show ?thesis
    by (auto simp: nextSimple_def Let_def split: if_splits)
qed

lemma next_loop_walked:
  assumes "next_loop L l a = Some r" and "libcidr_doc L" and "v4_list L l"
    and "valid L a \<Longrightarrow> walked_to_end L l"
  shows "walked_to_end L (snd r)"
  using assms
proof (induction L l a r rule: next_loop_induct)
  case (step loop L l a r)
  obtain f b m where body: "next_body L l a = (f, b, m)" using prod_cases3 by blast
  obtain c m' where ns: "nextSimple L l a = (c, m')" by force
  note W = next_body_walked [OF step.prems(1-3) body]
  have "m = l \<or> (\<exists>x. m = l\<lparr> last_addr := x \<rparr>)"
    using body next_body_eligible [OF step.prems(1) ns] nextSimple_list [OF ns] by (auto split: if_splits)
  then have v4: "v4_list L m" using step.prems(2) by (auto simp: v4_list_def)
  show ?case
  proof (cases f)
    case True
    with step.hyps body have "loop L m b = Some r" by simp
    from step.IH [OF this step.prems(1) v4] W show ?thesis by blast
  next
    case False
    with step.hyps body have "r = (b, m)" by simp
    with W show ?thesis by simp
  qed
qed

text \<open>C9. On a list of IPv4 networks given by their network addresses and without excludes,
  \<open>next\<close> returns the next higher host the list allows: from an invalid address, or in a walk of a list to
  which no network was added since the walk began. When it answers true, the host it leaves is
  eligible and higher than the address before the call, and no eligible host lies between the two;
  when it answers false, no host above the address before the call, up to the last host of the
  highest network (the address before its broadcast address), is eligible. The walk can go on.
  libcidr is as documented.\<close>

theorem next_ipv4_skips_nothing:
  assumes "libcidr_doc L" and "plain_list L l" and "last_covered L l"
    and "\<not> valid L a \<or> is_v4 L a \<and> walked_to_end L l"
  shows "\<exists>b l'. next_addr L l a = Some (valid L b, b, l') \<and>
    (valid L b \<longrightarrow> eligible L l b \<and> addr_rank L a < addr_rank L b) \<and>
    (\<forall>v x. addr_rank L a < v \<longrightarrow>
       (if valid L b then v < addr_rank L b else \<exists>n \<in> set (networks l). v \<le> last_host L n) \<longrightarrow>
       host_with L CIDR_IPV4 v x \<longrightarrow> \<not> eligible L l x) \<and>
    networks l' = networks l \<and> plain_list L l' \<and> last_covered L l' \<and> walked_to_end L l'"
proof -
  have v4: "v4_list L l" using assms(2) by (simp add: plain_list_def)
  have a: "\<not> valid L a \<or> is_v4 L a" using assms(4) by blast
  from next_loop_v4 [OF assms(1) v4 assms(3) a] obtain b l' where r: "next_loop L l a = Some (b, l')"
      and B: "last_covered L l'" "valid L b \<longrightarrow> addr_rank L a < addr_rank L b"
    by blast
  have W: "walked_to_end L l'" using next_loop_walked [OF r assms(1) v4] assms(4) by auto
  have E: "networks l' = networks l" "excludedNetworks l' = excludedNetworks l" "valid L b \<longrightarrow> eligible L l b"
    using next_loop_eligible [OF r assms(1)] by simp_all
  then have P: "plain_list L l'" using assms(2) by (simp add: plain_list_def v4_list_def)
  have "v \<le> addr_rank L (last_addr l')" if "\<exists>n \<in> set (networks l). v \<le> last_host L n" for v
    using that W E(1) unfolding walked_to_end_def by (metis order_trans)
  with next_loop_gap [OF r assms(1-3) a]
  have "\<forall>v x. addr_rank L a < v \<longrightarrow>
       (if valid L b then v < addr_rank L b else \<exists>n \<in> set (networks l). v \<le> last_host L n) \<longrightarrow>
       host_with L CIDR_IPV4 v x \<longrightarrow> \<not> eligible L l x"
    by (auto simp: skipped_ok_def split: if_splits)
  with r B W E P show ?thesis by (simp add: next_addr_def)
qed

subsection \<open>Concrete lists\<close>

abbreviation ip4 :: "u8 \<Rightarrow> u8 \<Rightarrow> u8 \<Rightarrow> u8 \<Rightarrow> nat \<Rightarrow> ref_cidr CIDRAddress" where
  "ip4 a b c d p \<equiv> Some (R4 (In_addr a b c d) p)"

abbreviation ip6_loopback :: "ref_cidr CIDRAddress" where
  "ip6_loopback \<equiv> Some (R6 (In6_addr (In_addr 0 0 0 0) (In_addr 0 0 0 0) (In_addr 0 0 0 0) (In_addr 0 0 0 1)) 128)"

definition hold_list :: "ref_cidr CIDRList" where
  "hold_list = \<lparr> networks = [ip4 1 2 3 0 24], excludedNetworks = [ip4 1 2 3 0 24], last_addr = None \<rparr>"

definition pair_list :: "ref_cidr CIDRList" where
  "pair_list = \<lparr> networks = [ip4 10 20 30 16 30, ip4 10 21 31 0 24], excludedNetworks = [], last_addr = None \<rparr>"

definition mixed_list :: "ref_cidr CIDRList" where
  "mixed_list = \<lparr> networks = [ip4 10 0 0 1 32, ip6_loopback], excludedNetworks = [], last_addr = ip6_loopback \<rparr>"

definition hole_list :: "ref_cidr CIDRList" where
  "hole_list = \<lparr> networks = [ip4 10 0 0 0 8, ip4 10 0 0 6 32, ip4 10 0 0 5 32],
     excludedNetworks = [ip4 10 0 0 0 16], last_addr = None \<rparr>"

definition written_list :: "ref_cidr CIDRList" where
  "written_list = \<lparr> networks = [ip4 10 0 0 5 24, ip4 10 0 0 0 8], excludedNetworks = [], last_addr = None \<rparr>"

lemma pair_list_plain: "plain_list ref_libcidr pair_list" "v4_list ref_libcidr pair_list"
    "last_covered ref_libcidr pair_list"
  by (simp_all add: plain_list_def v4_list_def last_covered_def pair_list_def is_v4_def block_of_def
      addr_rank_def ref_lo_def be_val_def)

theorem next_ipv4_terminates_and_advances_witness:
  "\<exists>b l'. next_addr ref_libcidr pair_list None = Some (valid ref_libcidr b, b, l') \<and>
     (valid ref_libcidr b \<longrightarrow> eligible ref_libcidr pair_list b)"
  using next_ipv4_terminates_and_advances [OF libcidr_doc_ref pair_list_plain(2,3), of None] by auto

theorem next_ipv4_skips_nothing_witness:
  "\<exists>b l'. next_addr ref_libcidr pair_list None = Some (valid ref_libcidr b, b, l') \<and>
     walked_to_end ref_libcidr l' \<and>
     (valid ref_libcidr b \<or> (\<forall>v x. 0 < v \<longrightarrow> (\<exists>n \<in> set (networks pair_list). v \<le> last_host ref_libcidr n) \<longrightarrow>
        host_with ref_libcidr CIDR_IPV4 v x \<longrightarrow> \<not> eligible ref_libcidr pair_list x))"
proof -
  have none: "\<not> valid ref_libcidr None \<or> is_v4 ref_libcidr None \<and> walked_to_end ref_libcidr pair_list"
    and rank: "addr_rank ref_libcidr None = 0" by simp_all
  from next_ipv4_skips_nothing [OF libcidr_doc_ref pair_list_plain(1,3) none, unfolded rank]
  obtain b l' where "next_addr ref_libcidr pair_list None = Some (valid ref_libcidr b, b, l')"
    and "walked_to_end ref_libcidr l'"
    and gap: "\<forall>v x. 0 < v \<longrightarrow>
       (if valid ref_libcidr b then v < addr_rank ref_libcidr b
        else \<exists>n \<in> set (networks pair_list). v \<le> last_host ref_libcidr n) \<longrightarrow>
       host_with ref_libcidr CIDR_IPV4 v x \<longrightarrow> \<not> eligible ref_libcidr pair_list x"
    by (elim exE conjE) (rule that)
  moreover have "valid ref_libcidr b \<or> (\<forall>v x. 0 < v \<longrightarrow> (\<exists>n \<in> set (networks pair_list). v \<le> last_host ref_libcidr n) \<longrightarrow>
        host_with ref_libcidr CIDR_IPV4 v x \<longrightarrow> \<not> eligible ref_libcidr pair_list x)"
  proof (cases "valid ref_libcidr b")
    case False
    from gap show ?thesis unfolding if_not_P [OF False] by (rule disjI2)
  qed (rule disjI1)
  ultimately show ?thesis by blast
qed

lemma next_addr_step:
  "next_body L l a = (True, b, l') \<Longrightarrow> next_addr L l a = next_addr L l' b"
  by (simp add: next_addr_def) (subst next_loop.simps, simp)

lemma next_addr_stop:
  "next_body L l a = (False, b, l') \<Longrightarrow> next_addr L l a = Some (valid L b, b, l')"
  by (simp add: next_addr_def) (subst next_loop.simps, simp)

text \<open>A network address is not filtered when its most specific network was written with another address: with
  10.0.0.5/24 and 10.0.0.0/8 added, \<open>next\<close> starts the walk at 10.0.0.0, the network address of 10.0.0.5/24.\<close>

lemma network_address_returned:
  "next_addr ref_libcidr written_list None =
     Some (True, ip4 10 0 0 0 32, written_list\<lparr> last_addr := ip4 10 255 255 254 32 \<rparr>) \<and>
   bestNetworkFor ref_libcidr written_list (ip4 10 0 0 0 32) = ip4 10 0 0 5 24 \<and>
   network ref_libcidr (ip4 10 0 0 5 24) = ip4 10 0 0 0 32"
proof (intro conjI)
  have "next_body ref_libcidr written_list None =
      (False, ip4 10 0 0 0 32, written_list\<lparr> last_addr := ip4 10 255 255 254 32 \<rparr>)" by code_simp
  moreover have "valid ref_libcidr (ip4 10 0 0 0 32)" by code_simp
  ultimately show "next_addr ref_libcidr written_list None =
      Some (True, ip4 10 0 0 0 32, written_list\<lparr> last_addr := ip4 10 255 255 254 32 \<rparr>)"
    by (simp add: next_addr_stop)
qed code_simp+

text \<open>An exclude does not hide a network of the same prefix length: with \<open>add("1.2.3.0/24")\<close>
  and \<open>exclude("1.2.3.0/24")\<close>, \<open>next\<close> starts the walk at 1.2.3.1. The class comment says that in
  case of equality the exclude wins and that this exclude hides everything.\<close>

theorem exclude_of_equal_prefix_hides_nothing:
  "next_addr ref_libcidr hold_list None =
     Some (True, ip4 1 2 3 1 32, hold_list\<lparr> last_addr := ip4 1 2 3 254 32 \<rparr>)"
proof -
  have "next_body ref_libcidr hold_list None =
      (True, ip4 1 2 3 0 32, hold_list\<lparr> last_addr := ip4 1 2 3 254 32 \<rparr>)" by code_simp
  moreover have "next_body ref_libcidr (hold_list\<lparr> last_addr := ip4 1 2 3 254 32 \<rparr>) (ip4 1 2 3 0 32) =
      (False, ip4 1 2 3 1 32, hold_list\<lparr> last_addr := ip4 1 2 3 254 32 \<rparr>)" by code_simp
  ultimately show ?thesis by (simp add: next_addr_step next_addr_stop)
qed

text \<open>On a list of an IPv4 host and an IPv6 host the iteration does not advance: from the IPv4
  host \<open>next\<close> answers true and leaves the same address again, so a loop over the list never ends
  and never reaches the IPv6 host.\<close>

theorem next_mixed_protocols_repeats:
  "next_addr ref_libcidr mixed_list (ip4 10 0 0 1 32) = Some (True, ip4 10 0 0 1 32, mixed_list)"
proof -
  have "next_body ref_libcidr mixed_list (ip4 10 0 0 1 32) = (True, None, mixed_list)" by code_simp
  moreover have "next_body ref_libcidr mixed_list None = (False, ip4 10 0 0 1 32, mixed_list)" by code_simp
  ultimately show ?thesis by (simp add: next_addr_step next_addr_stop)
qed

text \<open>Skipping the rest of an exclude may jump over an included host: with 10.0.0.0/8,
  10.0.0.6/32 and 10.0.0.5/32 added in this order and 10.0.0.0/16 excluded, the first address is
  10.0.0.6, although 10.0.0.5 satisfies every condition for being returned.\<close>

theorem next_jumps_over_included_host:
  "next_addr ref_libcidr hole_list None =
     Some (True, ip4 10 0 0 6 32, hole_list\<lparr> last_addr := ip4 10 255 255 254 32 \<rparr>) \<and>
   eligible ref_libcidr hole_list (ip4 10 0 0 5 32)"
proof -
  have "next_body ref_libcidr hole_list None =
      (True, ip4 10 0 0 5 32, hole_list\<lparr> last_addr := ip4 10 255 255 254 32 \<rparr>)" by code_simp
  moreover have "next_body ref_libcidr (hole_list\<lparr> last_addr := ip4 10 255 255 254 32 \<rparr>) (ip4 10 0 0 5 32) =
      (False, ip4 10 0 0 6 32, hole_list\<lparr> last_addr := ip4 10 255 255 254 32 \<rparr>)" by code_simp
  moreover have "eligible ref_libcidr hole_list (ip4 10 0 0 5 32)" by code_simp
  ultimately show ?thesis by (simp add: next_addr_step next_addr_stop)
qed

end
