(* ===== verification/CidrOwn.thy ===== *)
theory CidrOwn
  imports Cidr
begin

text \<open>
  \<open>src/shared/cidr.cc\<close>, the memory behind \<open>CIDRAddress\<close>: every object owns at most one structure of libcidr,
  which \<open>setCidrPtr\<close> frees before it takes another one. The operations are given on pointers and refined to the
  values of the theory \<open>Cidr\<close>, in which an object simply is what it points to. Freeing or reading a structure that
  is not allocated is a fault of the memory.
\<close>

record 'c mem =
  ptr :: "nat \<Rightarrow> nat option" \<comment> \<open>the member \<open>_cidr\<close> of an object; null outside its lifetime\<close>
  cells :: "nat \<rightharpoonup> 'c"       \<comment> \<open>the allocated structures\<close>
  next_cell :: nat
  fault :: bool

definition new_cell :: "'c option \<Rightarrow> 'c mem \<Rightarrow> nat option \<times> 'c mem" where
  \<comment> \<open>what a function of libcidr that makes a structure returns\<close>
  "new_cell v m =
     (case v of
        None \<Rightarrow> (None, m)
      | Some c \<Rightarrow> (Some (next_cell m), m\<lparr>cells := (cells m)(next_cell m \<mapsto> c), next_cell := Suc (next_cell m)\<rparr>))"

definition cidr_free :: "nat \<Rightarrow> 'c mem \<Rightarrow> 'c mem" where
  "cidr_free a m = (if cells m a = None then m\<lparr>fault := True\<rparr> else m\<lparr>cells := (cells m)(a := None)\<rparr>)"

definition setCidrPtr :: "nat \<Rightarrow> nat option \<Rightarrow> 'c mem \<Rightarrow> 'c mem" where
  "setCidrPtr this newcidr m =
     (let m = (case ptr m this of Some a \<Rightarrow> cidr_free a m | None \<Rightarrow> m)
      in m\<lparr>ptr := (ptr m)(this := newcidr)\<rparr>)"

definition pointee :: "'c mem \<Rightarrow> nat \<Rightarrow> 'c CIDRAddress" where
  "pointee m this = (case ptr m this of None \<Rightarrow> None | Some a \<Rightarrow> cells m a)"

definition set_ptr :: "nat \<Rightarrow> 'c option \<Rightarrow> 'c mem \<Rightarrow> 'c mem" where
  \<comment> \<open>\<open>CIDR* newcidr = cidr_...; setCidrPtr(newcidr);\<close>\<close>
  "set_ptr this v m = (case new_cell v m of (p, m) \<Rightarrow> setCidrPtr this p m)"

definition set_string_ptr :: "'c libcidr \<Rightarrow> nat \<Rightarrow> string \<Rightarrow> 'c mem \<Rightarrow> 'c mem" where
  \<comment> \<open>also \<open>operator=(const std::string&)\<close>\<close>
  "set_string_ptr L this text m = set_ptr this (cidr_from_str L (c_str text)) m"

definition set_addr_ptr :: "'c libcidr \<Rightarrow> nat \<Rightarrow> nat \<Rightarrow> 'c mem \<Rightarrow> 'c mem" where
  "set_addr_ptr L this from m = set_ptr this (addr_dup L (pointee m from)) m"

definition move_ptr :: "nat \<Rightarrow> nat \<Rightarrow> 'c mem \<Rightarrow> 'c mem" where
  \<comment> \<open>the move constructor, on a new object\<close>
  "move_ptr this other m = (let m = setCidrPtr this (ptr m other) m in m\<lparr>ptr := (ptr m)(other := None)\<rparr>)"

definition assign_copy_ptr :: "'c libcidr \<Rightarrow> nat \<Rightarrow> nat \<Rightarrow> 'c mem \<Rightarrow> 'c mem" where
  "assign_copy_ptr L this from m = (if this \<noteq> from then set_addr_ptr L this from m else m)"

definition assign_move_ptr :: "nat \<Rightarrow> nat \<Rightarrow> 'c mem \<Rightarrow> 'c mem" where
  "assign_move_ptr this from m =
     (if this \<noteq> from then (let m = setCidrPtr this (ptr m from) m in m\<lparr>ptr := (ptr m)(from := None)\<rparr>) else m)"

definition step_ptr ::
  "'c libcidr \<Rightarrow> (in_addr \<Rightarrow> in_addr) \<Rightarrow> (in6_addr \<Rightarrow> in6_addr) \<Rightarrow> nat \<Rightarrow> 'c mem \<Rightarrow> 'c mem" where
  \<comment> \<open>the body of both operators; the second test reads the pointer the first assignment left\<close>
  "step_ptr L step4 step6 this m =
     (if \<not> valid L (pointee m this) then m
      else
        let m = (case pointee m this of
                   Some cidr \<Rightarrow> if cidr_get_proto L cidr = CIDR_IPV4
                                then set_ptr this (Some (cidr_from_inaddr L (step4 (inaddr_of L cidr)))) m else m
                 | None \<Rightarrow> m)
        in (case pointee m this of
              Some cidr \<Rightarrow> if cidr_get_proto L cidr = CIDR_IPV6
                           then set_ptr this (Some (cidr_from_in6addr L (step6 (in6addr_of L cidr)))) m else m
            | None \<Rightarrow> m))"

definition inc_ptr :: "'c libcidr \<Rightarrow> nat \<Rightarrow> 'c mem \<Rightarrow> 'c mem" where
  "inc_ptr L this m = step_ptr L (\<lambda>i. of_bytes4 (inc_loop 3 (bytes4 i))) (\<lambda>i. of_bytes16 (inc_loop 15 (bytes16 i))) this m"

definition dec_ptr :: "'c libcidr \<Rightarrow> nat \<Rightarrow> 'c mem \<Rightarrow> 'c mem" where
  "dec_ptr L this m = step_ptr L (\<lambda>i. of_bytes4 (dec_loop 3 (bytes4 i))) (\<lambda>i. of_bytes16 (dec_loop 15 (bytes16 i))) this m"

definition post_inc_ptr :: "'c libcidr \<Rightarrow> nat \<Rightarrow> nat \<Rightarrow> 'c mem \<Rightarrow> 'c mem" where
  \<comment> \<open>\<open>result\<close> is a new object\<close>
  "post_inc_ptr L result this m = inc_ptr L this (set_addr_ptr L result this m)"

definition post_dec_ptr :: "'c libcidr \<Rightarrow> nat \<Rightarrow> nat \<Rightarrow> 'c mem \<Rightarrow> 'c mem" where
  "post_dec_ptr L result this m = dec_ptr L this (set_addr_ptr L result this m)"

definition CIDRAddress_destroy :: "nat \<Rightarrow> 'c mem \<Rightarrow> 'c mem" where
  \<comment> \<open>also \<open>invalidate\<close>\<close>
  "CIDRAddress_destroy this m = setCidrPtr this None m"

subsection \<open>Statements of a program that uses addresses\<close>

text \<open>The result of a postfix operator and the target of a move constructor are new objects, never the operand.\<close>

datatype 'c cidr_op =
    Make nat "'c option" \<comment> \<open>\<open>set\<close> from a string or an address, and the functions that return an address\<close>
  | Set_string nat string
  | Copy nat nat
  | Move nat nat
  | Assign nat nat
  | Assign_move nat nat
  | Inc nat
  | Dec nat
  | Post_inc nat nat
  | Post_dec nat nat
  | Destroy nat

fun mem_step :: "'c libcidr \<Rightarrow> 'c cidr_op \<Rightarrow> 'c mem \<Rightarrow> 'c mem" where
  "mem_step L (Make x v) = set_ptr x v"
| "mem_step L (Set_string x s) = set_string_ptr L x s"
| "mem_step L (Copy x y) = set_addr_ptr L x y"
| "mem_step L (Move x y) = (if x = y then id else move_ptr x y)"
| "mem_step L (Assign x y) = assign_copy_ptr L x y"
| "mem_step L (Assign_move x y) = assign_move_ptr x y"
| "mem_step L (Inc x) = inc_ptr L x"
| "mem_step L (Dec x) = dec_ptr L x"
| "mem_step L (Post_inc r x) = (if r = x then id else post_inc_ptr L r x)"
| "mem_step L (Post_dec r x) = (if r = x then id else post_dec_ptr L r x)"
| "mem_step L (Destroy x) = CIDRAddress_destroy x"

fun value_step :: "'c libcidr \<Rightarrow> 'c cidr_op \<Rightarrow> (nat \<Rightarrow> 'c CIDRAddress) \<Rightarrow> (nat \<Rightarrow> 'c CIDRAddress)" where
  "value_step L (Make x v) s = s(x := v)"
| "value_step L (Set_string x t) s = s(x := fst (set_string L t))"
| "value_step L (Copy x y) s = s(x := CIDRAddress_copy L (s y))"
| "value_step L (Move x y) s = (if x = y then s else s(x := fst (CIDRAddress_move (s y)), y := snd (CIDRAddress_move (s y))))"
| "value_step L (Assign x y) s = assign_copy L x y s"
| "value_step L (Assign_move x y) s = assign_move x y s"
| "value_step L (Inc x) s = s(x := inc L (s x))"
| "value_step L (Dec x) s = s(x := dec L (s x))"
| "value_step L (Post_inc r x) s = (if r = x then s else s(r := fst (post_inc L (s x)), x := snd (post_inc L (s x))))"
| "value_step L (Post_dec r x) s = (if r = x then s else s(r := fst (post_dec L (s x)), x := snd (post_dec L (s x))))"
| "value_step L (Destroy x) s = s(x := invalidate (s x))"

subsection \<open>The invariant\<close>

definition sound :: "'c mem \<Rightarrow> bool" where
  \<comment> \<open>no fault, pointers are to allocated structures, every structure has one owner\<close>
  "sound m \<longleftrightarrow> \<not> fault m \<and>
     (\<forall>x a. ptr m x = Some a \<longrightarrow> cells m a \<noteq> None) \<and>
     (\<forall>x y a. ptr m x = Some a \<longrightarrow> ptr m y = Some a \<longrightarrow> x = y) \<and>
     (\<forall>a. cells m a \<noteq> None \<longrightarrow> a < next_cell m \<and> (\<exists>x. ptr m x = Some a))"

definition no_addresses :: "'c mem" where
  "no_addresses = \<lparr>ptr = (\<lambda>_. None), cells = Map.empty, next_cell = 0, fault = False\<rparr>"

lemma sound_no_addresses: "sound no_addresses"
  by (simp add: sound_def no_addresses_def)

lemma soundD:
  assumes "sound m"
  shows "\<not> fault m" "ptr m x = Some a \<Longrightarrow> cells m a \<noteq> None" "ptr m x = Some a \<Longrightarrow> ptr m y = Some a \<Longrightarrow> x = y"
    "cells m a \<noteq> None \<Longrightarrow> a < next_cell m" "cells m a \<noteq> None \<Longrightarrow> \<exists>x. ptr m x = Some a"
  using assms unfolding sound_def by blast+

lemma soundI:
  assumes "\<not> fault m" and "\<And>x a. ptr m x = Some a \<Longrightarrow> cells m a \<noteq> None"
    and "\<And>x y a. ptr m x = Some a \<Longrightarrow> ptr m y = Some a \<Longrightarrow> x = y"
    and "\<And>a. cells m a \<noteq> None \<Longrightarrow> a < next_cell m" and "\<And>a. cells m a \<noteq> None \<Longrightarrow> \<exists>x. ptr m x = Some a"
  shows "sound m"
  using assms unfolding sound_def by blast

lemma set_ptr_sound:
  assumes "sound m"
  shows "sound (set_ptr x v m)" and "pointee (set_ptr x v m) = (pointee m)(x := v)"
proof -
  have f: "cells m (next_cell m) = None" using soundD(4) [OF assms, of "next_cell m"] by blast
  have n: "ptr m y \<noteq> Some (next_cell m)" for y using soundD(2) [OF assms, of y "next_cell m"] f by blast
  have g: "fault (set_ptr x v m) = fault m \<and> ptr (set_ptr x v m) = (ptr m)(x := map_option (\<lambda>_. next_cell m) v) \<and>
      cells (set_ptr x v m) = (\<lambda>a. if ptr m x = Some a then None else if a = next_cell m then v else cells m a) \<and>
      next_cell m \<le> next_cell (set_ptr x v m) \<and> (v \<noteq> None \<longrightarrow> next_cell m < next_cell (set_ptr x v m))"
    using f n [of x] soundD(2) [OF assms, of x]
    by (cases v; cases "ptr m x") (auto simp: set_ptr_def new_cell_def setCidrPtr_def cidr_free_def fun_eq_iff)
  then have g':
    "fault (set_ptr x v m) = fault m" "ptr (set_ptr x v m) = (ptr m)(x := map_option (\<lambda>_. next_cell m) v)"
    "cells (set_ptr x v m) = (\<lambda>a. if ptr m x = Some a then None else if a = next_cell m then v else cells m a)"
    "next_cell m \<le> next_cell (set_ptr x v m)" "v \<noteq> None \<Longrightarrow> next_cell m < next_cell (set_ptr x v m)"
    by blast+
  show "sound (set_ptr x v m)"
  proof (rule soundI, unfold g'(1-3))
    show "\<not> fault m" using soundD(1) [OF assms] .
    fix y a assume y: "((ptr m)(x := map_option (\<lambda>_. next_cell m) v)) y = Some a"
    show "(if ptr m x = Some a then None else if a = next_cell m then v else cells m a) \<noteq> None"
      using y n [of x] n [of y] soundD(2) [OF assms, of y a] soundD(3) [OF assms, of x a y]
      by (cases "y = x") auto
  next
    fix y z a
    assume "((ptr m)(x := map_option (\<lambda>_. next_cell m) v)) y = Some a" "((ptr m)(x := map_option (\<lambda>_. next_cell m) v)) z = Some a"
    then show "y = z"
      using n [of y] n [of z] soundD(3) [OF assms, of y a z] by (cases "y = x"; cases "z = x") auto
  next
    fix a assume a: "(if ptr m x = Some a then None else if a = next_cell m then v else cells m a) \<noteq> None"
    show "a < next_cell (set_ptr x v m)"
    proof (cases "a = next_cell m")
      case True
      with a g'(5) show ?thesis by (auto split: if_splits)
    next
      case False
      with a have "a < next_cell m" using soundD(4) [OF assms, of a] by (simp split: if_splits)
      with g'(4) show ?thesis by simp
    qed
    show "\<exists>y. ((ptr m)(x := map_option (\<lambda>_. next_cell m) v)) y = Some a"
    proof (cases "a = next_cell m")
      case True
      with a show ?thesis by (intro exI [of _ x]) (auto split: if_splits)
    next
      case False
      with a obtain y where "ptr m y = Some a" "y \<noteq> x" using soundD(5) [OF assms, of a] by (fastforce split: if_splits)
      then show ?thesis by (intro exI [of _ y]) simp
    qed
  qed
  show "pointee (set_ptr x v m) = (pointee m)(x := v)"
    unfolding pointee_def g'(2,3) using n soundD(3) [OF assms]
    by (cases v) (auto simp: fun_eq_iff split: option.splits)
qed

lemma destroy_sound:
  assumes "sound m"
  shows "sound (CIDRAddress_destroy x m)" and "pointee (CIDRAddress_destroy x m) = (pointee m)(x := None)"
proof -
  have "CIDRAddress_destroy x m = set_ptr x None m"
    by (simp add: CIDRAddress_destroy_def set_ptr_def new_cell_def)
  with set_ptr_sound [OF assms, of x None]
  show "sound (CIDRAddress_destroy x m)" and "pointee (CIDRAddress_destroy x m) = (pointee m)(x := None)" by simp_all
qed

lemma move_sound:
  assumes "sound m" and "x \<noteq> y"
  shows "sound (move_ptr x y m)" and "pointee (move_ptr x y m) = (pointee m)(x := pointee m y, y := None)"
proof -
  have g: "fault (move_ptr x y m) = fault m \<and> ptr (move_ptr x y m) = (ptr m)(x := ptr m y, y := None) \<and>
      cells (move_ptr x y m) = (\<lambda>a. if ptr m x = Some a then None else cells m a) \<and> next_cell (move_ptr x y m) = next_cell m"
    using soundD(2) [OF assms(1), of x]
    by (cases "ptr m x") (auto simp: move_ptr_def setCidrPtr_def cidr_free_def fun_eq_iff)
  then have g':
    "fault (move_ptr x y m) = fault m" "ptr (move_ptr x y m) = (ptr m)(x := ptr m y, y := None)"
    "cells (move_ptr x y m) = (\<lambda>a. if ptr m x = Some a then None else cells m a)" "next_cell (move_ptr x y m) = next_cell m"
    by blast+
  note D = soundD [OF assms(1)]
  show "sound (move_ptr x y m)"
  proof (rule soundI, unfold g')
    show "\<not> fault m" using D(1) .
    fix z a assume z: "((ptr m)(x := ptr m y, y := None)) z = Some a"
    show "(if ptr m x = Some a then None else cells m a) \<noteq> None"
      using z assms(2) D(2) [of y a] D(2) [of z a] D(3) [of x a y] D(3) [of x a z]
      by (cases "z = y"; cases "z = x") auto
  next
    fix z u a
    assume "((ptr m)(x := ptr m y, y := None)) z = Some a" "((ptr m)(x := ptr m y, y := None)) u = Some a"
    then show "z = u"
      using D(3) [of z a u] D(3) [of y a u] D(3) [of z a y]
      by (cases "z = x"; cases "u = x"; cases "z = y"; cases "u = y") auto
  next
    fix a assume a: "(if ptr m x = Some a then None else cells m a) \<noteq> None"
    show "a < next_cell m" using a D(4) [of a] by (simp split: if_splits)
    from a D(5) [of a] obtain z where z: "ptr m z = Some a" "z \<noteq> x" by (fastforce split: if_splits)
    show "\<exists>z. ((ptr m)(x := ptr m y, y := None)) z = Some a"
      by (rule exI [of _ "if z = y then x else z"]) (use z assms(2) in auto)
  qed
  show "pointee (move_ptr x y m) = (pointee m)(x := pointee m y, y := None)"
    using assms(2) D(3) by (auto simp: g' pointee_def fun_eq_iff split: option.splits)
qed

lemma step_sound:
  assumes "sound m"
  shows "sound (step_ptr L f g x m)"
  using assms by (auto simp: step_ptr_def Let_def set_ptr_sound(1) split: option.splits)

lemma inc_sound:
  assumes "sound m"
  shows "sound (inc_ptr L x m)" and "pointee (inc_ptr L x m) = (pointee m)(x := inc L (pointee m x))"
    and "sound (dec_ptr L x m)" and "pointee (dec_ptr L x m) = (pointee m)(x := dec L (pointee m x))"
proof -
  show "sound (inc_ptr L x m)" "sound (dec_ptr L x m)"
    by (simp_all add: inc_ptr_def dec_ptr_def step_sound [OF assms])
  show "pointee (inc_ptr L x m) = (pointee m)(x := inc L (pointee m x))"
    using set_ptr_sound [OF assms] set_ptr_sound(2) [OF set_ptr_sound(1) [OF assms]]
    by (cases "pointee m x") (auto simp: inc_ptr_def step_ptr_def inc_def Let_def valid_def fun_eq_iff)
  show "pointee (dec_ptr L x m) = (pointee m)(x := dec L (pointee m x))"
    using set_ptr_sound [OF assms] set_ptr_sound(2) [OF set_ptr_sound(1) [OF assms]]
    by (cases "pointee m x") (auto simp: dec_ptr_def step_ptr_def dec_def Let_def valid_def fun_eq_iff)
qed

lemma mem_step_refines:
  assumes "sound m"
  shows "sound (mem_step L c m) \<and> pointee (mem_step L c m) = value_step L c (pointee m)"
proof (cases c)
  case (Move x y)
  with move_sound [OF assms, of x y] assms show ?thesis by (simp add: CIDRAddress_move_def)
next
  case (Assign_move x y)
  with move_sound [OF assms, of x y] assms show ?thesis
    by (auto simp: assign_move_ptr_def assign_move_def move_ptr_def)
next
  case (Post_inc r x)
  with assms show ?thesis
    by (simp add: post_inc_ptr_def set_addr_ptr_def set_ptr_sound inc_sound post_inc_def)
next
  case (Post_dec r x)
  with assms show ?thesis
    by (simp add: post_dec_ptr_def set_addr_ptr_def set_ptr_sound inc_sound post_dec_def)
qed (use assms in \<open>simp_all add: set_ptr_sound destroy_sound inc_sound set_string_ptr_def set_addr_ptr_def set_string_def
    assign_copy_ptr_def assign_copy_def CIDRAddress_copy_def set_addr_def
    invalidate_def Let_def\<close>)

subsection \<open>Runs\<close>

text \<open>
  A machine whose steps, under an invariant they keep, do to an abstraction of the state what the steps of a
  specification do: so do its runs.
\<close>

locale step_refinement =
  fixes step :: "'op \<Rightarrow> 's \<Rightarrow> 's"
    and spec_step :: "'op \<Rightarrow> 'a \<Rightarrow> 'a"
    and inv :: "'s \<Rightarrow> bool"
    and abs :: "'s \<Rightarrow> 'a"
  assumes step_inv: "inv s \<Longrightarrow> inv (step c s)"
    and step_abs: "inv s \<Longrightarrow> abs (step c s) = spec_step c (abs s)"
begin

lemma run_inv: "inv s \<Longrightarrow> inv (fold step cs s)"
  by (induction cs arbitrary: s) (simp_all add: step_inv)

lemma run_abs: "inv s \<Longrightarrow> abs (fold step cs s) = fold spec_step cs (abs s)"
  by (induction cs arbitrary: s) (simp_all add: step_inv step_abs)

end

interpretation pointers: step_refinement "mem_step L" "value_step L" sound pointee for L
  by unfold_locales (simp_all add: mem_step_refines)

subsection \<open>Properties\<close>

text \<open>C10. Whatever a program does with addresses, in any order (copies, moves, assignments of an object to itself,
  steps, destructors): no structure is freed twice or read after it was freed, every allocated structure has
  exactly one owner, and each object holds the value the model of addresses gives it, in which objects do not share
  anything. When all objects are gone nothing is left allocated.\<close>

theorem addresses_own_their_memory:
  assumes "m = fold (mem_step L) cs no_addresses" and "s = fold (value_step L) cs (\<lambda>_. None)"
  shows "sound m \<and> pointee m = s \<and> ((\<forall>x. s x = None) \<longrightarrow> cells m = Map.empty)"
proof -
  have "pointee no_addresses = fold (value_step L) [] (\<lambda>_. None)" by (simp add: pointee_def no_addresses_def fun_eq_iff)
  with pointers.run_inv [OF sound_no_addresses, of L cs] pointers.run_abs [OF sound_no_addresses, of L cs]
  have S: "sound m" "pointee m = s" unfolding assms by simp_all
  have "cells m = Map.empty" if n: "\<forall>x. s x = None"
  proof (rule ext, rule ccontr)
    fix a
    assume a: "cells m a \<noteq> None"
    then obtain x where "ptr m x = Some a" using soundD(5) [OF S(1)] by blast
    then have "pointee m x = cells m a" by (simp add: pointee_def)
    with a n S(2) show False by simp
  qed
  with S show ?thesis by blast
qed

theorem addresses_own_their_memory_witness:
  "let m = fold (mem_step ref_libcidr)
     [Make 0 (Some (R4 (In_addr 10 0 0 255) 32)), Copy 1 0, Assign 1 1, Inc 1, Post_inc 2 1, Assign_move 0 1, Move 3 0,
      Destroy 0, Destroy 1, Destroy 2, Destroy 3] no_addresses
   in sound m \<and> cells m = Map.empty"
proof -
  let ?cs = "[Make 0 (Some (R4 (In_addr 10 0 0 255) 32)), Copy 1 0, Assign 1 1, Inc 1, Post_inc 2 1, Assign_move 0 1, Move 3 0,
      Destroy 0, Destroy 1, Destroy 2, Destroy 3] :: ref_cidr cidr_op list"
  have "\<forall>x. fold (value_step ref_libcidr) ?cs (\<lambda>_. None) x = None"
    by (simp add: invalidate_def assign_move_def assign_copy_def CIDRAddress_move_def)
  with addresses_own_their_memory [OF refl refl, of ref_libcidr ?cs] show ?thesis
    unfolding Let_def by blast
qed

end
