(* ===== verification/Agent.thy ===== *)
theory Agent
  imports Rest_Prelude
begin

text \<open>
  \<open>src/bios_agentpp.h\<close>, \<open>BIOSAgent\<close>: the base class of an agent on the bus. Its C interface (\<open>bios_agent.h\<close>,
  \<open>ymsg.h\<close>), the poller, the clock and the flag \<open>zsys_interrupted\<close> are declared in the repository only or belong to
  other libraries: they are the record \<open>agent_api\<close> over an unknown world \<open>'w\<close>. A pointer is an address, \<open>None\<close> for
  null; a function that takes a pointer to a pointer returns what the pointer is afterwards.
\<close>

subsection \<open>The interface\<close>

type_synonym ptr = "nat option"

record 'w agent_api =
  bios_agent_new :: "string \<Rightarrow> string \<Rightarrow> 'w \<Rightarrow> ptr \<times> 'w"
  bios_agent_destroy :: "nat \<Rightarrow> 'w \<Rightarrow> 'w" \<comment> \<open>of an agent; the pointer is null then\<close>
  bios_agent_send :: "ptr \<Rightarrow> string option \<Rightarrow> ptr \<Rightarrow> 'w \<Rightarrow> int \<times> ptr \<times> 'w"
  bios_agent_sendto :: "ptr \<Rightarrow> string option \<Rightarrow> string option \<Rightarrow> ptr \<Rightarrow> 'w \<Rightarrow> int \<times> ptr \<times> 'w"
  bios_agent_replyto :: "ptr \<Rightarrow> string option \<Rightarrow> string option \<Rightarrow> ptr \<Rightarrow> ptr \<Rightarrow> 'w \<Rightarrow> int \<times> ptr \<times> 'w"
  bios_agent_sendfor :: "ptr \<Rightarrow> string option \<Rightarrow> string option \<Rightarrow> ptr \<Rightarrow> 'w \<Rightarrow> int \<times> ptr \<times> 'w"
  bios_agent_recv :: "ptr \<Rightarrow> 'w \<Rightarrow> ptr \<times> 'w"
  bios_agent_recv_wait :: "ptr \<Rightarrow> int \<Rightarrow> 'w \<Rightarrow> ptr \<times> 'w"
  bios_agent_set_producer :: "ptr \<Rightarrow> string \<Rightarrow> 'w \<Rightarrow> int \<times> 'w"
  bios_agent_set_consumer :: "ptr \<Rightarrow> string \<Rightarrow> string \<Rightarrow> 'w \<Rightarrow> int \<times> 'w"
  bios_agent_command :: "ptr \<Rightarrow> 'w \<Rightarrow> string option"
  bios_agent_status :: "ptr \<Rightarrow> 'w \<Rightarrow> int"
  bios_agent_reason :: "ptr \<Rightarrow> 'w \<Rightarrow> string option"
  bios_agent_address :: "ptr \<Rightarrow> 'w \<Rightarrow> string option"
  bios_agent_sender :: "ptr \<Rightarrow> 'w \<Rightarrow> string option"
  bios_agent_subject :: "ptr \<Rightarrow> 'w \<Rightarrow> string option"
  bios_agent_content :: "ptr \<Rightarrow> 'w \<Rightarrow> ptr"
  bios_agent_actor :: "ptr \<Rightarrow> 'w \<Rightarrow> ptr"
  bios_agent_msgpipe :: "ptr \<Rightarrow> 'w \<Rightarrow> ptr"
  bios_agent_seq :: "ptr \<Rightarrow> 'w \<Rightarrow> 16 word"
  bios_agent_client :: "ptr \<Rightarrow> 'w \<Rightarrow> ptr"
  bios_agent_send_proto_metric :: "ptr \<Rightarrow> string option \<Rightarrow> ptr \<Rightarrow> 'w \<Rightarrow> int \<times> ptr \<times> 'w"
  ymsg_id :: "nat \<Rightarrow> 'w \<Rightarrow> int"
  ymsg_destroy :: "nat \<Rightarrow> 'w \<Rightarrow> 'w" \<comment> \<open>of a message; the pointer is null then\<close>
  zpoller_new :: "ptr \<Rightarrow> 'w \<Rightarrow> ptr \<times> 'w"
  zpoller_wait :: "ptr \<Rightarrow> int \<Rightarrow> 'w \<Rightarrow> bool \<times> 'w" \<comment> \<open>whether something can be read\<close>
  zpoller_destroy :: "nat \<Rightarrow> 'w \<Rightarrow> 'w"
  zclock_mono :: "'w \<Rightarrow> 64 word \<times> 'w"
  zsys_interrupted :: "'w \<Rightarrow> bool \<times> 'w" \<comment> \<open>one reading of the flag, which a signal may set between two\<close>

definition YMSG_SEND :: int where "YMSG_SEND = 1"
definition YMSG_REPLY :: int where "YMSG_REPLY = 2"

definition free_if :: "(nat \<Rightarrow> 'w \<Rightarrow> 'w) \<Rightarrow> ptr \<Rightarrow> 'w \<Rightarrow> 'w" where
  \<comment> \<open>the destructors of the C library do nothing for a null pointer\<close>
  "free_if destroy p w = (case p of None \<Rightarrow> w | Some a \<Rightarrow> destroy a w)"

subsection \<open>The object\<close>

record agent =
  bios_agent :: ptr
  exitStatus :: int
  timeoutms :: int
  agent_name :: string

definition BIOSAgent :: "string \<Rightarrow> agent" where
  "BIOSAgent name = \<lparr>bios_agent = None, exitStatus = 0, timeoutms = 2000, agent_name = name\<rparr>"

definition BIOSAgent_c :: "string option \<Rightarrow> agent option" where
  \<comment> \<open>from a C string; a null pointer is undefined\<close>
  "BIOSAgent_c name = map_option BIOSAgent name"

definition BIOSAgent_destroy :: "'w agent_api \<Rightarrow> agent \<Rightarrow> 'w \<Rightarrow> agent \<times> 'w" where
  "BIOSAgent_destroy api A w = (A\<lparr>bios_agent := None\<rparr>, free_if (bios_agent_destroy api) (bios_agent A) w)"

definition send_stream :: "'w agent_api \<Rightarrow> agent \<Rightarrow> string option \<Rightarrow> ptr \<Rightarrow> 'w \<Rightarrow> int \<times> ptr \<times> 'w" where
  "send_stream api A subject msg = bios_agent_send api (bios_agent A) subject msg"

definition sendto ::
  "'w agent_api \<Rightarrow> agent \<Rightarrow> string option \<Rightarrow> string option \<Rightarrow> ptr \<Rightarrow> 'w \<Rightarrow> int \<times> ptr \<times> 'w" where
  "sendto api A address subject msg = bios_agent_sendto api (bios_agent A) address subject msg"

definition replyto ::
  "'w agent_api \<Rightarrow> agent \<Rightarrow> string option \<Rightarrow> string option \<Rightarrow> ptr \<Rightarrow> ptr \<Rightarrow> 'w \<Rightarrow> int \<times> ptr \<times> 'w" where
  "replyto api A address subject reply msg = bios_agent_replyto api (bios_agent A) address subject reply msg"

definition sendfor ::
  "'w agent_api \<Rightarrow> agent \<Rightarrow> string option \<Rightarrow> string option \<Rightarrow> ptr \<Rightarrow> 'w \<Rightarrow> int \<times> ptr \<times> 'w" where
  "sendfor api A address subject msg = bios_agent_sendfor api (bios_agent A) address subject msg"

definition recv :: "'w agent_api \<Rightarrow> agent \<Rightarrow> 'w \<Rightarrow> ptr \<times> 'w" where
  "recv api A = bios_agent_recv api (bios_agent A)"

definition recv_wait :: "'w agent_api \<Rightarrow> agent \<Rightarrow> int \<Rightarrow> 'w \<Rightarrow> ptr \<times> 'w" where
  "recv_wait api A ms = bios_agent_recv_wait api (bios_agent A) ms"

definition set_producer :: "'w agent_api \<Rightarrow> agent \<Rightarrow> string \<Rightarrow> 'w \<Rightarrow> int \<times> 'w" where
  "set_producer api A stream = bios_agent_set_producer api (bios_agent A) stream"

definition set_consumer :: "'w agent_api \<Rightarrow> agent \<Rightarrow> string \<Rightarrow> string \<Rightarrow> 'w \<Rightarrow> int \<times> 'w" where
  "set_consumer api A stream pattern = bios_agent_set_consumer api (bios_agent A) stream pattern"

definition last_command :: "'w agent_api \<Rightarrow> agent \<Rightarrow> 'w \<Rightarrow> string option" where
  "last_command api A = bios_agent_command api (bios_agent A)"

definition last_status :: "'w agent_api \<Rightarrow> agent \<Rightarrow> 'w \<Rightarrow> int" where
  "last_status api A = bios_agent_status api (bios_agent A)"

definition last_reason :: "'w agent_api \<Rightarrow> agent \<Rightarrow> 'w \<Rightarrow> string option" where
  "last_reason api A = bios_agent_reason api (bios_agent A)"

definition last_address :: "'w agent_api \<Rightarrow> agent \<Rightarrow> 'w \<Rightarrow> string option" where
  "last_address api A = bios_agent_address api (bios_agent A)"

definition last_sender :: "'w agent_api \<Rightarrow> agent \<Rightarrow> 'w \<Rightarrow> string option" where
  "last_sender api A = bios_agent_sender api (bios_agent A)"

definition last_subject :: "'w agent_api \<Rightarrow> agent \<Rightarrow> 'w \<Rightarrow> string option" where
  "last_subject api A = bios_agent_subject api (bios_agent A)"

definition last_content :: "'w agent_api \<Rightarrow> agent \<Rightarrow> 'w \<Rightarrow> ptr" where
  "last_content api A = bios_agent_content api (bios_agent A)"

definition actor :: "'w agent_api \<Rightarrow> agent \<Rightarrow> 'w \<Rightarrow> ptr" where
  "actor api A = bios_agent_actor api (bios_agent A)"

definition msgpipe :: "'w agent_api \<Rightarrow> agent \<Rightarrow> 'w \<Rightarrow> ptr" where
  "msgpipe api A = bios_agent_msgpipe api (bios_agent A)"

definition next_seq :: "'w agent_api \<Rightarrow> agent \<Rightarrow> 'w \<Rightarrow> 16 word" where
  "next_seq api A = bios_agent_seq api (bios_agent A)"

definition mlm_client :: "'w agent_api \<Rightarrow> agent \<Rightarrow> 'w \<Rightarrow> ptr" where
  "mlm_client api A = bios_agent_client api (bios_agent A)"

definition send_proto_metric :: "'w agent_api \<Rightarrow> agent \<Rightarrow> string option \<Rightarrow> ptr \<Rightarrow> 'w \<Rightarrow> int \<times> ptr \<times> 'w" where
  "send_proto_metric api A subject msg = bios_agent_send_proto_metric api (bios_agent A) subject msg"

definition set_timeout :: "int \<Rightarrow> agent \<Rightarrow> agent" where
  "set_timeout ms A = A\<lparr>timeoutms := ms\<rparr>"

definition get_timeout :: "agent \<Rightarrow> int" where
  "get_timeout A = timeoutms A"

definition agentName :: "agent \<Rightarrow> string" where
  "agentName A = agent_name A"

definition set_agentName :: "string \<Rightarrow> agent \<Rightarrow> agent" where
  "set_agentName newname A = A\<lparr>agent_name := newname\<rparr>"

definition get_c_bios_agent :: "agent \<Rightarrow> ptr" where
  "get_c_bios_agent A = bios_agent A"

definition open_streams ::
  "'w agent_api \<Rightarrow> string option \<Rightarrow> string option \<Rightarrow> agent \<Rightarrow> 'w \<Rightarrow> bool \<times> agent \<times> 'w" where
  "open_streams api stream pattern A w =
     (case stream of
        None \<Rightarrow> (True, A, w)
      | Some s \<Rightarrow>
          (case set_producer api A s w of (rc, w) \<Rightarrow>
           if rc < 0 then (False, BIOSAgent_destroy api A w)
           else (case pattern of
                   None \<Rightarrow> (True, A, w)
                 | Some r \<Rightarrow>
                     (case set_consumer api A s r w of (rc, w) \<Rightarrow>
                      if rc < 0 then (False, BIOSAgent_destroy api A w) else (True, A, w)))))"

definition connect ::
  "'w agent_api \<Rightarrow> string option \<Rightarrow> string option \<Rightarrow> string option \<Rightarrow> agent \<Rightarrow> 'w \<Rightarrow> bool \<times> agent \<times> 'w" where
  "connect api endpoint stream pattern A w =
     (case endpoint of
        None \<Rightarrow> (False, A, w)
      | Some e \<Rightarrow>
          if agent_name A = '''' then (False, A, w)
          else
            let (A, w) = (if bios_agent A \<noteq> None then BIOSAgent_destroy api A w else (A, w));
                (b, w) = bios_agent_new api e (c_str (agent_name A)) w;
                A = A\<lparr>bios_agent := b\<rparr>
            in if b = None then (False, A, w) else open_streams api stream pattern A w)"

subsection \<open>The handlers\<close>

text \<open>The virtual functions: what a derived class does with its object, the world and a message.\<close>

record 'w handlers =
  onSend :: "ptr \<Rightarrow> agent \<Rightarrow> 'w \<Rightarrow> ptr \<times> agent \<times> 'w"
  onReply :: "ptr \<Rightarrow> agent \<Rightarrow> 'w \<Rightarrow> ptr \<times> agent \<times> 'w"
  onPoll :: "agent \<Rightarrow> 'w \<Rightarrow> agent \<times> 'w"
  onStart :: "agent \<Rightarrow> 'w \<Rightarrow> agent \<times> 'w"
  onEnd :: "agent \<Rightarrow> 'w \<Rightarrow> agent \<times> 'w"

definition default_onSend :: "'w agent_api \<Rightarrow> ptr \<Rightarrow> agent \<Rightarrow> 'w \<Rightarrow> ptr \<times> agent \<times> 'w" where
  "default_onSend api message A w = (None, A, free_if (ymsg_destroy api) message w)"

definition default_onReply :: "'w agent_api \<Rightarrow> ptr \<Rightarrow> agent \<Rightarrow> 'w \<Rightarrow> ptr \<times> agent \<times> 'w" where
  "default_onReply api message A w = (None, A, free_if (ymsg_destroy api) message w)"

definition default_handlers :: "'w agent_api \<Rightarrow> 'w handlers" where
  "default_handlers api = \<lparr>onSend = default_onSend api, onReply = default_onReply api,
     onPoll = Pair, onStart = Pair, onEnd = Pair\<rparr>"

subsection \<open>The loop\<close>

definition receive :: "'w agent_api \<Rightarrow> 'w handlers \<Rightarrow> agent \<Rightarrow> 'w \<Rightarrow> agent \<times> 'w" where
  "receive api H A w =
     (case recv api A w of
        (None, w) \<Rightarrow> (A, w)
      | (Some m, w) \<Rightarrow>
          let (message, A, w) =
                (if ymsg_id api m w = YMSG_REPLY then onReply H (Some m) A w
                 else if ymsg_id api m w = YMSG_SEND then onSend H (Some m) A w
                 else (Some m, A, w))
          in (A, free_if (ymsg_destroy api) message w))"

definition periodic :: "'w handlers \<Rightarrow> 64 word \<Rightarrow> 64 word \<Rightarrow> agent \<Rightarrow> 'w \<Rightarrow> 64 word \<times> agent \<times> 'w" where
  "periodic H now last_poll A w =
     (if now - last_poll \<ge> word_of_int (timeoutms A) then (now, onPoll H A w) else (last_poll, A, w))"

definition turn ::
  "'w agent_api \<Rightarrow> 'w handlers \<Rightarrow> ptr \<Rightarrow> 64 word \<Rightarrow> agent \<Rightarrow> 'w \<Rightarrow> bool \<times> 64 word \<times> agent \<times> 'w" where
  \<comment> \<open>the body of the loop; \<open>True\<close> when it leaves by \<open>break\<close>\<close>
  "turn api H poller last_poll A w =
     (let (which, w) = zpoller_wait api poller (timeoutms A) w;
          (now, w) = zclock_mono api w;
          (last_poll, A, w) = periodic H now last_poll A w;
          (stop, w) = zsys_interrupted api w
      in if stop then (True, last_poll, A, w)
         else if which then (False, last_poll, receive api H A w)
         else (False, last_poll, onPoll H A w))"

partial_function (option) main_loop ::
  "'w agent_api \<Rightarrow> 'w handlers \<Rightarrow> ptr \<Rightarrow> 64 word \<Rightarrow> agent \<Rightarrow> 'w \<Rightarrow> (agent \<times> 'w) option" where
  "main_loop api H poller last_poll A w =
     (case zsys_interrupted api w of
        (stop, w) \<Rightarrow>
          if stop then Some (A, w)
          else (case turn api H poller last_poll A w of
                  (stop, last_poll, A, w) \<Rightarrow> if stop then Some (A, w) else main_loop api H poller last_poll A w))"

definition main :: "'w agent_api \<Rightarrow> 'w handlers \<Rightarrow> agent \<Rightarrow> 'w \<Rightarrow> (agent \<times> 'w) option" where
  "main api H A w =
     (let (poller, w) = zpoller_new api (msgpipe api A w) w;
          (last_poll, w) = zclock_mono api w
      in case main_loop api H poller last_poll A w of
           None \<Rightarrow> None
         | Some (A, w) \<Rightarrow> Some (A, free_if (zpoller_destroy api) poller w))"

definition run :: "'w agent_api \<Rightarrow> 'w handlers \<Rightarrow> agent \<Rightarrow> 'w \<Rightarrow> (int \<times> agent \<times> 'w) option" where
  "run api H A w =
     (let (A, w) = onStart H A w in
      case main api H A w of
        None \<Rightarrow> None
      | Some (A, w) \<Rightarrow> (let (A, w) = onEnd H A w in Some (exitStatus A, A, w)))"

subsection \<open>Agents that are connected and released\<close>

text \<open>What \<open>bios_agent.h\<close> promises of agents: a new one is none of the live ones, destroying a live one frees it,
  setting the streams keeps them.\<close>

definition owns_agents :: "'w agent_api \<Rightarrow> ('w \<Rightarrow> nat set) \<Rightarrow> bool" where
  "owns_agents api live \<longleftrightarrow>
     (\<forall>e n w. case bios_agent_new api e n w of
        (None, w') \<Rightarrow> live w' = live w
      | (Some a, w') \<Rightarrow> a \<notin> live w \<and> live w' = insert a (live w)) \<and>
     (\<forall>a w. a \<in> live w \<longrightarrow> live (bios_agent_destroy api a w) = live w - {a}) \<and>
     (\<forall>p s w. live (snd (bios_agent_set_producer api p s w)) = live w) \<and>
     (\<forall>p s r w. live (snd (bios_agent_set_consumer api p s r w)) = live w)"

definition holds :: "('w \<Rightarrow> nat set) \<Rightarrow> agent \<Rightarrow> 'w \<Rightarrow> bool" where
  "holds live A w \<longleftrightarrow> (\<forall>a. bios_agent A = Some a \<longrightarrow> a \<in> live w)"

definition others :: "('w \<Rightarrow> nat set) \<Rightarrow> agent \<Rightarrow> 'w \<Rightarrow> nat set" where
  \<comment> \<open>the live agents of other objects\<close>
  "others live A w = live w - set_option (bios_agent A)"

lemma holdsD: "holds live A w \<Longrightarrow> bios_agent A = Some a \<Longrightarrow> a \<in> live w"
  by (simp add: holds_def)

lemma new_None:
  "owns_agents api live \<Longrightarrow> bios_agent_new api e n w = (None, w') \<Longrightarrow> live w' = live w"
  unfolding owns_agents_def by (drule conjunct1) (drule spec [of _ e], drule spec [of _ n], drule spec [of _ w], simp)

lemma new_Some:
  "owns_agents api live \<Longrightarrow> bios_agent_new api e n w = (Some a, w') \<Longrightarrow> a \<notin> live w \<and> live w' = insert a (live w)"
  unfolding owns_agents_def by (drule conjunct1) (drule spec [of _ e], drule spec [of _ n], drule spec [of _ w], simp)

lemma destroyed: "owns_agents api live \<Longrightarrow> a \<in> live w \<Longrightarrow> live (bios_agent_destroy api a w) = live w - {a}"
  unfolding owns_agents_def by blast

lemma produced: "owns_agents api live \<Longrightarrow> bios_agent_set_producer api p s w = (rc, w') \<Longrightarrow> live w' = live w"
  unfolding owns_agents_def by (metis snd_conv)

lemma consumed: "owns_agents api live \<Longrightarrow> bios_agent_set_consumer api p s r w = (rc, w') \<Longrightarrow> live w' = live w"
  unfolding owns_agents_def by (metis snd_conv)

lemma destroy_releases:
  assumes "owns_agents api live" and "holds live A w" and "BIOSAgent_destroy api A w = (A', w')"
  shows "bios_agent A' = None \<and> live w' = others live A w \<and> holds live A' w' \<and> others live A' w' = others live A w \<and>
         agent_name A' = agent_name A"
  using assms
  by (cases "bios_agent A")
    (auto simp: BIOSAgent_destroy_def free_if_def others_def holds_def destroyed [OF assms(1)])

lemma open_streams_spec:
  assumes "owns_agents api live" and "holds live A w" and "bios_agent A \<noteq> None"
      and "open_streams api stream pattern A w = (ok, A', w')"
  shows "holds live A' w' \<and> others live A' w' = others live A w \<and> (bios_agent A' \<noteq> None \<longleftrightarrow> ok)"
proof -
  have keep: "holds live A w'' \<and> others live A w'' = others live A w" if "live w'' = live w" for w''
    using that assms(2) by (simp add: holds_def others_def)
  have drop: "holds live A3 w3 \<and> others live A3 w3 = others live A w \<and> bios_agent A3 = None"
    if "live w'' = live w" "BIOSAgent_destroy api A w'' = (A3, w3)" for w'' A3 w3
    using destroy_releases [OF assms(1) _ that(2)] keep [OF that(1)] by simp
  show ?thesis
  proof (cases stream)
    case None
    with assms show ?thesis by (simp add: open_streams_def)
  next
    case (Some s)
    obtain rc w1 where p: "set_producer api A s w = (rc, w1)" by fastforce
    then have w1: "live w1 = live w" using produced [OF assms(1)] by (simp add: set_producer_def)
    show ?thesis
    proof (cases "rc < 0")
      case True
      with assms(4) have "\<not> ok" "BIOSAgent_destroy api A w1 = (A', w')" by (simp_all add: open_streams_def Some p)
      with drop [OF w1] show ?thesis by simp
    next
      case False
      show ?thesis
      proof (cases pattern)
        case None
        with assms(3,4) False keep [OF w1] show ?thesis by (simp add: open_streams_def Some p)
      next
        case r: (Some r)
        obtain rc' w2 where c: "set_consumer api A s r w1 = (rc', w2)" by fastforce
        then have w2: "live w2 = live w" using consumed [OF assms(1)] w1 by (simp add: set_consumer_def)
        show ?thesis
        proof (cases "rc' < 0")
          case True
          with assms(4) False have "\<not> ok" "BIOSAgent_destroy api A w2 = (A', w')"
            by (simp_all add: open_streams_def Some p r c)
          with drop [OF w2] show ?thesis by simp
        next
          case F: False
          with assms(3,4) False keep [OF w2] show ?thesis by (simp add: open_streams_def Some p r c)
        qed
      qed
    qed
  qed
qed

text \<open>\<open>connect\<close> releases the agent the object had and leaves it with a new one when it returns \<open>true\<close> and with
  none when a connection or a stream fails; no other agent is touched and none is lost, so that a live agent is
  always that of an object. Without an end point or a name nothing happens.\<close>

lemma connect_owned:
  assumes "owns_agents api live" and "holds live A w"
      and "connect api endpoint stream pattern A w = (ok, A', w')"
  shows "holds live A' w' \<and> others live A' w' = others live A w \<and>
         (if endpoint = None \<or> agent_name A = '''' then \<not> ok \<and> A' = A \<and> w' = w
          else bios_agent A' \<noteq> None \<longleftrightarrow> ok)"
proof (cases "endpoint = None \<or> agent_name A = ''''")
  case True
  with assms show ?thesis by (auto simp: connect_def split: option.splits)
next
  case False
  then obtain e where e: "endpoint = Some e" and n: "agent_name A \<noteq> ''''" by auto
  define A1 where "A1 = A\<lparr>bios_agent := None\<rparr>"
  obtain w1 where d: "(if bios_agent A \<noteq> None then BIOSAgent_destroy api A w else (A, w)) = (A1, w1)"
    and w1: "live w1 = others live A w"
  proof (cases "bios_agent A")
    case None
    then have "A1 = A" by (cases A) (simp add: A1_def)
    with None that [of w] show ?thesis by (simp add: others_def)
  next
    case (Some a)
    then show ?thesis
      using that [of "bios_agent_destroy api a w"] destroyed [OF assms(1) holdsD [OF assms(2) Some]]
      by (simp add: BIOSAgent_destroy_def free_if_def A1_def others_def)
  qed
  obtain b w2 where b: "bios_agent_new api e (c_str (agent_name A)) w1 = (b, w2)" by fastforce
  have nm: "agent_name A1 = agent_name A" by (simp add: A1_def)
  note C = assms(3) [unfolded connect_def e option.case if_not_P [OF n] d Let_def prod.case nm b]
  show ?thesis
  proof (cases b)
    case None
    with C w1 new_None [OF assms(1)] b e n show ?thesis by (auto simp: holds_def others_def)
  next
    case (Some a)
    define A2 where "A2 = A1\<lparr>bios_agent := Some a\<rparr>"
    have a: "a \<notin> live w1" "live w2 = insert a (live w1)" using new_Some [OF assms(1)] b Some by auto
    have "holds live A2 w2" and o: "others live A2 w2 = others live A w" and "bios_agent A2 \<noteq> None"
      using a w1 by (auto simp: holds_def others_def A2_def)
    moreover have "open_streams api stream pattern A2 w2 = (ok, A', w')"
      using C by (simp add: Some A2_def)
    ultimately have "holds live A' w' \<and> others live A' w' = others live A2 w2 \<and> (bios_agent A' \<noteq> None \<longleftrightarrow> ok)"
      using open_streams_spec [OF assms(1)] by blast
    with o e n show ?thesis by simp
  qed
qed

primrec connects ::
  "'w agent_api \<Rightarrow> (string option \<times> string option \<times> string option) list \<Rightarrow> agent \<Rightarrow> 'w \<Rightarrow> agent \<times> 'w" where
  "connects api [] A w = (A, w)"
| "connects api (c # cs) A w =
     (case c of (endpoint, stream, pattern) \<Rightarrow>
      case connect api endpoint stream pattern A w of (ok, A, w) \<Rightarrow> connects api cs A w)"

lemma connects_own:
  assumes "owns_agents api live"
  shows "holds live A w \<Longrightarrow> connects api cs A w = (A', w') \<Longrightarrow>
    holds live A' w' \<and> others live A' w' = others live A w"
proof (induction cs arbitrary: A w)
  case (Cons c cs)
  obtain endpoint stream pattern where c: "c = (endpoint, stream, pattern)" by (cases c)
  obtain ok A1 w1 where k: "connect api endpoint stream pattern A w = (ok, A1, w1)" by (cases "connect api endpoint stream pattern A w")
  from Cons.prems(2) c k have "connects api cs A1 w1 = (A', w')" by simp
  moreover have "holds live A1 w1" "others live A1 w1 = others live A w"
    using connect_owned [OF assms Cons.prems(1) k] by simp_all
  ultimately show ?case using Cons.IH by metis
qed simp

text \<open>C25. An object that connects again and again, with success or without, holds at most one live agent at any time;
  when it is destroyed every agent it made is freed, and none but these.\<close>

theorem agent_released:
  assumes "owns_agents api live" and "connects api cs (BIOSAgent name) w = (A, w')"
  shows "others live A w' = live w \<and> live (snd (BIOSAgent_destroy api A w')) = live w"
proof -
  have "holds live A w' \<and> others live A w' = others live (BIOSAgent name) w"
    by (rule connects_own [OF assms(1) _ assms(2)]) (simp add: holds_def BIOSAgent_def)
  moreover obtain A'' w'' where "BIOSAgent_destroy api A w' = (A'', w'')" by fastforce
  ultimately show ?thesis
    using destroy_releases [OF assms(1)] by (metis snd_conv others_def BIOSAgent_def agent.simps(1) Diff_empty option.set(1))
qed

subsection \<open>Messages\<close>

definition ignores_messages :: "'w agent_api \<Rightarrow> ('w \<Rightarrow> nat set) \<Rightarrow> bool" where
  "ignores_messages api live \<longleftrightarrow>
     (\<forall>p w. live (snd (zpoller_new api p w)) = live w) \<and>
     (\<forall>p t w. live (snd (zpoller_wait api p t w)) = live w) \<and>
     (\<forall>p w. live (zpoller_destroy api p w) = live w) \<and>
     (\<forall>w. live (snd (zclock_mono api w)) = live w) \<and>
     (\<forall>w. live (snd (zsys_interrupted api w)) = live w)"

definition owns_messages :: "'w agent_api \<Rightarrow> ('w \<Rightarrow> nat set) \<Rightarrow> bool" where
  \<comment> \<open>a received message is a new live one and the caller's, \<open>ymsg_destroy\<close> frees a live one, nothing else of the
     loop touches messages\<close>
  "owns_messages api live \<longleftrightarrow>
     (\<forall>p w. case bios_agent_recv api p w of
        (None, w') \<Rightarrow> live w' = live w
      | (Some m, w') \<Rightarrow> m \<notin> live w \<and> live w' = insert m (live w)) \<and>
     (\<forall>m w. m \<in> live w \<longrightarrow> live (ymsg_destroy api m w) = live w - {m}) \<and> ignores_messages api live"

definition takes_message :: "('w \<Rightarrow> nat set) \<Rightarrow> (ptr \<Rightarrow> agent \<Rightarrow> 'w \<Rightarrow> ptr \<times> agent \<times> 'w) \<Rightarrow> bool" where
  \<comment> \<open>a handler either frees the message and makes the pointer null or leaves both alone\<close>
  "takes_message live h \<longleftrightarrow>
     (\<forall>m A w. m \<in> live w \<longrightarrow>
        (case h (Some m) A w of
           (None, _, w') \<Rightarrow> live w' = live w - {m}
         | (Some m', _, w') \<Rightarrow> m' = m \<and> live w' = live w))"

definition keeps_messages :: "('w \<Rightarrow> nat set) \<Rightarrow> (agent \<Rightarrow> 'w \<Rightarrow> agent \<times> 'w) \<Rightarrow> bool" where
  "keeps_messages live f \<longleftrightarrow> (\<forall>A w. live (snd (f A w)) = live w)"

definition good_handlers :: "('w \<Rightarrow> nat set) \<Rightarrow> 'w handlers \<Rightarrow> bool" where
  "good_handlers live H \<longleftrightarrow> takes_message live (onSend H) \<and> takes_message live (onReply H) \<and>
     keeps_messages live (onPoll H) \<and> keeps_messages live (onStart H) \<and> keeps_messages live (onEnd H)"

lemma message_destroyed: "owns_messages api live \<Longrightarrow> m \<in> live w \<Longrightarrow> live (ymsg_destroy api m w) = live w - {m}"
  unfolding owns_messages_def by (elim conjE, drule spec [of _ m], drule spec [of _ w]) simp

lemma received_None:
  "owns_messages api live \<Longrightarrow> bios_agent_recv api p w = (None, w') \<Longrightarrow> live w' = live w"
  unfolding owns_messages_def by (elim conjE, drule spec [of _ p], drule spec [of _ w]) simp

lemma received_Some:
  "owns_messages api live \<Longrightarrow> bios_agent_recv api p w = (Some m, w') \<Longrightarrow> m \<notin> live w \<and> live w' = insert m (live w)"
  unfolding owns_messages_def by (elim conjE, drule spec [of _ p], drule spec [of _ w]) simp

lemma others_keep_messages:
  assumes "owns_messages api live"
  shows "live (snd (zpoller_new api p w)) = live w" "live (snd (zpoller_wait api p t w)) = live w"
    "live (zpoller_destroy api a w) = live w" "live (snd (zclock_mono api w)) = live w"
    "live (snd (zsys_interrupted api w)) = live w"
proof -
  have "ignores_messages api live" using assms unfolding owns_messages_def by (elim conjE)
  then show "live (snd (zpoller_new api p w)) = live w" "live (snd (zpoller_wait api p t w)) = live w"
    "live (zpoller_destroy api a w) = live w" "live (snd (zclock_mono api w)) = live w"
    "live (snd (zsys_interrupted api w)) = live w"
    by (simp_all add: ignores_messages_def)
qed

lemma keeps_messagesD: "keeps_messages live f \<Longrightarrow> live (snd (f A w)) = live w"
  by (simp add: keeps_messages_def)

lemma handled:
  assumes "takes_message live h" and "owns_messages api live" and "m \<in> live w" and "h (Some m) A w = (p, A', w')"
  shows "live (free_if (ymsg_destroy api) p w') = live w - {m}"
proof -
  have "case h (Some m) A w of (None, _, w') \<Rightarrow> live w' = live w - {m} | (Some m', _, w') \<Rightarrow> m' = m \<and> live w' = live w"
    using assms(1) [unfolded takes_message_def, rule_format, OF assms(3), of A] .
  with assms(3,4) message_destroyed [OF assms(2), of m w'] show ?thesis
    by (cases p) (simp_all add: free_if_def)
qed

lemma default_handlers_good: "owns_messages api live \<Longrightarrow> good_handlers live (default_handlers api)"
  by (simp add: good_handlers_def default_handlers_def takes_message_def keeps_messages_def default_onSend_def
        default_onReply_def free_if_def message_destroyed)

lemma receive_frees:
  assumes "owns_messages api live" and "good_handlers live H"
  shows "live (snd (receive api H A w)) = live w"
proof (cases "recv api A w")
  case (Pair r w1)
  show ?thesis
  proof (cases r)
    case None
    with Pair received_None [OF assms(1)] show ?thesis by (simp add: receive_def recv_def)
  next
    case (Some m)
    then have m: "m \<notin> live w" "live w1 = insert m (live w)"
      using Pair received_Some [OF assms(1)] by (simp_all add: recv_def)
    define handle where "handle =
      (if ymsg_id api m w1 = YMSG_REPLY then onReply H (Some m) A w1
       else if ymsg_id api m w1 = YMSG_SEND then onSend H (Some m) A w1 else (Some m, A, w1))"
    obtain p A2 w2 where h: "handle = (p, A2, w2)" by (cases handle)
    have hs: "takes_message live (onSend H)" "takes_message live (onReply H)"
      using assms(2) by (simp_all add: good_handlers_def)
    have "live (free_if (ymsg_destroy api) p w2) = live w1 - {m}"
      using h m handled [OF hs(1) assms(1), of m w1 A p A2 w2] handled [OF hs(2) assms(1), of m w1 A p A2 w2]
        message_destroyed [OF assms(1), of m w1]
      by (auto simp: handle_def free_if_def split: if_splits)
    then show ?thesis
      using h m by (simp add: receive_def Pair Some handle_def)
  qed
qed

lemma periodic_keeps:
  "keeps_messages live (onPoll H) \<Longrightarrow> periodic H now last_poll A w = (l, A', w') \<Longrightarrow> live w' = live w"
  by (auto simp: periodic_def split: if_splits dest: keeps_messagesD [of _ _ A w])

lemma turn_keeps:
  assumes "owns_messages api live" and "good_handlers live H" and "turn api H poller last_poll A w = (stop, l, A', w')"
  shows "live w' = live w"
proof -
  obtain which w1 where 1: "zpoller_wait api poller (timeoutms A) w = (which, w1)" by fastforce
  obtain now w2 where 2: "zclock_mono api w1 = (now, w2)" by fastforce
  obtain l1 A1 w3 where 3: "periodic H now last_poll A w2 = (l1, A1, w3)" by (cases "periodic H now last_poll A w2")
  obtain stop' w4 where 4: "zsys_interrupted api w3 = (stop', w4)" by fastforce
  have p: "keeps_messages live (onPoll H)" using assms(2) by (simp add: good_handlers_def)
  have "live w4 = live w"
    using others_keep_messages [OF assms(1)] 1 2 4 periodic_keeps [OF p 3] by (metis snd_conv)
  then show ?thesis
    using assms(3) receive_frees [OF assms(1,2), of A1 w4] keeps_messagesD [OF p, of A1 w4]
    by (auto simp: turn_def 1 2 3 4 split: if_splits)
qed

lemma main_loop_keeps:
  assumes "owns_messages api live" and "good_handlers live H"
      and "main_loop api H poller last_poll A w = Some r"
  shows "live (snd r) = live w"
proof -
  have "api = api \<and> H = H \<longrightarrow> live (snd r) = live w"
  proof (rule main_loop.raw_induct [where P = "\<lambda>api' H' poller last_poll A w r. api' = api \<and> H' = H \<longrightarrow> live (snd r) = live w",
        OF _ assms(3)])
    fix loop api' H' poller last_poll A w r
    assume IH: "\<And>api' H' poller last_poll A w r. loop api' H' poller last_poll A w = Some r \<Longrightarrow>
        api' = api \<and> H' = H \<longrightarrow> live (snd r) = live w"
      and step: "(case zsys_interrupted api' w of (stop, w) \<Rightarrow>
          if stop then Some (A, w)
          else (case turn api' H' poller last_poll A w of (stop, last_poll, A, w) \<Rightarrow>
                  if stop then Some (A, w) else loop api' H' poller last_poll A w)) = Some r"
    obtain stop w1 where i: "zsys_interrupted api' w = (stop, w1)" by fastforce
    obtain stop' l A2 w2 where t: "turn api' H' poller last_poll A w1 = (stop', l, A2, w2)"
      by (cases "turn api' H' poller last_poll A w1")
    show "api' = api \<and> H' = H \<longrightarrow> live (snd r) = live w"
    proof
      assume "api' = api \<and> H' = H"
      then have "live w1 = live w" "live w2 = live w1"
        using i others_keep_messages(5) [OF assms(1), of w] turn_keeps [OF assms(1,2)] t by auto
      with step IH i t \<open>api' = api \<and> H' = H\<close> show "live (snd r) = live w"
        by (auto split: if_splits)
    qed
  qed
  then show ?thesis by simp
qed

lemma run_frees_messages:
  assumes "owns_messages api live" and "good_handlers live H" and "run api H A w = Some (rc, A', w')"
  shows "live (snd (receive api H B v)) = live v \<and> live w' = live w"
proof -
  note k = others_keep_messages [OF assms(1)]
  have h: "keeps_messages live (onStart H)" "keeps_messages live (onEnd H)"
    using assms(2) by (simp_all add: good_handlers_def)
  obtain A1 w1 where 1: "onStart H A w = (A1, w1)" by fastforce
  obtain poller w2 where 2: "zpoller_new api (msgpipe api A1 w1) w1 = (poller, w2)" by fastforce
  obtain l w3 where 3: "zclock_mono api w2 = (l, w3)" by fastforce
  obtain A4 w4 where 4: "main_loop api H poller l A1 w3 = Some (A4, w4)"
    and 5: "onEnd H A4 (free_if (zpoller_destroy api) poller w4) = (A', w')"
    using assms(3) by (auto simp: run_def main_def 1 2 3 split: option.splits prod.splits)
  have "live w1 = live w" "live w2 = live w1" "live w3 = live w2"
    using 1 2 3 keeps_messagesD [OF h(1), of A w] k by (metis snd_conv)+
  moreover have "live w4 = live w3" using main_loop_keeps [OF assms(1,2) 4] by simp
  moreover have "live w' = live (free_if (zpoller_destroy api) poller w4)"
    using 5 keeps_messagesD [OF h(2)] by (metis snd_conv)
  moreover have "\<dots> = live w4" by (cases poller) (simp_all add: free_if_def k)
  ultimately show ?thesis using receive_frees [OF assms(1,2)] by simp
qed

subsection \<open>The loop ends when the process is interrupted\<close>

definition interrupts :: "'w agent_api \<Rightarrow> ('w \<Rightarrow> nat) \<Rightarrow> bool" where
  \<comment> \<open>the flag is set after at most \<open>left w\<close> waits\<close>
  "interrupts api left \<longleftrightarrow>
     (\<forall>w. left w = 0 \<longrightarrow> fst (zsys_interrupted api w)) \<and>
     (\<forall>p t w. left (snd (zpoller_wait api p t w)) \<le> left w - 1) \<and>
     (\<forall>w. left (snd (zsys_interrupted api w)) \<le> left w) \<and>
     (\<forall>w. left (snd (zclock_mono api w)) \<le> left w) \<and>
     (\<forall>p w. left (snd (bios_agent_recv api p w)) \<le> left w) \<and>
     (\<forall>m w. left (ymsg_destroy api m w) \<le> left w)"

definition handlers_leave :: "('w \<Rightarrow> nat) \<Rightarrow> 'w handlers \<Rightarrow> bool" where
  \<comment> \<open>the handlers do not put the interruption off\<close>
  "handlers_leave left H \<longleftrightarrow>
     (\<forall>p A w. left (snd (snd (onSend H p A w))) \<le> left w) \<and> (\<forall>p A w. left (snd (snd (onReply H p A w))) \<le> left w) \<and>
     (\<forall>A w. left (snd (onPoll H A w)) \<le> left w)"

lemma interruptsD:
  assumes "interrupts api left"
  shows "left w = 0 \<Longrightarrow> fst (zsys_interrupted api w)"
    and "zpoller_wait api p t w = (b, w') \<Longrightarrow> left w' \<le> left w - 1"
    and "zsys_interrupted api w = (b, w') \<Longrightarrow> left w' \<le> left w"
    and "zclock_mono api w = (now, w') \<Longrightarrow> left w' \<le> left w"
    and "bios_agent_recv api q w = (r, w') \<Longrightarrow> left w' \<le> left w"
    and "left (free_if (ymsg_destroy api) r w) \<le> left w"
  using assms unfolding interrupts_def by (metis, metis snd_conv, metis snd_conv, metis snd_conv, metis snd_conv,
    cases r, simp_all add: free_if_def)

lemma handlers_leaveD:
  assumes "handlers_leave left H"
  shows "onSend H p A w = (p', A', w') \<Longrightarrow> left w' \<le> left w"
    and "onReply H p A w = (p', A', w') \<Longrightarrow> left w' \<le> left w"
    and "onPoll H A w = (A', w') \<Longrightarrow> left w' \<le> left w"
  using assms unfolding handlers_leave_def by (metis snd_conv)+

lemma receive_leaves:
  assumes "interrupts api left" and "handlers_leave left H" and "receive api H A w = (A', w')"
  shows "left w' \<le> left w"
proof (cases "recv api A w")
  case (Pair r w1)
  then have w1: "left w1 \<le> left w" using interruptsD(5) [OF assms(1)] by (simp add: recv_def)
  show ?thesis
  proof (cases r)
    case None
    with assms(3) w1 Pair show ?thesis by (simp add: receive_def)
  next
    case (Some m)
    define handle where "handle =
      (if ymsg_id api m w1 = YMSG_REPLY then onReply H (Some m) A w1
       else if ymsg_id api m w1 = YMSG_SEND then onSend H (Some m) A w1 else (Some m, A, w1))"
    obtain p A2 w2 where h: "handle = (p, A2, w2)" by (cases handle)
    then have "left w2 \<le> left w1"
      using handlers_leaveD(1,2) [OF assms(2), of "Some m" A w1 p A2 w2] by (auto simp: handle_def split: if_splits)
    moreover have "w' = free_if (ymsg_destroy api) p w2"
      using assms(3) h by (simp add: receive_def Pair Some handle_def)
    ultimately show ?thesis using w1 interruptsD(6) [OF assms(1), of p w2] by simp
  qed
qed

lemma turn_leaves:
  assumes "interrupts api left" and "handlers_leave left H" and "turn api H poller last_poll A w = (stop, l, A', w')"
  shows "left w' \<le> left w - 1"
proof -
  obtain which w1 where 1: "zpoller_wait api poller (timeoutms A) w = (which, w1)" by fastforce
  obtain now w2 where 2: "zclock_mono api w1 = (now, w2)" by fastforce
  obtain l1 A1 w3 where 3: "periodic H now last_poll A w2 = (l1, A1, w3)" by (cases "periodic H now last_poll A w2")
  obtain stop' w4 where 4: "zsys_interrupted api w3 = (stop', w4)" by fastforce
  have "left w3 \<le> left w2"
    using 3 handlers_leaveD(3) [OF assms(2), of A w2 A1 w3] by (auto simp: periodic_def split: if_splits)
  then have "left w4 \<le> left w - 1"
    using interruptsD(2) [OF assms(1) 1] interruptsD(4) [OF assms(1) 2] interruptsD(3) [OF assms(1) 4] by simp
  moreover have "left w' \<le> left w4"
    using assms(3) receive_leaves [OF assms(1,2), of A1 w4 A' w'] handlers_leaveD(3) [OF assms(2), of A1 w4 A' w']
    by (auto simp: turn_def 1 2 3 4 split: if_splits)
  ultimately show ?thesis by simp
qed

lemma main_loop_returns:
  assumes "interrupts api left" and "handlers_leave left H"
  shows "\<exists>r. main_loop api H poller last_poll A w = Some r"
proof (induction "left w" arbitrary: last_poll A w rule: less_induct)
  case less
  obtain stop w1 where i: "zsys_interrupted api w = (stop, w1)" by fastforce
  obtain stop' l A2 w2 where t: "turn api H poller last_poll A w1 = (stop', l, A2, w2)"
    by (cases "turn api H poller last_poll A w1")
  show ?case
  proof (cases "stop \<or> stop'")
    case True
    then show ?thesis by (subst main_loop.simps) (auto simp: i t)
  next
    case False
    then have "0 < left w" using interruptsD(1) [OF assms(1), of w] i by auto
    then have "left w2 < left w"
      using turn_leaves [OF assms t] interruptsD(3) [OF assms(1) i] by linarith
    from less [OF this] False show ?thesis by (subst main_loop.simps) (simp add: i t)
  qed
qed

lemma run_returns:
  assumes "interrupts api left" and "handlers_leave left H"
  obtains rc A' w' where "run api H A w = Some (rc, A', w')"
proof -
  have "\<exists>rc A' w'. run api H A w = Some (rc, A', w')"
    using main_loop_returns [OF assms] by (auto simp: run_def main_def split: prod.splits option.splits) (metis option.distinct(1))+
  with that show thesis by blast
qed

text \<open>The loop ends for one reason only: the flag was read and was set, and nothing happened since.\<close>

lemma turn_interrupted:
  "turn api H poller last_poll A w = (True, l, A', w') \<Longrightarrow> \<exists>v. zsys_interrupted api v = (True, w')"
  by (auto simp: turn_def Let_def split: prod.splits if_splits)

lemma main_loop_interrupted:
  "main_loop api H poller last_poll A w = Some r \<Longrightarrow> \<exists>v. zsys_interrupted api v = (True, snd r)"
proof (induction rule: main_loop.raw_induct [rotated, consumes 1, case_names step])
  case (step loop api H poller last_poll A w r)
  obtain stop w1 where i: "zsys_interrupted api w = (stop, w1)" by fastforce
  obtain stop' l A2 w2 where t: "turn api H poller last_poll A w1 = (stop', l, A2, w2)"
    by (cases "turn api H poller last_poll A w1")
  consider (flag) stop | (break) "\<not> stop" stop' | (again) "\<not> stop" "\<not> stop'" by blast
  then show ?case
  proof cases
    case flag
    with step(2) i show ?thesis by auto
  next
    case break
    with step(2) i t show ?thesis using turn_interrupted by fastforce
  next
    case again
    with step(2) i t have "loop api H poller l A2 w2 = Some r" by simp
    then show ?thesis by (rule step(1))
  qed
qed

lemma run_interrupted:
  assumes "run api H A w = Some (rc, A', w')"
  shows "\<exists>v u poller A1. zsys_interrupted api v = (True, u) \<and>
           (A', w') = onEnd H A1 (free_if (zpoller_destroy api) poller u) \<and> rc = exitStatus A'"
proof -
  obtain poller l A0 w0 A1 u where "main_loop api H poller l A0 w0 = Some (A1, u)"
    and "(A', w') = onEnd H A1 (free_if (zpoller_destroy api) poller u)" "rc = exitStatus A'"
    using assms by (auto simp: run_def main_def split: option.splits prod.splits)
  with main_loop_interrupted show ?thesis by (metis snd_conv)
qed

text \<open>C7. An agent runs until the process is interrupted, and then returns. It returns: when the flag is set after
  at most a number of waits that the handlers do not put off. And it returns for no other reason: the last thing
  before the poller is freed and \<open>onEnd\<close> is called was a reading of the flag that found it set. Every message it
  receives is destroyed exactly once before it waits for the next one: by its handler or, if the handler leaves it
  or there is none for its kind, by the loop; at the end the live messages are those from before. This is for a bus
  that gives a new message with every one received and frees the one destroyed, and for handlers that free the
  message they are given and make the pointer null or leave both alone.\<close>

theorem agent_run_correct:
  assumes "owns_messages api live" and "good_handlers live H"
      and "interrupts api left" and "handlers_leave left H"
  shows "(\<exists>rc A' w'. run api H A w = Some (rc, A', w') \<and> live w' = live w \<and>
            (\<exists>v u poller A1. zsys_interrupted api v = (True, u) \<and>
               (A', w') = onEnd H A1 (free_if (zpoller_destroy api) poller u) \<and> rc = exitStatus A')) \<and>
         live (snd (receive api H B v)) = live v"
proof -
  obtain rc A' w' where run: "run api H A w = Some (rc, A', w')" using run_returns [OF assms(3,4)] .
  with run_frees_messages [OF assms(1,2) run, of B v] run_interrupted [OF run] show ?thesis by blast
qed

subsection \<open>The periodic work\<close>

text \<open>Messages do not starve the periodic work: when a turn is over, the last poll is less than a timeout before the
  time the turn read.\<close>

lemma poll_not_starved:
  assumes "turn api H poller last_poll A w = (stop, last_poll', A', w')" and "0 < timeoutms A" and "timeoutms A < 2 ^ 31"
  shows "\<exists>v now v'. zclock_mono api v = (now, v') \<and> now - last_poll' < word_of_int (timeoutms A)"
proof -
  obtain which w1 where 1: "zpoller_wait api poller (timeoutms A) w = (which, w1)" by fastforce
  obtain now w2 where 2: "zclock_mono api w1 = (now, w2)" by fastforce
  have t: "word_of_int (timeoutms A) \<noteq> (0 :: 64 word)"
  proof -
    have "uint (word_of_int (timeoutms A) :: 64 word) = timeoutms A" using assms(2,3) by (simp add: uint_word_of_int)
    with assms(2) show ?thesis by auto
  qed
  have "now - last_poll' < word_of_int (timeoutms A)"
    using assms(1) t by (auto simp: turn_def 1 2 periodic_def word_gt_0 Let_def split: prod.splits if_splits)
  with 2 show ?thesis by blast
qed

text \<open>A wait that expires calls \<open>onPoll\<close> twice in the same turn.\<close>

theorem expired_wait_polls_twice:
  assumes "zpoller_wait api poller (timeoutms A) w = (False, w1)" and "zclock_mono api w1 = (now, w2)"
      and "now - last_poll \<ge> word_of_int (timeoutms A)" and "onPoll H A w2 = (A3, w3)"
      and "zsys_interrupted api w3 = (False, w4)"
  shows "turn api H poller last_poll A w = (False, now, onPoll H A3 w4)"
  using assms by (simp add: turn_def periodic_def)

subsection \<open>An instance of the interface\<close>

text \<open>A bus with an inbox of kinds of messages, on which an agent can wait a number of times before the interruption.\<close>

record bus =
  inbox :: "int list"
  messages :: "(nat \<times> int) list"
  agents :: "nat list"
  waits :: nat
  clock :: nat

definition sample_api :: "bus agent_api" where
  "sample_api = \<lparr>
     bios_agent_new = (\<lambda>e n w. if e = '''' then (None, w)
       else (Some (Suc (sum_list (agents w))), w\<lparr>agents := Suc (sum_list (agents w)) # agents w\<rparr>)),
     bios_agent_destroy = (\<lambda>a w. w\<lparr>agents := removeAll a (agents w)\<rparr>),
     bios_agent_send = (\<lambda>p s m w. (-2, m, w)), bios_agent_sendto = (\<lambda>p a s m w. (-2, m, w)),
     bios_agent_replyto = (\<lambda>p a s m q w. (-2, m, w)), bios_agent_sendfor = (\<lambda>p a s m w. (-2, m, w)),
     bios_agent_recv = (\<lambda>p w. case inbox w of [] \<Rightarrow> (None, w)
       | k # ks \<Rightarrow> (let m = Suc (sum_list (map fst (messages w)))
                    in (Some m, w\<lparr>inbox := ks, messages := (m, k) # messages w\<rparr>))),
     bios_agent_recv_wait = (\<lambda>p t w. (None, w)),
     bios_agent_set_producer = (\<lambda>p s w. (if s = '''' then -2 else 0, w)),
     bios_agent_set_consumer = (\<lambda>p s r w. (if r = '''' then -2 else 0, w)),
     bios_agent_command = (\<lambda>p w. None), bios_agent_status = (\<lambda>p w. -1), bios_agent_reason = (\<lambda>p w. None),
     bios_agent_address = (\<lambda>p w. None), bios_agent_sender = (\<lambda>p w. None), bios_agent_subject = (\<lambda>p w. None),
     bios_agent_content = (\<lambda>p w. None), bios_agent_actor = (\<lambda>p w. None), bios_agent_msgpipe = (\<lambda>p w. None),
     bios_agent_seq = (\<lambda>p w. 0), bios_agent_client = (\<lambda>p w. None),
     bios_agent_send_proto_metric = (\<lambda>p s m w. (-2, m, w)),
     ymsg_id = (\<lambda>m w. case map_of (messages w) m of Some k \<Rightarrow> k | None \<Rightarrow> 0),
     ymsg_destroy = (\<lambda>m w. w\<lparr>messages := filter (\<lambda>(a, k). a \<noteq> m) (messages w)\<rparr>),
     zpoller_new = (\<lambda>p w. (None, w)),
     zpoller_wait = (\<lambda>p t w. (inbox w \<noteq> [], w\<lparr>waits := waits w - 1, clock := clock w + 2000\<rparr>)),
     zpoller_destroy = (\<lambda>p w. w),
     zclock_mono = (\<lambda>w. (of_nat (clock w), w)),
     zsys_interrupted = (\<lambda>w. (waits w = 0, w))\<rparr>"

definition sample_bus :: bus where
  "sample_bus = \<lparr>inbox = [1, 2, 7], messages = [(4, 1)], agents = [3], waits = 5, clock = 1000\<rparr>"

lemma sample_owns_agents: "owns_agents sample_api (\<lambda>w. set (agents w))"
  unfolding owns_agents_def by (auto simp: sample_api_def dest!: member_le_sum_list split: if_splits)

lemma sample_owns_messages: "owns_messages sample_api (\<lambda>w. fst ` set (messages w))"
proof -
  have "fst m \<le> sum_list (map fst ms)" if "m \<in> set ms" for m :: "nat \<times> int" and ms
    using that by (intro member_le_sum_list) simp_all
  then show ?thesis
    unfolding owns_messages_def ignores_messages_def
    by (fastforce simp: sample_api_def Let_def split: list.splits)
qed

lemma sample_interrupts: "interrupts sample_api waits"
  by (simp add: interrupts_def sample_api_def Let_def split: list.splits)

subsection \<open>Witnesses\<close>

theorem agent_released_witness:
  "\<exists>A w. connects sample_api
       [(Some ''ipc'', Some ''ASSETS'', Some ''.*''), (Some '''', None, None), (Some ''ipc'', Some ''ASSETS'', Some '''')]
       (BIOSAgent ''agent'') sample_bus = (A, w) \<and>
     set (agents (snd (BIOSAgent_destroy sample_api A w))) = {3}"
proof -
  obtain A w where c: "connects sample_api
       [(Some ''ipc'', Some ''ASSETS'', Some ''.*''), (Some '''', None, None), (Some ''ipc'', Some ''ASSETS'', Some '''')]
       (BIOSAgent ''agent'') sample_bus = (A, w)"
    by fastforce
  from agent_released [OF sample_owns_agents c] c show ?thesis by (simp add: sample_bus_def)
qed

theorem agent_run_correct_witness:
  "\<exists>rc A w. run sample_api (default_handlers sample_api) (BIOSAgent ''agent'') sample_bus = Some (rc, A, w) \<and>
     fst ` set (messages w) = {4} \<and> waits w = 0"
proof -
  have "handlers_leave waits (default_handlers sample_api)"
    by (simp add: handlers_leave_def default_handlers_def default_onSend_def default_onReply_def free_if_def sample_api_def
        split: option.splits)
  from agent_run_correct [OF sample_owns_messages default_handlers_good [OF sample_owns_messages] sample_interrupts this,
      of "BIOSAgent ''agent''" sample_bus, THEN conjunct1]
  obtain rc A w v u poller A1 where
    run: "run sample_api (default_handlers sample_api) (BIOSAgent ''agent'') sample_bus = Some (rc, A, w)"
    and live: "fst ` set (messages w) = fst ` set (messages sample_bus)"
    and flag: "zsys_interrupted sample_api v = (True, u)"
    and ends: "(A, w) = onEnd (default_handlers sample_api) A1 (free_if (zpoller_destroy sample_api) poller u)"
    by (elim exE conjE) (rule that)
  have "waits u = 0" using flag by (auto simp: sample_api_def)
  moreover have "w = u" using ends by (cases poller) (simp_all add: default_handlers_def free_if_def sample_api_def)
  moreover have "fst ` set (messages sample_bus) = {4}" by (simp add: sample_bus_def)
  ultimately show ?thesis using run live by (intro exI conjI) (assumption | simp)+
qed

theorem expired_wait_polls_twice_witness:
  "turn sample_api (default_handlers sample_api) None 0 (BIOSAgent ''agent'') (sample_bus\<lparr>inbox := []\<rparr>) =
     (False, 3000, BIOSAgent ''agent'', sample_bus\<lparr>inbox := [], waits := 4, clock := 3000\<rparr>)"
proof -
  let ?w = "sample_bus\<lparr>inbox := [], waits := 4, clock := 3000\<rparr>"
  have "zpoller_wait sample_api None (timeoutms (BIOSAgent ''agent'')) (sample_bus\<lparr>inbox := []\<rparr>) = (False, ?w)"
    "zclock_mono sample_api ?w = (3000, ?w)" "zsys_interrupted sample_api ?w = (False, ?w)"
    by (simp_all add: sample_api_def sample_bus_def)
  moreover have "(3000 :: 64 word) - 0 \<ge> word_of_int (timeoutms (BIOSAgent ''agent''))"
    by (simp add: BIOSAgent_def)
  moreover have "onPoll (default_handlers sample_api) (BIOSAgent ''agent'') ?w = (BIOSAgent ''agent'', ?w)"
    by (simp add: default_handlers_def)
  ultimately show ?thesis
    using expired_wait_polls_twice [of sample_api None "BIOSAgent ''agent''" "sample_bus\<lparr>inbox := []\<rparr>" ?w 3000 ?w 0
        "default_handlers sample_api" "BIOSAgent ''agent''" ?w ?w] by simp
qed

end
