(* ===== verification/Calendar.thy ===== *)
theory Calendar
  imports Utils
begin

text \<open>
  \<open>src/shared/utils.cc\<close>, \<open>datetime_to_calendar\<close>, \<open>calendar_to_datetime\<close> and \<open>my_timegm\<close>: texts of the common
  format of dates and seconds since 1970.

  The format itself is three macros of another repository: the length of a text (\<open>DATETIME_FORMAT_LENGTH\<close>),
  what \<open>sscanf\<close> reads with \<open>DATETIME_FORMAT\<close> (\<open>None\<close> unless all seven items are read) and what \<open>strftime\<close>
  prints with \<open>STRFTIME_DATETIME_FORMAT\<close> are parameters. \<open>mktime\<close> for UTC and \<open>gmtime\<close> are those of the C
  library, over the Gregorian calendar; \<open>mktime\<close> for any other time zone is a parameter. The environment
  variable \<open>TZ\<close> and the zone the last \<open>tzset\<close> read are the state.
\<close>

subsection \<open>The calendar of the C library\<close>

record tm =
  tm_year :: int \<comment> \<open>since 1900\<close>
  tm_mon :: int  \<comment> \<open>from 0\<close>
  tm_mday :: int
  tm_hour :: int
  tm_min :: int
  tm_sec :: int
  tm_isdst :: int

definition leap :: "int \<Rightarrow> bool" where
  "leap y \<longleftrightarrow> y mod 4 = 0 \<and> (y mod 100 \<noteq> 0 \<or> y mod 400 = 0)"

definition year_length :: "int \<Rightarrow> int" where
  "year_length y = (if leap y then 366 else 365)"

definition month_lengths :: "bool \<Rightarrow> int list" where
  "month_lengths b = [31, if b then 29 else 28, 31, 30, 31, 30, 31, 31, 30, 31, 30, 31]"

definition leaps_through :: "int \<Rightarrow> int" where
  "leaps_through y = y div 4 - y div 100 + y div 400"

definition days_before_year :: "int \<Rightarrow> int" where
  \<comment> \<open>since 1 January 1970\<close>
  "days_before_year y = 365 * (y - 1970) + leaps_through (y - 1) - leaps_through 1969"

definition days_before_month :: "int \<Rightarrow> int \<Rightarrow> int" where
  "days_before_month y m = sum_list (take (nat m) (month_lengths (leap y)))"

definition timegm :: "tm \<Rightarrow> int" where
  \<comment> \<open>fields out of their range are carried into the next one\<close>
  "timegm T =
     (let y = 1900 + tm_year T + tm_mon T div 12;
          days = days_before_year y + days_before_month y (tm_mon T mod 12) + tm_mday T - 1
      in ((days * 24 + tm_hour T) * 60 + tm_min T) * 60 + tm_sec T)"

function year_of :: "int \<Rightarrow> int \<Rightarrow> int \<times> int" where
  "year_of y d = (if year_length y \<le> d then year_of (y + 1) (d - year_length y) else (y, d))"
  by pat_completeness auto
termination
  by (relation "measure (\<lambda>(y, d). nat d)") (auto simp: year_length_def split: if_splits)

declare year_of.simps [simp del]

fun month_of :: "int list \<Rightarrow> int \<Rightarrow> int \<times> int" where
  "month_of [] d = (0, d)"
| "month_of (l # ls) d = (if d < l then (0, d) else case month_of ls (d - l) of (m, r) \<Rightarrow> (m + 1, r))"

definition gmtime :: "int \<Rightarrow> tm option" where
  \<comment> \<open>\<open>None\<close> (a null pointer) when the year does not fit; the calendar repeats every 400 years, 146097 days\<close>
  "gmtime t =
     (let day = t div 86400; sec = t mod 86400 in
      case year_of (1970 + 400 * (day div 146097)) (day mod 146097) of (y, yday) \<Rightarrow>
      case month_of (month_lengths (leap y)) yday of (mon, mday) \<Rightarrow>
        if is_int32 (y - 1900)
        then Some \<lparr>tm_year = y - 1900, tm_mon = mon, tm_mday = mday + 1, tm_hour = sec div 3600,
                   tm_min = sec mod 3600 div 60, tm_sec = sec mod 60, tm_isdst = 0\<rparr>
        else None)"

definition mktime_utc :: "tm \<Rightarrow> int \<times> tm" where
  \<comment> \<open>the fields are normalised; \<open>-1\<close> and the fields as they are when the year does not fit\<close>
  "mktime_utc T = (case gmtime (timegm T) of None \<Rightarrow> (-1, T) | Some T' \<Rightarrow> (timegm T, T'))"

subsection \<open>The time zone of the process\<close>

record process =
  env_TZ :: "string option" \<comment> \<open>the environment variable\<close>
  zone :: "string option"   \<comment> \<open>what the last \<open>tzset\<close> read\<close>

definition setenv_TZ :: "string \<Rightarrow> process \<Rightarrow> process" where
  "setenv_TZ v p = p\<lparr>env_TZ := Some v\<rparr>"

definition unsetenv_TZ :: "process \<Rightarrow> process" where
  "unsetenv_TZ p = p\<lparr>env_TZ := None\<rparr>"

definition tzset :: "process \<Rightarrow> process" where
  "tzset p = p\<lparr>zone := env_TZ p\<rparr>"

definition mktime :: "(string option \<Rightarrow> tm \<Rightarrow> int \<times> tm) \<Rightarrow> process \<Rightarrow> tm \<Rightarrow> int \<times> tm" where
  \<comment> \<open>\<open>mktime\<close> reads the variable itself, as if by \<open>tzset\<close>\<close>
  "mktime other p T = (if env_TZ p = Some '''' then mktime_utc T else other (env_TZ p) T)"

subsection \<open>The functions\<close>

definition my_timegm ::
  "(string option \<Rightarrow> tm \<Rightarrow> int \<times> tm) \<Rightarrow> (string \<Rightarrow> string) \<Rightarrow> tm \<Rightarrow> process \<Rightarrow> int \<times> tm \<times> process" where
  \<comment> \<open>\<open>stale v\<close>: what the pointer that \<open>getenv\<close> returned for \<open>v\<close> points to after the variable has been set\<close>
  "my_timegm other stale T p =
     (let tz = env_TZ p;
          p = setenv_TZ '''' p;
          p = tzset p;
          (t, T) = mktime other p T;
          p = (case tz of Some v \<Rightarrow> setenv_TZ (stale v) p | None \<Rightarrow> unsetenv_TZ p);
          p = tzset p
      in if tm_isdst T \<noteq> 0 then (-1, T, p) else (t, T, p))"

type_synonym scanned = "int \<times> int \<times> int \<times> int \<times> int \<times> int \<times> char"

definition datetime_to_calendar ::
  "(string \<Rightarrow> scanned option) \<Rightarrow> nat \<Rightarrow> (string option \<Rightarrow> tm \<Rightarrow> int \<times> tm) \<Rightarrow> (string \<Rightarrow> string) \<Rightarrow>
   string option \<Rightarrow> process \<Rightarrow> (int \<times> process) outcome" where
  \<comment> \<open>\<open>Undefined\<close>: the subtractions overflow\<close>
  "datetime_to_calendar scan datetime_length other stale datetime p =
     (case datetime of
        None \<Rightarrow> Value (-1, p)
      | Some s \<Rightarrow>
          if length s \<noteq> datetime_length then Value (-1, p)
          else (case scan s of
                 None \<Rightarrow> Value (-2, p)
               | Some (year, month, day, hour, minute, second, suffix) \<Rightarrow>
                   if suffix \<noteq> CHR ''Z'' then Value (-2, p)
                   else if \<not> is_int32 (year - 1900) \<or> \<not> is_int32 (month - 1) then Undefined
                   else
                     let T = \<lparr>tm_year = year - 1900, tm_mon = month - 1, tm_mday = day, tm_hour = hour,
                              tm_min = minute, tm_sec = second, tm_isdst = 0\<rparr>;
                         (t, _, p) = my_timegm other stale T p
                     in Value (if t < 0 then -3 else t, p)))"

definition strftime :: "(tm \<Rightarrow> string) \<Rightarrow> nat \<Rightarrow> tm \<Rightarrow> nat \<times> string" where
  \<comment> \<open>the number of characters and the buffer; \<open>0\<close> and an unspecified buffer when they and the null character do
     not fit in \<open>n\<close> bytes\<close>
  "strftime print n T = (if length (print T) < n then (length (print T), print T) else (0, ''''))"

definition calendar_to_datetime :: "(tm \<Rightarrow> string) \<Rightarrow> int \<Rightarrow> nat \<Rightarrow> string option" where
  \<comment> \<open>the buffer when the code is \<open>0\<close>, \<open>None\<close> when it is \<open>-1\<close>\<close>
  "calendar_to_datetime print timestamp n =
     (case gmtime timestamp of
        None \<Rightarrow> None
      | Some T \<Rightarrow> (case strftime print n T of (k, buffer) \<Rightarrow> if k = 0 then None else Some buffer))"

subsection \<open>Years\<close>

lemma div_pred: "0 < n \<Longrightarrow> (y::int) div n = (y - 1) div n + (if n dvd y then 1 else 0)"
proof -
  assume "0 < n"
  show ?thesis
  proof (cases "n dvd y")
    case True
    then obtain k where k: "y = n * k" ..
    then have "(y - 1) div n = k - 1"
      using \<open>0 < n\<close> by (intro int_div_pos_eq [where r = "n - 1"]) (simp_all add: algebra_simps)
    with k True \<open>0 < n\<close> show ?thesis by simp
  next
    case False
    then have "0 < y mod n" using \<open>0 < n\<close>
      by (metis dvd_eq_mod_eq_0 not_less_iff_gr_or_eq pos_mod_sign leD)
    then have "(y - 1) div n = y div n"
      using \<open>0 < n\<close> pos_mod_bound [OF \<open>0 < n\<close>, of y] mult_div_mod_eq [of n y]
      by (intro int_div_pos_eq [where r = "y mod n - 1"]) linarith+
    with False show ?thesis by simp
  qed
qed

lemma count_step:
  fixes a b c a' b' c' :: int
  assumes "a = a' + (if A then 1 else 0)" "b = b' + (if B then 1 else 0)" "c = c' + (if C then 1 else 0)"
      and "B \<Longrightarrow> A" "C \<Longrightarrow> B"
  shows "a - b + c = a' - b' + c' + (if A \<and> (\<not> B \<or> C) then 1 else 0)"
  using assms(4,5) by (cases A; cases B; cases C; simp add: assms(1-3))

lemma leaps_through_step: "leaps_through y = leaps_through (y - 1) + (if leap y then 1 else 0)"
proof -
  have d: "4 dvd y" if "100 dvd y" using that by (rule dvd_trans [rotated]) simp
  have e: "100 dvd y" if "400 dvd y" using that by (rule dvd_trans [rotated]) simp
  have l: "leap y \<longleftrightarrow> 4 dvd y \<and> (\<not> 100 dvd y \<or> 400 dvd y)"
    by (simp add: leap_def dvd_eq_mod_eq_0)
  show ?thesis
    unfolding leaps_through_def l
    by (rule count_step) (rule div_pred, simp | fact d e)+
qed

lemma year_length_pos: "0 < year_length y" "365 \<le> year_length y"
  by (simp_all add: year_length_def)

lemma days_before_year_Suc: "days_before_year (y + 1) = days_before_year y + year_length y"
  using leaps_through_step [of y] by (simp add: days_before_year_def year_length_def)

lemma days_before_year_mono: "y < z \<Longrightarrow> days_before_year (y + 1) \<le> days_before_year z"
proof -
  have "days_before_year (y + 1) \<le> days_before_year (y + 1 + int k)" for k
  proof (induction k)
    case (Suc k)
    then show ?case
      using days_before_year_Suc [of "y + 1 + int k"] year_length_pos(1) [of "y + 1 + int k"]
      by (simp add: add.assoc [symmetric] add.commute [of 1])
  qed simp
  moreover assume "y < z"
  ultimately show ?thesis by (metis zle_iff_zadd zless_imp_add1_zle)
qed

lemma days_before_year_unique:
  assumes "days_before_year y \<le> d" "d < days_before_year (y + 1)"
      and "days_before_year z \<le> d" "d < days_before_year (z + 1)"
  shows "y = z"
  using assms days_before_year_mono [of y z] days_before_year_mono [of z y] by linarith

lemma year_of_spec:
  assumes "0 \<le> d" and "year_of y d = (z, r)"
  shows "0 \<le> r \<and> r < year_length z \<and> days_before_year z + r = days_before_year y + d"
  using assms
proof (induction y d rule: year_of.induct)
  case (1 y d)
  show ?case
  proof (cases "year_length y \<le> d")
    case True
    moreover have "year_of (y + 1) (d - year_length y) = (z, r)"
      using 1(3) True by (simp add: year_of.simps [of y d])
    ultimately show ?thesis using 1(1) by (simp add: days_before_year_Suc)
  next
    case False
    with 1(2,3) show ?thesis by (simp add: year_of.simps [of y d])
  qed
qed

lemma days_before_cycle: "days_before_year (1970 + 400 * k) = 146097 * k"
proof -
  have "(1969 + 400 * k) div 4 = 492 + 100 * k" by (rule int_div_pos_eq [where r = 1]) simp_all
  moreover have "(1969 + 400 * k) div 100 = 19 + 4 * k" by (rule int_div_pos_eq [where r = 69]) simp_all
  moreover have "(1969 + 400 * k) div 400 = 4 + k" by (rule int_div_pos_eq [where r = 369]) simp_all
  ultimately show ?thesis by (simp add: days_before_year_def leaps_through_def)
qed

lemma year_of_unique:
  assumes "0 \<le> d" and "days_before_year y + d = days_before_year z + r" and "0 \<le> r" and "r < year_length z"
  shows "year_of y d = (z, r)"
proof -
  obtain z' r' where y: "year_of y d = (z', r')" by (cases "year_of y d")
  from year_of_spec [OF assms(1) y] assms(2-)
  have "z' = z"
    by (intro days_before_year_unique [of z' "days_before_year z + r"]) (simp_all add: days_before_year_Suc)
  with year_of_spec [OF assms(1) y] assms(2) y show ?thesis by simp
qed

subsection \<open>Months\<close>

lemma month_of_spec:
  assumes "\<forall>l \<in> set ls. 0 < l" and "0 \<le> d" and "d < sum_list ls" and "month_of ls d = (m, r)"
  shows "0 \<le> m \<and> nat m < length ls \<and> 0 \<le> r \<and> r < ls ! nat m \<and> sum_list (take (nat m) ls) + r = d"
  using assms
proof (induction ls arbitrary: d m)
  case (Cons l ls)
  show ?case
  proof (cases "d < l")
    case False
    obtain m' where m': "month_of ls (d - l) = (m', r)" "m = m' + 1"
      using Cons.prems(4) False by (auto split: prod.splits)
    with Cons.IH [of "d - l" m'] Cons.prems False show ?thesis by (auto simp: nat_add_distrib)
  qed (use Cons.prems in auto)
qed simp

lemma month_of_unique:
  "\<forall>l \<in> set ls. 0 < l \<Longrightarrow> i < length ls \<Longrightarrow> 0 \<le> r \<Longrightarrow> r < ls ! i \<Longrightarrow>
   month_of ls (sum_list (take i ls) + r) = (int i, r)"
proof (induction ls arbitrary: i)
  case (Cons l ls)
  show ?case
  proof (cases i)
    case (Suc j)
    have "0 \<le> sum_list (take j ls)"
      using Cons.prems(1) by (intro sum_list_nonneg) (auto dest!: in_set_takeD simp: less_imp_le)
    with Cons Suc show ?thesis by (simp add: add.assoc)
  qed (use Cons.prems in simp)
qed simp

lemma month_lengths_simps [simp]:
  "\<forall>l \<in> set (month_lengths b). 0 < l" "length (month_lengths b) = 12"
  "sum_list (month_lengths (leap y)) = year_length y"
  by (simp_all add: month_lengths_def year_length_def)

lemma day_of_year_bound:
  assumes "i < 12" and "1 \<le> d" and "d \<le> month_lengths (leap y) ! i"
  shows "0 \<le> sum_list (take i (month_lengths (leap y))) + (d - 1)
       \<and> sum_list (take i (month_lengths (leap y))) + (d - 1) < year_length y"
proof -
  let ?ls = "month_lengths (leap y)"
  have p: "0 < l" if "l \<in> set ?ls" for l using that month_lengths_simps(1) by blast
  have "sum_list ?ls = sum_list (take i ?ls) + sum_list (drop i ?ls)"
    by (metis append_take_drop_id sum_list_append)
  moreover have "drop i ?ls = ?ls ! i # drop (Suc i) ?ls"
    using assms(1) by (simp add: Cons_nth_drop_Suc)
  moreover have "0 \<le> sum_list (drop (Suc i) ?ls)" "0 \<le> sum_list (take i ?ls)"
    by (auto intro!: sum_list_nonneg intro: less_imp_le [OF p] dest: in_set_dropD in_set_takeD)
  ultimately show ?thesis using assms(2,3) by simp
qed

subsection \<open>Seconds and dates\<close>

definition proper :: "tm \<Rightarrow> bool" where
  "proper T \<longleftrightarrow> is_int32 (tm_year T) \<and> 0 \<le> tm_mon T \<and> tm_mon T < 12 \<and>
     1 \<le> tm_mday T \<and> tm_mday T \<le> month_lengths (leap (1900 + tm_year T)) ! nat (tm_mon T) \<and>
     0 \<le> tm_hour T \<and> tm_hour T < 24 \<and> 0 \<le> tm_min T \<and> tm_min T < 60 \<and>
     0 \<le> tm_sec T \<and> tm_sec T < 60 \<and> tm_isdst T = 0"

lemma seconds_of_day:
  fixes day :: int
  assumes "0 \<le> h" "h < 24" "0 \<le> m" "m < 60" "0 \<le> s" "s < 60"
  shows "(((day * 24 + h) * 60 + m) * 60 + s) div 86400 = day"
    and "(((day * 24 + h) * 60 + m) * 60 + s) mod 86400 = h * 3600 + m * 60 + s"
proof -
  let ?t = "((day * 24 + h) * 60 + m) * 60 + s"
  show d: "?t div 86400 = day"
    by (rule int_div_pos_eq [where r = "h * 3600 + m * 60 + s"]) (use assms in \<open>simp_all add: algebra_simps\<close>)
  show "?t mod 86400 = h * 3600 + m * 60 + s"
    using mult_div_mod_eq [of 86400 ?t] unfolding d by (simp add: algebra_simps)
qed

lemma clock_of_seconds:
  fixes h :: int
  assumes "0 \<le> h" "0 \<le> m" "m < 60" "0 \<le> s" "s < 60"
  shows "(h * 3600 + m * 60 + s) div 3600 = h" "(h * 3600 + m * 60 + s) mod 3600 div 60 = m"
    "(h * 3600 + m * 60 + s) mod 60 = s"
proof -
  let ?t = "h * 3600 + m * 60 + s"
  show h: "?t div 3600 = h"
    by (rule int_div_pos_eq [where r = "m * 60 + s"]) (use assms in linarith)+
  have m: "?t mod 3600 = m * 60 + s"
    using mult_div_mod_eq [of 3600 ?t] unfolding h by linarith
  show "?t mod 3600 div 60 = m"
    unfolding m by (rule int_div_pos_eq [where r = s]) (use assms in linarith)+
  have "?t div 60 = h * 60 + m"
    by (rule int_div_pos_eq [where r = s]) (use assms in \<open>simp_all add: algebra_simps\<close>)
  then show "?t mod 60 = s"
    using mult_div_mod_eq [of 60 ?t] by (simp add: algebra_simps)
qed

lemma gmtime_timegm:
  assumes "proper T"
  shows "gmtime (timegm T) = Some T"
proof -
  define y where "y = 1900 + tm_year T"
  define yday where "yday = sum_list (take (nat (tm_mon T)) (month_lengths (leap y))) + (tm_mday T - 1)"
  define day where "day = days_before_year y + yday"
  note P = assms [unfolded proper_def, folded y_def]
  then have i: "nat (tm_mon T) < 12" by linarith
  have yday: "0 \<le> yday" "yday < year_length y"
    unfolding yday_def using day_of_year_bound [OF i, of "tm_mday T" y] P by simp_all
  have t: "timegm T = ((day * 24 + tm_hour T) * 60 + tm_min T) * 60 + tm_sec T"
    using P by (simp add: timegm_def y_def day_def yday_def days_before_month_def Let_def)
  have "timegm T div 86400 = day"
    and "timegm T mod 86400 = tm_hour T * 3600 + tm_min T * 60 + tm_sec T"
    unfolding t using P by (simp_all only: seconds_of_day)
  moreover have "year_of (1970 + 400 * (day div 146097)) (day mod 146097) = (y, yday)"
    using yday by (intro year_of_unique) (simp_all add: days_before_cycle, simp add: day_def)
  moreover have "month_of (month_lengths (leap y)) yday = (int (nat (tm_mon T)), tm_mday T - 1)"
    unfolding yday_def by (rule month_of_unique) (use P i in simp_all)
  moreover have "y - 1900 = tm_year T" by (simp add: y_def)
  ultimately show ?thesis
    using P by (simp add: gmtime_def Let_def clock_of_seconds)
qed

lemma timegm_gmtime:
  assumes "gmtime t = Some T"
  shows "timegm T = t \<and> proper T"
proof -
  define day where "day = t div 86400"
  define sec where "sec = t mod 86400"
  obtain y yday where y: "year_of (1970 + 400 * (day div 146097)) (day mod 146097) = (y, yday)" by fastforce
  obtain mon mday where m: "month_of (month_lengths (leap y)) yday = (mon, mday)" by fastforce
  from year_of_spec [OF _ y] have Y: "0 \<le> yday" "yday < year_length y" "days_before_year y + yday = day"
    by (simp_all add: days_before_cycle)
  from month_of_spec [OF _ _ _ m] Y
  have M: "0 \<le> mon" "mon < 12" "0 \<le> mday" "mday < month_lengths (leap y) ! nat mon"
      "sum_list (take (nat mon) (month_lengths (leap y))) + mday = yday"
    by auto
  have T: "is_int32 (y - 1900)"
    "T = \<lparr>tm_year = y - 1900, tm_mon = mon, tm_mday = mday + 1, tm_hour = sec div 3600,
          tm_min = sec mod 3600 div 60, tm_sec = sec mod 60, tm_isdst = 0\<rparr>"
    using assms by (auto simp: gmtime_def Let_def y m day_def [symmetric] sec_def [symmetric] split: if_splits)
  have s: "0 \<le> sec" "sec < 86400" by (simp_all add: sec_def)
  then have c: "sec div 3600 < 24" "sec mod 3600 div 60 < 60" by auto
  have "timegm T = ((day * 24 + sec div 3600) * 60 + sec mod 3600 div 60) * 60 + sec mod 60"
    using M Y by (simp add: T timegm_def days_before_month_def Let_def)
  also have "\<dots> = day * 86400 + sec"
  proof -
    have "sec mod 3600 mod 60 = sec mod 60" by (rule mod_mod_cancel) simp
    then show ?thesis
      using mult_div_mod_eq [of 3600 sec] mult_div_mod_eq [of 60 "sec mod 3600"]
      by (simp only: distrib_right mult.assoc)
  qed
  also have "\<dots> = t" by (simp add: day_def sec_def)
  finally show ?thesis using T(1) M c s by (simp add: proper_def T(2) pos_imp_zdiv_nonneg_iff)
qed

lemma gmtime_in_range:
  assumes "0 \<le> t" and "t < 253402300800"
  obtains T where "gmtime t = Some T" and "70 \<le> tm_year T" and "tm_year T < 8100"
proof -
  define day where "day = t div 86400"
  have day: "0 \<le> day" "day < 2932897" using assms by (simp_all add: day_def)
  obtain y yday where y: "year_of (1970 + 400 * (day div 146097)) (day mod 146097) = (y, yday)" by fastforce
  obtain mon mday where m: "month_of (month_lengths (leap y)) yday = (mon, mday)" by fastforce
  from year_of_spec [OF _ y] have Y: "0 \<le> yday" "yday < year_length y" "days_before_year y + yday = day"
    by (simp_all add: days_before_cycle)
  have "1970 \<le> y"
    using days_before_year_mono [of y 1970] Y day days_before_cycle [of 0] days_before_year_Suc [of y] by force
  moreover have "y < 10000"
  proof -
    have "days_before_year 10000 = 2932897" by (simp add: days_before_year_def leaps_through_def)
    with days_before_year_mono [of 9999 y] Y day show ?thesis by force
  qed
  ultimately show thesis
    by (intro that, simp add: gmtime_def Let_def day_def [symmetric] y m is_int32_def INT32_MIN_def INT32_MAX_def)
      simp_all
qed

lemma gmtime_None_or: "gmtime t = None \<or> (\<exists>T. gmtime t = Some T \<and> timegm T = t \<and> proper T)"
  using timegm_gmtime by (cases "gmtime t") auto

subsection \<open>The functions\<close>

definition restored :: "(string \<Rightarrow> string) \<Rightarrow> process \<Rightarrow> process" where
  "restored stale p = p\<lparr>env_TZ := map_option stale (env_TZ p), zone := map_option stale (env_TZ p)\<rparr>"

lemma my_timegm_eq:
  assumes "tm_isdst T = 0"
  shows "my_timegm other stale T p =
     (case gmtime (timegm T) of None \<Rightarrow> (-1, T, restored stale p) | Some T' \<Rightarrow> (timegm T, T', restored stale p))"
  using assms gmtime_None_or [of "timegm T"]
  by (auto simp: my_timegm_def mktime_def mktime_utc_def setenv_TZ_def unsetenv_TZ_def tzset_def restored_def Let_def
        proper_def split: option.splits)

lemma restored_id:
  "(\<And>v. env_TZ p = Some v \<Longrightarrow> stale v = v) \<Longrightarrow> restored stale p = p\<lparr>zone := env_TZ p\<rparr>"
  by (cases "env_TZ p") (simp_all add: restored_def)

definition fields_of :: "scanned \<Rightarrow> tm" where
  "fields_of = (\<lambda>(year, month, day, hour, minute, second, suffix).
     \<lparr>tm_year = year - 1900, tm_mon = month - 1, tm_mday = day, tm_hour = hour, tm_min = minute, tm_sec = second,
      tm_isdst = 0\<rparr>)"

definition scanned_of :: "tm \<Rightarrow> scanned" where
  "scanned_of T = (tm_year T + 1900, tm_mon T + 1, tm_mday T, tm_hour T, tm_min T, tm_sec T, CHR ''Z'')"

lemma fields_of_scanned_of: "tm_isdst T = 0 \<Longrightarrow> fields_of (scanned_of T) = T"
  by (cases T) (simp add: fields_of_def scanned_of_def)

lemma datetime_to_calendar_scanned:
  assumes "length s = n" and "scan s = Some (y, mo, rest)" and "snd (snd (snd (snd rest))) = CHR ''Z''"
      and "is_int32 (y - 1900)" and "is_int32 (mo - 1)"
  shows "datetime_to_calendar scan n other stale (Some s) p =
    Value (case gmtime (timegm (fields_of (y, mo, rest))) of
             None \<Rightarrow> -3
           | Some T \<Rightarrow> (if timegm (fields_of (y, mo, rest)) < 0 then -3 else timegm (fields_of (y, mo, rest))),
           restored stale p)"
  using assms
  by (cases rest) (auto simp: datetime_to_calendar_def fields_of_def my_timegm_eq Let_def split: option.splits)

lemma calendar_to_datetime_Some:
  "gmtime t = Some T \<Longrightarrow> print T \<noteq> '''' \<Longrightarrow> length (print T) < n \<Longrightarrow>
   calendar_to_datetime print t n = Some (print T)"
  by (simp add: calendar_to_datetime_def strftime_def)

lemma calendar_read_back:
  assumes "gmtime t = Some T" and "0 \<le> t" and "scan s = Some (scanned_of T)" and "length s = n"
  shows "datetime_to_calendar scan n other stale (Some s) p = Value (t, restored stale p)"
proof -
  have t: "timegm T = t" "is_int32 (tm_year T)" "is_int32 (tm_mon T)" "tm_isdst T = 0"
    using timegm_gmtime [OF assms(1)] by (auto simp: proper_def is_int32_def INT32_MIN_def INT32_MAX_def)
  then show ?thesis
    using assms fields_of_scanned_of [OF t(4)] by (subst datetime_to_calendar_scanned) (auto simp: scanned_of_def)
qed

subsection \<open>Properties\<close>

text \<open>C23. A time that \<open>calendar_to_datetime\<close> prints is the time \<open>datetime_to_calendar\<close> reads from the text, for
  every second from 1970 on whose year fits an \<open>int\<close>, whatever the local time zone of the process: provided
  that the two format macros agree on that date, the text has the expected length, which is not zero, and the
  buffer holds it. The process is left with the time zone it had when \<open>TZ\<close> was not set. When it was set, it is set
  again from the pointer that \<open>getenv\<close> returned before \<open>setenv\<close> changed the variable, to whatever that
  points to then (\<open>stale\<close>): the old value where the C library leaves the old text alone, which POSIX does not promise.
  The time that is read depends on none of this.\<close>

theorem calendar_round_trip:
  assumes "gmtime t = Some T" and "0 \<le> t"
      and "scan (print T) = Some (scanned_of T)" and "length (print T) = n" and "0 < n" and "n < bufsize"
  shows "calendar_to_datetime print t bufsize = Some (print T) \<and>
         datetime_to_calendar scan n other stale (Some (print T)) p =
           Value (t, p\<lparr>env_TZ := map_option stale (env_TZ p), zone := map_option stale (env_TZ p)\<rparr>)"
  using assms calendar_read_back [of t T scan "print T" n, OF assms(1-4)]
  by (auto simp: restored_def intro: calendar_to_datetime_Some)

text \<open>The other direction: a text whose fields are a date is printed again from the time it was read as.\<close>

theorem datetime_round_trip:
  assumes "length s = n" and "scan s = Some (scanned_of T)" and "proper T"
      and "datetime_to_calendar scan n other stale (Some s) p = Value (t, q)" and "0 \<le> t"
      and "print T \<noteq> ''''" and "length (print T) < bufsize"
  shows "calendar_to_datetime print t bufsize = Some (print T)"
proof -
  have T: "is_int32 (tm_year T)" "is_int32 (tm_mon T)" "tm_isdst T = 0"
    using assms(3) by (auto simp: proper_def is_int32_def INT32_MIN_def INT32_MAX_def)
  have "t = timegm T"
    using assms(1,2,4,5) T fields_of_scanned_of [OF T(3)] gmtime_timegm [OF assms(3)]
    by (subst (asm) datetime_to_calendar_scanned) (auto simp: scanned_of_def split: if_splits)
  with assms(3,6,7) show ?thesis by (intro calendar_to_datetime_Some) (simp_all add: gmtime_timegm)
qed

text \<open>Where the text that \<open>getenv\<close> returned survives a \<open>setenv\<close>, reading a date leaves the time zone of the
  process as it was, on every path, and neither the zone nor the time-zone data base has a say in the result.\<close>

theorem time_zone_restored:
  assumes "\<And>v. env_TZ p = Some v \<Longrightarrow> stale v = v" and "zone p = env_TZ p"
      and "datetime_to_calendar scan n other stale datetime p = Value (t, q)"
  shows "q = p \<and> (\<exists>q'. datetime_to_calendar scan n other' stale' datetime p' = Value (t, q'))"
proof -
  have r: "restored stale p = p" using restored_id [of p stale] assms(1,2) by simp
  show ?thesis
    using assms(3)
    by (cases datetime)
      (auto simp: datetime_to_calendar_def my_timegm_eq r Let_def split: if_splits option.splits prod.splits)
qed

text \<open>The codes: \<open>-1\<close> for no text or a text of another length, \<open>-2\<close> for a text that does not read as the seven
  items with a capital Z at the end, \<open>-3\<close> for a date before 1970 or one whose year does not fit, and the time
  otherwise.\<close>

theorem datetime_codes:
  "(datetime = None \<or> (\<exists>s. datetime = Some s \<and> length s \<noteq> n) \<longrightarrow>
      datetime_to_calendar scan n other stale datetime p = Value (-1, p)) \<and>
   (\<forall>s. datetime = Some s \<and> length s = n \<and>
        (scan s = None \<or> (\<exists>y mo d h mi sec c. scan s = Some (y, mo, d, h, mi, sec, c) \<and> c \<noteq> CHR ''Z'')) \<longrightarrow>
      datetime_to_calendar scan n other stale datetime p = Value (-2, p)) \<and>
   (\<forall>s y mo d h mi sec. datetime = Some s \<and> length s = n \<and> scan s = Some (y, mo, d, h, mi, sec, CHR ''Z'') \<and>
        is_int32 (y - 1900) \<and> is_int32 (mo - 1) \<longrightarrow>
      (let t = timegm (fields_of (y, mo, d, h, mi, sec, CHR ''Z'')) in
       datetime_to_calendar scan n other stale datetime p =
         Value (if t < 0 \<or> gmtime t = None then -3 else t, restored stale p)))"
  by (auto simp: datetime_to_calendar_def Let_def my_timegm_eq fields_of_def split: option.splits)

text \<open>The tests ask for \<open>-2\<close> for a text without the Z and a time for one with it, which is one character longer:
  no format gives both.\<close>

theorem length_checked_first:
  assumes "datetime_to_calendar scan n other stale (Some ''20150301100532Z'') p = Value (t, q)" and "t \<noteq> -1"
  shows "datetime_to_calendar scan n other stale (Some ''20150419181523'') p = Value (-1, p)"
  using assms by (auto simp: datetime_to_calendar_def split: if_splits)

text \<open>An hour of 24 is the midnight of the next day, in every month and year.\<close>

lemma timegm_hour_24:
  "timegm (T\<lparr>tm_hour := 24, tm_min := 0, tm_sec := 0\<rparr>) =
   timegm (T\<lparr>tm_mday := tm_mday T + 1, tm_hour := 0, tm_min := 0, tm_sec := 0\<rparr>)"
  by (simp add: timegm_def Let_def algebra_simps)

subsection \<open>A format\<close>

text \<open>
  The format that the comment of \<open>utils.h\<close> describes, ISO 8601 without hyphens and colons, as an instance of the
  parameters: every date of the years 1000 to 9999 satisfies the hypotheses of the round trip.
\<close>

fun pad :: "nat \<Rightarrow> nat \<Rightarrow> string" where
  "pad 0 n = ''''"
| "pad (Suc k) n = pad k (n div 10) @ [digit_char (n mod 10)]"

lemma length_pad [simp]: "length (pad k n) = k"
  by (induction k arbitrary: n) simp_all

lemma digits_val_pad [simp]: "n < 10 ^ k \<Longrightarrow> digits_val (pad k n) = n"
proof (induction k arbitrary: n)
  case (Suc k)
  have "n div 10 < 10 ^ k" using Suc.prems by (simp add: less_mult_imp_div_less mult.commute)
  with Suc.IH [of "n div 10"] show ?case by simp
qed (simp add: digits_val_def)

lemma pad_digits: "Ball (set (pad k n)) isdigit"
  by (induction k arbitrary: n) auto

definition rfc11_print :: "tm \<Rightarrow> string" where
  "rfc11_print T = pad 4 (nat (1900 + tm_year T)) @ pad 2 (nat (tm_mon T + 1)) @ pad 2 (nat (tm_mday T)) @
     pad 2 (nat (tm_hour T)) @ pad 2 (nat (tm_min T)) @ pad 2 (nat (tm_sec T)) @ ''Z''"

definition rfc11_scan :: "string \<Rightarrow> scanned option" where
  "rfc11_scan s =
     (if length s = 15 \<and> list_all isdigit (take 14 s)
      then Some (int (digits_val (take 4 s)), int (digits_val (take 2 (drop 4 s))), int (digits_val (take 2 (drop 6 s))),
                 int (digits_val (take 2 (drop 8 s))), int (digits_val (take 2 (drop 10 s))),
                 int (digits_val (take 2 (drop 12 s))), s ! 14)
      else None)"

lemma month_lengths_le_31: "i < 12 \<Longrightarrow> month_lengths b ! i \<le> 31"
proof -
  have "\<forall>l \<in> set (month_lengths b). l \<le> 31" by (simp add: month_lengths_def)
  then show "i < 12 \<Longrightarrow> month_lengths b ! i \<le> 31" by simp
qed

lemma rfc11_format:
  assumes "proper T" and "0 \<le> 1900 + tm_year T" and "tm_year T < 8100"
  shows "length (rfc11_print T) = 15 \<and> rfc11_scan (rfc11_print T) = Some (scanned_of T)"
proof -
  note P = assms(1) [unfolded proper_def]
  have "tm_mday T \<le> 31"
    using P month_lengths_le_31 [of "nat (tm_mon T)" "leap (1900 + tm_year T)"] by linarith
  then have d: "nat (tm_mday T) < 10 ^ 2" by simp
  have y: "nat (1900 + tm_year T) < 10 ^ 4" using assms(3) by simp
  have o: "nat (tm_mon T + 1) < 10 ^ 2" "nat (tm_hour T) < 10 ^ 2" "nat (tm_min T) < 10 ^ 2" "nat (tm_sec T) < 10 ^ 2"
    using P by auto
  show ?thesis
    using P assms(2) digits_val_pad [OF y] digits_val_pad [OF d] o [THEN digits_val_pad]
    by (simp add: rfc11_scan_def rfc11_print_def scanned_of_def list_all_iff ball_Un pad_digits nth_append del: pad.simps)
qed

corollary rfc11_round_trip:
  assumes "0 \<le> t" and "t < 253402300800" and "15 < bufsize"
  shows "\<exists>s. calendar_to_datetime rfc11_print t bufsize = Some s \<and>
             datetime_to_calendar rfc11_scan 15 other stale (Some s) p = Value (t, restored stale p)"
proof -
  obtain T where T: "gmtime t = Some T" "70 \<le> tm_year T" "tm_year T < 8100"
    using gmtime_in_range [OF assms(1,2)] .
  then have F: "length (rfc11_print T) = 15" "rfc11_scan (rfc11_print T) = Some (scanned_of T)"
    using rfc11_format [of T] timegm_gmtime [of t T] by simp_all
  then have s: "calendar_to_datetime rfc11_print t bufsize = Some (rfc11_print T)"
    using assms(3) T(1) by (intro calendar_to_datetime_Some) auto
  with calendar_read_back [of t T rfc11_scan "rfc11_print T" 15, OF T(1) assms(1) F(2,1)] show ?thesis by auto
qed

theorem calendar_round_trip_witness:
  "calendar_to_datetime rfc11_print 1425204332 64 = Some ''20150301100532Z'' \<and>
   (\<exists>z. datetime_to_calendar rfc11_scan 15 (\<lambda>_ T. (0, T)) (\<lambda>_. ''freed'') (Some ''20150301100532Z'')
     \<lparr>env_TZ = Some ''Europe/Prague'', zone = None\<rparr> = Value (1425204332, z)) \<and>
   datetime_to_calendar rfc11_scan 15 (\<lambda>_ T. (0, T)) (\<lambda>_. ''freed'') (Some ''20150301100532Z'')
     \<lparr>env_TZ = None, zone = Some ''UTC''\<rparr> = Value (1425204332, \<lparr>env_TZ = None, zone = None\<rparr>)"
proof -
  have g: "gmtime 1425204332 = Some \<lparr>tm_year = 115, tm_mon = 2, tm_mday = 1, tm_hour = 10, tm_min = 5, tm_sec = 32,
             tm_isdst = 0\<rparr>" (is "_ = Some ?T")
    by code_simp
  have p: "rfc11_print ?T = ''20150301100532Z''" and s: "rfc11_scan ''20150301100532Z'' = Some (scanned_of ?T)"
    by code_simp+
  show ?thesis
    using calendar_round_trip [OF g, of rfc11_scan rfc11_print 15 64 "\<lambda>_ T. (0, T)" "\<lambda>_. ''freed''"
        "\<lparr>env_TZ = Some ''Europe/Prague'', zone = None\<rparr>"]
      calendar_round_trip [OF g, of rfc11_scan rfc11_print 15 64 "\<lambda>_ T. (0, T)" "\<lambda>_. ''freed''"
        "\<lparr>env_TZ = None, zone = Some ''UTC''\<rparr>"]
    by (simp add: p s)
qed

theorem datetime_round_trip_witness:
  "calendar_to_datetime rfc11_print 951868799 64 = Some ''20000229235959Z''"
proof -
  let ?T = "\<lparr>tm_year = 100, tm_mon = 1, tm_mday = 29, tm_hour = 23, tm_min = 59, tm_sec = 59, tm_isdst = 0\<rparr>"
  have p: "rfc11_print ?T = ''20000229235959Z''" and s: "rfc11_scan ''20000229235959Z'' = Some (scanned_of ?T)"
    and d: "proper ?T"
    and c: "datetime_to_calendar rfc11_scan 15 (\<lambda>_ T. (0, T)) id (Some ''20000229235959Z'') \<lparr>env_TZ = None, zone = None\<rparr> =
            Value (951868799, \<lparr>env_TZ = None, zone = None\<rparr>)"
    by code_simp+
  show ?thesis
    using datetime_round_trip [OF _ s d c, of rfc11_print 64] by (simp add: p)
qed

theorem time_zone_restored_witness:
  "\<exists>q'. datetime_to_calendar rfc11_scan 15 (\<lambda>_ T. (7, T)) id (Some ''19991231235959Z'')
      \<lparr>env_TZ = Some ''UTC+3'', zone = None\<rparr> = Value (946684799, q')"
proof -
  have c: "datetime_to_calendar rfc11_scan 15 (\<lambda>_ T. (0, T)) id (Some ''19991231235959Z'') \<lparr>env_TZ = None, zone = None\<rparr> =
           Value (946684799, \<lparr>env_TZ = None, zone = None\<rparr>)"
    by code_simp
  show ?thesis
    using time_zone_restored [OF _ _ c, of "\<lambda>_ T. (7, T)" id "\<lparr>env_TZ = Some ''UTC+3'', zone = None\<rparr>"] by simp
qed

theorem length_checked_first_witness:
  "datetime_to_calendar rfc11_scan 15 (\<lambda>_ T. (0, T)) id (Some ''20150419181523'') \<lparr>env_TZ = None, zone = None\<rparr> =
   Value (-1, \<lparr>env_TZ = None, zone = None\<rparr>)"
proof -
  have c: "datetime_to_calendar rfc11_scan 15 (\<lambda>_ T. (0, T)) id (Some ''20150301100532Z'') \<lparr>env_TZ = None, zone = None\<rparr> =
           Value (1425204332, \<lparr>env_TZ = None, zone = None\<rparr>)"
    by code_simp
  show ?thesis using length_checked_first [OF c] by simp
qed

text \<open>The comment of \<open>utils.h\<close> calls two texts equal that are one second apart; with an hour of 24 they are.\<close>

lemma rfc11_last_second:
  "map (\<lambda>s. datetime_to_calendar rfc11_scan 15 (\<lambda>_ T. (0, T)) id (Some s) \<lparr>env_TZ = None, zone = None\<rparr>)
     [''19991231235959Z'', ''19991231240000Z'', ''20000101000000Z''] =
   map (\<lambda>t. Value (t, \<lparr>env_TZ = None, zone = None\<rparr>)) [946684799, 946684800, 946684800]"
  by code_simp

end
