(* ===== verification/TopicCache.thy ===== *)
theory TopicCache
  imports Rest_Prelude
begin

text \<open>
  \<open>src/shared/topic_cache.cc\<close>, class \<open>TopicCache\<close>: identifiers of topics by name, emptied when it
  is full. The object is a record, its \<open>std::map\<close> an ordered association list.
\<close>

record TopicCache =
  cache :: "(string \<times> int) list"
  max_size :: nat \<comment> \<open>\<open>_max\<close>\<close>

definition TopicCache_new :: "nat \<Rightarrow> TopicCache" where
  "TopicCache_new m = \<lparr> cache = [], max_size = m \<rparr>"

definition topic_has :: "TopicCache \<Rightarrow> string \<Rightarrow> bool" where
  "topic_has c topic_name = (map_of (cache c) topic_name \<noteq> None)"

definition topic_add :: "string \<Rightarrow> int \<Rightarrow> TopicCache \<Rightarrow> TopicCache" where
  "topic_add topic_name topic_id c =
     (let c = (if max_size c \<le> length (cache c) then c\<lparr> cache := [] \<rparr> else c)
      in c\<lparr> cache := map_emplace topic_name topic_id (cache c) \<rparr>)"

definition topic_get :: "TopicCache \<Rightarrow> string \<Rightarrow> int" where
  "topic_get c topic_name = (if \<not> topic_has c topic_name then 0 else the (map_of (cache c) topic_name))"

text \<open>
  What a user of a cache relies on: an entry just stored can be found, an entry found was stored,
  and the size is bounded.
\<close>

locale bounded_cache =
  fixes lookup :: "'c \<Rightarrow> 'k \<Rightarrow> 'v option"
    and store :: "'k \<Rightarrow> 'v \<Rightarrow> 'c \<Rightarrow> 'c"
    and csize :: "'c \<Rightarrow> nat"
    and wf :: "nat \<Rightarrow> 'c \<Rightarrow> bool"
  assumes store_wf: "wf n c \<Longrightarrow> wf n (store k v c)"
    and store_found: "wf n c \<Longrightarrow> lookup (store k v c) k \<noteq> None"
    and store_old: "wf n c \<Longrightarrow> lookup (store k v c) j = Some w \<Longrightarrow> lookup c j = Some w \<or> j = k \<and> w = v"
    and wf_size: "wf n c \<Longrightarrow> csize c \<le> max 1 n"
begin

definition store_all :: "('k \<times> 'v) list \<Rightarrow> 'c \<Rightarrow> 'c" where
  "store_all kvs c = fold (\<lambda>(k, v). store k v) kvs c"

lemma store_all_wf: "wf n c \<Longrightarrow> wf n (store_all kvs c)"
  unfolding store_all_def by (induction kvs arbitrary: c) (auto intro: store_wf)

lemma store_all_size: "wf n c \<Longrightarrow> csize (store_all kvs c) \<le> max 1 n"
  by (rule wf_size [OF store_all_wf])

lemma store_all_sound:
  "wf n c \<Longrightarrow> lookup (store_all kvs c) j = Some w \<Longrightarrow> lookup c j = Some w \<or> (j, w) \<in> set kvs"
  unfolding store_all_def
proof (induction kvs arbitrary: c)
  case (Cons kv kvs)
  obtain k v where kv: "kv = (k, v)" by (cases kv)
  show ?case
    using Cons.IH [OF store_wf [OF Cons.prems(1)], of k v] Cons.prems store_old [OF Cons.prems(1)]
    by (auto simp: kv)
qed simp

lemma store_all_last: "wf n c \<Longrightarrow> lookup (store_all (kvs @ [(k, v)]) c) k \<noteq> None"
  using store_found [OF store_all_wf] by (simp add: store_all_def)

text \<open>A cache filled from one function never gives anything but that function's values.\<close>

lemma coherent:
  assumes "wf n c" and "\<And>j w. lookup c j = Some w \<Longrightarrow> w = f j" and "\<forall>(k, v) \<in> set kvs. v = f k"
    and "lookup (store_all kvs c) j = Some w"
  shows "w = f j"
  using store_all_sound [OF assms(1,4)] assms(2,3) by auto

end

definition tc_wf :: "nat \<Rightarrow> TopicCache \<Rightarrow> bool" where
  "tc_wf n c \<longleftrightarrow> max_size c = n \<and> smap (cache c) \<and> length (cache c) \<le> max 1 n"

lemma length_map_put: "length (map_put k v m) \<le> Suc (length m)"
  by (induction k v m rule: map_put.induct) auto

lemma length_map_emplace: "length (map_emplace k v m) \<le> Suc (length m)"
  using length_map_put [of k v m] by (auto simp: map_emplace_def split: option.splits)

interpretation topic: bounded_cache "\<lambda>c. map_of (cache c)" topic_add "\<lambda>c. length (cache c)" tc_wf
proof unfold_locales
  show "tc_wf n (topic_add k v c)" if "tc_wf n c" for n c k v
    using that length_map_emplace [of k v "cache c"] length_map_emplace [of k v "[]"]
    by (auto simp: tc_wf_def topic_add_def Let_def)
  show "map_of (cache (topic_add k v c)) k \<noteq> None" if "tc_wf n c" for n c k v
    using that by (auto simp: tc_wf_def topic_add_def Let_def split: option.splits)
  show "map_of (cache c) j = Some w \<or> j = k \<and> w = v"
    if "tc_wf n c" "map_of (cache (topic_add k v c)) j = Some w" for n c k v j w
    using that by (auto simp: tc_wf_def topic_add_def Let_def split: option.splits if_splits)
  show "length (cache c) \<le> max 1 n" if "tc_wf n c" for n c
    using that by (simp add: tc_wf_def)
qed

definition topic_add_all :: "(string \<times> int) list \<Rightarrow> TopicCache \<Rightarrow> TopicCache" where
  "topic_add_all kvs c = fold (\<lambda>(k, v). topic_add k v) kvs c"

lemma tc_wf_new [simp]: "tc_wf n (TopicCache_new n)"
  by (simp add: tc_wf_def TopicCache_new_def)

text \<open>C37. However many topics are added to a new cache, it holds at most \<open>max(1, _max)\<close> of them; the
  topic added last is in it; and when the identifiers added are those of a function of the name,
  \<open>get\<close> answers that function's value for every topic the cache has, and 0 for the others.\<close>

theorem topic_cache_bounded_and_coherent:
  assumes "\<forall>(k, v) \<in> set kvs. v = f k"
  shows "length (cache (topic_add_all kvs (TopicCache_new n))) \<le> max 1 n \<and>
         (kvs \<noteq> [] \<longrightarrow> topic_has (topic_add_all kvs (TopicCache_new n)) (fst (last kvs))) \<and>
         topic_get (topic_add_all kvs (TopicCache_new n)) t = (if topic_has (topic_add_all kvs (TopicCache_new n)) t then f t else 0)"
proof -
  have eq: "topic_add_all kvs c = topic.store_all kvs c" for kvs c
    by (simp add: topic_add_all_def topic.store_all_def)
  have "topic_has (topic_add_all kvs (TopicCache_new n)) (fst (last kvs))" if ne: "kvs \<noteq> []"
  proof -
    obtain k v where "last kvs = (k, v)" by (cases "last kvs")
    with ne have "kvs = butlast kvs @ [(k, v)]" by (metis append_butlast_last_id)
    with topic.store_all_last [OF tc_wf_new, where n = n and kvs = "butlast kvs" and k = k and v = v] \<open>last kvs = (k, v)\<close>
    show ?thesis by (simp add: topic_has_def eq)
  qed
  moreover have "w = f t" if "map_of (cache (topic.store_all kvs (TopicCache_new n))) t = Some w" for w
    using topic.coherent [OF tc_wf_new _ assms that] by (simp add: TopicCache_new_def)
  ultimately show ?thesis
    using topic.store_all_size [OF tc_wf_new, where n = n and kvs = kvs] by (auto simp: eq topic_get_def topic_has_def)
qed

theorem topic_cache_bounded_and_coherent_witness:
  "length (cache (topic_add_all [(''a'', 1), (''bb'', 2), (''ccc'', 3)] (TopicCache_new 2))) \<le> 2 \<and>
   topic_has (topic_add_all [(''a'', 1), (''bb'', 2), (''ccc'', 3)] (TopicCache_new 2)) ''ccc''"
  using topic_cache_bounded_and_coherent [of "[(''a'', 1), (''bb'', 2), (''ccc'', 3)]"
      "\<lambda>k. int (length k)" 2 "''a''"] by simp

end
