(* ===== verification/DateText.thy ===== *)
theory DateText
  imports Utils
begin

text \<open>
  \<open>sanitize_date\<close> of \<open>src/shared/utils.cc\<close>: the choice of the first format by the dashes of the input,
  the formats tried in turn with \<open>strptime\<close>, and the ISO date written with \<open>strftime\<close>. Of \<open>strptime\<close>
  the conversions the formats use are modelled, as the C library has them; the names of the months
  depend on the locale and are a parameter.
\<close>

subsection \<open>The conversions of strptime\<close>

datatype conversion = Day | Month | Year | Month_name | Year2 | Literal char | Space

record tm =
  tm_mday :: nat
  tm_mon :: nat \<comment> \<open>from 1\<close>
  tm_year :: nat

fun more_digits :: "nat \<Rightarrow> nat \<Rightarrow> nat \<Rightarrow> string \<Rightarrow> nat \<times> string" where
  "more_digits n to v [] = (v, [])"
| "more_digits n to v (c # cs) =
     (if 0 < n \<and> v * 10 \<le> to \<and> isdigit c then more_digits (n - 1) to (v * 10 + digit_val c) cs else (v, c # cs))"

definition get_number :: "nat \<Rightarrow> nat \<Rightarrow> nat \<Rightarrow> string \<Rightarrow> (nat \<times> string) option" where
  \<comment> \<open>a number of at most \<open>n\<close> digits between \<open>from\<close> and \<open>to\<close>, white space before it allowed\<close>
  "get_number from to n s =
     (case dropWhile isspace s of
        [] \<Rightarrow> None
      | c # cs \<Rightarrow>
          if \<not> isdigit c then None
          else (case more_digits (n - 1) to (digit_val c) cs of
                  (v, rest) \<Rightarrow> if v < from \<or> to < v then None else Some (v, rest)))"

fun get_month_name :: "(string \<times> string) list \<Rightarrow> nat \<Rightarrow> string \<Rightarrow> (nat \<times> string) option" where
  \<comment> \<open>the full name of a month, else its abbreviation, in either case\<close>
  "get_month_name [] i s = None"
| "get_month_name ((full, abbr) # names) i s =
     (if map tolower (take (length full) s) = map tolower full then Some (i, drop (length full) s)
      else if map tolower (take (length abbr) s) = map tolower abbr then Some (i, drop (length abbr) s)
      else get_month_name names (i + 1) s)"

fun strptime :: "(string \<times> string) list \<Rightarrow> conversion list \<Rightarrow> string \<Rightarrow> tm \<Rightarrow> tm option" where
  "strptime months [] s tm = Some tm"
| "strptime months (Day # fs) s tm =
     (case get_number 1 31 2 s of None \<Rightarrow> None | Some (v, r) \<Rightarrow> strptime months fs r (tm\<lparr> tm_mday := v \<rparr>))"
| "strptime months (Month # fs) s tm =
     (case get_number 1 12 2 s of None \<Rightarrow> None | Some (v, r) \<Rightarrow> strptime months fs r (tm\<lparr> tm_mon := v \<rparr>))"
| "strptime months (Year # fs) s tm =
     (case get_number 0 9999 4 s of None \<Rightarrow> None | Some (v, r) \<Rightarrow> strptime months fs r (tm\<lparr> tm_year := v \<rparr>))"
| "strptime months (Year2 # fs) s tm =
     (case get_number 0 99 2 s of None \<Rightarrow> None | Some (v, r) \<Rightarrow>
        strptime months fs r (tm\<lparr> tm_year := (if v \<ge> 69 then 1900 + v else 2000 + v) \<rparr>))"
| "strptime months (Month_name # fs) s tm =
     (case get_month_name months 1 s of None \<Rightarrow> None | Some (v, r) \<Rightarrow> strptime months fs r (tm\<lparr> tm_mon := v \<rparr>))"
| "strptime months (Literal c # fs) s tm =
     (case s of [] \<Rightarrow> None | x # r \<Rightarrow> if x = c then strptime months fs r tm else None)"
| "strptime months (Space # fs) s tm = strptime months fs (dropWhile isspace s) tm"

definition two_digits :: "nat \<Rightarrow> string" where
  "two_digits n = [digit_char (n div 10), digit_char (n mod 10)]"

definition strftime_iso :: "tm \<Rightarrow> string" where
  \<comment> \<open>\<open>%Y-%m-%d\<close>; eleven bytes hold it for every year of four digits\<close>
  "strftime_iso tm = to_string (tm_year tm) @ ''-'' @ two_digits (tm_mon tm) @ ''-'' @ two_digits (tm_mday tm)"

subsection \<open>sanitize\_date\<close>

definition START_IDX :: int where "START_IDX = 0"
definition ISO_IDX :: int where "ISO_IDX = 1"
definition EXCELL_IDX :: int where "EXCELL_IDX = 2"
definition NO_DASH_IDX :: int where "NO_DASH_IDX = 3"

definition FORMATS :: "conversion list list" where
  "FORMATS =
     [[Day, Literal CHR ''-'', Month, Literal CHR ''-'', Year],
      [Year, Literal CHR ''-'', Month, Literal CHR ''-'', Day],
      [Day, Literal CHR ''-'', Month_name, Literal CHR ''-'', Year2],
      [Day, Literal CHR ''.'', Month, Literal CHR ''.'', Year],
      [Day, Space, Month, Space, Year],
      [Month, Literal CHR 0x2F, Day, Literal CHR 0x2F, Year]]"

definition strchr :: "string \<Rightarrow> char \<Rightarrow> nat option" where
  "strchr s c = (if c \<in> set s then Some (length (takeWhile (\<lambda>x. x \<noteq> c) s)) else None)"

definition starting_idx :: "string \<Rightarrow> int option" where
  \<comment> \<open>\<open>None\<close>: \<open>strchr\<close> finds no second dash, and the null pointer plus one is read\<close>
  "starting_idx inp =
     (case strchr inp (CHR ''-'') of
        None \<Rightarrow> Some NO_DASH_IDX
      | Some i \<Rightarrow>
          if i = 4 then Some ISO_IDX
          else
            let inp1 = drop (i + 1) inp
            in if inp1 = [] \<or> \<not> isdigit (hd inp1) then Some EXCELL_IDX
               else (case strchr inp1 (CHR ''-'') of
                       None \<Rightarrow> None
                     | Some j \<Rightarrow> if length (drop (j + 1) inp1) = 4 then Some START_IDX else Some (- 1)))"

datatype date = Null | Undefined_date | Date string

fun formats_loop :: "(string \<times> string) list \<Rightarrow> string \<Rightarrow> tm \<Rightarrow> conversion list list \<Rightarrow> date" where
  "formats_loop months inp tm [] = Null"
| "formats_loop months inp tm (f # fs) =
     (case strptime months f inp tm of None \<Rightarrow> formats_loop months inp tm fs | Some tm' \<Rightarrow> Date (strftime_iso tm'))"

definition sanitize_date :: "(string \<times> string) list \<Rightarrow> tm \<Rightarrow> string \<Rightarrow> date" where
  \<comment> \<open>\<open>inp\<close> is a C string; \<open>tm\<close> is the content of the uninitialised structure\<close>
  "sanitize_date months tm inp =
     (case starting_idx inp of
        None \<Rightarrow> Undefined_date
      | Some start \<Rightarrow> if start \<le> - 1 then Null else formats_loop months inp tm (drop (nat start) FORMATS))"

definition c_months :: "(string \<times> string) list" where
  \<comment> \<open>the names of the C locale\<close>
  "c_months =
     [(''January'', ''Jan''), (''February'', ''Feb''), (''March'', ''Mar''), (''April'', ''Apr''), (''May'', ''May''),
      (''June'', ''Jun''), (''July'', ''Jul''), (''August'', ''Aug''), (''September'', ''Sep''),
      (''October'', ''Oct''), (''November'', ''Nov''), (''December'', ''Dec'')]"

subsection \<open>Lemmas\<close>

lemma digit_char_code [simp]: "d < 10 \<Longrightarrow> digit_char d \<noteq> CHR ''-''" "d < 10 \<Longrightarrow> digit_char d \<noteq> CHR ''.''"
    "d < 10 \<Longrightarrow> digit_char d \<noteq> CHR 0x2F"
  by (auto dest!: isdigit_digit_char simp: isdigit_def char_code_def)

lemma get_two_digits [simp]:
  assumes "from \<le> v" and "v \<le> to" and "v < 100"
  shows "get_number from to 2 (two_digits v @ rest) = Some (v, rest)"
    and "get_number from to 2 (digit_char (v div 10) # digit_char (v mod 10) # rest) = Some (v, rest)"
proof -
  have "v div 10 < 10" and "v div 10 * 10 \<le> to" using assms by linarith+
  then show "get_number from to 2 (digit_char (v div 10) # digit_char (v mod 10) # rest) = Some (v, rest)"
    using assms by (cases rest) (simp_all add: get_number_def)
  then show "get_number from to 2 (two_digits v @ rest) = Some (v, rest)" by (simp add: two_digits_def)
qed

lemma to_string_4:
  assumes "1000 \<le> y" and "y \<le> 9999"
  shows "to_string y = [digit_char (y div 1000), digit_char (y div 100 mod 10), digit_char (y div 10 mod 10), digit_char (y mod 10)]"
proof -
  have step: "to_string n = to_string (n div 10) @ [digit_char (n mod 10)]" if "\<not> n < 10" for n
    using that by (subst to_string.simps) (simp only: if_False)
  have d: "y div 10 div 10 = y div 100" "y div 100 div 10 = y div 1000"
    by (simp_all only: div_mult2_eq [symmetric]) simp_all
  have "to_string (y div 1000) = [digit_char (y div 1000)]"
    using assms by (subst to_string.simps) simp
  moreover have "to_string (y div 100) = to_string (y div 1000) @ [digit_char (y div 100 mod 10)]"
    using step [of "y div 100"] assms d by simp
  moreover have "to_string (y div 10) = to_string (y div 100) @ [digit_char (y div 10 mod 10)]"
    using step [of "y div 10"] assms d by simp
  moreover have "to_string y = to_string (y div 10) @ [digit_char (y mod 10)]"
    using step [of y] assms by simp
  ultimately show ?thesis by simp
qed

lemma get_year [simp]:
  assumes "1000 \<le> y" and "y \<le> 9999"
  shows "get_number 0 9999 4 (to_string y @ rest) = Some (y, rest)"
proof -
  have d: "y div 1000 < 10" using assms by linarith
  have e: "y div 1000 = y div 100 div 10" "y div 100 = y div 10 div 10"
    by (simp_all only: div_mult2_eq [symmetric]) simp_all
  have v: "y div 1000 * 10 + y div 100 mod 10 = y div 100" "y div 100 * 10 + y div 10 mod 10 = y div 10"
      "y div 10 * 10 + y mod 10 = y"
    by (simp_all only: e div_mult_mod_eq)
  have b: "y div 100 * 10 \<le> 9999" "y div 10 * 10 \<le> 9999" "y div 1000 * 10 \<le> 9999" using assms by linarith+
  show ?thesis using assms d v b by (cases rest) (simp_all add: to_string_4 get_number_def)
qed

definition iso :: "nat \<Rightarrow> nat \<Rightarrow> nat \<Rightarrow> string" where
  "iso y m d = to_string y @ ''-'' @ two_digits m @ ''-'' @ two_digits d"

lemma strchr_Cons: "strchr (c # s) x = (if c = x then Some 0 else map_option Suc (strchr s x))"
  by (auto simp: strchr_def)

lemma strchr_Nil [simp]: "strchr [] x = None"
  by (simp add: strchr_def)

lemma year_head: "1000 \<le> y \<Longrightarrow> y \<le> 9999 \<Longrightarrow> \<exists>a b c d. to_string y = [digit_char a, digit_char b, digit_char c, digit_char d] \<and>
    a < 10 \<and> b < 10 \<and> c < 10 \<and> d < 10"
  by (intro exI) (rule conjI, rule to_string_4, auto)

lemma strchr_split [simp]: "c \<notin> set a \<Longrightarrow> strchr (a @ c # b) c = Some (length a)"
  by (simp add: strchr_def takeWhile_append)

lemma strchr_None: "c \<notin> set s \<Longrightarrow> strchr s c = None"
  by (simp add: strchr_def)

lemma starting_idx_split:
  assumes "CHR ''-'' \<notin> set a"
  shows "starting_idx (a @ CHR ''-'' # b) =
    (if length a = 4 then Some ISO_IDX
     else if b = [] \<or> \<not> isdigit (hd b) then Some EXCELL_IDX
     else if CHR ''-'' \<notin> set b then None
     else if length (drop (length (takeWhile (\<lambda>x. x \<noteq> CHR ''-'') b) + 1) b) = 4 then Some START_IDX
     else Some (- 1))"
  using assms by (simp add: starting_idx_def strchr_def [of b])

text \<open>The notations of a date: a day and a month are written with one digit or with two.\<close>

definition spelled :: "nat \<Rightarrow> string set" where
  "spelled v = {two_digits v, to_string v}"

definition blank :: "string \<Rightarrow> bool" where
  "blank w \<longleftrightarrow> w \<noteq> [] \<and> (\<forall>c \<in> set w. isspace c)"

definition month_named :: "(string \<times> string) list \<Rightarrow> nat \<Rightarrow> string \<Rightarrow> bool" where
  \<comment> \<open>what \<open>%b\<close> reads as the month, before a dash\<close>
  "month_named months m nm \<longleftrightarrow>
     nm \<noteq> [] \<and> \<not> isdigit (hd nm) \<and> (\<forall>rest. get_month_name months 1 (nm @ ''-'' @ rest) = Some (m, ''-'' @ rest))"

definition notations :: "(string \<times> string) list \<Rightarrow> nat \<Rightarrow> nat \<Rightarrow> nat \<Rightarrow> string set" where
  "notations months y m d =
     {dd @ ''-'' @ mm @ ''-'' @ to_string y | dd mm. dd \<in> spelled d \<and> mm \<in> spelled m} \<union>
     {to_string y @ ''-'' @ mm @ ''-'' @ dd | dd mm. dd \<in> spelled d \<and> mm \<in> spelled m} \<union>
     {dd @ ''-'' @ nm @ ''-'' @ two_digits (y mod 100) | dd nm.
        dd \<in> spelled d \<and> month_named months m nm \<and> 1969 \<le> y \<and> y \<le> 2068} \<union>
     {dd @ ''.'' @ mm @ ''.'' @ to_string y | dd mm. dd \<in> spelled d \<and> mm \<in> spelled m} \<union>
     {dd @ w @ mm @ w' @ to_string y | dd mm w w'. dd \<in> spelled d \<and> mm \<in> spelled m \<and> blank w \<and> blank w'} \<union>
     {mm @ [CHR 0x2F] @ dd @ [CHR 0x2F] @ to_string y | dd mm. dd \<in> spelled d \<and> mm \<in> spelled m}"

lemma spelled_cases:
  assumes "s \<in> spelled v" and "v < 100"
  obtains "s = two_digits v" | "v < 10" and "s = [digit_char v]"
proof (cases "v < 10")
  case True
  then have "to_string v = [digit_char v]" by (subst to_string.simps) simp
  with assms True that show thesis by (auto simp: spelled_def)
next
  case False
  then have "to_string v = to_string (v div 10) @ [digit_char (v mod 10)]"
    by (subst to_string.simps) (simp only: if_False)
  moreover have "to_string (v div 10) = [digit_char (v div 10)]"
    using assms(2) by (subst to_string.simps) (simp add: div_less_iff_less_mult)
  ultimately have "to_string v = two_digits v" by (simp add: two_digits_def)
  with assms that show thesis by (auto simp: spelled_def)
qed

lemma get_spelled:
  assumes "s \<in> spelled v" and "from \<le> v" and "v \<le> to" and "to < 100"
    and "rest = [] \<or> \<not> isdigit (hd rest)"
  shows "get_number from to 2 (s @ rest) = Some (v, rest)"
proof -
  have v: "v < 100" using assms(3,4) by simp
  from assms(1) v show ?thesis
  proof (cases rule: spelled_cases)
    case 1
    with assms(2,3) v show ?thesis by simp
  next
    case 2
    with assms(2,3,5) show ?thesis by (cases rest) (simp_all add: get_number_def)
  qed
qed

lemma spelled_digits: "s \<in> spelled v \<Longrightarrow> v < 100 \<Longrightarrow> c \<in> set s \<Longrightarrow> isdigit c"
  by (elim spelled_cases) (auto simp: two_digits_def)

lemma spelled_length: "s \<in> spelled v \<Longrightarrow> v < 100 \<Longrightarrow> s \<noteq> [] \<and> length s \<le> 2"
  by (elim spelled_cases) (auto simp: two_digits_def)

lemma not_digit [simp]: "\<not> isdigit (CHR ''-'')" "\<not> isdigit (CHR ''.'')" "\<not> isdigit (CHR 0x2F)"
  "\<not> isspace (CHR ''-'')" "\<not> isspace (CHR ''.'')" "\<not> isspace (CHR 0x2F)"
  by (simp_all add: isdigit_def isspace_def char_code_def)

lemma spelled_no: "s \<in> spelled v \<Longrightarrow> v < 100 \<Longrightarrow> \<not> isdigit c \<Longrightarrow> c \<notin> set s"
  using spelled_digits by blast

lemma year_facts:
  assumes "1000 \<le> y" and "y \<le> 9999"
  shows "length (to_string y) = 4" and "\<not> isdigit c \<Longrightarrow> c \<notin> set (to_string y)"
    and "\<exists>x xs. to_string y = x # xs \<and> isdigit x"
  using year_head [OF assms] by auto

lemma space_not_digit: "isspace c \<Longrightarrow> \<not> isdigit c"
  by (auto simp: isspace_def isdigit_def)

lemma space_not_punct: "isspace c \<Longrightarrow> c \<noteq> CHR ''-'' \<and> c \<noteq> CHR ''.'' \<and> c \<noteq> CHR 0x2F"
  by (auto simp: isspace_def char_code_def)

text \<open>Each notation leads to its format, and the formats tried before it do not match.\<close>

definition spells :: "string \<Rightarrow> string \<Rightarrow> nat \<Rightarrow> nat \<Rightarrow> nat \<Rightarrow> bool" where
  \<comment> \<open>the day and the month of a date of four-digit year\<close>
  "spells dd mm y m d \<longleftrightarrow>
     1000 \<le> y \<and> y \<le> 9999 \<and> 1 \<le> m \<and> m \<le> 12 \<and> 1 \<le> d \<and> d \<le> 31 \<and> dd \<in> spelled d \<and> mm \<in> spelled m"

lemma spells_facts:
  assumes "spells dd mm y m d"
  shows "CHR ''-'' \<notin> set dd" "CHR ''-'' \<notin> set mm" "CHR ''-'' \<notin> set (to_string y)"
    and "length dd \<noteq> 4" "mm \<noteq> [] \<and> isdigit (hd mm)" "length (to_string y) = 4"
    and "\<exists>x xs. to_string y = x # xs \<and> isdigit x"
proof -
  from assms have b: "1000 \<le> y" "y \<le> 9999" "m < 100" "d < 100" and s: "dd \<in> spelled d" "mm \<in> spelled m"
    by (simp_all add: spells_def)
  show "CHR ''-'' \<notin> set dd" "CHR ''-'' \<notin> set mm"
    by (rule spelled_no [OF s(1) b(4)], simp) (rule spelled_no [OF s(2) b(3)], simp)
  show "CHR ''-'' \<notin> set (to_string y)" by (rule year_facts(2) [OF b(1,2)]) simp
  show "length dd \<noteq> 4" using spelled_length [OF s(1) b(4)] by linarith
  show "mm \<noteq> [] \<and> isdigit (hd mm)" using spelled_length [OF s(2) b(3)] spelled_digits [OF s(2) b(3)] by simp
  show "length (to_string y) = 4" by (rule year_facts(1) [OF b(1,2)])
  show "\<exists>x xs. to_string y = x # xs \<and> isdigit x" by (rule year_facts(3) [OF b(1,2)])
qed

lemma spells_numbers:
  assumes "spells dd mm y m d"
  shows "rest = [] \<or> \<not> isdigit (hd rest) \<Longrightarrow> get_number 1 31 2 (dd @ rest) = Some (d, rest)"
    and "rest = [] \<or> \<not> isdigit (hd rest) \<Longrightarrow> get_number 1 12 2 (mm @ rest) = Some (m, rest)"
    and "rest = [] \<or> \<not> isdigit (hd rest) \<Longrightarrow> get_number 1 31 2 (mm @ rest) = Some (m, rest)"
    and "get_number 0 9999 4 (to_string y @ rest) = Some (y, rest)"
  using assms by (auto simp: spells_def intro!: get_spelled)

lemma spells_ends:
  assumes "spells dd mm y m d"
  shows "get_number 1 31 2 dd = Some (d, [])" and "get_number 0 9999 4 (to_string y) = Some (y, [])"
  using spells_numbers(1,4) [OF assms, of "[]"] by simp_all

lemmas spells_read = spells_numbers [of dd mm y m d "c # cs" for dd mm y m d c cs, simplified list.simps simp_thms list.sel]

lemmas to_iso = iso_def strftime_iso_def

lemma read_dmy:
  assumes "spells dd mm y m d"
  shows "sanitize_date months tm (dd @ ''-'' @ mm @ ''-'' @ to_string y) = Date (iso y m d)"
proof -
  note F = spells_facts [OF assms]
  have "takeWhile (\<lambda>x. x \<noteq> CHR ''-'') (mm @ CHR ''-'' # to_string y) = mm"
    using F(2) by (auto simp: takeWhile_append)
  then have "starting_idx (dd @ CHR ''-'' # mm @ CHR ''-'' # to_string y) = Some START_IDX"
    unfolding starting_idx_split [OF F(1)] using F(4-6) by auto
  then show ?thesis
    by (simp add: sanitize_date_def START_IDX_def FORMATS_def spells_read [OF assms] spells_ends [OF assms] to_iso
        del: One_nat_def)
qed

lemma read_iso:
  assumes "spells dd mm y m d"
  shows "sanitize_date months tm (to_string y @ ''-'' @ mm @ ''-'' @ dd) = Date (iso y m d)"
proof -
  note F = spells_facts [OF assms]
  have "starting_idx (to_string y @ CHR ''-'' # mm @ CHR ''-'' # dd) = Some ISO_IDX"
    unfolding starting_idx_split [OF F(3)] using F(6) by simp
  then show ?thesis
    by (simp add: sanitize_date_def ISO_IDX_def FORMATS_def spells_read [OF assms] spells_ends [OF assms] to_iso
        del: One_nat_def)
qed

lemma year_of_two_digits:
  assumes "1969 \<le> y" and "y \<le> 2068"
  shows "(if y mod 100 \<ge> 69 then 1900 + y mod 100 else 2000 + y mod 100) = (y :: nat)"
proof (cases "y < 2000")
  case True
  then have y: "(y - 1900) + 19 * 100 = y" and b: "69 \<le> y - 1900" "y - 1900 < 100" using assms by simp_all
  have "y mod 100 = (y - 1900) mod 100" using mod_mult_self1 [of "y - 1900" 19 100] by (simp only: y)
  with y b show ?thesis by simp
next
  case False
  then have y: "(y - 2000) + 20 * 100 = y" and b: "y - 2000 < 69" using assms by simp_all
  have "y mod 100 = (y - 2000) mod 100" using mod_mult_self1 [of "y - 2000" 20 100] by (simp only: y)
  with y b show ?thesis by simp
qed

lemma read_excel:
  assumes "spells dd mm y m d" and "month_named months m nm" and "1969 \<le> y" and "y \<le> 2068"
  shows "sanitize_date months tm (dd @ ''-'' @ nm @ ''-'' @ two_digits (y mod 100)) = Date (iso y m d)"
proof -
  note F = spells_facts [OF assms(1)]
  define v where "v = y mod 100"
  have "starting_idx (dd @ CHR ''-'' # nm @ CHR ''-'' # two_digits v) = Some EXCELL_IDX"
    unfolding starting_idx_split [OF F(1)] using assms(2) F(4) by (auto simp: month_named_def)
  moreover have "get_number 0 99 2 (two_digits v) = Some (v, [])"
    using get_two_digits(1) [of 0 v 99 "[]"] by (simp add: v_def)
  moreover have "get_month_name months 1 (nm @ CHR ''-'' # rest) = Some (m, CHR ''-'' # rest)" for rest
    using assms(2) by (simp add: month_named_def)
  moreover have "69 \<le> v \<and> 1900 + v = y \<or> \<not> 69 \<le> v \<and> 2000 + v = y"
    using year_of_two_digits [OF assms(3,4)] unfolding v_def by (metis (full_types))
  ultimately have "sanitize_date months tm (dd @ ''-'' @ nm @ ''-'' @ two_digits v) = Date (iso y m d)"
    by (elim disjE conjE)
       (simp_all add: sanitize_date_def EXCELL_IDX_def FORMATS_def spells_read [OF assms(1)] to_iso del: One_nat_def)
  then show ?thesis by (simp only: v_def)
qed

lemma no_dash_start: "CHR ''-'' \<notin> set inp \<Longrightarrow> starting_idx inp = Some NO_DASH_IDX"
  by (simp add: starting_idx_def strchr_def)

lemma read_dots:
  assumes "spells dd mm y m d"
  shows "sanitize_date months tm (dd @ ''.'' @ mm @ ''.'' @ to_string y) = Date (iso y m d)"
proof -
  have "starting_idx (dd @ CHR ''.'' # mm @ CHR ''.'' # to_string y) = Some NO_DASH_IDX"
    by (rule no_dash_start) (use spells_facts [OF assms] in simp)
  then show ?thesis
    by (simp add: sanitize_date_def NO_DASH_IDX_def FORMATS_def spells_read [OF assms] spells_ends [OF assms] to_iso
        del: One_nat_def)
qed

lemma read_blanks_Cons:
  assumes "spells dd mm y m d" and "blank (c # w)" and "blank (c' # w')"
  shows "sanitize_date months tm (dd @ (c # w) @ mm @ (c' # w') @ to_string y) = Date (iso y m d)"
proof -
  note F = spells_facts [OF assms(1)]
  have c: "isspace c" "\<not> isdigit c" "c \<noteq> CHR ''.''" "isspace c'" "\<not> isdigit c'"
    using assms(2,3) space_not_digit space_not_punct by (simp_all add: blank_def)
  obtain x xs where mm: "mm = x # xs" "isdigit x" using F(5) by (cases mm) auto
  obtain z zs where yy: "to_string y = z # zs" "isdigit z" using F(7) by blast
  have skip: "dropWhile isspace (w @ mm @ rest) = mm @ rest" "dropWhile isspace (w' @ to_string y) = to_string y" for rest
    using assms(2,3) mm yy space_not_digit by (auto simp: blank_def dropWhile_append)
  have "CHR ''-'' \<notin> set (c # w)" "CHR ''-'' \<notin> set (c' # w')"
    using assms(2,3) space_not_punct by (auto simp: blank_def)
  then have "starting_idx (dd @ (c # w) @ mm @ (c' # w') @ to_string y) = Some NO_DASH_IDX"
    by (intro no_dash_start) (use F in simp)
  with c skip show ?thesis
    by (simp add: sanitize_date_def NO_DASH_IDX_def FORMATS_def spells_read [OF assms(1)] spells_ends [OF assms(1)] to_iso
        del: One_nat_def)
qed

lemma read_blanks:
  assumes "spells dd mm y m d" and "blank w" and "blank w'"
  shows "sanitize_date months tm (dd @ w @ mm @ w' @ to_string y) = Date (iso y m d)"
  using read_blanks_Cons [OF assms(1)] assms(2,3) by (cases w; cases w'; simp add: blank_def)

lemma read_slashes:
  assumes "spells dd mm y m d"
  shows "sanitize_date months tm (mm @ [CHR 0x2F] @ dd @ [CHR 0x2F] @ to_string y) = Date (iso y m d)"
proof -
  have "starting_idx (mm @ CHR 0x2F # dd @ CHR 0x2F # to_string y) = Some NO_DASH_IDX"
    by (rule no_dash_start) (use spells_facts [OF assms] in simp)
  moreover have "get_number 1 12 2 (CHR 0x2F # s) = None" for s by (simp add: get_number_def)
  ultimately show ?thesis
    by (simp add: sanitize_date_def NO_DASH_IDX_def FORMATS_def spells_read [OF assms] spells_ends [OF assms] to_iso
        del: One_nat_def)
qed

lemma formats_loop_defined: "formats_loop months inp tm fs \<noteq> Undefined_date"
  by (induction fs) (auto split: option.splits)

lemma sanitize_undefined:
  "sanitize_date months tm inp = Undefined_date \<longleftrightarrow>
     (\<exists>a b. inp = a @ CHR ''-'' # b \<and> CHR ''-'' \<notin> set a \<and> CHR ''-'' \<notin> set b \<and> length a \<noteq> 4 \<and> b \<noteq> [] \<and> isdigit (hd b))"
proof -
  have "sanitize_date months tm inp = Undefined_date \<longleftrightarrow> starting_idx inp = None"
    by (auto simp: sanitize_date_def formats_loop_defined split: option.splits)
  also have "\<dots> \<longleftrightarrow>
     (\<exists>a b. inp = a @ CHR ''-'' # b \<and> CHR ''-'' \<notin> set a \<and> CHR ''-'' \<notin> set b \<and> length a \<noteq> 4 \<and> b \<noteq> [] \<and> isdigit (hd b))"
  proof (cases "CHR ''-'' \<in> set inp")
    case False
    then have "starting_idx inp \<noteq> None" by (simp add: starting_idx_def strchr_None)
    with False show ?thesis by auto
  next
    case True
    then obtain a b where s: "inp = a @ CHR ''-'' # b" and a: "CHR ''-'' \<notin> set a" by (meson split_list_first)
    have parts: "takeWhile (\<lambda>x. x \<noteq> CHR ''-'') (u @ CHR ''-'' # v) = u \<and> dropWhile (\<lambda>x. x \<noteq> CHR ''-'') (u @ CHR ''-'' # v) = CHR ''-'' # v"
      if "CHR ''-'' \<notin> set u" for u v
      using that by (auto simp: takeWhile_append dropWhile_append)
    have unique: "a' = a \<and> b' = b" if "inp = a' @ CHR ''-'' # b'" "CHR ''-'' \<notin> set a'" for a' b'
    proof -
      have "takeWhile (\<lambda>x. x \<noteq> CHR ''-'') inp = a \<and> dropWhile (\<lambda>x. x \<noteq> CHR ''-'') inp = CHR ''-'' # b"
        unfolding s by (rule parts [OF a])
      moreover have "takeWhile (\<lambda>x. x \<noteq> CHR ''-'') inp = a' \<and> dropWhile (\<lambda>x. x \<noteq> CHR ''-'') inp = CHR ''-'' # b'"
        unfolding that(1) by (rule parts [OF that(2)])
      ultimately show ?thesis by simp
    qed
    have "starting_idx inp = None \<longleftrightarrow> CHR ''-'' \<notin> set b \<and> length a \<noteq> 4 \<and> b \<noteq> [] \<and> isdigit (hd b)"
      unfolding s starting_idx_split [OF a] by auto
    moreover have "(\<exists>a' b'. inp = a' @ CHR ''-'' # b' \<and> CHR ''-'' \<notin> set a' \<and> P a' b') \<longleftrightarrow> P a b" for P
    proof
      assume "\<exists>a' b'. inp = a' @ CHR ''-'' # b' \<and> CHR ''-'' \<notin> set a' \<and> P a' b'"
      then obtain a' b' where "inp = a' @ CHR ''-'' # b'" "CHR ''-'' \<notin> set a'" and P: "P a' b'" by (elim exE conjE)
      then have "a' = a \<and> b' = b" by (intro unique)
      with P show "P a b" by simp
    next
      assume "P a b"
      with s a show "\<exists>a' b'. inp = a' @ CHR ''-'' # b' \<and> CHR ''-'' \<notin> set a' \<and> P a' b'" by (intro exI conjI)
    qed
    ultimately show ?thesis by simp
  qed
  finally show ?thesis .
qed

subsection \<open>Properties\<close>

lemma notations_intros:
  "dd \<in> spelled d \<Longrightarrow> mm \<in> spelled m \<Longrightarrow> blank w \<Longrightarrow> blank w' \<Longrightarrow> dd @ w @ mm @ w' @ to_string y \<in> notations months y m d"
  "dd \<in> spelled d \<Longrightarrow> month_named months m nm \<Longrightarrow> 1969 \<le> y \<Longrightarrow> y \<le> 2068 \<Longrightarrow>
     dd @ ''-'' @ nm @ ''-'' @ two_digits (y mod 100) \<in> notations months y m d"
  unfolding notations_def by blast+

text \<open>In the C locale the full names and the abbreviations name their months.\<close>

lemma c_months_named:
  assumes "i < 12"
  shows "month_named c_months (i + 1) (fst (c_months ! i)) \<and> month_named c_months (i + 1) (snd (c_months ! i))"
proof -
  have "i = 0 \<or> i = 1 \<or> i = 2 \<or> i = 3 \<or> i = 4 \<or> i = 5 \<or> i = 6 \<or> i = 7 \<or> i = 8 \<or> i = 9 \<or> i = 10 \<or> i = 11"
    using assms by arith
  then show ?thesis
    by (elim disjE)
       (simp_all add: month_named_def c_months_def isdigit_def tolower_def isupper_def char_code_def)
qed

text \<open>C14. A date written in any of the six notations of the function is read as that date and given
  back in ISO form, whatever the previous content of the structure: day-month-year with dashes, dots
  or white space between, ISO, month/day/year with slashes, and day-month-year with the name of the
  month in the locale and two digits for the years 1969 to 2068; day and month have one digit or
  two, the year four. In the C locale the month names are the full ones and the abbreviations
  (\<open>c_months_named\<close>). An ISO date of the full length is unchanged.\<close>

theorem dates_normalised:
  assumes "1000 \<le> y" and "y \<le> 9999" and "1 \<le> m" and "m \<le> 12" and "1 \<le> d" and "d \<le> 31"
    and "inp \<in> notations months y m d"
  shows "sanitize_date months tm inp = Date (iso y m d)"
proof -
  have sp: "dd \<in> spelled d \<Longrightarrow> mm \<in> spelled m \<Longrightarrow> spells dd mm y m d" for dd mm
    using assms(1-6) by (simp add: spells_def)
  have two: "two_digits m \<in> spelled m" by (simp add: spelled_def)
  from assms(7) show ?thesis
    unfolding notations_def
  proof (elim UnE CollectE exE conjE, goal_cases)
    case 1
    then show ?case by (simp only: read_dmy [OF sp])
  next
    case 2
    then show ?case by (simp only: read_iso [OF sp])
  next
    case 3
    then show ?case by (simp only: read_excel [OF sp [OF _ two]])
  next
    case 4
    then show ?case by (simp only: read_dots [OF sp])
  next
    case 5
    then show ?case by (simp only: read_blanks [OF sp])
  next
    case 6
    then show ?case by (simp only: read_slashes [OF sp])
  qed
qed

theorem dates_normalised_witness:
  "sanitize_date c_months \<lparr> tm_mday = 0, tm_mon = 0, tm_year = 0 \<rparr> ''31 12 2019'' = Date ''2019-12-31'' \<and>
   sanitize_date c_months \<lparr> tm_mday = 0, tm_mon = 0, tm_year = 0 \<rparr> ''3-Mar-19'' = Date ''2019-03-03''"
proof -
  have named: "month_named c_months 3 ''Mar''" using c_months_named [of 2] by (simp add: c_months_def)
  have "''31'' \<in> spelled 31" "''12'' \<in> spelled 12" "''3'' \<in> spelled 3" "blank '' ''"
    by (simp_all add: spelled_def blank_def) code_simp+
  note s = this
  note blanks = notations_intros(1) [OF s(1,2,4,4), of 2019 c_months]
  have excel: "''3'' @ ''-'' @ ''Mar'' @ ''-'' @ two_digits (2019 mod 100) \<in> notations c_months 2019 3 3"
    by (rule notations_intros(2) [OF s(3) named]) simp_all
  have texts: "''31'' @ '' '' @ ''12'' @ '' '' @ to_string 2019 = ''31 12 2019''" "iso 2019 12 31 = ''2019-12-31''"
    "''3'' @ ''-'' @ ''Mar'' @ ''-'' @ two_digits (2019 mod 100) = ''3-Mar-19''" "iso 2019 3 3 = ''2019-03-03''"
    by code_simp+
  from dates_normalised [OF _ _ _ _ _ _ blanks] dates_normalised [OF _ _ _ _ _ _ excel]
  show ?thesis unfolding texts by simp
qed

text \<open>The call reads through the null pointer plus one exactly on the inputs with a single dash
  that does not follow four characters and is followed by a digit, such as a month and a year: any
  other input gets an ISO date or none.\<close>

theorem single_dash_undefined:
  "sanitize_date months tm inp = Undefined_date \<longleftrightarrow>
     (\<exists>a b. inp = a @ CHR ''-'' # b \<and> CHR ''-'' \<notin> set a \<and> CHR ''-'' \<notin> set b \<and> length a \<noteq> 4 \<and> b \<noteq> [] \<and> isdigit (hd b))"
  by (rule sanitize_undefined)

end
