(* ===== verification/CsvMap.thy ===== *)
theory CsvMap
  imports Rest_Prelude
begin

text \<open>
  \<open>src/shared/csv.cc\<close>, class \<open>CsvMap\<close>: a table of strings whose first row holds the titles,
  with a map from normalised titles to column numbers, and the byte-level helpers that look at an
  uploaded file. The object is a record. An exception carries the message the code formats, as a
  constructor with its arguments; the translation of messages is not modelled. The parser of CSV
  text (\<open>cxxtools::CsvDeserializer\<close>) is a parameter.
\<close>

datatype csv_msg =
    Empty_data_set
  | Duplicate_title string
  | Row_out_of_range nat nat
  | Title_not_found string
  | Column_out_of_range nat string nat nat
  | No_delimiter
  | Bad_json string
  | Parser_error string

datatype csv_exn = Invalid_argument csv_msg | Out_of_range csv_msg

record CsvMap =
  data :: "string list list"
  title_to_index :: "(string \<times> nat) list"
  create_user :: string
  update_user :: string
  update_ts :: string
  create_mode :: "32 word option" \<comment> \<open>the constructors leave it uninitialised\<close>

definition CsvMap_new :: "string list list \<Rightarrow> CsvMap" where
  "CsvMap_new d = \<lparr> data = d, title_to_index = [], create_user = [], update_user = [],
                    update_ts = [], create_mode = None \<rparr>"

subsection \<open>Titles\<close>

definition ci_strip :: "string \<Rightarrow> string" where
  "ci_strip str = map tolower (filter (\<lambda>c. isalnum c \<or> c = CHR ''_'' \<or> c = CHR ''.'') str)"

fun deserialize_loop :: "nat \<Rightarrow> string list \<Rightarrow> (CsvMap, csv_exn, unit) prog" where
  "deserialize_loop i [] = ret ()"
| "deserialize_loop i (title_name # titles) = (\<lambda>cm.
     let title = ci_strip title_name
     in if map_of (title_to_index cm) title \<noteq> None
        then throw (Invalid_argument (Duplicate_title title)) cm
        else deserialize_loop (i + 1) titles
               (cm\<lparr> title_to_index := map_emplace title i (title_to_index cm) \<rparr>))"

definition deserialize :: "(CsvMap, csv_exn, unit) prog" where
  "deserialize = (\<lambda>cm.
     if data cm = [] then throw (Invalid_argument Empty_data_set) cm
     else deserialize_loop 0 (data cm ! 0) cm)"

definition get :: "CsvMap \<Rightarrow> nat \<Rightarrow> string \<Rightarrow> csv_exn + string" where
  "get cm row_i title_name =
     (if row_i \<ge> length (data cm) then Inl (Out_of_range (Row_out_of_range row_i (length (data cm))))
      else
        let title = ci_strip title_name
        in case map_of (title_to_index cm) title of
             None \<Rightarrow> Inl (Out_of_range (Title_not_found title))
           | Some col_i \<Rightarrow>
               if col_i \<ge> length (data cm ! row_i)
               then Inl (Out_of_range (Column_out_of_range (row_i + 1) title_name (col_i + 1)
                                         (length (data cm ! row_i))))
               else Inr (data cm ! row_i ! col_i))"

definition get_strip :: "CsvMap \<Rightarrow> nat \<Rightarrow> string \<Rightarrow> csv_exn + string" where
  "get_strip cm row_i title_name = bindE (get cm row_i title_name) (\<lambda>s. Inr (ci_strip s))"

definition hasTitle :: "CsvMap \<Rightarrow> string \<Rightarrow> bool" where
  "hasTitle cm title_name = (map_of (title_to_index cm) (ci_strip title_name) \<noteq> None)"

definition getTitles :: "CsvMap \<Rightarrow> string list" where
  "getTitles cm = fold set_insert (map fst (title_to_index cm)) []"

definition rows :: "CsvMap \<Rightarrow> nat" where
  "rows cm = length (data cm)"

definition cols :: "CsvMap \<Rightarrow> nat option" where
  \<comment> \<open>\<open>_data[0].size()\<close>, undefined on an empty table\<close>
  "cols cm = (case data cm of [] \<Rightarrow> None | r # _ \<Rightarrow> Some (length r))"

definition getCreateUser :: "CsvMap \<Rightarrow> string" where
  "getCreateUser cm = create_user cm"

definition getUpdateUser :: "CsvMap \<Rightarrow> string" where
  "getUpdateUser cm = update_user cm"

definition getUpdateTs :: "CsvMap \<Rightarrow> string" where
  "getUpdateTs cm = update_ts cm"

definition getCreateMode :: "CsvMap \<Rightarrow> 32 word option" where
  \<comment> \<open>\<open>None\<close>: what the memory held\<close>
  "getCreateMode cm = create_mode cm"

definition setCreateUser :: "string \<Rightarrow> CsvMap \<Rightarrow> CsvMap" where
  "setCreateUser user cm = cm\<lparr> create_user := user \<rparr>"

definition setUpdateUser :: "string \<Rightarrow> CsvMap \<Rightarrow> CsvMap" where
  "setUpdateUser user cm = cm\<lparr> update_user := user \<rparr>"

definition setUpdateTs :: "string \<Rightarrow> CsvMap \<Rightarrow> CsvMap" where
  "setUpdateTs timestamp cm = cm\<lparr> update_ts := timestamp \<rparr>"

definition setCreateMode :: "32 word \<Rightarrow> CsvMap \<Rightarrow> CsvMap" where
  "setCreateMode mode cm = cm\<lparr> create_mode := Some mode \<rparr>"

lemma tolower_dot [simp]: "tolower (CHR ''.'') = CHR ''.''" "tolower (CHR ''_'') = CHR ''_''"
  by code_simp+

lemma ci_strip_idem [simp]: "ci_strip (ci_strip s) = ci_strip s"
  by (induction s) (auto simp: ci_strip_def)

subsection \<open>The index built by \<open>deserialize\<close>\<close>

fun index_of :: "nat \<Rightarrow> string list \<Rightarrow> string \<Rightarrow> nat option" where
  "index_of i [] t = None"
| "index_of i (x # xs) t = (if ci_strip x = t then Some i else index_of (i + 1) xs t)"

definition titles_index :: "CsvMap \<Rightarrow> (string \<Rightarrow> nat option) \<Rightarrow> bool" where
  "titles_index cm f \<longleftrightarrow> smap (title_to_index cm) \<and> map_of (title_to_index cm) = f"

lemma deserialize_loop_ok:
  assumes "smap (title_to_index cm)"
    and "distinct (map ci_strip ts)"
    and "\<forall>t \<in> set ts. map_of (title_to_index cm) (ci_strip t) = None"
  shows "\<exists>m. deserialize_loop i ts cm = (Inr (), cm\<lparr> title_to_index := m \<rparr>) \<and> smap m \<and>
           map_of m = map_of (title_to_index cm) ++ index_of i ts"
  using assms
proof (induction ts arbitrary: i cm)
  case Nil
  then show ?case by (intro exI [of _ "title_to_index cm"]) (auto simp: map_add_def fun_eq_iff)
next
  case (Cons t ts)
  let ?cm = "cm\<lparr> title_to_index := map_emplace (ci_strip t) i (title_to_index cm) \<rparr>"
  have m: "map_of (title_to_index ?cm) = (map_of (title_to_index cm))(ci_strip t \<mapsto> i)"
    using Cons.prems by simp
  have "\<exists>m. deserialize_loop (i + 1) ts ?cm = (Inr (), ?cm\<lparr> title_to_index := m \<rparr>) \<and> smap m \<and>
           map_of m = map_of (title_to_index ?cm) ++ index_of (i + 1) ts"
  proof (rule Cons.IH)
    show "\<forall>t \<in> set ts. map_of (title_to_index ?cm) (ci_strip t) = None"
      unfolding m using Cons.prems by (force simp: image_iff)
  qed (use Cons.prems in simp_all)
  then obtain m' where m': "deserialize_loop (i + 1) ts ?cm = (Inr (), ?cm\<lparr> title_to_index := m' \<rparr>)"
    "smap m'" "map_of m' = map_of (title_to_index ?cm) ++ index_of (i + 1) ts" by blast
  have none: "index_of j xs (ci_strip t) = None" if "ci_strip t \<notin> ci_strip ` set xs" for j xs
    using that by (induction xs arbitrary: j) auto
  have "map_of m' = map_of (title_to_index cm) ++ index_of i (t # ts)"
    using m'(3) m Cons.prems none [of ts "i + 1"]
    by (auto simp: map_add_def fun_eq_iff split: option.splits)
  moreover have "deserialize_loop i (t # ts) cm = (Inr (), cm\<lparr> title_to_index := m' \<rparr>)"
    using m'(1) Cons.prems by (simp add: Let_def)
  ultimately show ?case using m'(2) by blast
qed

lemma deserialize_loop_dup:
  assumes "smap (title_to_index cm)"
    and "\<not> (distinct (map ci_strip ts) \<and> (\<forall>t \<in> set ts. map_of (title_to_index cm) (ci_strip t) = None))"
  shows "\<exists>t cm'. deserialize_loop i ts cm = (Inl (Invalid_argument (Duplicate_title t)), cm') \<and> t \<in> ci_strip ` set ts"
  using assms
proof (induction ts arbitrary: i cm)
  case (Cons t ts)
  show ?case
  proof (cases "map_of (title_to_index cm) (ci_strip t) = None")
    case True
    let ?cm = "cm\<lparr> title_to_index := map_emplace (ci_strip t) i (title_to_index cm) \<rparr>"
    have "\<not> (distinct (map ci_strip ts) \<and> (\<forall>t \<in> set ts. map_of (title_to_index ?cm) (ci_strip t) = None))"
      using Cons.prems True by (auto simp: image_iff split: if_splits)
    with Cons.IH [of ?cm "i + 1"] Cons.prems True show ?thesis by (auto simp: Let_def)
  qed (auto simp: Let_def)
qed simp

text \<open>A table \<open>deserialize\<close> has accepted, and what its index then is.\<close>

definition deserialized :: "string list list \<Rightarrow> CsvMap \<Rightarrow> bool" where
  "deserialized d cm \<longleftrightarrow> deserialize (CsvMap_new d) = (Inr (), cm)"

lemma deserialized_iff:
  "(\<exists>cm. deserialized d cm) \<longleftrightarrow> d \<noteq> [] \<and> distinct (map ci_strip (d ! 0))"
  using deserialize_loop_ok [of "CsvMap_new d" "d ! 0" 0] deserialize_loop_dup [of "CsvMap_new d" "d ! 0" 0]
  by (cases "distinct (map ci_strip (d ! 0))") (auto simp: deserialized_def deserialize_def CsvMap_new_def)

lemma deserialized_index:
  assumes "deserialized d cm"
  shows "data cm = d" and "titles_index cm (index_of 0 (d ! 0))" and "d \<noteq> []"
proof -
  have *: "d \<noteq> [] \<and> distinct (map ci_strip (d ! 0))" using assms deserialized_iff by blast
  with deserialize_loop_ok [of "CsvMap_new d" "d ! 0" 0]
  obtain m where "deserialize (CsvMap_new d) = (Inr (), (CsvMap_new d)\<lparr> title_to_index := m \<rparr>)"
    "smap m" "map_of m = index_of 0 (d ! 0)"
    by (auto simp: deserialize_def CsvMap_new_def)
  with assms show "data cm = d" and "titles_index cm (index_of 0 (d ! 0))"
    by (auto simp: deserialized_def titles_index_def CsvMap_new_def)
  show "d \<noteq> []" using * by simp
qed

lemma index_of_SomeD:
  "index_of i xs t = Some k \<Longrightarrow> i \<le> k \<and> k < i + length xs \<and> ci_strip (xs ! (k - i)) = t"
proof (induction xs arbitrary: i)
  case (Cons x xs)
  show ?case
  proof (cases "ci_strip x = t")
    case False
    with Cons show ?thesis by (force simp: nth_Cons')
  qed (use Cons.prems in auto)
qed simp

lemma index_of_None_iff: "index_of i xs t = None \<longleftrightarrow> t \<notin> ci_strip ` set xs"
  by (induction xs arbitrary: i) auto

lemma index_of_nth:
  "distinct (map ci_strip xs) \<Longrightarrow> k < length xs \<Longrightarrow> index_of i xs (ci_strip (xs ! k)) = Some (i + k)"
proof (induction xs arbitrary: i k)
  case (Cons x xs)
  then show ?case by (cases k) (auto simp: image_iff)
qed simp

text \<open>
  A table addressed by title: what the import and the comparison of devices rely on. A title is
  known up to normalisation, a lookup succeeds only under a known title, and a known title of an
  existing row that is long enough is read.
\<close>

locale title_table =
  fixes has_title :: "'m \<Rightarrow> string \<Rightarrow> bool"
    and lookup :: "'m \<Rightarrow> nat \<Rightarrow> string \<Rightarrow> 'e + string"
    and norm :: "string \<Rightarrow> string"
    and wf :: "'m \<Rightarrow> bool"
  assumes has_norm: "has_title m (norm t) = has_title m t"
    and norm_eq: "norm s = norm t \<Longrightarrow> lookup m r s = Inr v \<Longrightarrow> lookup m r t = Inr v"
    and lookup_has: "lookup m r t = Inr v \<Longrightarrow> has_title m t"
    and header: "wf m \<Longrightarrow> has_title m t \<Longrightarrow> \<exists>v. lookup m 0 t = Inr v \<and> norm v = norm t"
begin

lemma has_cong: "norm s = norm t \<Longrightarrow> has_title m s = has_title m t"
  using has_norm [of m s] has_norm [of m t] by simp

lemma lookup_cong: "norm s = norm t \<Longrightarrow> lookup m r s = Inr v \<longleftrightarrow> lookup m r t = Inr v"
  using norm_eq [of s t m r v] norm_eq [of t s m r v] by auto

lemma unknown_title_fails: "\<not> has_title m t \<Longrightarrow> \<exists>e. lookup m r t = Inl e"
  using lookup_has [of m r t] by (cases "lookup m r t") auto

lemma has_iff_header: "wf m \<Longrightarrow> has_title m t \<longleftrightarrow> (\<exists>v. lookup m 0 t = Inr v)"
  using header [of m t] lookup_has [of m 0 t] by blast

lemma header_injective:
  assumes "wf m" and "lookup m 0 s = Inr v" and "lookup m 0 t = Inr v"
  shows "norm s = norm t"
proof -
  obtain a b where "lookup m 0 s = Inr a" "norm a = norm s" "lookup m 0 t = Inr b" "norm b = norm t"
    using header [OF assms(1) lookup_has [OF assms(2)]] header [OF assms(1) lookup_has [OF assms(3)]]
    by auto
  with assms show ?thesis by simp
qed

end

lemma hasTitle_header:
  assumes "deserialized d cm" and "hasTitle cm t"
  shows "\<exists>v. get cm 0 t = Inr v \<and> ci_strip v = ci_strip t"
proof -
  note ix = deserialized_index [OF assms(1)]
  from assms(2) ix(2) obtain k where k: "index_of 0 (d ! 0) (ci_strip t) = Some k"
    by (auto simp: hasTitle_def titles_index_def)
  with index_of_SomeD [OF k] ix show ?thesis
    by (auto simp: get_def titles_index_def Let_def)
qed

interpretation csv_title: title_table hasTitle get ci_strip "\<lambda>cm. \<exists>d. deserialized d cm"
proof unfold_locales
  show "hasTitle m (ci_strip t) = hasTitle m t" for m t by (simp add: hasTitle_def)
  show "get m r t = Inr v" if "ci_strip s = ci_strip t" "get m r s = Inr v" for m r s t v
    using that by (auto simp: get_def Let_def split: if_splits option.splits)
  show "hasTitle m t" if "get m r t = Inr v" for m r t v
    using that by (auto simp: get_def hasTitle_def Let_def split: if_splits option.splits)
  show "\<exists>v. get m 0 t = Inr v \<and> ci_strip v = ci_strip t"
    if "\<exists>d. deserialized d m" "hasTitle m t" for m t
    using that hasTitle_header by blast
qed

text \<open>C26. \<open>deserialize\<close> accepts a table exactly when it has a title row whose titles are distinct
  after normalisation; then \<open>get\<close> returns the cell of the column whose title normalises like the
  one asked for, fails with \<open>out_of_range\<close> for a row beyond the table, for an unknown title and for
  a row too short to have the column, and never reads outside the table.\<close>

theorem csv_get_spec:
  "((\<exists>cm. deserialized d cm) \<longleftrightarrow> d \<noteq> [] \<and> distinct (map ci_strip (d ! 0))) \<and>
   (deserialized d cm \<longrightarrow>
      get cm r t =
        (if r \<ge> length d then Inl (Out_of_range (Row_out_of_range r (length d)))
         else case index_of 0 (d ! 0) (ci_strip t) of
                None \<Rightarrow> Inl (Out_of_range (Title_not_found (ci_strip t)))
              | Some k \<Rightarrow>
                  if k < length (d ! r) then Inr (d ! r ! k)
                  else Inl (Out_of_range (Column_out_of_range (r + 1) t (k + 1) (length (d ! r)))))) \<and>
   (deserialized d cm \<longrightarrow> k < length (d ! 0) \<longrightarrow> r < length d \<longrightarrow> k < length (d ! r) \<longrightarrow>
      get cm r (d ! 0 ! k) = Inr (d ! r ! k))"
proof -
  have "get cm r t =
        (if r \<ge> length d then Inl (Out_of_range (Row_out_of_range r (length d)))
         else case index_of 0 (d ! 0) (ci_strip t) of
                None \<Rightarrow> Inl (Out_of_range (Title_not_found (ci_strip t)))
              | Some k \<Rightarrow>
                  if k < length (d ! r) then Inr (d ! r ! k)
                  else Inl (Out_of_range (Column_out_of_range (r + 1) t (k + 1) (length (d ! r)))))"
    if "deserialized d cm" for t
    using deserialized_index [OF that] by (auto simp: get_def titles_index_def Let_def split: option.splits)
  moreover have "distinct (map ci_strip (d ! 0))" if "deserialized d cm"
    using that deserialized_iff by blast
  ultimately show ?thesis
    using deserialized_iff index_of_nth [of "d ! 0" k 0] by (auto split: option.splits)
qed

theorem csv_get_spec_witness:
  "\<exists>cm. deserialized [[''Name'', ''Type''], [''DC-1'', ''datacenter'']] cm \<and>
        get cm 1 '' TYPE '' = Inr ''datacenter''"
proof -
  let ?d = "[[''Name'', ''Type''], [''DC-1'', ''datacenter'']]"
  have "?d \<noteq> [] \<and> distinct (map ci_strip (?d ! 0))" by code_simp
  then obtain cm where cm: "deserialized ?d cm" using csv_get_spec [where d = ?d] by metis
  have "ci_strip '' TYPE '' = ''type''" "ci_strip ''Name'' = ''name''" "ci_strip ''Type'' = ''type''"
    by code_simp+
  with cm csv_get_spec [where d = ?d and cm = cm and r = 1 and t = "'' TYPE ''" and k = 0]
  have "get cm 1 '' TYPE '' = Inr ''datacenter''" by simp
  with cm show ?thesis by blast
qed

text \<open>The spelling of a title does not matter: two titles that agree after removing every
  character but letters, digits, dots and underscores and after lowering the case are both known
  or both unknown, and give the same cell.\<close>

theorem csv_title_normalised:
  assumes "ci_strip s = ci_strip t"
  shows "hasTitle cm s = hasTitle cm t \<and> (get cm r s = Inr v \<longleftrightarrow> get cm r t = Inr v)"
  using csv_title.has_cong [OF assms] csv_title.lookup_cong [OF assms] by simp

theorem csv_title_normalised_witness:
  "\<forall>cm. hasTitle cm '' Asset Tag'' = hasTitle cm ''assettag''"
proof -
  have "ci_strip '' Asset Tag'' = ci_strip ''assettag''" by code_simp
  from csv_title_normalised [OF this] show ?thesis by blast
qed

lemma getTitles_sset: "sset (getTitles cm)" and set_getTitles: "set (getTitles cm) = dom (map_of (title_to_index cm))"
  by (simp_all add: getTitles_def fold_set_insert set_fold_set_insert dom_map_of_conv_image_fst)

subsection \<open>The bytes of an uploaded file\<close>

text \<open>
  A seekable \<open>std::istream\<close> opened for reading: its bytes, the read position and the two state
  bits the code depends on. \<open>get\<close> at the end sets both bits; \<open>putback\<close> clears \<open>eofbit\<close> first and
  does nothing on a stream that is not good; \<open>seekg\<close> clears \<open>eofbit\<close> and does nothing on a failed
  stream.
\<close>

record istream =
  bytes :: string
  pos :: nat
  eofbit :: bool
  failbit :: bool

definition istream_of :: "string \<Rightarrow> istream" where
  "istream_of s = \<lparr> bytes = s, pos = 0, eofbit = False, failbit = False \<rparr>"

definition good :: "istream \<Rightarrow> bool" where
  "good i \<longleftrightarrow> \<not> eofbit i \<and> \<not> failbit i"

definition is_get :: "istream \<Rightarrow> char option \<times> istream" where
  \<comment> \<open>\<open>None\<close> is \<open>EOF\<close>\<close>
  "is_get i =
     (if \<not> good i then (None, i\<lparr> failbit := True \<rparr>)
      else if pos i < length (bytes i) then (Some (bytes i ! pos i), i\<lparr> pos := pos i + 1 \<rparr>)
      else (None, i\<lparr> eofbit := True, failbit := True \<rparr>))"

definition is_peek :: "istream \<Rightarrow> char option \<times> istream" where
  "is_peek i =
     (if \<not> good i then (None, i\<lparr> failbit := True \<rparr>)
      else if pos i < length (bytes i) then (Some (bytes i ! pos i), i)
      else (None, i\<lparr> eofbit := True \<rparr>))"

definition is_putback :: "char option \<Rightarrow> istream \<Rightarrow> istream" where
  "is_putback c i0 =
     (let i = i0\<lparr> eofbit := False \<rparr>
      in if \<not> good i then i\<lparr> failbit := True \<rparr>
         else if 0 < pos i \<and> c = Some (bytes i ! (pos i - 1)) then i\<lparr> pos := pos i - 1 \<rparr>
         else i\<lparr> failbit := True \<rparr>)"

definition is_seekg :: "nat \<Rightarrow> istream \<Rightarrow> istream" where
  "is_seekg p i0 =
     (let i = i0\<lparr> eofbit := False \<rparr>
      in if failbit i then i
         else if p \<le> length (bytes i) then i\<lparr> pos := p \<rparr>
         else i\<lparr> failbit := True \<rparr>)"

definition skip_utf8_BOM :: "istream \<Rightarrow> istream" where
  "skip_utf8_BOM i =
     (case is_get i of (c1, i) \<Rightarrow> case is_get i of (c2, i) \<Rightarrow> case is_get i of (c3, i) \<Rightarrow>
        if c1 = Some (CHR 0xEF) \<and> c2 = Some (CHR 0xBB) \<and> c3 = Some (CHR 0xBF) then i
        else is_putback c1 (is_putback c2 (is_putback c3 i)))"

definition is_delimiter :: "char \<Rightarrow> bool" where
  "is_delimiter c \<longleftrightarrow> c = CHR '','' \<or> c = CHR '';'' \<or> c = CHR 0x09"

fun findDelimiter_loop :: "nat \<Rightarrow> nat \<Rightarrow> istream \<Rightarrow> char \<times> istream" where
  \<comment> \<open>the first argument is \<open>max_pos - pos\<close>\<close>
  "findDelimiter_loop 0 p i = (CHR 0x00, is_seekg 0 i)"
| "findDelimiter_loop (Suc n) p i =
     (if \<not> (good i \<and> \<not> eofbit i) then (CHR 0x00, is_seekg 0 i)
      else case is_peek (is_seekg p i) of
             (Some c, i) \<Rightarrow> if is_delimiter c then (c, is_seekg 0 i) else findDelimiter_loop n (p + 1) i
           | (None, i) \<Rightarrow> findDelimiter_loop n (p + 1) i)"

definition findDelimiter :: "istream \<Rightarrow> nat \<Rightarrow> char \<times> istream" where
  "findDelimiter i max_pos = findDelimiter_loop max_pos 0 i"

function hasApostrof_loop :: "nat \<Rightarrow> istream \<Rightarrow> bool \<times> istream" where
  "hasApostrof_loop p i =
     (if \<not> (good i \<and> \<not> eofbit i) then (False, is_seekg 0 i)
      else if p > length (bytes i) then (False, is_seekg 0 (snd (is_peek (is_seekg p i))))
      else case is_peek (is_seekg p i) of
             (Some c, i) \<Rightarrow> if c = CHR 0x27 then (True, is_seekg 0 i) else hasApostrof_loop (p + 1) i
           | (None, i) \<Rightarrow> hasApostrof_loop (p + 1) i)"
  by pat_completeness auto
termination
  by (relation "measure (\<lambda>(p, i). length (bytes i) + 1 - p)")
     (auto simp: is_peek_def is_seekg_def good_def Let_def split: if_splits)

definition hasApostrof :: "istream \<Rightarrow> bool \<times> istream" where
  "hasApostrof i = hasApostrof_loop 0 i"

definition CsvMap_from_istream ::
  "(char \<Rightarrow> istream \<Rightarrow> csv_exn + string list list) \<Rightarrow> istream \<Rightarrow> csv_exn + CsvMap" where
  \<comment> \<open>the first argument is the parser of the library, given the delimiter and the stream\<close>
  "CsvMap_from_istream csv_parse i =
     (case findDelimiter i 60 of (delimiter, i) \<Rightarrow>
        if delimiter = CHR 0x00 then Inl (Invalid_argument No_delimiter)
        else bindE (csv_parse delimiter i) (\<lambda>d. fst (andThen deserialize (\<lambda>_ cm. (Inr cm, cm)) (CsvMap_new d))))"

lemma findDelimiter_loop_spec:
  "p \<le> length s \<Longrightarrow> \<not> eofbit i \<Longrightarrow> \<not> failbit i \<Longrightarrow> bytes i = s \<Longrightarrow>
   findDelimiter_loop n p i =
     (case find is_delimiter (take n (drop p s)) of Some c \<Rightarrow> c | None \<Rightarrow> CHR 0x00, istream_of s)"
proof (induction n arbitrary: p i)
  case 0
  then show ?case by (simp add: is_seekg_def istream_of_def)
next
  case (Suc n)
  show ?case
  proof (cases "p < length s")
    case True
    let ?i = "i\<lparr> pos := p \<rparr>"
    have d: "drop p s = s ! p # drop (p + 1) s" using True by (simp add: Cons_nth_drop_Suc)
    have "is_peek (is_seekg p i) = (Some (s ! p), ?i)"
      using Suc.prems True by (simp add: is_peek_def is_seekg_def good_def)
    then show ?thesis
      using Suc.prems Suc.IH [of "p + 1" ?i] True
      by (simp add: d good_def is_seekg_def istream_of_def)
  next
    case False
    then have "is_peek (is_seekg p i) = (None, i\<lparr> pos := p, eofbit := True \<rparr>)"
      using Suc.prems by (simp add: is_peek_def is_seekg_def good_def)
    moreover have "findDelimiter_loop n (p + 1) (i\<lparr> pos := p, eofbit := True \<rparr>) = (CHR 0x00, istream_of s)"
      using Suc.prems by (cases n) (simp_all add: is_seekg_def istream_of_def good_def)
    ultimately show ?thesis using Suc.prems False by (simp add: good_def)
  qed
qed

text \<open>\<open>findDelimiter\<close> on a good stream returns the first comma, semicolon or tabulator among the
  first \<open>max_pos\<close> bytes of the whole file, or the null character when there is none, and leaves the
  stream at its beginning, wherever it was before: a byte order mark \<open>skip_utf8_BOM\<close> has skipped is
  read again.\<close>

theorem findDelimiter_spec:
  assumes "good i"
  shows "findDelimiter i max_pos =
     (case find is_delimiter (take max_pos (bytes i)) of Some c \<Rightarrow> c | None \<Rightarrow> CHR 0x00,
      istream_of (bytes i))"
  using assms findDelimiter_loop_spec [of 0 "bytes i" i max_pos] by (simp add: findDelimiter_def good_def)

theorem findDelimiter_spec_witness:
  "findDelimiter (skip_utf8_BOM (istream_of (CHR 0xEF # CHR 0xBB # CHR 0xBF # ''name;type''))) 60 =
     (CHR '';'', istream_of (CHR 0xEF # CHR 0xBB # CHR 0xBF # ''name;type''))"
  using findDelimiter_spec [of "skip_utf8_BOM (istream_of (CHR 0xEF # CHR 0xBB # CHR 0xBF # ''name;type''))" 60]
  by (simp add: skip_utf8_BOM_def is_get_def istream_of_def good_def is_delimiter_def)

end
