(* ===== verification/AssetDb.thy ===== *)
theory AssetDb
  imports Utils
begin

text \<open>
  What the asset operations use of the data base library (fty-common-db) and of the tntdb
  transactions: replies, links, one record of parameters with a field per library function called,
  and the scope of a \<open>tntdb::Transaction\<close>.

  The data base behind a connection is a value of an arbitrary type \<open>'d\<close>; a library function reads
  and writes it, returns a result or throws (\<open>('d, string, 'a) prog\<close>); one that only selects is a
  function of the data base. An extended-attribute hash
  is an arbitrary type \<open>'h\<close>.
\<close>

datatype msg =
    Raw string
  | Translate string "string list" \<comment> \<open>\<open>TRANSLATE_ME(format, arguments)\<close>\<close>
  | Jsonify msg

record db_reply =
  status :: int
  errtype :: int
  errsubtype :: int
  rowid :: nat
  affected_rows :: nat
  reply_msg :: msg

definition db_reply_new :: db_reply where
  "db_reply_new = \<lparr> status = 1, errtype = 0, errsubtype = 0, rowid = 0, affected_rows = 0, reply_msg = Raw '''' \<rparr>"

record link =
  src :: nat
  dest :: nat
  src_out :: "string option" \<comment> \<open>\<open>None\<close> for a null pointer\<close>
  dest_in :: "string option"
  link_type :: nat

record ('d, 'h) asset_db =
  DB_ERR :: int
  DB_ERROR_BADINPUT :: int
  DB_ERROR_DELETEFAIL :: int
  DB_ERROR_NOTFOUND :: int
  DB_ERROR_INTERNAL :: int
  DATACENTER :: nat
  RACK :: nat
  DEVICE :: nat
  extname_to_asset_id :: "string \<Rightarrow> 'd \<Rightarrow> string + int"
  typeid_to_type :: "nat \<Rightarrow> string"
  subtypeid_to_subtype :: "nat \<Rightarrow> string"
  update_asset_element :: "nat \<Rightarrow> string \<Rightarrow> nat \<Rightarrow> string \<Rightarrow> nat \<Rightarrow> string \<Rightarrow> ('d, string, int \<times> nat) prog"
  delete_asset_ext_attributes_with_ro :: "nat \<Rightarrow> bool \<Rightarrow> ('d, string, db_reply) prog"
  insert_into_asset_ext_attributes :: "nat \<Rightarrow> 'h \<Rightarrow> bool \<Rightarrow> msg \<Rightarrow> ('d, string, db_reply \<times> msg) prog"
  delete_asset_element_from_asset_groups :: "nat \<Rightarrow> ('d, string, db_reply) prog"
  insert_element_into_groups :: "nat list \<Rightarrow> nat \<Rightarrow> ('d, string, db_reply) prog"
  delete_asset_links_to :: "nat \<Rightarrow> ('d, string, db_reply) prog"
  insert_into_asset_links :: "link list \<Rightarrow> ('d, string, db_reply) prog"
  insert_into_asset_element ::
    "string \<Rightarrow> nat \<Rightarrow> nat \<Rightarrow> string \<Rightarrow> nat \<Rightarrow> nat \<Rightarrow> string \<Rightarrow> bool \<Rightarrow> ('d, string, db_reply) prog"
  insert_into_monitor_device :: "nat \<Rightarrow> string \<Rightarrow> ('d, string, db_reply) prog"
  insert_into_monitor_asset_relation :: "nat \<Rightarrow> nat \<Rightarrow> ('d, string, db_reply) prog"
  select_monitor_device_type_id :: "string \<Rightarrow> 'd \<Rightarrow> string + db_reply \<times> nat"
  count_other_datacenters :: "nat \<Rightarrow> 'd \<Rightarrow> string + nat" \<comment> \<open>the query of \<open>delete_dc_room_row_rack\<close>\<close>
  convert_asset_to_monitor :: "nat \<Rightarrow> 'd \<Rightarrow> string + int \<times> nat"
  delete_monitor_asset_relation_by_a :: "nat \<Rightarrow> ('d, string, db_reply) prog"
  delete_asset_element :: "nat \<Rightarrow> ('d, string, db_reply) prog"
  delete_asset_group_links :: "nat \<Rightarrow> ('d, string, db_reply) prog"
  deactivate :: "string \<Rightarrow> ('d, string, unit) prog" \<comment> \<open>a request to the licensing agent\<close>

definition u32 :: "nat \<Rightarrow> nat" where
  "u32 n = n mod 2 ^ 32" \<comment> \<open>\<open>uint32_t(n)\<close>\<close>

definition u16 :: "nat \<Rightarrow> nat" where
  "u16 n = n mod 2 ^ 16"

subsection \<open>Transactions\<close>

text \<open>
  A \<open>tntdb::Transaction\<close> begins when it is constructed and remembers whether it is active;
  \<open>rollback\<close> and \<open>commit\<close> end it, and an active one is rolled back by its destructor, so at every
  exit of its scope, by a \<open>return\<close> or by an exception. Statements after its end are executed at
  once.
\<close>

record 'd tx =
  cur :: 'd
  backup :: 'd
  active :: bool

definition rollback :: "('d tx, 'e, unit) prog" where
  "rollback = (\<lambda>t. (Inr (), if active t then t\<lparr> cur := backup t, active := False \<rparr> else t))"

definition commit :: "('d tx, 'e, unit) prog" where
  "commit = (\<lambda>t. (Inr (), t\<lparr> active := False \<rparr>))"

definition on_conn :: "('d, 'e, 'a) prog \<Rightarrow> ('d tx, 'e, 'a) prog" where
  \<comment> \<open>a statement on the connection the transaction is open on\<close>
  "on_conn m = (\<lambda>t. case m (cur t) of (r, d) \<Rightarrow> (r, t\<lparr> cur := d \<rparr>))"

definition query :: "('d \<Rightarrow> 'e + 'a) \<Rightarrow> ('d, 'e, 'a) prog" where
  "query q = (\<lambda>d. (q d, d))"

definition with_transaction :: "('d tx, 'e, 'a) prog \<Rightarrow> ('d, 'e, 'a) prog" where
  "with_transaction body = (\<lambda>d.
     case body \<lparr> cur = d, backup = d, active = True \<rparr> of
       (r, t) \<Rightarrow> (r, if active t then backup t else cur t))"

definition fail_with :: "'a \<Rightarrow> ('d tx, 'e, 'a) prog" where
  \<comment> \<open>\<open>trans.rollback(); return r\<close>\<close>
  "fail_with r = andThen rollback (\<lambda>_. ret r)"

definition commit_with :: "'a \<Rightarrow> ('d tx, 'e, 'a) prog" where
  "commit_with r = andThen commit (\<lambda>_. ret r)"

text \<open>
  Atomicity of a transaction body, by its exits: on every result that is not \<open>ok\<close>, and on an
  exception, the transaction is either still active or has been rolled back.
\<close>

definition restores :: "('a \<Rightarrow> bool) \<Rightarrow> ('d tx, 'e, 'a) prog \<Rightarrow> bool" where
  "restores ok body \<longleftrightarrow>
     (\<forall>t r u. active t \<longrightarrow> body t = (r, u) \<longrightarrow> (case r of Inr x \<Rightarrow> \<not> ok x | Inl _ \<Rightarrow> True) \<longrightarrow>
        backup u = backup t \<and> (active u \<or> cur u = backup t))"

definition keeps_open :: "('d tx, 'e, 'a) prog \<Rightarrow> bool" where
  "keeps_open m \<longleftrightarrow> (\<forall>t r u. active t \<longrightarrow> m t = (r, u) \<longrightarrow> active u \<and> backup u = backup t)"

named_theorems tx_intros \<open>transaction bodies restore the data base on failure\<close>

lemma keeps_open_on_conn [tx_intros]: "keeps_open (on_conn m)"
  by (auto simp: keeps_open_def on_conn_def split: prod.splits)

lemma restores_ret [tx_intros]: "restores ok (ret r)"
  by (simp add: restores_def)

lemma restores_throw [tx_intros]: "restores ok (throw e)"
  by (simp add: restores_def)

lemma restores_fail [tx_intros]: "restores ok (fail_with r)"
  by (auto simp: restores_def fail_with_def andThen_def rollback_def)

lemma restores_commit [tx_intros]: "ok r \<Longrightarrow> restores ok (commit_with r)"
  by (auto simp: restores_def commit_with_def andThen_def commit_def)

lemma restores_andThen [tx_intros]:
  assumes "keeps_open m" and "\<And>x. restores ok (f x)"
  shows "restores ok (andThen m f)"
  unfolding restores_def
proof (intro allI impI)
  fix t r u
  assume t: "active t" and run: "andThen m f t = (r, u)"
    and bad: "case r of Inr x \<Rightarrow> \<not> ok x | Inl _ \<Rightarrow> True"
  obtain q v where m: "m t = (q, v)" by force
  have v: "active v" "backup v = backup t"
    using assms(1) [unfolded keeps_open_def, rule_format, OF t m] by simp_all
  show "backup u = backup t \<and> (active u \<or> cur u = backup t)"
  proof (cases q)
    case (Inl e)
    with m run v show ?thesis by (simp add: andThen_def)
  next
    case (Inr x)
    with m run have "f x v = (r, u)" by (simp add: andThen_def)
    from assms(2) [of x, unfolded restores_def, rule_format, OF v(1) this bad] v(2) show ?thesis by simp
  qed
qed

lemma restores_if [tx_intros]:
  "(b \<Longrightarrow> restores ok p) \<Longrightarrow> (\<not> b \<Longrightarrow> restores ok q) \<Longrightarrow> restores ok (if b then p else q)"
  by simp

lemma restores_split [tx_intros]:
  "(\<And>x y. p = (x, y) \<Longrightarrow> restores ok (f x y)) \<Longrightarrow> restores ok (case p of (x, y) \<Rightarrow> f x y)"
  by (cases p) simp

lemma with_transaction_atomic:
  assumes "restores ok body" and "with_transaction body d = (r, d')"
    and "case r of Inr x \<Rightarrow> \<not> ok x | Inl _ \<Rightarrow> True"
  shows "d' = d"
proof -
  let ?t = "\<lparr> cur = d, backup = d, active = True \<rparr>"
  obtain q u where b: "body ?t = (q, u)" by force
  with assms(2) have r: "q = r" "d' = (if active u then backup u else cur u)"
    by (simp_all add: with_transaction_def)
  have "backup u = d \<and> (active u \<or> cur u = d)"
    using assms(1) [unfolded restores_def, rule_format, of ?t q u] b assms(3) r(1) by simp
  with r(2) show ?thesis by auto
qed

text \<open>
  An operation that changes nothing when it fails: what the callers that process many rows or many
  assets rely on.
\<close>

locale atomic_operations =
  fixes run :: "'op \<Rightarrow> 'd \<Rightarrow> 'r \<times> 'd"
    and ok :: "'r \<Rightarrow> bool"
  assumes fail_unchanged: "run x d = (r, d') \<Longrightarrow> \<not> ok r \<Longrightarrow> d' = d"
begin

definition batch :: "'op list \<Rightarrow> 'd \<Rightarrow> 'd" where
  "batch ops d = fold (\<lambda>x d. snd (run x d)) ops d"

fun succeeded :: "'op list \<Rightarrow> 'd \<Rightarrow> 'op list" where
  "succeeded [] d = []"
| "succeeded (x # ops) d =
     (if ok (fst (run x d)) then x # succeeded ops (snd (run x d)) else succeeded ops (snd (run x d)))"

lemma failed_step: "\<not> ok (fst (run x d)) \<Longrightarrow> snd (run x d) = d"
  by (metis fail_unchanged prod.collapse)

text \<open>The failed operations of a batch might as well not have been attempted.\<close>

lemma batch_succeeded: "batch ops d = batch (succeeded ops d) d"
  unfolding batch_def
  by (induction ops arbitrary: d) (simp_all add: failed_step)

lemma batch_all_failed: "succeeded ops d = [] \<Longrightarrow> batch ops d = d"
  using batch_succeeded [of ops d] by (simp add: batch_def)

end

end
