(* ===== verification/ImportText.thy ===== *)
theory ImportText
  imports DateText CsvMap AssetDb
begin

text \<open>
  \<open>src/db/inout/importcsv.cc\<close>, the checks on single cells of an imported table: priorities, sizes and
  positions in a rack, dates, numbers, the mandatory columns, and the exceptions an import throws.
\<close>

subsection \<open>Exceptions\<close>

datatype import_exn =
    Bios string "msg list" \<comment> \<open>\<open>bios_throw(key, arguments)\<close>\<close>
  | BiosError nat msg \<comment> \<open>\<open>throw BiosError(rowid, msg)\<close>\<close>
  | Invalid_arg msg \<comment> \<open>\<open>throw std::invalid_argument(errmsg)\<close>\<close>
  | Csv csv_exn \<comment> \<open>thrown by the table\<close>
  | Std msg \<comment> \<open>any other exception, of the data base or the bus\<close>
  | Undefined_behaviour

definition quoted :: "string \<Rightarrow> string" where
  "quoted value = [CHR 0x27] @ value @ [CHR 0x27]"

subsection \<open>Priority\<close>

definition char_at :: "string \<Rightarrow> nat \<Rightarrow> char option" where
  \<comment> \<open>\<open>s[i]\<close> of a \<open>std::string\<close>: the null character at the end, undefined past it\<close>
  "char_at s i = (if i < length s then Some (s ! i) else if i = length s then Some (CHR 0x00) else None)"

fun priority_loop :: "string \<Rightarrow> nat list \<Rightarrow> nat option" where
  "priority_loop s [] = Some 5"
| "priority_loop s (i # is) =
     (case char_at s i of
        None \<Rightarrow> None
      | Some c \<Rightarrow>
          if 49 \<le> char_code c \<and> char_code c \<le> 53 then Some (char_code c - 48) else priority_loop s is)"

definition get_priority :: "string \<Rightarrow> nat option" where
  \<comment> \<open>\<open>None\<close> is a read past the end of the string\<close>
  "get_priority s = (if length s > 2 then Some 5 else priority_loop s [0, 1])"

subsection \<open>Sizes and positions in a rack\<close>

definition u_size_regex :: "string \<Rightarrow> bool" where
  \<comment> \<open>\<open>^[0-9]{1,2}[uU]?$\<close>, matched against the whole string\<close>
  "u_size_regex s =
     (let ds = takeWhile isdigit s; r = dropWhile isdigit s
      in (length ds = 1 \<or> length ds = 2) \<and> (r = '''' \<or> r = ''u'' \<or> r = ''U''))"

definition check_u_size :: "string \<Rightarrow> bool \<times> string" where
  \<comment> \<open>the result and the new content of the argument\<close>
  "check_u_size s =
     (if \<not> u_size_regex s then (False, s)
      else
        let s = (if \<not> isdigit (last s) then butlast s else s);
            s = (if length s = 2 \<and> s ! 0 = CHR ''0'' then tl s else s)
        in (True, s))"

definition match_ext_attr :: "string \<Rightarrow> string \<Rightarrow> bool \<times> string" where
  "match_ext_attr val key = (if key = ''u_size'' then check_u_size val else (val \<noteq> '''', val))"

definition stoul :: "string \<Rightarrow> (int \<times> nat) option" where
  \<comment> \<open>\<open>std::stoul\<close>: the number and how many characters it took, \<open>None\<close> when it throws\<close>
  "stoul s = (case strtoull s of (v, rest, erange) \<Rightarrow>
     if rest = s \<or> erange then None else Some (v, length s - length rest))"

definition check_u_number :: "string \<Rightarrow> string \<Rightarrow> import_exn + int" where
  \<comment> \<open>the test of \<open>location_u_pos\<close> and of \<open>u_size\<close> in \<open>process_row\<close>\<close>
  "check_u_number key val =
     (let bad = Bios ''request-param-bad''
                  [Raw key, Raw (quoted val), Translate ''value must be an unsigned integer'' []]
      in case stoul val of
           None \<Rightarrow> Inl bad
         | Some (ul, p) \<Rightarrow>
             if p \<noteq> length val then Inl bad
             else if ul = 0 \<or> ul > 52
             then Inl (Bios ''request-param-bad''
                    [Raw key, Raw (quoted val), Translate ''value must be between <1, 52>.'' []])
             else Inr ul)"

subsection \<open>Dates and numbers\<close>

definition is_date :: "string \<Rightarrow> bool" where
  \<comment> \<open>\<open>regex_match\<close> with \<open>(^warranty_end$|_date$)\<close>: the whole key has to match\<close>
  "is_date key \<longleftrightarrow> key = ''warranty_end'' \<or> key = ''_date''"

definition sanitize_value_double ::
  "(string \<Rightarrow> (nat \<times> bool) option) \<Rightarrow> string \<Rightarrow> string \<Rightarrow> import_exn + bool" where
  \<comment> \<open>\<open>std::stod\<close>, which depends on the locale, is a parameter: the characters it took and whether the
     number is negative, \<open>None\<close> when it throws; of the number only the sign is used\<close>
  "sanitize_value_double stod key val =
     (let bad = Bios ''request-param-bad'' [Raw key, Raw (quoted val), Raw ''value should be a number'']
      in case stod val of
           None \<Rightarrow> Inl bad
         | Some (p, negative) \<Rightarrow> if p \<noteq> length val then Inl bad else Inr negative)"

definition findStringIC :: "string \<Rightarrow> string \<Rightarrow> bool" where
  \<comment> \<open>\<open>std::search\<close> does not return the end of the haystack\<close>
  "findStringIC strHaystack strNeedle =
     list_ex (\<lambda>i. map toupper (take (length strNeedle) (drop i strHaystack)) = map toupper strNeedle)
       [0..<length strHaystack]"

subsection \<open>Columns\<close>

definition join_keys_map :: "(string \<times> 'v) list \<Rightarrow> string \<Rightarrow> string" where
  \<comment> \<open>\<open>src/shared/utilspp.h\<close>, on a map that is not empty\<close>
  "join_keys_map t separator = join_with separator (map fst t)"

definition MANDATORY :: "string list" where
  "MANDATORY = [''name'', ''type'', ''sub_type'', ''location'', ''status'', ''priority'']"

definition mandatory_missing :: "CsvMap \<Rightarrow> string" where
  "mandatory_missing cm =
     (let all_fields = getTitles cm
      in case List.find (\<lambda>s. s \<notin> set all_fields) MANDATORY of Some s \<Rightarrow> s | None \<Rightarrow> '''')"

subsection \<open>Lemmas\<close>

lemma get_priority_range: "get_priority s = Some p \<Longrightarrow> 1 \<le> p \<and> p \<le> 5"
  by (auto simp: get_priority_def split: if_splits option.splits)

lemma get_priority_undefined: "get_priority s = None \<longleftrightarrow> s = ''''"
proof (cases s)
  case Nil
  then show ?thesis by (simp add: get_priority_def char_at_def char_code_def)
next
  case (Cons c cs)
  then show ?thesis
    by (auto simp: get_priority_def char_at_def split: option.splits if_splits)
qed

lemma stoul_digits:
  assumes "\<forall>c \<in> set ds. isdigit c" and "ds \<noteq> []" and "int (digits_val ds) \<le> UINT64_MAX"
  shows "stoul ds = Some (int (digits_val ds), length ds)"
  using assms by (simp add: stoul_def strtoull_def scan_int_digits)

lemma isdigit_digit_char_val: "isdigit c \<Longrightarrow> c = digit_char (digit_val c) \<and> digit_val c < 10"
  by (auto simp: isdigit_def digit_char_def digit_val_def char_code_def)

lemma to_string_small:
  "a < 10 \<Longrightarrow> to_string a = [digit_char a]"
  "0 < a \<Longrightarrow> a < 10 \<Longrightarrow> b < 10 \<Longrightarrow> to_string (a * 10 + b) = [digit_char a, digit_char b]"
proof -
  show one: "to_string a = [digit_char a]" if "a < 10" for a using that by (subst to_string.simps) simp
  show "to_string (a * 10 + b) = [digit_char a, digit_char b]" if "0 < a" "a < 10" "b < 10"
    using that by (subst to_string.simps) (simp add: one)
qed

lemma check_u_number_digits:
  assumes "check_u_number key v = Inr ul" and "u_size_regex v"
  shows "(\<forall>c \<in> set v. isdigit c) \<and> v \<noteq> [] \<and> length v \<le> 2 \<and> ul = int (digits_val v) \<and> 1 \<le> ul \<and> ul \<le> 52"
proof -
  let ?ds = "takeWhile isdigit v" and ?r = "dropWhile isdigit v"
  have split: "v = ?ds @ ?r" by simp
  have ds: "?ds \<noteq> []" "length ?ds \<le> 2" using assms(2) by (auto simp: u_size_regex_def Let_def)
  then obtain c cs where v: "v = c # cs" and c: "isdigit c" by (cases v) (auto split: if_splits)
  have "c \<noteq> CHR ''-''" "c \<noteq> CHR ''+''" using c by (auto simp: isdigit_def char_code_def)
  then have scan: "scan_int v = (False, ?ds, ?r)"
    using v c by (simp add: scan_int_def scan_sign_def isdigit_not_isspace)
  from assms(1) obtain p where s: "stoul v = Some (ul, p)" and p: "p = length v" and ul: "ul \<noteq> 0" "ul \<le> 52"
    by (auto simp: check_u_number_def Let_def split: option.splits if_splits)
  have "length ?ds + length ?r = length v" by (metis split length_append)
  moreover have "length ?ds > 0" using ds(1) by simp
  moreover from s scan ds(1) have "p = length v - length ?r" and val: "ul = int (digits_val ?ds)"
    by (auto simp: stoul_def strtoull_def Let_def split: if_splits)
  ultimately have "length ?r = 0" using p by linarith
  then have r: "?r = []" by (simp only: length_0_conv)
  with split have all: "?ds = v" by simp
  then have "\<forall>c \<in> set v. isdigit c" by (metis set_takeWhileD)
  with val [unfolded all] ul ds [unfolded all] show ?thesis by auto
qed

lemma u_size_text:
  assumes "check_u_number key v = Inr ul" and "check_u_size v = (True, v')"
  shows "v' = to_string (nat ul) \<and> 1 \<le> ul \<and> ul \<le> 52"
proof -
  have regex: "u_size_regex v" using assms(2) by (auto simp: check_u_size_def split: if_splits)
  note d = check_u_number_digits [OF assms(1) regex]
  have l: "isdigit (last v)" using d by (meson last_in_set)
  have v': "v' = (if length v = 2 \<and> v ! 0 = CHR ''0'' then tl v else v)"
    using assms(2) regex l by (auto simp: check_u_size_def Let_def split: if_splits)
  have zero: "digit_val (CHR ''0'') = 0" by (simp add: digit_val_def char_code_def)
  consider a where "v = [a]" | a b where "v = [a, b]"
    using d by (cases v; cases "tl v"; cases "tl (tl v)") auto
  then have "v' = to_string (nat ul)"
  proof cases
    case 1
    then have a: "a = digit_char (digit_val a)" "digit_val a < 10" using d isdigit_digit_char_val by auto
    then show ?thesis using 1 d v' by (simp add: to_string_small digits_val_def)
  next
    case 2
    then have a: "a = digit_char (digit_val a)" "digit_val a < 10" and b: "b = digit_char (digit_val b)" "digit_val b < 10"
      using d isdigit_digit_char_val by auto
    have ul: "nat ul = digit_val a * 10 + digit_val b" using 2 d by (simp add: digits_val_def)
    show ?thesis
    proof (cases "a = CHR ''0''")
      case True
      with 2 v' have "v' = [b]" by simp
      with True ul zero b show ?thesis by (simp add: to_string_small)
    next
      case False
      have "digit_val a \<noteq> 0"
      proof
        assume "digit_val a = 0"
        with a(1) have "a = digit_char 0" by simp
        moreover have "digit_char 0 = CHR ''0''" by code_simp
        ultimately show False using False by simp
      qed
      with False 2 v' ul a b show ?thesis by (metis nth_Cons_0 neq0_conv to_string_small(2))
    qed
  qed
  with d show ?thesis by simp
qed

end
