(* ===== verification/ImportRc0.thy ===== *)
theory ImportRc0
  imports ImportText
begin

text \<open>
  \<open>src/db/inout/importcsv.cc\<close>: \<open>check_column_match\<close>, and \<open>promote_rc0\<close>, which finds the row of the
  table that describes the rack controller the program runs on. The two requests it sends over the
  bus are a parameter: whether they could be sent and what was received. An \<open>unordered_set\<close> is a
  list; the order of its elements does not matter to the result.
\<close>

definition cell :: "CsvMap \<Rightarrow> nat \<Rightarrow> string \<Rightarrow> import_exn + string" where
  "cell cm row_i title = (case get cm row_i title of Inl e \<Rightarrow> Inl (Csv e) | Inr s \<Rightarrow> Inr s)"

definition cell_strip :: "CsvMap \<Rightarrow> nat \<Rightarrow> string \<Rightarrow> import_exn + string" where
  "cell_strip cm row_i title = (case get_strip cm row_i title of Inl e \<Rightarrow> Inl (Csv e) | Inr s \<Rightarrow> Inr s)"

fun check_rows ::
  "CsvMap \<Rightarrow> string \<Rightarrow> string list \<Rightarrow> bool \<Rightarrow> nat list \<Rightarrow> bool \<Rightarrow> import_exn + (nat option \<times> bool)" where
  \<comment> \<open>the loop over the rows: the row found, and whether a cell was not empty\<close>
  "check_rows cm column to_check match_mode [] check = Inr (None, check)"
| "check_rows cm column to_check match_mode (row_i # rs) check =
     bindE (cell cm row_i column) (\<lambda>verify.
       if (if match_mode then verify \<in> set to_check else list_ex (findStringIC verify) to_check)
       then Inr (Some row_i, check)
       else check_rows cm column to_check match_mode rs (check \<or> verify \<noteq> ''''))"

definition check_column_match ::
  "string \<Rightarrow> string list \<Rightarrow> string list \<Rightarrow> nat list \<Rightarrow> CsvMap \<Rightarrow> bool \<Rightarrow> bool \<Rightarrow> import_exn + int" where
  "check_column_match column to_check unused_columns rcs_in_csv cm match_mode fail_on_not_found =
     (if to_check = [] then Inr 0
      else if column \<in> set unused_columns
      then bindE (check_rows cm column to_check match_mode rcs_in_csv False) (\<lambda>(found, check).
             case found of
               Some row_i \<Rightarrow> Inr (int row_i)
             | None \<Rightarrow> Inr (if check \<and> fail_on_not_found then - 1 else 0))
      else Inr 0)"

definition check_column_match1 ::
  "string \<Rightarrow> string option \<Rightarrow> string list \<Rightarrow> nat list \<Rightarrow> CsvMap \<Rightarrow> bool \<Rightarrow> bool \<Rightarrow> import_exn + int" where
  \<comment> \<open>the overloading for one value, a pointer that may be null\<close>
  "check_column_match1 column to_check =
     check_column_match column (case to_check of None \<Rightarrow> [] | Some s \<Rightarrow> [s])"

datatype info_answer =
    Info_not_sent
  | Info_none
  | Info_error
  | Info_without_frame
  | Info "(string \<times> string) list"

datatype asset_answer =
    Asset_not_sent
  | Asset_none
  | Asset_not_proto
  | Asset_proto "(string \<times> string) list option" \<comment> \<open>the extended attributes, \<open>None\<close> when not decoded\<close>

fun rcs_loop :: "CsvMap \<Rightarrow> string list \<Rightarrow> nat list \<Rightarrow> nat list \<Rightarrow> nat option \<Rightarrow> import_exn + nat list \<times> nat option" where
  \<comment> \<open>the rows of rack controllers, and the index among them of the last one with the id of RC-0\<close>
  "rcs_loop cm titles [] rcs rc0_row = Inr (rcs, rc0_row)"
| "rcs_loop cm titles (row_i # rs) rcs rc0_row =
     bindE (if ''type'' \<in> set titles then cell cm row_i ''type'' else Inr ''notype'') (\<lambda>type.
     bindE (if ''sub_type'' \<in> set titles then cell cm row_i ''sub_type'' else Inr ''nosubtype'') (\<lambda>subtype.
       if starts_with type ''device'' \<and> starts_with subtype ''rackcontroller''
       then let rcs = rcs @ [row_i] in
            if ''id'' \<in> set titles
            then bindE (cell cm row_i ''id'') (\<lambda>i.
                   rcs_loop cm titles rs rcs (if i = ''rackcontroller-0'' then Some (length rcs - 1) else rc0_row))
            else rcs_loop cm titles rs rcs rc0_row
       else rcs_loop cm titles rs rcs rc0_row))"

fun first_found :: "(import_exn + int) list \<Rightarrow> import_exn + int \<Rightarrow> import_exn + int" where
  \<comment> \<open>the checks in turn, each followed by \<open>if (0 != retval) break;\<close>, and what comes after them\<close>
  "first_found [] last_choice = last_choice"
| "first_found (c # cs) last_choice = bindE c (\<lambda>r. if r \<noteq> 0 then Inr r else first_found cs last_choice)"

definition size_t :: "int \<Rightarrow> nat" where
  "size_t i = nat (i mod 2 ^ 64)"

definition non_empty :: "string option \<Rightarrow> string option" where
  "non_empty s = (case s of None \<Rightarrow> None | Some v \<Rightarrow> if v = '''' then None else Some v)"

definition own_ip :: "string option \<Rightarrow> bool" where
  "own_ip s = (case s of None \<Rightarrow> False | Some v \<Rightarrow> v \<noteq> '''' \<and> v \<noteq> ''127.0.0.1'' \<and> v \<noteq> ''::1'')"

text \<open>
  The block that chooses the row, \<open>do { ... } while (0)\<close>: the comparisons it makes in turn, each with
  the \<open>int\<close> of \<open>check_column_match\<close>, then the whole block.
\<close>

definition rc0_checks ::
  "CsvMap \<Rightarrow> string list \<Rightarrow> nat list \<Rightarrow> (string \<times> string) list \<Rightarrow> (string \<times> string) list \<Rightarrow> (import_exn + int) list" where
  "rc0_checks cm titles rcs ext info =
     (let look = map_of ext; own = map_of info;
          match = (\<lambda>col val. check_column_match1 col val titles rcs cm True True);
          part = (\<lambda>col val. check_column_match1 col val titles rcs cm False False);
          sn = (case non_empty (look ''serial_no'') of Some h \<Rightarrow> Some h | None \<Rightarrow> own ''serial'');
          hname = (case non_empty (look ''hostname.1'') of Some h \<Rightarrow> Some h | None \<Rightarrow> own ''hostname'')
      in [match ''uuid'' (look ''uuid''),
          match ''serial_no'' sn,
          match ''hostname.1'' hname,
          match ''fqdn.1'' (look ''fqdn.1''),
          part ''name'' hname,
          part ''name'' (look ''fqdn.1''),
          (if own_ip (look ''ip.1'') then match ''ip.1'' (look ''ip.1'')
           else if own_ip (own ''ip.1'') \<or> own_ip (own ''ip.2'') \<or> own_ip (own ''ip.3'')
           then match ''ip.1'' (own ''ip.1'') \<comment> \<open>the set of the addresses is not used\<close>
           else Inr 0)])"

definition choose_rc0 ::
  "CsvMap \<Rightarrow> string list \<Rightarrow> nat list \<Rightarrow> nat option \<Rightarrow> bool \<Rightarrow> (string \<times> string) list \<Rightarrow> (string \<times> string) list \<Rightarrow>
     import_exn + int" where
  "choose_rc0 cm titles rcs rc0_row rc_in_db ext info =
     (if \<not> rc_in_db \<and> length rcs = 1 then Inr (int (rcs ! 0))
      else if \<not> rc_in_db \<and> rc0_row \<noteq> None then Inr (int (rcs ! the rc0_row))
      else if rc_in_db \<and> length rcs = 1 \<and> ''id'' \<notin> set titles then Inr (int (rcs ! 0))
      else
        first_found (rc0_checks cm titles rcs ext info)
          (if \<not> rc_in_db \<or> ''id'' \<notin> set titles
           then Inr (int (case rc0_row of Some k \<Rightarrow> rcs ! k | None \<Rightarrow> rcs ! 0))
           else Inr (int (rows cm + 1))))"

definition promote_rc0 :: "info_answer \<Rightarrow> asset_answer \<Rightarrow> CsvMap \<Rightarrow> import_exn + int" where
  "promote_rc0 info_reply asset_reply cm =
     (let titles = getTitles cm in
      if titles = [] then Inl (Bios ''bad-request-document'' [Translate ''Cannot import empty document.'' []])
      else
        bindE (rcs_loop cm titles [1..<rows cm] [] None) (\<lambda>(rcs, rc0_row).
        if rcs = [] then Inr (int (rows cm + 1))
        else case info_reply of
          Info_not_sent \<Rightarrow> Inl (Std (Translate ''Sending INFO message to fty-info failed'' []))
        | Info_none \<Rightarrow> Inl (Std (Translate ''Response on INFO message from fty-info is empty'' []))
        | Info_error \<Rightarrow> Inl (Std (Translate ''Response on INFO message from fty-info is ERROR'' []))
        | Info_without_frame \<Rightarrow> Inl (Std (Translate ''Response on INFO message from fty-info miss zhash frame'' []))
        | Info info \<Rightarrow>
            (case asset_reply of
               Asset_not_sent \<Rightarrow> Inl (Std (Translate ''Sending ASSET_DETAIL message to fty-asset failed'' []))
             | Asset_none \<Rightarrow> Inl (Std (Translate ''Response on ASSET_DETAIL message from fty-asset is empty'' []))
             | _ \<Rightarrow>
                 let (rc_in_db, ext) =
                   (case asset_reply of
                      Asset_proto e \<Rightarrow> (True, case e of None \<Rightarrow> [] | Some e \<Rightarrow> e)
                    | _ \<Rightarrow> (False, []))
                 in bindE (choose_rc0 cm titles rcs rc0_row rc_in_db ext info) (\<lambda>retval.
                    let retval = size_t retval in
                    if ''name'' \<in> set titles \<and> retval < rows cm
                    then bindE (cell cm retval ''name'') (\<lambda>_. Inr (int retval)) \<comment> \<open>the name is logged\<close>
                    else Inr (int (rows cm + 1))))))"

subsection \<open>Lemmas\<close>

lemma check_rows_found:
  "check_rows cm column to_check mode rs check = Inr (Some r, c) \<Longrightarrow> r \<in> set rs"
  by (induction rs arbitrary: check) (auto simp: bindE_eq_Inr_iff split: if_splits)

lemma check_column_found:
  "check_column_match column to_check titles rcs cm mode fail = Inr r \<Longrightarrow>
     r = 0 \<or> r = - 1 \<or> (\<exists>i \<in> set rcs. r = int i)"
  by (auto simp: check_column_match_def bindE_eq_Inr_iff dest: check_rows_found split: if_splits option.splits)

definition row_choice :: "nat list \<Rightarrow> nat \<Rightarrow> int \<Rightarrow> bool" where
  "row_choice rcs n r \<longleftrightarrow> r = - 1 \<or> r = int (n + 1) \<or> (\<exists>i \<in> set rcs. r = int i)"

definition sound_check :: "nat list \<Rightarrow> nat \<Rightarrow> import_exn + int \<Rightarrow> bool" where
  "sound_check rcs n c = (case c of Inl _ \<Rightarrow> True | Inr x \<Rightarrow> x = 0 \<or> row_choice rcs n x)"

lemma first_found_choice:
  "first_found cs last_choice = Inr r \<Longrightarrow> list_all (sound_check rcs n) cs \<Longrightarrow>
     (last_choice = Inr r \<Longrightarrow> row_choice rcs n r) \<Longrightarrow> row_choice rcs n r"
  by (induction cs) (auto simp: bindE_eq_Inr_iff sound_check_def split: if_splits)

lemma sound_check_column [simp]: "sound_check rcs n (check_column_match1 col val titles rcs cm mode fail)"
  using check_column_found [of col _ titles rcs cm mode fail]
  by (auto simp: check_column_match1_def sound_check_def row_choice_def split: sum.split)

lemma sound_rc0_checks: "list_all (sound_check rcs n) (rc0_checks cm titles rcs ext info)"
  by (simp add: rc0_checks_def Let_def sound_check_def [of _ _ "Inr 0"])

definition rc_row :: "CsvMap \<Rightarrow> nat \<Rightarrow> bool" where
  \<comment> \<open>the row describes a rack controller\<close>
  "rc_row cm i \<longleftrightarrow> 1 \<le> i \<and> i < rows cm \<and>
     (case cell cm i ''type'' of Inl _ \<Rightarrow> False | Inr t \<Rightarrow> starts_with t ''device'') \<and>
     (case cell cm i ''sub_type'' of Inl _ \<Rightarrow> False | Inr t \<Rightarrow> starts_with t ''rackcontroller'')"

lemma rcs_loop_rows:
  assumes "rcs_loop cm titles rs rcs rc0 = Inr (rcs', rc0')"
    and "\<forall>i \<in> set rs. 1 \<le> i \<and> i < rows cm" and "\<forall>i \<in> set rcs. rc_row cm i"
    and "case rc0 of None \<Rightarrow> True | Some k \<Rightarrow> k < length rcs"
  shows "(\<forall>i \<in> set rcs'. rc_row cm i) \<and> (case rc0' of None \<Rightarrow> True | Some k \<Rightarrow> k < length rcs')"
  using assms
proof (induction rs arbitrary: rcs rc0)
  case Nil
  then show ?case by auto
next
  case (Cons i rs)
  obtain ty sub where ty: "(if ''type'' \<in> set titles then cell cm i ''type'' else Inr ''notype'') = Inr ty"
    and sub: "(if ''sub_type'' \<in> set titles then cell cm i ''sub_type'' else Inr ''nosubtype'') = Inr sub"
    and rest: "(if starts_with ty ''device'' \<and> starts_with sub ''rackcontroller''
       then let rcs = rcs @ [i] in
            if ''id'' \<in> set titles
            then bindE (cell cm i ''id'') (\<lambda>x.
                   rcs_loop cm titles rs rcs (if x = ''rackcontroller-0'' then Some (length rcs - 1) else rc0))
            else rcs_loop cm titles rs rcs rc0
       else rcs_loop cm titles rs rcs rc0) = Inr (rcs', rc0')"
    using Cons.prems(1) by (auto simp only: rcs_loop.simps bindE_eq_Inr_iff)
  show ?case
  proof (cases "starts_with ty ''device'' \<and> starts_with sub ''rackcontroller''")
    case False
    with rest Cons.IH [of rcs rc0] Cons.prems show ?thesis by simp
  next
    case True
    have "\<not> starts_with ''notype'' ''device''" "\<not> starts_with ''nosubtype'' ''rackcontroller''"
      by (simp_all add: starts_with_def)
    with True ty sub Cons.prems(2) have "rc_row cm i" by (auto simp: rc_row_def split: if_splits)
    with Cons.prems have rows: "\<forall>j \<in> set (rcs @ [i]). rc_row cm j" by auto
    have "\<exists>r. rcs_loop cm titles rs (rcs @ [i]) r = Inr (rcs', rc0') \<and>
        (case r of None \<Rightarrow> True | Some k \<Rightarrow> k < length (rcs @ [i]))"
      using rest True Cons.prems(4)
      by (auto simp: bindE_eq_Inr_iff Let_def split: if_splits option.splits)
    then obtain r where r: "rcs_loop cm titles rs (rcs @ [i]) r = Inr (rcs', rc0')"
        "case r of None \<Rightarrow> True | Some k \<Rightarrow> k < length (rcs @ [i])" by blast
    from Cons.IH [OF r(1) _ rows r(2)] Cons.prems(2) show ?thesis by simp
  qed
qed

lemma choose_rc0_result:
  assumes "choose_rc0 cm titles rcs rc0 in_db ext info = Inr r"
    and "rcs \<noteq> []" and "case rc0 of None \<Rightarrow> True | Some k \<Rightarrow> k < length rcs"
  shows "row_choice rcs (rows cm) r"
proof -
  have first: "row_choice rcs (rows cm) (int (rcs ! 0))" using assms(2) by (auto simp: row_choice_def)
  have marked: "row_choice rcs (rows cm) (int (rcs ! k))" if "rc0 = Some k" for k
    using assms(3) that by (auto simp: row_choice_def)
  have none: "row_choice rcs (rows cm) (int (rows cm + 1))" by (simp add: row_choice_def)
  let ?last = "if \<not> in_db \<or> ''id'' \<notin> set titles then Inr (int (case rc0 of Some k \<Rightarrow> rcs ! k | None \<Rightarrow> rcs ! 0))
    else Inr (int (rows cm + 1))"
  have last_choice: "row_choice rcs (rows cm) r" if "?last = Inr r"
  proof (cases "\<not> in_db \<or> ''id'' \<notin> set titles")
    case True
    with that have "r = int (case rc0 of Some k \<Rightarrow> rcs ! k | None \<Rightarrow> rcs ! 0)" by (simp only: if_True sum.inject)
    with first marked show ?thesis by (cases rc0) (simp_all only: option.case)
  next
    case False
    with that none show ?thesis by (simp only: if_False sum.inject)
  qed
  show ?thesis
  proof (cases "\<not> in_db \<and> length rcs = 1")
    case True
    with assms(1) have "r = int (rcs ! 0)" by (simp only: choose_rc0_def if_True sum.inject simp_thms)
    with first show ?thesis by (simp only:)
  next
    case c1: False
    show ?thesis
    proof (cases "\<not> in_db \<and> rc0 \<noteq> None")
      case True
      with c1 assms(1) have "r = int (rcs ! the rc0)" by (simp only: choose_rc0_def if_True if_False sum.inject simp_thms)
      moreover from True have "rc0 = Some (the rc0)" by (cases rc0) simp_all
      ultimately show ?thesis using marked by (simp only:)
    next
      case c2: False
      show ?thesis
      proof (cases "in_db \<and> length rcs = 1 \<and> ''id'' \<notin> set titles")
        case True
        with c1 c2 assms(1) have "r = int (rcs ! 0)" by (simp only: choose_rc0_def if_True if_False sum.inject simp_thms)
        with first show ?thesis by (simp only:)
      next
        case False
        with c1 c2 assms(1) have "first_found (rc0_checks cm titles rcs ext info) ?last = Inr r"
          by (simp only: choose_rc0_def if_False)
        then show ?thesis using sound_rc0_checks last_choice by (rule first_found_choice)
      qed
    qed
  qed
qed

lemma promote_rc0_rows:
  assumes "promote_rc0 info_reply asset_reply cm = Inr r" and "rows cm < 2 ^ 63"
  shows "r = int (rows cm + 1) \<or> (\<exists>i. r = int i \<and> rc_row cm i)"
proof -
  let ?titles = "getTitles cm"
  from assms(1) obtain rcs rc0 where loop: "rcs_loop cm ?titles [1..<rows cm] [] None = Inr (rcs, rc0)"
    by (auto simp: promote_rc0_def bindE_eq_Inr_iff Let_def split: if_splits)
  have rcs: "(\<forall>i \<in> set rcs. rc_row cm i) \<and> (case rc0 of None \<Rightarrow> True | Some k \<Rightarrow> k < length rcs)"
    using rcs_loop_rows [OF loop] by simp
  show ?thesis
  proof (cases "r = int (rows cm + 1)")
    case False
    with assms(1) loop obtain in_db ext info x where
        c: "choose_rc0 cm ?titles rcs rc0 in_db ext info = Inr x" and ne: "rcs \<noteq> []"
        and x: "size_t x < rows cm" "r = int (size_t x)"
      by (auto simp: promote_rc0_def bindE_eq_Inr_iff Let_def split: if_splits info_answer.splits asset_answer.splits)
    have "size_t (- 1) = 2 ^ 64 - 1" by (simp add: size_t_def)
    moreover have "size_t (int (rows cm + 1)) = rows cm + 1" using assms(2) by (simp add: size_t_def)
    ultimately obtain i where i: "i \<in> set rcs" "x = int i"
      using choose_rc0_result [OF c ne conjunct2 [OF rcs]] x(1) assms(2) by (auto simp: row_choice_def)
    have "rc_row cm i" using i rcs by blast
    moreover have "size_t x = i" using i assms(2) \<open>rc_row cm i\<close> by (simp add: size_t_def rc_row_def)
    ultimately show ?thesis using x(2) by blast
  qed simp
qed

definition sample_rc_table :: CsvMap where
  "sample_rc_table = snd (deserialize (CsvMap_new
     [[''name'', ''type'', ''sub_type'', ''id'', ''uuid''],
      [''UPS 1'', ''device'', ''ups'', ''ups-7'', ''u-0''],
      [''RC 1'', ''device'', ''rackcontroller'', ''rackcontroller-3'', ''u-1''],
      [''RC 2'', ''device'', ''rackcontroller'', ''rackcontroller-9'', ''u-2'']]))"

subsection \<open>Properties\<close>

text \<open>When \<open>promote_rc0\<close> returns, its result is the number of a row that describes a rack controller
  (a device with that subtype), or the number of rows plus one, for none: the failure code of a
  comparison, converted to an unsigned index, is never taken for a row.\<close>

theorem promote_rc0_picks_rack_controller:
  assumes "promote_rc0 info_reply asset_reply cm = Inr r" and "rows cm < 2 ^ 63"
  shows "r = int (rows cm + 1) \<or> (\<exists>i. r = int i \<and> rc_row cm i)"
  using assms by (rule promote_rc0_rows)

theorem promote_rc0_picks_rack_controller_witness:
  "promote_rc0 (Info []) (Asset_proto (Some [(''uuid'', ''u-2'')])) sample_rc_table = Inr 3 \<and> rc_row sample_rc_table 3 \<and>
   promote_rc0 (Info []) (Asset_proto (Some [(''uuid'', ''u-9'')])) sample_rc_table = Inr 5"
proof -
  have run: "promote_rc0 (Info []) (Asset_proto (Some [(''uuid'', ''u-2'')])) sample_rc_table = Inr 3"
    "promote_rc0 (Info []) (Asset_proto (Some [(''uuid'', ''u-9'')])) sample_rc_table = Inr 5"
    and rows: "rows sample_rc_table = 4" by code_simp+
  from promote_rc0_picks_rack_controller [OF run(1)] rows have "\<exists>i. (3::int) = int i \<and> rc_row sample_rc_table i" by simp
  with run show ?thesis by (metis int_eq_iff_numeral)
qed

end
