(* ===== verification/AssetCrud.thy ===== *)
theory AssetCrud
  imports AssetDb
begin

text \<open>
  \<open>src/persist/assetcrud.cc\<close>: the queries over assets, groups and power links. The tables and views
  a statement reads are lists of rows in the order the server delivers them; the SQL of a statement
  is written out as the condition on a row. A connection is either those tables or a failure every
  statement throws (\<open>Inl\<close>, with its text).
\<close>

record link_row =
  row_dest :: nat
  row_src :: nat
  row_src_out :: "string option" \<comment> \<open>\<open>None\<close> for NULL\<close>
  row_dest_in :: "string option"
  row_type :: nat

record element_row =
  row_name :: string
  row_parent :: "nat option"
  row_status :: string
  row_priority :: nat
  row_id :: nat
  row_id_type :: nat
  row_id_subtype :: nat

record ext_row =
  ext_element :: nat
  keytag :: string
  ext_value :: string

record views =
  v_link :: "link_row list"
  v_group :: "(nat \<times> nat) list" \<comment> \<open>group, element\<close>
  v_element :: "element_row list"
  v_ext :: "ext_row list"
  v_super_parent :: "(nat \<times> nat option list) list" \<comment> \<open>element, \<open>id_parent1\<close> to \<open>id_parent10\<close>\<close>
  v_element_type :: "(string \<times> int) list"
  v_device_type :: "(string \<times> int) list"

type_synonym conn = "string + views"

subsection \<open>Power links of a device\<close>

datatype links_result =
    Null_pointer \<comment> \<open>the data base failed\<close>
  | Assertion_failed
  | Buffer_overflow \<comment> \<open>\<open>sprintf\<close> wrote past the 26 bytes of \<open>buff\<close>\<close>
  | Links "string list"

definition link_text :: "string \<Rightarrow> nat \<Rightarrow> string \<Rightarrow> nat \<Rightarrow> string" where
  \<comment> \<open>the format of \<open>sprintf\<close>: source outlet, source, destination inlet, destination\<close>
  "link_text out s din d = out @ '':'' @ to_string s @ '':'' @ din @ '':'' @ to_string d"

definition row_text :: "string \<Rightarrow> link_row \<Rightarrow> string" where
  "row_text dflt row =
     (let out = (case row_src_out row of Some s \<Rightarrow> s | None \<Rightarrow> dflt);
          din = (case row_dest_in row of Some s \<Rightarrow> s | None \<Rightarrow> dflt)
      in link_text (c_str out) (row_src row) (c_str din) (row_dest row))"

fun links_loop :: "string \<Rightarrow> link_row list \<Rightarrow> string list \<Rightarrow> links_result" where
  "links_loop dflt [] links = Links links"
| "links_loop dflt (row # rows) links =
     (if row_dest row = 0 then Assertion_failed
      else if row_src row = 0 then Assertion_failed
      else if length (row_text dflt row) \<ge> 26 then Buffer_overflow
      else links_loop dflt rows (row_text dflt row # links))"

definition select_asset_device_links_all ::
  "string \<Rightarrow> conn \<Rightarrow> nat \<Rightarrow> nat \<Rightarrow> links_result" where
  \<comment> \<open>the first argument is the constant \<open>SRCOUT_DESTIN_IS_NULL\<close> of the data base library\<close>
  "select_asset_device_links_all dflt conn device_id link_type_id =
     (case conn of
        Inl what \<Rightarrow> Null_pointer
      | Inr v \<Rightarrow>
          links_loop dflt
            (if link_type_id = 0
             then filter (\<lambda>r. row_dest r = device_id \<or> row_src r = device_id) (v_link v)
             else filter (\<lambda>r. (row_dest r = device_id \<or> row_src r = device_id) \<and> row_type r = link_type_id)
                    (v_link v)) [])"

subsection \<open>Members of a group, dictionaries\<close>

definition select_asset_group_elements :: "conn \<Rightarrow> nat \<Rightarrow> string + nat list" where
  \<comment> \<open>\<open>Inl\<close> is \<open>bios::InternalDBError\<close>\<close>
  "select_asset_group_elements conn group_id =
     (case conn of
        Inl what \<Rightarrow> Inl what
      | Inr v \<Rightarrow> Inr (fold (\<lambda>r ret. set_insert (snd r) ret) (filter (\<lambda>r. fst r = group_id) (v_group v)) []))"

datatype 'a item_reply = Found 'a | Not_found string | Bad_input | Internal_error string | Assert_failed

definition get_dictionary :: "(views \<Rightarrow> (string \<times> int) list) \<Rightarrow> conn \<Rightarrow> (string \<times> int) list item_reply" where
  "get_dictionary st conn =
     (case conn of
        Inl what \<Rightarrow> Internal_error what
      | Inr v \<Rightarrow> Found (fold (\<lambda>(name, i) mymap. map_emplace name i mymap) (st v) []))"

definition get_dictionary_element_type :: "conn \<Rightarrow> (string \<times> int) list item_reply" where
  "get_dictionary_element_type conn = get_dictionary v_element_type conn"

definition get_dictionary_device_type :: "conn \<Rightarrow> (string \<times> int) list item_reply" where
  "get_dictionary_device_type conn = get_dictionary v_device_type conn"

subsection \<open>Elements by name and by type\<close>

record db_a_elmnt =
  el_id :: nat
  el_name :: string
  el_status :: string
  el_parent_id :: nat
  el_priority :: nat
  el_type_id :: nat
  el_subtype_id :: nat

definition empty_elmnt :: db_a_elmnt where
  "empty_elmnt = \<lparr> el_id = 0, el_name = '''', el_status = '''', el_parent_id = 0, el_priority = 5,
                   el_type_id = 0, el_subtype_id = 0 \<rparr>"

definition elmnt_of_row :: "element_row \<Rightarrow> db_a_elmnt" where
  \<comment> \<open>the columns of \<open>select_asset_element_by_name\<close>; a NULL parent leaves the initial 0\<close>
  "elmnt_of_row r = empty_elmnt\<lparr> el_name := row_name r,
     el_parent_id := (case row_parent r of Some p \<Rightarrow> p | None \<Rightarrow> 0), el_status := row_status r,
     el_priority := row_priority r, el_id := row_id r, el_type_id := row_id_type r \<rparr>"

definition rows_by_extname :: "views \<Rightarrow> string \<Rightarrow> element_row list" where
  \<comment> \<open>the LEFT JOIN of elements and extended attributes, with its WHERE clause\<close>
  "rows_by_extname v name =
     concat (map (\<lambda>r. map (\<lambda>_. r)
       (filter (\<lambda>e. ext_element e = row_id r \<and> keytag e = ''name'' \<and> ext_value e = name) (v_ext v)))
       (v_element v))"

definition select_asset_element_by_name ::
  "(string \<Rightarrow> bool) \<Rightarrow> conn \<Rightarrow> string \<Rightarrow> db_a_elmnt item_reply" where
  "select_asset_element_by_name is_ok_name conn element_name =
     (if \<not> is_ok_name element_name then Bad_input
      else case conn of
        Inl what \<Rightarrow> Internal_error what
      | Inr v \<Rightarrow>
          (case filter (\<lambda>r. row_name r = element_name) (v_element v) of
             row # _ \<Rightarrow> if row_name row = '''' then Assert_failed else Found (elmnt_of_row row)
           | [] \<Rightarrow>
               (case rows_by_extname v element_name of
                  row # _ \<Rightarrow> if row_name row = '''' then Assert_failed else Found (elmnt_of_row row)
                | [] \<Rightarrow> Not_found ''element with specified name was not found'')))"

fun by_type_loop :: "element_row list \<Rightarrow> db_a_elmnt list \<Rightarrow> db_a_elmnt list item_reply" where
  "by_type_loop [] items = Found items"
| "by_type_loop (r # rows) items =
     (if row_name r = '''' then Assert_failed
      else by_type_loop rows (items @ [empty_elmnt\<lparr> el_name := row_name r,
        el_parent_id := (case row_parent r of Some p \<Rightarrow> p | None \<Rightarrow> 0), el_status := row_status r,
        el_priority := row_priority r, el_id := row_id r, el_subtype_id := row_id_subtype r \<rparr>]))"

definition select_asset_elements_by_type :: "conn \<Rightarrow> nat \<Rightarrow> db_a_elmnt list item_reply" where
  "select_asset_elements_by_type conn type_id =
     (case conn of
        Inl what \<Rightarrow> Internal_error what
      | Inr v \<Rightarrow> by_type_loop (filter (\<lambda>r. row_id_type r = type_id) (v_element v)) [])"

subsection \<open>Power links inside a container\<close>

definition INPUT_POWER_CHAIN :: nat where
  "INPUT_POWER_CHAIN = 1"

definition nth_parent :: "nat option list \<Rightarrow> nat \<Rightarrow> nat option" where
  \<comment> \<open>\<open>id_parentK\<close>, from 1\<close>
  "nth_parent ps k = (if 1 \<le> k \<and> k \<le> length ps then ps ! (k - 1) else None)"

text \<open>
  The condition of the statement: the list of parent columns of the source names \<open>id_parent7\<close> twice
  and leaves out \<open>id_parent8\<close>.
\<close>

definition dest_columns :: "nat list" where
  "dest_columns = [1, 2, 3, 4, 5, 6, 7, 8, 9, 10]"

definition src_columns :: "nat list" where
  "src_columns = [1, 2, 3, 4, 5, 6, 7, 7, 9, 10]"

definition in_columns :: "nat list \<Rightarrow> nat \<Rightarrow> nat option list \<Rightarrow> bool" where
  "in_columns cols container ps \<longleftrightarrow> (\<exists>k \<in> set cols. nth_parent ps k = Some container)"

definition container_match :: "nat \<Rightarrow> link_row \<Rightarrow> nat \<times> nat option list \<Rightarrow> nat \<times> nat option list \<Rightarrow> bool" where
  "container_match container r v1 v2 \<longleftrightarrow>
     row_type r = INPUT_POWER_CHAIN \<and> row_dest r = fst v2 \<and> row_src r = fst v1 \<and>
     (in_columns dest_columns container (snd v2) \<or> in_columns src_columns container (snd v1))"

fun pairs_loop :: "(nat \<times> nat) list \<Rightarrow> (nat \<times> nat) list \<Rightarrow> (nat \<times> nat) list item_reply" where
  "pairs_loop [] items = Found items"
| "pairs_loop ((s, d) # rows) items =
     (if s = 0 \<or> d = 0 then Assert_failed
      else pairs_loop rows (if (s, d) \<in> set items then items else items @ [(s, d)]))"

definition select_links_by_container :: "conn \<Rightarrow> nat \<Rightarrow> (nat \<times> nat) list item_reply" where
  \<comment> \<open>the set of pairs is a list without repetitions\<close>
  "select_links_by_container conn element_id =
     (case conn of
        Inl what \<Rightarrow> Internal_error what
      | Inr v \<Rightarrow>
          pairs_loop
            [(row_src r, row_dest r). r \<leftarrow> v_link v, v1 \<leftarrow> v_super_parent v, v2 \<leftarrow> v_super_parent v,
               container_match element_id r v1 v2] [])"

subsection \<open>Properties\<close>

lemma pairs_loop_found:
  "(\<exists>items'. pairs_loop rows items = Found items') \<longleftrightarrow> (\<forall>(s, d) \<in> set rows. s \<noteq> 0 \<and> d \<noteq> 0)"
  by (induction rows items rule: pairs_loop.induct) auto

lemma pairs_loop_set:
  "pairs_loop rows items = Found items' \<Longrightarrow> distinct items \<Longrightarrow>
   set items' = set items \<union> set rows \<and> distinct items'"
  by (induction rows items arbitrary: items' rule: pairs_loop.induct) (auto split: if_splits)

text \<open>C36. The links of a container are the power links one of whose ends lies in it, each once;
  except that a source that has the container as its eighth parent only does not count, because the
  statement names the seventh column of the source twice and its eighth column not at all.\<close>

theorem links_by_container_spec:
  assumes "select_links_by_container (Inr v) c = Found ls"
  shows "distinct ls \<and>
    ((s, d) \<in> set ls \<longleftrightarrow>
      (\<exists>r \<in> set (v_link v). \<exists>ps1 ps2. row_src r = s \<and> row_dest r = d \<and> row_type r = INPUT_POWER_CHAIN \<and>
         (s, ps1) \<in> set (v_super_parent v) \<and> (d, ps2) \<in> set (v_super_parent v) \<and>
         ((\<exists>k. 1 \<le> k \<and> k \<le> 10 \<and> nth_parent ps2 k = Some c) \<or>
          (\<exists>k. 1 \<le> k \<and> k \<le> 10 \<and> k \<noteq> 8 \<and> nth_parent ps1 k = Some c))))"
proof -
  have dst: "in_columns dest_columns c ps \<longleftrightarrow> (\<exists>k. 1 \<le> k \<and> k \<le> 10 \<and> nth_parent ps k = Some c)" for ps
  proof -
    have "k \<in> set dest_columns \<longleftrightarrow> 1 \<le> k \<and> k \<le> 10" for k
      by (simp add: dest_columns_def) presburger
    then show ?thesis by (auto simp: in_columns_def)
  qed
  have sc: "in_columns src_columns c ps \<longleftrightarrow> (\<exists>k. 1 \<le> k \<and> k \<le> 10 \<and> k \<noteq> 8 \<and> nth_parent ps k = Some c)" for ps
  proof -
    have "k \<in> set src_columns \<longleftrightarrow> 1 \<le> k \<and> k \<le> 10 \<and> k \<noteq> 8" for k
      by (simp add: src_columns_def) presburger
    then show ?thesis by (auto simp: in_columns_def)
  qed
  have "pairs_loop [(row_src r, row_dest r). r \<leftarrow> v_link v, v1 \<leftarrow> v_super_parent v, v2 \<leftarrow> v_super_parent v,
      container_match c r v1 v2] [] = Found ls"
    using assms by (simp add: select_links_by_container_def)
  from pairs_loop_set [OF this] have ls: "distinct ls" and
    "(s, d) \<in> set ls \<longleftrightarrow> (\<exists>r \<in> set (v_link v). \<exists>v1 \<in> set (v_super_parent v). \<exists>v2 \<in> set (v_super_parent v).
        container_match c r v1 v2 \<and> s = row_src r \<and> d = row_dest r)"
    by auto
  then show ?thesis
    unfolding container_match_def dst sc
    by (metis fst_conv snd_conv prod.collapse)
qed

definition sample_views :: views where
  "sample_views =
     \<lparr> v_link = [\<lparr> row_dest = 12, row_src = 11, row_src_out = Some ''1'', row_dest_in = None, row_type = 1 \<rparr>],
       v_group = [(20, 12), (20, 11), (20, 12)],
       v_element = [\<lparr> row_name = ''ups-11'', row_parent = Some 9, row_status = ''active'', row_priority = 1, row_id = 11,
                      row_id_type = 6, row_id_subtype = 1 \<rparr>],
       v_ext = [\<lparr> ext_element = 11, keytag = ''name'', ext_value = ''UPS of row 1'' \<rparr>],
       v_super_parent = [(11, [Some 9, Some 8, Some 7, Some 6, Some 5, Some 4, Some 3, Some 2, Some 1, None]), (12, [])],
       v_element_type = [], v_device_type = [] \<rparr>"

theorem links_by_container_spec_witness:
  "\<exists>ls. select_links_by_container (Inr sample_views) 2 = Found ls \<and> (11, 12) \<notin> set ls"
proof -
  have "select_links_by_container (Inr sample_views) 2 = Found []" by code_simp
  with links_by_container_spec [OF this, of 11 12] show ?thesis by auto
qed

lemma links_loop_ok:
  "links_loop dflt rows ls = Links ls' \<Longrightarrow>
   ls' = rev (map (row_text dflt) rows) @ ls \<and> (\<forall>r \<in> set rows. length (row_text dflt r) < 26)"
  by (induction dflt rows ls arbitrary: ls' rule: links_loop.induct)
     (auto split: if_splits)

text \<open>The links of a device: when the call returns a list, it holds one text per link of the
  device (of the requested type, or of any type for type 0), in the reverse order of the rows, and
  every text fits the 26-byte buffer; a link whose outlet is 22 bytes or longer overruns the buffer
  unless an earlier row has already stopped the function.\<close>

theorem device_links_spec:
  assumes "select_asset_device_links_all dflt (Inr v) dev ty = Links ls"
  shows "length ls = length (filter (\<lambda>r. (row_dest r = dev \<or> row_src r = dev) \<and> (ty = 0 \<or> row_type r = ty)) (v_link v)) \<and>
         (\<forall>t \<in> set ls. length t < 26) \<and>
         (\<forall>r \<in> set (v_link v). row_dest r = dev \<and> row_type r = ty \<longrightarrow>
            length (c_str (case row_src_out r of Some s \<Rightarrow> s | None \<Rightarrow> dflt)) < 22)"
proof -
  let ?rows = "filter (\<lambda>r. (row_dest r = dev \<or> row_src r = dev) \<and> (ty = 0 \<or> row_type r = ty)) (v_link v)"
  let ?text = "row_text dflt"
  have "links_loop dflt ?rows [] = Links ls"
    using assms by (cases "ty = 0") (simp_all add: select_asset_device_links_all_def)
  from links_loop_ok [OF this] have ls: "ls = rev (map ?text ?rows)" "\<forall>t \<in> set ls. length t < 26"
    by auto
  have "length (c_str (case row_src_out r of Some s \<Rightarrow> s | None \<Rightarrow> dflt)) < 22"
    if "r \<in> set (v_link v)" "row_dest r = dev \<and> row_type r = ty" for r
  proof -
    have "?text r \<in> set ls" unfolding ls(1) set_rev set_map by (rule imageI) (use that in simp)
    with ls(2) have "length (?text r) < 26" by blast
    moreover have "0 < length (to_string n)" for n by simp
    moreover have "length '':'' = 1" by simp
    ultimately show ?thesis
      using \<open>\<And>n. 0 < length (to_string n)\<close> [of "row_src r"] \<open>\<And>n. 0 < length (to_string n)\<close> [of "row_dest r"]
      unfolding row_text_def link_text_def Let_def length_append by linarith
  qed
  with ls show ?thesis by simp
qed

theorem device_links_spec_witness:
  "\<exists>ls. select_asset_device_links_all ''999'' (Inr sample_views) 12 1 = Links ls \<and> length ls = 1"
proof -
  have "select_asset_device_links_all ''999'' (Inr sample_views) 12 1 = Links [''1:11:999:12'']" by code_simp
  with device_links_spec [OF this] show ?thesis by auto
qed

lemma group_fold: "sset acc \<Longrightarrow> sset (fold (\<lambda>r ret. set_insert (snd r) ret) rs acc) \<and>
    set (fold (\<lambda>r ret. set_insert (snd r) ret) rs acc) = snd ` set rs \<union> set acc"
  by (induction rs arbitrary: acc) auto

text \<open>The members of a group are exactly the elements related to it, without repetition and in
  ascending order; an element is found by its internal name first and by its external name
  otherwise.\<close>

theorem group_elements_and_names_spec:
  "(\<forall>ms. select_asset_group_elements (Inr v) g = Inr ms \<longrightarrow>
      sorted ms \<and> distinct ms \<and> set ms = {e. (g, e) \<in> set (v_group v)}) \<and>
   (\<forall>el. select_asset_element_by_name ok (Inr v) n = Found el \<longrightarrow>
      (\<exists>r \<in> set (v_element v). el = elmnt_of_row r \<and>
         (if \<exists>r \<in> set (v_element v). row_name r = n then row_name r = n
          else \<exists>e \<in> set (v_ext v). ext_element e = row_id r \<and> keytag e = ''name'' \<and> ext_value e = n)))"
proof -
  have "sorted ms \<and> distinct ms \<and> set ms = {e. (g, e) \<in> set (v_group v)}"
    if "select_asset_group_elements (Inr v) g = Inr ms" for ms
    using that group_fold [of "[]" "filter (\<lambda>r. fst r = g) (v_group v)"]
    by (force simp: select_asset_group_elements_def sset_def image_iff)
  moreover have "\<exists>r \<in> set (v_element v). el = elmnt_of_row r \<and>
         (if \<exists>r \<in> set (v_element v). row_name r = n then row_name r = n
          else \<exists>e \<in> set (v_ext v). ext_element e = row_id r \<and> keytag e = ''name'' \<and> ext_value e = n)"
    if f: "select_asset_element_by_name ok (Inr v) n = Found el" for el
  proof (cases "filter (\<lambda>r. row_name r = n) (v_element v)")
    case (Cons row rows)
    then have "row \<in> set (v_element v)" "row_name row = n"
      by (auto simp: filter_eq_Cons_iff)
    with f Cons show ?thesis by (auto simp: select_asset_element_by_name_def split: if_splits)
  next
    case Nil
    then have no: "\<not> (\<exists>r \<in> set (v_element v). row_name r = n)" by (simp add: filter_empty_conv)
    from f Nil obtain row rows where r: "rows_by_extname v n = row # rows" "el = elmnt_of_row row"
      by (auto simp: select_asset_element_by_name_def split: if_splits list.splits)
    have "row \<in> set (rows_by_extname v n)" using r(1) by simp
    with r(2) no show ?thesis by (auto simp: rows_by_extname_def)
  qed
  ultimately show ?thesis by blast
qed

theorem group_elements_and_names_spec_witness:
  "\<exists>ms el. select_asset_group_elements (Inr sample_views) 20 = Inr ms \<and> set ms = {11, 12} \<and>
     select_asset_element_by_name (\<lambda>_. True) (Inr sample_views) ''UPS of row 1'' = Found el \<and>
     el \<in> elmnt_of_row ` set (v_element sample_views)"
proof -
  note spec = group_elements_and_names_spec [of sample_views 20 "\<lambda>_. True" "''UPS of row 1''"]
  obtain ms where ms: "select_asset_group_elements (Inr sample_views) 20 = Inr ms"
    by (simp add: select_asset_group_elements_def)
  have "case select_asset_element_by_name (\<lambda>_. True) (Inr sample_views) ''UPS of row 1'' of Found _ \<Rightarrow> True | _ \<Rightarrow> False"
    by code_simp
  then obtain el where el: "select_asset_element_by_name (\<lambda>_. True) (Inr sample_views) ''UPS of row 1'' = Found el"
    by (auto split: item_reply.splits)
  from spec ms have "set ms = {e. (20, e) \<in> set (v_group sample_views)}" by blast
  then have "set ms = {11, 12}" by (auto simp: sample_views_def)
  moreover from spec el have "el \<in> elmnt_of_row ` set (v_element sample_views)" by blast
  ultimately show ?thesis using ms el by blast
qed

end
