(* ===== verification/AssetGeneral.thy ===== *)
theory AssetGeneral
  imports AssetDb
begin

text \<open>
  \<open>src/db/asset_general.cc\<close>: the operations that create, update and delete an asset with its
  attributes, groups and power links, each in one data base transaction. Every library call, test,
  rollback and early return of the code is a step here.
\<close>

definition check_msg :: msg where
  "check_msg = Translate ''check  element name, location, status, priority, asset_tag'' []"

definition conflict_reply :: "('d, 'h) asset_db \<Rightarrow> string \<Rightarrow> db_reply" where
  "conflict_reply D element_name = db_reply_new\<lparr>
     status := 0, errtype := DB_ERR D, errsubtype := DB_ERROR_BADINPUT D, rowid := 8,
     reply_msg := Translate
       ''Element '%s' cannot be processed because of conflict. Most likely duplicate entry.'' [element_name] \<rparr>"

definition jsonified :: "db_reply \<Rightarrow> db_reply" where
  "jsonified r = r\<lparr> reply_msg := Jsonify (reply_msg r) \<rparr>" \<comment> \<open>\<open>r.msg = JSONIFY(r.msg.c_str())\<close>\<close>

lemma status_jsonified [simp]: "status (jsonified r) = status r"
  by (simp add: jsonified_def)

subsection \<open>Updates\<close>

definition update_dc_room_row_rack_group ::
  "('d, 'h) asset_db \<Rightarrow> nat \<Rightarrow> string \<Rightarrow> nat \<Rightarrow> 'h \<Rightarrow> string \<Rightarrow> nat \<Rightarrow> nat list \<Rightarrow> string \<Rightarrow> msg \<Rightarrow>
   'h option \<Rightarrow> ('d, string, int \<times> msg) prog"
where
  "update_dc_room_row_rack_group D element_id element_name parent_id extattributes st priority groups
     asset_tag errmsg extattributesRO =
   with_transaction (
     if st = ''nonactive''
     then ret (1, Translate ''%s: Element cannot be inactivated. Change status to 'active'.'' [element_name])
     else
       andThen (on_conn (update_asset_element D element_id element_name parent_id st priority asset_tag))
         (\<lambda>(ret1, affected).
     if ret1 \<noteq> 0 \<and> affected \<noteq> 1 then fail_with (1, check_msg)
     else
       andThen (on_conn (delete_asset_ext_attributes_with_ro D element_id False)) (\<lambda>ret2.
     if status ret2 = 0 then fail_with (2, Translate ''cannot erase old external attributes'' [])
     else
       andThen (on_conn (insert_into_asset_ext_attributes D element_id extattributes False errmsg))
         (\<lambda>(ret3, errmsg).
     if status ret3 = 0 then fail_with (3, Jsonify errmsg)
     else
       let rest = (\<lambda>errmsg.
         andThen (on_conn (delete_asset_element_from_asset_groups D element_id)) (\<lambda>ret4.
         if status ret4 = 0 then fail_with (4, Translate ''cannot remove element from old groups'' [])
         else
           andThen (on_conn (insert_element_into_groups D groups element_id)) (\<lambda>ret5.
         if status ret5 = 0 \<and> affected_rows ret5 \<noteq> length groups
         then fail_with (5, Translate ''cannot insert device into all specified groups'' [])
         else commit_with (0, errmsg))))
       in case extattributesRO of
            None \<Rightarrow> rest errmsg
          | Some _ \<Rightarrow>
              andThen (on_conn (insert_into_asset_ext_attributes D element_id extattributes False errmsg))
                (\<lambda>(ret31, errmsg).
              if status ret31 = 0 then fail_with (31, Jsonify errmsg) else rest errmsg)))))"

text \<open>
  \<open>update_device\<close> works in a transaction of the caller and fills in the destination of the links
  it is given; it returns its code, the error message and the links.
\<close>

definition update_device ::
  "('d, 'h) asset_db \<Rightarrow> nat \<Rightarrow> string \<Rightarrow> nat \<Rightarrow> 'h \<Rightarrow> string \<Rightarrow> nat \<Rightarrow> nat list \<Rightarrow> link list \<Rightarrow> string \<Rightarrow>
   msg \<Rightarrow> 'h option \<Rightarrow> ('d tx, string, int \<times> msg \<times> link list) prog"
where
  "update_device D element_id element_name parent_id extattributes st priority groups links asset_tag
     errmsg extattributesRO =
   (if element_id = 1 \<and> st = ''nonactive''
    then ret (1, Translate ''%s: Default rack controller cannot be inactivated. Change status to 'active'.''
                   [element_name], links)
    else
      andThen (on_conn (update_asset_element D element_id element_name parent_id st priority asset_tag))
        (\<lambda>(ret1, affected).
    if ret1 \<noteq> 0 \<and> affected \<noteq> 1 then fail_with (1, check_msg, links)
    else
      andThen (on_conn (delete_asset_ext_attributes_with_ro D element_id False)) (\<lambda>ret2.
    if status ret2 = 0 then fail_with (2, Translate ''cannot erase old external attributes'' [], links)
    else
      andThen (on_conn (insert_into_asset_ext_attributes D element_id extattributes False errmsg))
        (\<lambda>(ret3, errmsg).
    if status ret3 = 0 then fail_with (3, Jsonify errmsg, links)
    else
      let rest = (\<lambda>errmsg.
        andThen (on_conn (delete_asset_element_from_asset_groups D element_id)) (\<lambda>ret4.
        if status ret4 = 0 then fail_with (4, Translate ''cannot remove element from old groups'' [], links)
        else
          andThen (on_conn (insert_element_into_groups D groups element_id)) (\<lambda>ret5.
        if affected_rows ret5 \<noteq> length groups
        then fail_with (5, Translate ''cannot insert device into all specified groups'' [], links)
        else
          let links = map (\<lambda>one_link. one_link\<lparr> dest := element_id \<rparr>) links
          in andThen (on_conn (delete_asset_links_to D element_id)) (\<lambda>ret6.
        if status ret6 = 0 then fail_with (6, Translate ''cannot remove old power sources'' [], links)
        else
          andThen (on_conn (insert_into_asset_links D links)) (\<lambda>ret7.
        if affected_rows ret7 \<noteq> length links
        then fail_with (7, Translate ''cannot add new power sources'' [], links)
        else commit_with (0, errmsg, links))))))
      in case extattributesRO of
           None \<Rightarrow> rest errmsg
         | Some ro \<Rightarrow>
             andThen (on_conn (insert_into_asset_ext_attributes D element_id ro True errmsg))
               (\<lambda>(ret31, errmsg).
             if status ret31 = 0 then fail_with (31, Jsonify errmsg, links) else rest errmsg)))))"

subsection \<open>Insertions\<close>

definition insert_dc_room_row_rack_group ::
  "('d, 'h) asset_db \<Rightarrow> string \<Rightarrow> nat \<Rightarrow> nat \<Rightarrow> 'h \<Rightarrow> string \<Rightarrow> nat \<Rightarrow> nat list \<Rightarrow> string \<Rightarrow> 'h option \<Rightarrow>
   ('d, string, db_reply) prog"
where
  "insert_dc_room_row_rack_group D element_name element_type_id parent_id extattributes st priority
     groups asset_tag extattributesRO =
   andThen (query (extname_to_asset_id D element_name)) (\<lambda>known.
   if known \<noteq> - 1 then ret (conflict_reply D element_name)
   else
     let iname = strip (typeid_to_type D element_type_id)
     in if st = ''nonactive''
        then ret (db_reply_new\<lparr> status := 0, errtype := DB_ERR D, errsubtype := DB_ERROR_BADINPUT D, rowid := 8,
               reply_msg := Translate ''Element '%s' cannot be inactivated. Change status to 'active'.'' [element_name] \<rparr>)
        else
   with_transaction (
     andThen (on_conn (insert_into_asset_element D iname element_type_id parent_id st priority 0 asset_tag False))
       (\<lambda>reply1.
     if status reply1 = 0 then fail_with (jsonified reply1)
     else
       let element_id = u32 (rowid reply1)
       in andThen (on_conn (insert_into_asset_ext_attributes D element_id extattributes False (Raw ''''))) (\<lambda>(reply2, err).
     if status reply2 = 0 then fail_with (jsonified reply2)
     else
       let rest =
         andThen (on_conn (insert_element_into_groups D groups element_id)) (\<lambda>reply3.
         if status reply3 = 0 \<and> affected_rows reply3 \<noteq> length groups then fail_with (jsonified reply3)
         else if element_type_id = DATACENTER D \<or> element_type_id = RACK D
         then
           andThen (on_conn (insert_into_monitor_device D 1 element_name)) (\<lambda>reply4.
           if status reply4 = 0 then fail_with (jsonified reply4)
           else
             andThen (on_conn (insert_into_monitor_asset_relation D (u16 (rowid reply4)) (u32 (rowid reply1)))) (\<lambda>reply5.
           if status reply5 = 0 then fail_with (jsonified reply5)
           else commit_with (jsonified reply1)))
         else commit_with (jsonified reply1))
       in case extattributesRO of
            None \<Rightarrow> rest
          | Some ro \<Rightarrow>
              andThen (on_conn (insert_into_asset_ext_attributes D element_id ro True (Raw ''''))) (\<lambda>(reply21, err).
              if status reply21 = 0 then fail_with (jsonified reply21) else rest)))))"

definition insert_device ::
  "('d, 'h) asset_db \<Rightarrow> link list \<Rightarrow> nat list \<Rightarrow> string \<Rightarrow> nat \<Rightarrow> 'h \<Rightarrow> nat \<Rightarrow> string \<Rightarrow> nat \<Rightarrow> string \<Rightarrow>
   'h option \<Rightarrow> ('d tx, string, db_reply \<times> link list) prog"
where
  "insert_device D links groups element_name parent_id extattributes asset_device_type_id st priority
     asset_tag extattributesRO =
   andThen (on_conn (query (extname_to_asset_id D element_name))) (\<lambda>known.
   if known \<noteq> - 1 then ret (conflict_reply D element_name, links)
   else
     let iname = strip (subtypeid_to_subtype D asset_device_type_id)
     in andThen (on_conn (insert_into_asset_element D iname (DEVICE D) parent_id st priority
                            asset_device_type_id asset_tag False)) (\<lambda>reply1.
   if status reply1 = 0 then fail_with (jsonified reply1, links)
   else
     let element_id = u32 (rowid reply1)
     in andThen (on_conn (insert_into_asset_ext_attributes D element_id extattributes False (Raw ''''))) (\<lambda>(reply2, err).
   if status reply2 = 0 then fail_with (jsonified reply2, links)
   else
     let rest =
       andThen (on_conn (insert_element_into_groups D groups element_id)) (\<lambda>reply3.
       if status reply3 = 0 \<and> affected_rows reply3 \<noteq> length groups then fail_with (jsonified reply3, links)
       else
         let links = map (\<lambda>one_link. one_link\<lparr> dest := element_id \<rparr>) links
         in andThen (on_conn (insert_into_asset_links D links)) (\<lambda>reply5.
       if affected_rows reply5 \<noteq> length links then fail_with (jsonified reply5, links)
       else
         andThen (on_conn (query (select_monitor_device_type_id D ''not_classified''))) (\<lambda>(reply_select, item).
       if status reply_select = 1
       then
         andThen (on_conn (insert_into_monitor_device D (u16 item) element_name)) (\<lambda>reply6.
         if status reply6 = 0 then fail_with (jsonified reply6, links)
         else
           andThen (on_conn (insert_into_monitor_asset_relation D (u16 (rowid reply6)) (u32 (rowid reply1)))) (\<lambda>reply7.
         if status reply7 = 0 then fail_with (jsonified reply7, links)
         else commit_with (jsonified reply1, links)))
       else if errsubtype reply_select = DB_ERROR_NOTFOUND D then commit_with (jsonified reply1, links)
       else fail_with (jsonified reply_select, links))))
     in case extattributesRO of
          None \<Rightarrow> rest
        | Some ro \<Rightarrow>
            andThen (on_conn (insert_into_asset_ext_attributes D element_id ro True (Raw ''''))) (\<lambda>(reply21, err).
            if status reply21 = 0 then fail_with (jsonified reply21, links) else rest))))"

subsection \<open>Deletions\<close>

definition delete_dc_room_row_rack ::
  "('d, 'h) asset_db \<Rightarrow> bool \<Rightarrow> nat \<Rightarrow> ('d, string, db_reply) prog"
where
  \<comment> \<open>\<open>override\<close>: the environment variable that allows the deletion of the last datacenter is set\<close>
  "delete_dc_room_row_rack D override element_id =
   with_transaction (
     let rest =
       andThen (on_conn (delete_asset_element_from_asset_groups D element_id)) (\<lambda>reply2.
       if status reply2 = 0 then fail_with (jsonified reply2)
       else
         andThen (on_conn (query (convert_asset_to_monitor D element_id))) (\<lambda>(rv, monitor_element_id).
       if rv \<noteq> 0 then ret (db_reply_new\<lparr> status := 0, errtype := rv, errsubtype := rv \<rparr>)
       else
         andThen (on_conn (delete_monitor_asset_relation_by_a D element_id)) (\<lambda>reply3.
       if status reply3 = 0 then fail_with (jsonified reply3)
       else
         andThen (on_conn (delete_asset_element D element_id)) (\<lambda>reply4.
       if status reply4 = 0 then fail_with (jsonified reply4)
       else commit_with (jsonified reply4)))))
     in if override then rest
        else
          andThen (on_conn (query (count_other_datacenters D element_id))) (\<lambda>numDatacentersAfterDelete.
          if numDatacentersAfterDelete = 0
          then ret (db_reply_new\<lparr> status := 0, errtype := DB_ERR D, errsubtype := DB_ERROR_DELETEFAIL D,
                 reply_msg := Translate ''will not allow last datacenter to be deleted'' [] \<rparr>)
          else rest))"

definition delete_group :: "('d, 'h) asset_db \<Rightarrow> nat \<Rightarrow> ('d, string, db_reply) prog" where
  "delete_group D element_id =
   with_transaction (
     andThen (on_conn (delete_asset_group_links D element_id)) (\<lambda>reply2.
     if status reply2 = 0 then fail_with (jsonified reply2)
     else
       andThen (on_conn (delete_asset_element D element_id)) (\<lambda>reply3.
     if status reply3 = 0 then fail_with (jsonified reply3)
     else commit_with (jsonified reply3))))"

definition delete_device :: "('d, 'h) asset_db \<Rightarrow> nat \<Rightarrow> string \<Rightarrow> ('d, string, db_reply) prog" where
  "delete_device D element_id asset_json =
   with_transaction (
     andThen (on_conn (delete_asset_element_from_asset_groups D element_id)) (\<lambda>reply2.
     if status reply2 = 0 then fail_with (jsonified reply2)
     else
       andThen (on_conn (delete_asset_links_to D element_id)) (\<lambda>reply3.
     if status reply3 = 0 then fail_with (jsonified reply3)
     else
       andThen (on_conn (delete_monitor_asset_relation_by_a D element_id)) (\<lambda>reply5.
     if status reply5 = 0 then fail_with (jsonified reply5)
     else
       andThen (on_conn (delete_asset_element D element_id)) (\<lambda>reply6.
     if status reply6 = 0 then fail_with (jsonified reply6)
     else
       andThen commit (\<lambda>_.
     if asset_json = '''' then ret (jsonified reply6)
     else (\<lambda>t.
       case on_conn (deactivate D asset_json) t of
         (Inl what, t) \<Rightarrow>
           ret (db_reply_new\<lparr> status := 0, errtype := DB_ERR D, errsubtype := DB_ERROR_INTERNAL D,
                  reply_msg := Raw what \<rparr>) t
       | (Inr _, t) \<Rightarrow> ret (jsonified reply6) t)))))))"

subsection \<open>Atomicity\<close>

lemmas tx_defs = update_dc_room_row_rack_group_def update_device_def insert_dc_room_row_rack_group_def
  insert_device_def delete_dc_room_row_rack_def delete_group_def delete_device_def

definition updated :: "int \<times> 'm \<Rightarrow> bool" where
  "updated r \<longleftrightarrow> fst r = 0"

definition done_reply :: "db_reply \<Rightarrow> bool" where
  "done_reply r \<longleftrightarrow> status r \<noteq> 0"

lemma restores_option [tx_intros]:
  "(x = None \<Longrightarrow> restores ok p) \<Longrightarrow> (\<And>y. x = Some y \<Longrightarrow> restores ok (q y)) \<Longrightarrow>
   restores ok (case x of None \<Rightarrow> p | Some y \<Rightarrow> q y)"
  by (cases x) simp_all

lemma restores_case_prod [tx_intros]:
  "(\<And>x y. restores ok (f x y)) \<Longrightarrow> restores ok ((\<lambda>(x, y). f x y) p)"
  by (cases p) simp

definition wf_body :: "('a \<Rightarrow> bool) \<Rightarrow> ('d, 'e, 'a) prog \<Rightarrow> bool" where
  "wf_body ok m \<longleftrightarrow> (\<forall>d r d'. m d = (r, d') \<longrightarrow> (case r of Inr x \<Rightarrow> \<not> ok x | Inl _ \<Rightarrow> True) \<longrightarrow> d' = d)"

lemma wf_with_transaction: "restores ok body \<Longrightarrow> wf_body ok (with_transaction body)"
  unfolding wf_body_def
  by (intro allI impI) (rule with_transaction_atomic)

lemma wf_body_query [tx_intros]: "(\<And>x. wf_body ok (f x)) \<Longrightarrow> wf_body ok (andThen (query q) f)"
  by (auto simp: wf_body_def andThen_def query_def split: sum.splits)

lemma wf_body_ret [tx_intros]: "wf_body ok (ret r)"
  by (simp add: wf_body_def)

lemma wf_body_if [tx_intros]:
  "(b \<Longrightarrow> wf_body ok p) \<Longrightarrow> (\<not> b \<Longrightarrow> wf_body ok q) \<Longrightarrow> wf_body ok (if b then p else q)"
  by simp

lemma fold_commit: "andThen commit (\<lambda>_. ret r) = commit_with r"
  by (simp add: commit_with_def)

declare wf_with_transaction [tx_intros]

lemma update_group_atomic:
  "wf_body updated (update_dc_room_row_rack_group D i n p e st pr gs tag err ro)"
  unfolding update_dc_room_row_rack_group_def Let_def
  by (rule wf_with_transaction)
     (intro tx_intros | simp add: updated_def)+

lemma update_device_restores:
  "restores updated (update_device D i n p e st pr gs ls tag err ro)"
  unfolding update_device_def Let_def
  by (intro tx_intros | simp add: updated_def)+

lemma insert_device_restores:
  "restores (\<lambda>r. done_reply (fst r)) (insert_device D ls gs n p e ty st pr tag ro)"
  unfolding insert_device_def Let_def
  by (intro tx_intros | simp add: done_reply_def)+

lemma delete_dc_atomic: "wf_body done_reply (delete_dc_room_row_rack D ov i)"
  unfolding delete_dc_room_row_rack_def Let_def
  by (rule wf_with_transaction) (intro tx_intros | simp add: done_reply_def)+

lemma delete_group_atomic: "wf_body done_reply (delete_group D i)"
  unfolding delete_group_def Let_def
  by (rule wf_with_transaction) (intro tx_intros | simp add: done_reply_def)+

lemma insert_group_atomic:
  "wf_body done_reply (insert_dc_room_row_rack_group D n ty p e st pr gs tag ro)"
  unfolding insert_dc_room_row_rack_group_def Let_def
  by (intro tx_intros | simp add: done_reply_def)+

lemma delete_device_atomic: "wf_body done_reply (delete_device D i [])"
  unfolding delete_device_def Let_def simp_thms(6) if_True fold_commit
  by (rule wf_with_transaction) (intro tx_intros | simp add: done_reply_def)+

text \<open>The operations as the requests a client sends, each in its own transaction.\<close>

datatype 'h asset_op =
    Update_group nat string nat 'h string nat "nat list" string "'h option"
  | Update_device nat string nat 'h string nat "nat list" "link list" string "'h option"
  | Insert_group string nat nat 'h string nat "nat list" string "'h option"
  | Insert_device "link list" "nat list" string nat 'h nat string nat string "'h option"
  | Delete_dc nat
  | Delete_group nat
  | Delete_device nat string \<comment> \<open>the identifier, and the asset as JSON when it is to be deactivated\<close>

datatype op_result = Code int | Reply db_reply | Exception string

fun succeeded_op :: "op_result \<Rightarrow> bool" where
  "succeeded_op (Code c) = (c = 0)"
| "succeeded_op (Reply r) = (status r \<noteq> 0)"
| "succeeded_op (Exception e) = False"

definition result_of :: "('a \<Rightarrow> op_result) \<Rightarrow> (string + 'a) \<times> 'd \<Rightarrow> op_result \<times> 'd" where
  "result_of f p = (case fst p of Inl e \<Rightarrow> Exception e | Inr x \<Rightarrow> f x, snd p)"

fun run_op :: "('d, 'h) asset_db \<Rightarrow> bool \<Rightarrow> 'h asset_op \<Rightarrow> 'd \<Rightarrow> op_result \<times> 'd" where
  "run_op D ov (Update_group i n p e st pr gs tag ro) d =
     result_of (\<lambda>(c, m). Code c) (update_dc_room_row_rack_group D i n p e st pr gs tag (Raw '''') ro d)"
| "run_op D ov (Update_device i n p e st pr gs ls tag ro) d =
     result_of (\<lambda>(c, m, ls). Code c)
       (with_transaction (update_device D i n p e st pr gs ls tag (Raw '''') ro) d)"
| "run_op D ov (Insert_group n ty p e st pr gs tag ro) d =
     result_of Reply (insert_dc_room_row_rack_group D n ty p e st pr gs tag ro d)"
| "run_op D ov (Insert_device ls gs n p e ty st pr tag ro) d =
     result_of (\<lambda>(r, ls). Reply r) (with_transaction (insert_device D ls gs n p e ty st pr tag ro) d)"
| "run_op D ov (Delete_dc i) d = result_of Reply (delete_dc_room_row_rack D ov i d)"
| "run_op D ov (Delete_group i) d = result_of Reply (delete_group D i d)"
| "run_op D ov (Delete_device i json) d = result_of Reply (delete_device D i json d)"

lemma result_of_atomic:
  assumes "wf_body ok m" and "\<And>x. ok x \<Longrightarrow> succeeded_op (f x)"
    and "result_of f (m d) = (r, d')" and "\<not> succeeded_op r"
  shows "d' = d"
proof -
  obtain q u where m: "m d = (q, u)" by force
  have "u = d" if "case q of Inr x \<Rightarrow> \<not> ok x | Inl _ \<Rightarrow> True"
    using assms(1) [unfolded wf_body_def, rule_format, OF m that] .
  with m assms(2-4) show ?thesis by (cases q) (auto simp: result_of_def)
qed

text \<open>
  The deletion of a device has one step after its commit, the deactivation of the licence. The
  specification of the state that step works on is the sequence of the four deletions, each of
  which must answer with a status that is not 0.
\<close>

fun statements_done :: "('d, string, db_reply) prog list \<Rightarrow> 'd \<Rightarrow> 'd option" where
  "statements_done [] d = Some d"
| "statements_done (p # ps) d =
     (case p d of (Inr r, d1) \<Rightarrow> if status r \<noteq> 0 then statements_done ps d1 else None | _ \<Rightarrow> None)"

definition device_deletions :: "('d, 'h) asset_db \<Rightarrow> nat \<Rightarrow> ('d, string, db_reply) prog list" where
  "device_deletions D i =
     [delete_asset_element_from_asset_groups D i, delete_asset_links_to D i,
      delete_monitor_asset_relation_by_a D i, delete_asset_element D i]"

definition failed_after_commit :: "('d, 'h) asset_db \<Rightarrow> 'h asset_op \<Rightarrow> 'd \<Rightarrow> (string \<times> 'd) option" where
  \<comment> \<open>the exception of the deactivation and the state it leaves, when it is reached and throws\<close>
  "failed_after_commit D x d =
     (case x of
        Delete_device i json \<Rightarrow>
          if json = '''' then None
          else (case statements_done (device_deletions D i) d of
                  None \<Rightarrow> None
                | Some d1 \<Rightarrow> (case deactivate D json d1 of (Inl e, d2) \<Rightarrow> Some (e, d2) | (Inr u, d2) \<Rightarrow> None))
      | _ \<Rightarrow> None)"

definition deactivation_reply :: "('d, 'h) asset_db \<Rightarrow> string \<Rightarrow> db_reply" where
  "deactivation_reply D e =
     db_reply_new\<lparr> status := 0, errtype := DB_ERR D, errsubtype := DB_ERROR_INTERNAL D, reply_msg := Raw e \<rparr>"

lemmas tx_run = delete_device_def with_transaction_def andThen_def on_conn_def commit_def fail_with_def rollback_def

lemma delete_device_deactivation:
  "delete_device D i json d =
     (case delete_device D i [] d of
        (Inr r, d1) \<Rightarrow>
          if status r \<noteq> 0 \<and> json \<noteq> []
          then (case deactivate D json d1 of
                  (Inl e, d2) \<Rightarrow> (Inr (deactivation_reply D e), d2) | (Inr u, d2) \<Rightarrow> (Inr r, d2))
          else (Inr r, d1)
      | (Inl e, d1) \<Rightarrow> (Inl e, d1))"
proof -
  obtain q2 d2 where s2: "delete_asset_element_from_asset_groups D i d = (q2, d2)" by force
  obtain q3 d3 where s3: "delete_asset_links_to D i d2 = (q3, d3)" by force
  obtain q5 d5 where s5: "delete_monitor_asset_relation_by_a D i d3 = (q5, d5)" by force
  obtain q6 d6 where s6: "delete_asset_element D i d5 = (q6, d6)" by force
  obtain q7 d7 where s7: "deactivate D json d6 = (q7, d7)" by force
  show ?thesis
    by (cases q2; cases q3; cases q5; cases q6; cases q7)
       (simp_all add: tx_run s2 s3 s5 s6 s7 deactivation_reply_def)
qed

lemma device_deletions_done:
  "statements_done (device_deletions D i) d =
     (case delete_device D i [] d of
        (Inr r, d1) \<Rightarrow> if status r \<noteq> 0 then Some d1 else None | (Inl e, d1) \<Rightarrow> None)"
proof -
  obtain q2 d2 where s2: "delete_asset_element_from_asset_groups D i d = (q2, d2)" by force
  obtain q3 d3 where s3: "delete_asset_links_to D i d2 = (q3, d3)" by force
  obtain q5 d5 where s5: "delete_monitor_asset_relation_by_a D i d3 = (q5, d5)" by force
  obtain q6 d6 where s6: "delete_asset_element D i d5 = (q6, d6)" by force
  show ?thesis
    by (cases q2; cases q3; cases q5; cases q6) (simp_all add: tx_run s2 s3 s5 s6 device_deletions_def)
qed

lemma delete_device_failed:
  assumes "delete_device D i json d = (q, d')" and "case q of Inr r \<Rightarrow> status r = 0 | Inl _ \<Rightarrow> True"
  shows "case failed_after_commit D (Delete_device i json) d of
           None \<Rightarrow> d' = d | Some (e, d2) \<Rightarrow> d' = d2 \<and> q = Inr (deactivation_reply D e)"
proof -
  obtain p d1 where del: "delete_device D i [] d = (p, d1)" by force
  have same: "d1 = d" if "case p of Inr r \<Rightarrow> status r = 0 | Inl _ \<Rightarrow> True"
    using delete_device_atomic [unfolded wf_body_def, rule_format, OF del] that
    by (simp add: done_reply_def split: sum.splits)
  from assms same show ?thesis
    unfolding delete_device_deactivation [of D i json] failed_after_commit_def asset_op.case
      device_deletions_done del
    by (auto split: sum.splits prod.splits if_splits)
qed

lemma run_op_failed:
  assumes "run_op D ov x d = (r, d')" and "\<not> succeeded_op r"
  shows "case failed_after_commit D x d of
           None \<Rightarrow> d' = d | Some (e, d2) \<Rightarrow> d' = d2 \<and> r = Reply (deactivation_reply D e)"
proof (cases x)
  case (Update_group i n p e st pr gs tag ro)
  with assms result_of_atomic [OF update_group_atomic, of "\<lambda>(c, m). Code c"] show ?thesis
    by (fastforce simp: updated_def failed_after_commit_def)
next
  case (Update_device i n p e st pr gs ls tag ro)
  with assms result_of_atomic [OF wf_with_transaction [OF update_device_restores], of "\<lambda>(c, m, ls). Code c"]
  show ?thesis by (fastforce simp: updated_def failed_after_commit_def)
next
  case (Insert_group n ty p e st pr gs tag ro)
  with assms result_of_atomic [OF insert_group_atomic, of Reply] show ?thesis
    by (fastforce simp: done_reply_def failed_after_commit_def)
next
  case (Insert_device ls gs n p e ty st pr tag ro)
  with assms result_of_atomic [OF wf_with_transaction [OF insert_device_restores], of "\<lambda>(r, ls). Reply r"]
  show ?thesis by (fastforce simp: done_reply_def failed_after_commit_def)
next
  case (Delete_dc i)
  with assms result_of_atomic [OF delete_dc_atomic, of Reply] show ?thesis
    by (fastforce simp: done_reply_def failed_after_commit_def)
next
  case (Delete_group i)
  with assms result_of_atomic [OF delete_group_atomic, of Reply] show ?thesis
    by (fastforce simp: done_reply_def failed_after_commit_def)
next
  case (Delete_device i json)
  obtain q e where del: "delete_device D i json d = (q, e)" by force
  with assms Delete_device have "e = d'" and r: "r = (case q of Inl e \<Rightarrow> Exception e | Inr x \<Rightarrow> Reply x)"
    by (simp_all add: result_of_def)
  moreover from r assms(2) have "case q of Inr r \<Rightarrow> status r = 0 | Inl _ \<Rightarrow> True"
    by (cases q) simp_all
  ultimately show ?thesis
    using delete_device_failed [OF del] Delete_device by (auto split: option.splits sum.splits)
qed

text \<open>
  An operation has an effect when it succeeds and when it fails after its commit: of these two
  kinds apart, it is one of the \<^const>\<open>atomic_operations\<close>.
\<close>

definition run_effect :: "('d, 'h) asset_db \<Rightarrow> bool \<Rightarrow> 'h asset_op \<Rightarrow> 'd \<Rightarrow> (op_result \<times> bool) \<times> 'd" where
  "run_effect D ov x d =
     ((fst (run_op D ov x d), failed_after_commit D x d \<noteq> None), snd (run_op D ov x d))"

definition effective :: "op_result \<times> bool \<Rightarrow> bool" where
  "effective r \<longleftrightarrow> succeeded_op (fst r) \<or> snd r"

lemma run_effect_atomic: "run_effect D ov x d = (r, d') \<Longrightarrow> \<not> effective r \<Longrightarrow> d' = d"
  using run_op_failed [of D ov x d "fst r" d']
  by (auto simp: run_effect_def effective_def split: option.splits)

interpretation asset_ops: atomic_operations "run_effect D ov" effective for D ov
  by unfold_locales (rule run_effect_atomic)

lemma batch_failed_first:
  assumes "run_op D ov x d = (r, d')" and "\<not> succeeded_op r" and "failed_after_commit D x d = None"
  shows "asset_ops.batch D ov (x # ops) d = asset_ops.batch D ov (asset_ops.succeeded D ov ops d) d"
proof -
  have "\<not> effective (fst (run_effect D ov x d))"
    using assms by (simp add: run_effect_def effective_def)
  then show ?thesis
    using asset_ops.batch_succeeded [of D ov "x # ops" d] asset_ops.failed_step [of D ov x d] by simp
qed

subsection \<open>A data base that records its statements\<close>

text \<open>
  For concrete runs: the data base is the list of the statements executed, each of which succeeds
  unless it is the one named \<open>bad\<close>; a deactivation fails when \<open>bad\<close> is ''deactivate''.
\<close>

definition logged :: "string \<Rightarrow> string \<Rightarrow> nat \<Rightarrow> (string list, string, db_reply) prog" where
  "logged bad stm n = (\<lambda>d. (Inr (db_reply_new\<lparr> status := (if stm = bad then 0 else 1), rowid := 7, affected_rows := n \<rparr>),
                             d @ [stm]))"

definition logging_db :: "string \<Rightarrow> nat \<Rightarrow> (string list, 'h) asset_db" where
  "logging_db bad dcs =
     \<lparr> DB_ERR = 1, DB_ERROR_BADINPUT = 2, DB_ERROR_DELETEFAIL = 3, DB_ERROR_NOTFOUND = 4, DB_ERROR_INTERNAL = 5,
       DATACENTER = 2, RACK = 5, DEVICE = 6,
       extname_to_asset_id = (\<lambda>n d. Inr (- 1)), typeid_to_type = (\<lambda>i. ''rack''), subtypeid_to_subtype = (\<lambda>i. ''ups''),
       update_asset_element = (\<lambda>i n p s pr t d. (Inr (if bad = ''update'' then (1, 0) else (0, 1)), d @ [''update''])),
       delete_asset_ext_attributes_with_ro = (\<lambda>i b. logged bad ''delete_ext'' 1),
       insert_into_asset_ext_attributes = (\<lambda>i h b m. andThen (logged bad (if b then ''insert_ro'' else ''insert_ext'') 1) (\<lambda>r. ret (r, m))),
       delete_asset_element_from_asset_groups = (\<lambda>i. logged bad ''delete_from_groups'' 1),
       insert_element_into_groups = (\<lambda>gs i. logged bad ''insert_into_groups'' (length gs)),
       delete_asset_links_to = (\<lambda>i. logged bad ''delete_links'' 1),
       insert_into_asset_links = (\<lambda>ls. logged bad ''insert_links'' (length ls)),
       insert_into_asset_element = (\<lambda>n t p s pr st tag u. logged bad ''insert_element'' 1),
       insert_into_monitor_device = (\<lambda>t n. logged bad ''insert_monitor'' 1),
       insert_into_monitor_asset_relation = (\<lambda>m a. logged bad ''insert_relation'' 1),
       select_monitor_device_type_id = (\<lambda>n d. Inr (db_reply_new, 1)),
       count_other_datacenters = (\<lambda>i d. Inr dcs),
       convert_asset_to_monitor = (\<lambda>i d. Inr (0, 1)),
       delete_monitor_asset_relation_by_a = (\<lambda>i. logged bad ''delete_relation'' 1),
       delete_asset_element = (\<lambda>i. logged bad ''delete_element'' 1),
       delete_asset_group_links = (\<lambda>i. logged bad ''delete_group_links'' 1),
       deactivate = (\<lambda>j d. if bad = ''deactivate'' then (Inl ''no licensing agent'', d) else (Inr (), d)) \<rparr>"

abbreviation log_db :: "string \<Rightarrow> nat \<Rightarrow> (string list, unit) asset_db" where
  "log_db \<equiv> logging_db"

subsection \<open>Properties\<close>

text \<open>C1. Every operation is atomic up to its commit. An update, an insertion or a deletion that does
  not succeed, by any of its error codes or by an exception of the data base, leaves the data base
  as it was, with one exception: the deletion of a device with a licence, when the four deletions
  succeed and the deactivation that follows their commit throws. Then the reply is the failure with
  the message of that exception, and the state is the one after the four deletions and the failed
  deactivation. In a batch of operations the failed ones might as well not have been attempted, when
  they did not fail after their commit.\<close>

theorem asset_operations_atomic:
  assumes "run_op D ov x d = (r, d')" and "\<not> succeeded_op r"
  shows "case failed_after_commit D x d of
           None \<Rightarrow> d' = d \<and>
             asset_ops.batch D ov (x # ops) d = asset_ops.batch D ov (asset_ops.succeeded D ov ops d) d
         | Some (e, d2) \<Rightarrow> d' = d2 \<and> r = Reply (deactivation_reply D e)"
  using run_op_failed [OF assms] batch_failed_first [OF assms, of ops]
  by (simp split: option.splits prod.splits)

theorem asset_operations_atomic_witness:
  "(\<exists>r. run_op (log_db ''delete_links'' 1) False (Update_device 5 ''ups'' 1 () ''active'' 1 [] [] '''' None) [''before''] =
     (r, [''before'']) \<and> \<not> succeeded_op r) \<and>
   (\<exists>r. run_op (log_db ''deactivate'' 1) False (Delete_device 5 ''{}'') [] =
     (r, [''delete_from_groups'', ''delete_links'', ''delete_relation'', ''delete_element'']) \<and> \<not> succeeded_op r)"
  (is "(\<exists>r. ?run = (r, _) \<and> _ r) \<and> (\<exists>r. ?del = (r, _) \<and> _)")
proof
  let ?x = "Update_device 5 ''ups'' 1 () ''active'' 1 [] [] '''' None"
  obtain r d' where run: "?run = (r, d')" by force
  have "\<not> succeeded_op (fst ?run)" by code_simp
  with run have bad: "\<not> succeeded_op r" by simp
  have "failed_after_commit (log_db ''delete_links'' 1) ?x [''before''] = None"
    by (simp add: failed_after_commit_def)
  with asset_operations_atomic [OF run bad] run bad show "\<exists>r. ?run = (r, [''before'']) \<and> \<not> succeeded_op r"
    by simp
next
  let ?y = "Delete_device 5 ''{}'' :: unit asset_op"
  obtain r d' where run: "?del = (r, d')" by force
  have "\<not> succeeded_op (fst ?del)" by code_simp
  with run have bad: "\<not> succeeded_op r" by simp
  have "failed_after_commit (log_db ''deactivate'' 1) ?y [] =
      Some (''no licensing agent'', [''delete_from_groups'', ''delete_links'', ''delete_relation'', ''delete_element''])"
    by (simp add: failed_after_commit_def device_deletions_def logging_db_def logged_def db_reply_new_def)
  with asset_operations_atomic [OF run bad] run bad
  show "\<exists>r. ?del = (r, [''delete_from_groups'', ''delete_links'', ''delete_relation'', ''delete_element'']) \<and>
      \<not> succeeded_op r" by simp
qed

text \<open>The last datacenter is kept: when no datacenter would be left and the override is not set,
  the deletion is refused with the error code of a failed deletion and the data base does not
  change, whatever the data base functions do.\<close>

theorem last_datacenter_kept:
  assumes "count_other_datacenters D element_id d = Inr 0"
  shows "\<exists>r. delete_dc_room_row_rack D False element_id d = (Inr r, d) \<and>
             status r = 0 \<and> errsubtype r = DB_ERROR_DELETEFAIL D"
  using assms
  by (simp add: delete_dc_room_row_rack_def with_transaction_def andThen_def on_conn_def query_def Let_def)

theorem last_datacenter_kept_witness:
  "snd (delete_dc_room_row_rack (log_db '''' 0) False 3 [''before'']) = [''before'']"
  using last_datacenter_kept [of "log_db '''' 0" 3 "[''before'']"] by (auto simp: logging_db_def)

text \<open>An update of a datacenter, room, row, rack or group never stores the read-only attributes it
  is given: its effect and its result are the same for any two hashes of read-only attributes (the
  code inserts the ordinary attributes a second time instead).\<close>

theorem update_ignores_readonly_attributes:
  "update_dc_room_row_rack_group D i n p e st pr gs tag err (Some ro) =
   update_dc_room_row_rack_group D i n p e st pr gs tag err (Some ro')"
  unfolding update_dc_room_row_rack_group_def Let_def option.case by (rule refl)

text \<open>The deletion of a device can report a failure after it has been committed: when the
  deactivation of the licence throws, the reply has status 0, but the device is gone from the data
  base: its state is the one after the four deletions.\<close>

theorem delete_device_fails_after_commit:
  assumes "json \<noteq> ''''"
    and "delete_asset_element_from_asset_groups D i d = (Inr r2, d2)" and "status r2 \<noteq> 0"
    and "delete_asset_links_to D i d2 = (Inr r3, d3)" and "status r3 \<noteq> 0"
    and "delete_monitor_asset_relation_by_a D i d3 = (Inr r5, d5)" and "status r5 \<noteq> 0"
    and "delete_asset_element D i d5 = (Inr r6, d6)" and "status r6 \<noteq> 0"
    and "deactivate D json d6 = (Inl what, d6)"
  shows "\<exists>r. delete_device D i json d = (Inr r, d6) \<and> status r = 0 \<and> reply_msg r = Raw what"
  using assms
  by (simp add: delete_device_def with_transaction_def andThen_def on_conn_def commit_def fail_with_def rollback_def)

theorem delete_device_fails_after_commit_witness:
  "\<exists>r. delete_device (log_db ''deactivate'' 1) 5 ''{}'' [] =
     (Inr r, [''delete_from_groups'', ''delete_links'', ''delete_relation'', ''delete_element'']) \<and> status r = 0"
proof -
  let ?r = "db_reply_new\<lparr> rowid := 7, affected_rows := 1 \<rparr>"
  have "\<exists>r. delete_device (log_db ''deactivate'' 1) 5 ''{}'' [] =
      (Inr r, [''delete_from_groups'', ''delete_links'', ''delete_relation'', ''delete_element'']) \<and>
      status r = 0 \<and> reply_msg r = Raw ''no licensing agent''"
    by (rule delete_device_fails_after_commit
        [where ?r2.0 = ?r and ?r3.0 = ?r and ?r5.0 = ?r and ?r6.0 = ?r and ?d2.0 = "[''delete_from_groups'']"
          and ?d3.0 = "[''delete_from_groups'', ''delete_links'']"
          and ?d5.0 = "[''delete_from_groups'', ''delete_links'', ''delete_relation'']"])
       (simp_all add: logging_db_def logged_def db_reply_new_def)
  then show ?thesis by blast
qed

end
