(* ===== verification/AssetManager.thy ===== *)
theory AssetManager
  imports AssetGeneral "HOL-Library.Multiset"
begin

text \<open>
  \<open>src/shared/data.cc\<close>, class \<open>asset_manager\<close>: reading one asset with its attributes, groups,
  power links and parents, and deleting one asset or a list of assets with the checks on children
  and links. The queries are parameters, functions of the data base that may throw; they extend the
  record of \<open>AssetDb\<close>.
\<close>

record basic_element =
  be_id :: nat
  be_name :: string
  be_type_id :: nat
  be_type_name :: string
  be_subtype_id :: nat
  be_subtype_name :: string
  be_parent_id :: nat
  be_status :: string
  be_priority :: nat
  be_asset_tag :: string

record tmp_link = \<comment> \<open>\<open>db_tmp_link_t\<close>: a power link of a device\<close>
  tl_src_id :: nat
  tl_src_name :: string
  tl_src_socket :: string
  tl_dest_socket :: string

record 'e item_error =
  err_type :: int
  err_subtype :: int
  err_msg :: 'e

datatype 'a reply = Failed "msg item_error" | Item 'a

record parent_columns = \<comment> \<open>the four columns of one level of \<open>select_asset_element_super_parent\<close>\<close>
  id_parent :: "nat option"
  parent_name :: "string option"
  id_type_parent :: "nat option"
  id_subtype_parent :: "nat option"

record asset_row = \<comment> \<open>a row of \<open>select_assets_cb\<close>\<close>
  ar_id :: nat
  ar_type :: nat
  ar_subtype :: nat
  ar_name :: string
  ar_parent :: "string + nat" \<comment> \<open>what \<open>getInt\<close> of the column throws or returns\<close>

record ('d, 'h) manager_db = "('d, 'h) asset_db" +
  ROOM :: nat
  ROW :: nat
  GROUP :: nat
  TUNKNOWN :: nat
  SUNKNOWN :: nat
  DB_ERROR_UNKNOWN :: int
  type_to_typeid :: "string \<Rightarrow> nat"
  subtype_to_subtypeid :: "string \<Rightarrow> nat"
  connect_error :: "string option" \<comment> \<open>\<open>tntdb::connect\<close> throws\<close>
  select_asset_element_web_byId :: "nat \<Rightarrow> 'd \<Rightarrow> string + basic_element reply"
  select_ext_attributes :: "nat \<Rightarrow> 'd \<Rightarrow> string + (string \<times> string \<times> bool) list reply"
  select_asset_element_groups :: "nat \<Rightarrow> 'd \<Rightarrow> string + (nat \<times> string) list reply"
  select_asset_device_links_to :: "nat \<Rightarrow> 'd \<Rightarrow> string + tmp_link list reply"
  select_asset_element_super_parent :: "nat \<Rightarrow> 'd \<Rightarrow> string + int \<times> parent_columns list list"
  select_short_elements :: "nat \<Rightarrow> nat \<Rightarrow> 'd \<Rightarrow> string + (nat \<times> string) list reply"
  count_keytag :: "string \<Rightarrow> string \<Rightarrow> 'd \<Rightarrow> string + int"
  getJsonAsset :: "nat \<Rightarrow> 'd \<Rightarrow> string + string"
  select_assets_rows :: "'d \<Rightarrow> asset_row list" \<comment> \<open>the rows \<open>select_assets_cb\<close> hands to its callback\<close>
  callback_errors_caught :: bool \<comment> \<open>whether \<open>select_assets_cb\<close> swallows what its callback throws\<close>
  select_links_from :: "nat \<Rightarrow> 'd \<Rightarrow> string + nat list" \<comment> \<open>the statement of \<open>selectAnyLinks\<close>\<close>

definition RC0_INAME :: string where
  "RC0_INAME = ''rackcontroller-0''"

subsection \<open>Reading one asset\<close>

definition parents_of_row ::
  "('d, 'h) manager_db \<Rightarrow> parent_columns list \<Rightarrow> (nat \<times> string \<times> string \<times> string) list" where
  \<comment> \<open>the callback of \<open>s_get_parents\<close> on one row of ten levels\<close>
  "parents_of_row D levels =
     concat (map (\<lambda>it.
       let id1 = (case id_parent it of Some i \<Rightarrow> i | None \<Rightarrow> 0);
           name = (case parent_name it of Some n \<Rightarrow> n | None \<Rightarrow> '''');
           id_type = (case id_type_parent it of Some i \<Rightarrow> i | None \<Rightarrow> 0);
           id_subtype = (case id_subtype_parent it of Some i \<Rightarrow> i | None \<Rightarrow> 0)
       in if name \<noteq> '''' then [(id1, name, typeid_to_type D id_type, subtypeid_to_subtype D id_subtype)] else [])
       levels)"

definition s_get_parents ::
  "('d, 'h) manager_db \<Rightarrow> nat \<Rightarrow> 'd \<Rightarrow> string + (nat \<times> string \<times> string \<times> string) list" where
  "s_get_parents D i d =
     bindE (select_asset_element_super_parent D i d) (\<lambda>(r, rows).
       if r = - 1 then Inl ''DBAssets::select_asset_element_super_parent () failed.''
       else Inr (concat (map (parents_of_row D) rows)))"

record web_element =
  basic :: basic_element
  ext :: "(string \<times> string \<times> bool) list"
  groups :: "(nat \<times> string) list"
  powers :: "tmp_link list"
  parents :: "(nat \<times> string \<times> string \<times> string) list"

definition connected :: "('d, 'h) manager_db \<Rightarrow> string + 'a \<Rightarrow> string + 'a" where
  "connected D m = (case connect_error D of Some what \<Rightarrow> Inl what | None \<Rightarrow> m)"

definition failed :: "msg item_error \<Rightarrow> 'a reply" where
  "failed e = Failed (e\<lparr> err_msg := Jsonify (err_msg e) \<rparr>)"

definition get_item1_body :: "('d, 'h) manager_db \<Rightarrow> nat \<Rightarrow> 'd \<Rightarrow> string + web_element reply" where
  \<comment> \<open>inside the \<open>try\<close>\<close>
  "get_item1_body D i d =
     bindE (select_asset_element_web_byId D i d) (\<lambda>basic_ret.
     case basic_ret of Failed e \<Rightarrow> Inr (failed e) | Item b \<Rightarrow>
     bindE (select_ext_attributes D i d) (\<lambda>ext_ret.
     case ext_ret of Failed e \<Rightarrow> Inr (failed e) | Item x \<Rightarrow>
     bindE (select_asset_element_groups D i d) (\<lambda>group_ret.
     case group_ret of Failed e \<Rightarrow> Inr (failed e) | Item g \<Rightarrow>
     bindE (if be_type_id b = DEVICE D then select_asset_device_links_to D i d else Inr (Item [])) (\<lambda>powers_ret.
     case powers_ret of Failed e \<Rightarrow> Inr (failed e) | Item p \<Rightarrow>
     bindE (s_get_parents D i d) (\<lambda>ps.
       Inr (Item \<lparr> basic = b, ext = x, groups = g, powers = p, parents = ps \<rparr>))))))"

definition get_item1 :: "('d, 'h) manager_db \<Rightarrow> nat \<Rightarrow> 'd \<Rightarrow> web_element reply" where
  "get_item1 D i d =
     (case connected D (get_item1_body D i d) of
        Inr r \<Rightarrow> r
      | Inl what \<Rightarrow> Failed \<lparr> err_type = DB_ERR D, err_subtype = DB_ERROR_INTERNAL D, err_msg = Jsonify (Raw what) \<rparr>)"

datatype items_error = Bad_param string string string | Internal msg

definition get_items1 ::
  "('d, 'h) manager_db \<Rightarrow> string \<Rightarrow> string \<Rightarrow> 'd \<Rightarrow> items_error + (nat \<times> string) list" where
  "get_items1 D typeName subtypeName d =
     (let type_id = type_to_typeid D typeName
      in if type_id = TUNKNOWN D
         then Inl (Bad_param ''type'' typeName ''datacenters,rooms,ros,racks,devices'')
         else
           let subtype_id = (if typeName = ''device'' \<and> subtypeName \<noteq> ''''
                             then subtype_to_subtypeid D subtypeName else 0)
           in if typeName = ''device'' \<and> subtypeName \<noteq> '''' \<and> subtype_id = SUNKNOWN D
              then Inl (Bad_param ''subtype'' subtypeName ''ups, epdu, pdu, genset, sts, server, feed'')
              else (case connected D (select_short_elements D type_id subtype_id d) of
                      Inl what \<Rightarrow> Inl (Internal (Raw what))
                    | Inr (Failed e) \<Rightarrow> Inl (Internal (err_msg e))
                    | Inr (Item m) \<Rightarrow> Inr m))"

subsection \<open>Deleting one asset\<close>

record db_a_elmnt =
  el_id :: nat
  el_name :: string
  el_status :: string
  el_parent_id :: nat
  el_type_id :: nat
  el_subtype_id :: nat

definition fail_reply :: "int \<Rightarrow> int \<Rightarrow> msg \<Rightarrow> db_reply" where
  "fail_reply t s m = db_reply_new\<lparr> status := 0, errtype := t, errsubtype := s, reply_msg := m \<rparr>"

text \<open>
  The body of the \<open>try\<close> of \<open>delete_item(id, element_info)\<close>: the reply and the name, type and
  subtype written to \<open>element_info\<close>, \<open>None\<close> when it is left alone.
\<close>

definition delete_item_body ::
  "('d, 'h) manager_db \<Rightarrow> bool \<Rightarrow> nat \<Rightarrow> ('d, string, db_reply \<times> basic_element option) prog" where
  "delete_item_body D override i =
     andThen (query (select_asset_element_web_byId D i)) (\<lambda>basic_info.
     case basic_info of
       Failed e \<Rightarrow>
         ret (fail_reply (err_subtype e) (DB_ERROR_NOTFOUND D) (Translate ''problem with selecting basic info'' []), None)
     | Item b \<Rightarrow>
         if be_name b = RC0_INAME then ret (db_reply_new\<lparr> status := 1, affected_rows := 0 \<rparr>, Some b)
         else
           andThen (query (count_keytag D ''logical_asset'' (be_name b))) (\<lambda>n.
           if n > 0
           then ret (fail_reply 0 (DB_ERROR_DELETEFAIL D) (Translate ''a logical_asset (sensor) refers to it'' []), Some b)
           else
             andThen
               (if be_type_id b \<in> {DATACENTER D, ROW D, ROOM D, RACK D}
                then delete_dc_room_row_rack (asset_db.truncate D) override i
                else if be_type_id b = GROUP D then delete_group (asset_db.truncate D) i
                else if be_type_id b = DEVICE D
                then if be_status b = ''active''
                     then andThen (query (getJsonAsset D i)) (delete_device (asset_db.truncate D) i)
                     else delete_device (asset_db.truncate D) i ''''
                else ret (fail_reply 0 (DB_ERROR_INTERNAL D) (Translate ''unknown type'' [])))
               (\<lambda>r. ret (r, Some b))))"

definition delete_item ::
  "('d, 'h) manager_db \<Rightarrow> bool \<Rightarrow> nat \<Rightarrow> 'd \<Rightarrow> (db_reply \<times> basic_element option) \<times> 'd" where
  "delete_item D override i d =
     (case connect_error D of
        Some what \<Rightarrow> ((fail_reply (DB_ERR D) (DB_ERROR_INTERNAL D) (Raw what), None), d)
      | None \<Rightarrow>
          (case delete_item_body D override i d of
             (Inr r, d') \<Rightarrow> (r, d')
           | (Inl what, d') \<Rightarrow> ((fail_reply (DB_ERR D) (DB_ERROR_INTERNAL D) (Raw what), None), d')))"

subsection \<open>Deleting a list of assets: the collection\<close>

record check_exception = \<comment> \<open>\<open>CheckException\<close>\<close>
  ce_id :: nat
  ce_msg :: msg
  ce_type :: int
  ce_subtype :: int

datatype thrown = Check check_exception | Other string

definition check_exception_of :: "('d, 'h) manager_db \<Rightarrow> nat \<Rightarrow> msg \<Rightarrow> thrown" where
  \<comment> \<open>the constructor with its default arguments\<close>
  "check_exception_of D i m =
     Check \<lparr> ce_id = i, ce_msg = m, ce_type = DB_ERR D, ce_subtype = DB_ERROR_UNKNOWN D \<rparr>"

fun what :: "thrown \<Rightarrow> msg" where
  "what (Check e) = ce_msg e"
| "what (Other w) = Raw w"

record info = \<comment> \<open>\<open>ElementInfo\<close>\<close>
  el :: db_a_elmnt
  links :: "nat list"

abbreviation iid :: "info \<Rightarrow> nat" where
  "iid x \<equiv> el_id (el x)"

definition checkAndAddInfo :: "('d, 'h) manager_db \<Rightarrow> info \<Rightarrow> info list \<Rightarrow> thrown + info list" where
  "checkAndAddInfo D item ids =
     (if list_ex (\<lambda>check. iid check = iid item) ids then Inr ids
      else if el_name (el item) = RC0_INAME
      then Inl (check_exception_of D (iid item) (Raw ''Prevented deleting RC-0''))
      else Inr (ids @ [item]))"

definition info_of_row :: "asset_row \<Rightarrow> nat \<Rightarrow> info" where
  "info_of_row row p =
     \<lparr> el = \<lparr> el_id = ar_id row, el_name = ar_name row, el_status = '''', el_parent_id = p,
             el_type_id = ar_type row, el_subtype_id = ar_subtype row \<rparr>, links = [] \<rparr>"

definition swallow :: "bool \<Rightarrow> thrown option \<times> info list \<Rightarrow> thrown option \<times> info list" where
  \<comment> \<open>the return of \<open>select_assets_cb\<close> when its callback has thrown\<close>
  "swallow caught = map_prod (\<lambda>e. if caught then None else e) id"

text \<open>
  The run of \<open>select_assets_cb\<close> in \<open>collectChildren(conn, id, ids)\<close> over the rows still to come: the
  callback calls \<open>collectChildren\<close> for the row, a new run over all the rows. On a cycle of parents the
  recursion does not end: the result is \<open>None\<close>.
\<close>

partial_function (option) collect_rows ::
  "('d, 'h) manager_db \<Rightarrow> asset_row list \<Rightarrow> nat \<Rightarrow> asset_row list \<Rightarrow> info list \<Rightarrow> (thrown option \<times> info list) option" where
  "collect_rows D rows i todo ids =
     (case todo of
        [] \<Rightarrow> Some (None, ids)
      | row # rest \<Rightarrow>
          (case ar_parent row of
             Inl w \<Rightarrow> Some (Some (Other w), ids)
           | Inr p \<Rightarrow>
               if i = u32 p
               then Option.bind (collect_rows D rows (ar_id row) rows ids) (\<lambda>res.
                    case swallow (callback_errors_caught D) res of
                      (Some e, ids') \<Rightarrow> Some (Some e, ids')
                    | (None, ids') \<Rightarrow>
                        (case checkAndAddInfo D (info_of_row row p) ids' of
                           Inl e \<Rightarrow> Some (Some e, ids')
                         | Inr ids'' \<Rightarrow> collect_rows D rows i rest ids''))
               else collect_rows D rows i rest ids))"

definition collectChildren ::
  "('d, 'h) manager_db \<Rightarrow> nat \<Rightarrow> info list \<Rightarrow> 'd \<Rightarrow> (thrown option \<times> info list) option" where
  "collectChildren D i ids d =
     map_option (swallow (callback_errors_caught D))
       (collect_rows D (select_assets_rows D d) i (select_assets_rows D d) ids)"

definition selectAnyLinks :: "('d, 'h) manager_db \<Rightarrow> nat \<Rightarrow> 'd \<Rightarrow> thrown + nat list" where
  "selectAnyLinks D i d =
     (case select_links_from D i d of
        Inl w \<Rightarrow> Inl (Check \<lparr> ce_id = i, ce_msg = Raw w, ce_type = DB_ERR D, ce_subtype = DB_ERROR_INTERNAL D \<rparr>)
      | Inr ls \<Rightarrow> Inr ls)"

definition info_of_basic :: "nat \<Rightarrow> basic_element \<Rightarrow> info" where
  \<comment> \<open>the status of the asset is not copied\<close>
  "info_of_basic i b =
     \<lparr> el = \<lparr> el_id = i, el_name = be_name b, el_status = '''', el_parent_id = be_parent_id b,
             el_type_id = be_type_id b, el_subtype_id = be_subtype_id b \<rparr>, links = [] \<rparr>"

definition outside :: "nat list \<Rightarrow> nat list \<Rightarrow> nat list" where
  \<comment> \<open>what the erase-remove loop over the requested ids leaves\<close>
  "outside ids xs = fold (\<lambda>existsId. removeAll existsId) ids xs"

definition outside_infos :: "nat list \<Rightarrow> info list \<Rightarrow> info list" where
  "outside_infos ids xs = fold (\<lambda>existsId. filter (\<lambda>item. iid item \<noteq> existsId)) ids xs"

text \<open>The \<open>try\<close> block of the first loop of \<open>delete_item(ids, element_info)\<close>, for one id.\<close>

definition collect_one ::
  "('d, 'h) manager_db \<Rightarrow> nat list \<Rightarrow> nat \<Rightarrow> basic_element \<Rightarrow> info list \<Rightarrow> 'd \<Rightarrow> (thrown option \<times> info list) option" where
  "collect_one D ids i b toDel d =
     (let info = info_of_basic i b in
      Option.bind (collectChildren D i [] d) (\<lambda>(err, children).
      case err of Some e \<Rightarrow> Some (Some e, toDel) | None \<Rightarrow>
      (let children = outside_infos ids children in
       case selectAnyLinks D i d of Inl e \<Rightarrow> Some (Some e, toDel) | Inr ls \<Rightarrow>
       (case checkAndAddInfo D (info\<lparr> links := ls \<rparr>) toDel of Inl e \<Rightarrow> Some (Some e, toDel) | Inr toDel' \<Rightarrow>
          if children \<noteq> []
          then Some (Some (check_exception_of D i
                 (Translate ''can't delete the asset because it has at least one child'' [])), toDel')
          else if outside ids ls \<noteq> []
          then Some (Some (check_exception_of D i
                 (Translate ''can't delete the asset because it is linked to others'' [])), toDel')
          else Some (None, toDel')))))"

record collected =
  replies :: "(nat \<times> db_reply) list" \<comment> \<open>\<open>ret\<close>\<close>
  toDel :: "info list"
  element_info :: "db_a_elmnt list"

definition reply_of_check :: "check_exception \<Rightarrow> db_reply" where
  "reply_of_check e = fail_reply (ce_type e) (ce_subtype e) (ce_msg e)"

fun collect_ids ::
  "('d, 'h) manager_db \<Rightarrow> nat list \<Rightarrow> 'd \<Rightarrow> nat list \<Rightarrow> collected \<Rightarrow> (string option \<times> collected) option" where
  \<comment> \<open>the loop over the ids; an exception that escapes is the first component\<close>
  "collect_ids D ids d [] s = Some (None, s)"
| "collect_ids D ids d (i # todo) s =
     (case select_asset_element_web_byId D i d of
        Inl w \<Rightarrow> Some (Some w, s)
      | Inr (Failed e) \<Rightarrow>
          collect_ids D ids d todo
            (s\<lparr> replies := replies s @ [(i, fail_reply (DB_ERR D) (DB_ERROR_NOTFOUND D)
                                            (Translate ''problem with selecting basic info'' []))] \<rparr>)
      | Inr (Item b) \<Rightarrow>
          (let s1 = s\<lparr> element_info := element_info s @ [el (info_of_basic i b)] \<rparr> in
           Option.bind (collect_one D ids i b (toDel s1) d) (\<lambda>(err, toDel').
           case err of
             None \<Rightarrow> collect_ids D ids d todo (s1\<lparr> toDel := toDel' \<rparr>)
           | Some (Check e) \<Rightarrow>
               collect_ids D ids d todo (s1\<lparr> toDel := toDel', replies := replies s1 @ [(i, reply_of_check e)] \<rparr>)
           | Some (Other w) \<Rightarrow> Some (Some w, s1\<lparr> toDel := toDel' \<rparr>))))"

subsection \<open>Deleting a list of assets: the order and the deletion\<close>

definition isLinked :: "info \<Rightarrow> info \<Rightarrow> bool" where
  "isLinked item parent =
     (if iid parent \<in> set (links item) then False else iid item \<in> set (links parent))"

partial_function (option) isAnyParent :: "info list \<Rightarrow> info \<Rightarrow> info \<Rightarrow> bool option" where
  \<comment> \<open>the loop climbs from \<open>p\<close>; on a cycle of parents it may not end\<close>
  "isAnyParent elems item p =
     (if el_parent_id (el item) = iid p then Some True
      else (case List.find (\<lambda>x. iid x = el_parent_id (el p)) elems of
              None \<Rightarrow> Some False
            | Some q \<Rightarrow> isAnyParent elems item q))"

definition before :: "info list \<Rightarrow> info \<Rightarrow> info \<Rightarrow> bool option" where
  "before elems l r = map_option (\<lambda>b. b \<or> isLinked l r) (isAnyParent elems l r)"

text \<open>
  \<open>std::sort\<close> is defined on a comparison that ends and is a strict weak order on the elements; it
  then returns some arrangement of them, \<open>arrange\<close>, sorted by the comparison, with equivalent
  elements in any order (\<open>sorts\<close> is its documented behaviour). Otherwise its behaviour is undefined,
  \<open>None\<close>. The comparison looks parents up in the vector that is being sorted; the model looks them up
  in the vector as it is before the sort.
\<close>

definition strict_weak_order_on :: "('a \<Rightarrow> 'a \<Rightarrow> bool) \<Rightarrow> 'a list \<Rightarrow> bool" where
  "strict_weak_order_on lt xs \<longleftrightarrow>
     (\<forall>x \<in> set xs. \<not> lt x x) \<and>
     (\<forall>x \<in> set xs. \<forall>y \<in> set xs. \<forall>z \<in> set xs. lt x y \<and> lt y z \<longrightarrow> lt x z) \<and>
     (\<forall>x \<in> set xs. \<forall>y \<in> set xs. \<forall>z \<in> set xs.
        \<not> lt x y \<and> \<not> lt y x \<and> \<not> lt y z \<and> \<not> lt z y \<longrightarrow> \<not> lt x z \<and> \<not> lt z x)"

definition std_sort ::
  "(('a \<Rightarrow> 'a \<Rightarrow> bool) \<Rightarrow> 'a list \<Rightarrow> 'a list) \<Rightarrow> ('a \<Rightarrow> 'a \<Rightarrow> bool option) \<Rightarrow> 'a list \<Rightarrow> 'a list option" where
  "std_sort arrange cmp xs =
     (let lt = (\<lambda>x y. cmp x y = Some True) in
      if (\<forall>x \<in> set xs. \<forall>y \<in> set xs. cmp x y \<noteq> None) \<and> strict_weak_order_on lt xs
      then Some (arrange lt xs) else None)"

definition sorts :: "(('a \<Rightarrow> 'a \<Rightarrow> bool) \<Rightarrow> 'a list \<Rightarrow> 'a list) \<Rightarrow> bool" where
  "sorts arrange \<longleftrightarrow>
     (\<forall>lt xs. strict_weak_order_on lt xs \<longrightarrow>
        mset (arrange lt xs) = mset xs \<and> sorted_wrt (\<lambda>x y. \<not> lt y x) (arrange lt xs))"

definition deleteAsset ::
  "('d, 'h) manager_db \<Rightarrow> bool \<Rightarrow> info \<Rightarrow> ('d, thrown, db_reply) prog" where
  "deleteAsset D override item d =
     (case count_keytag D ''logical_asset'' (el_name (el item)) d of
        Inl w \<Rightarrow> (Inl (Other w), d)
      | Inr n \<Rightarrow>
          let fail = (\<lambda>m st. Check \<lparr> ce_id = iid item, ce_msg = m, ce_type = DB_ERR D, ce_subtype = st \<rparr>);
              caught = (\<lambda>(r, d'). (case r of Inl w \<Rightarrow> Inl (fail (Raw w) (DB_ERROR_DELETEFAIL D)) | Inr rep \<Rightarrow> Inr rep, d'));
              t = el_type_id (el item)
          in if n > 0
             then (Inl (fail (Translate ''a logical_asset (sensor) refers to it'' []) (DB_ERROR_DELETEFAIL D)), d)
             else if t \<in> {DATACENTER D, ROW D, ROOM D, RACK D}
             then caught (delete_dc_room_row_rack (asset_db.truncate D) override (iid item) d)
             else if t = GROUP D then caught (delete_group (asset_db.truncate D) (iid item) d)
             else if t = DEVICE D
             then caught
               (if el_status (el item) = ''active''
                then andThen (query (getJsonAsset D (iid item))) (delete_device (asset_db.truncate D) (iid item)) d
                else delete_device (asset_db.truncate D) (iid item) '''' d)
             else \<comment> \<open>\<open>unknown type\<close> is thrown inside the \<open>try\<close>, caught and thrown again\<close>
               (Inl (fail (Translate ''unknown type'' []) (DB_ERROR_DELETEFAIL D)), d))"

fun delete_loop ::
  "('d, 'h) manager_db \<Rightarrow> bool \<Rightarrow> info list \<Rightarrow> (nat \<times> db_reply) list \<Rightarrow> 'd \<Rightarrow>
     (string option \<times> (nat \<times> db_reply) list) \<times> 'd" where
  "delete_loop D override [] acc d = ((None, acc), d)"
| "delete_loop D override (item # rest) acc d =
     (if (case List.find (\<lambda>pair. fst pair = iid item) acc of None \<Rightarrow> True | Some pair \<Rightarrow> status (snd pair) \<noteq> 0)
      then (case deleteAsset D override item d of
              (Inr r, d') \<Rightarrow> delete_loop D override rest (acc @ [(iid item, r)]) d'
            | (Inl (Check e), d') \<Rightarrow> delete_loop D override rest (acc @ [(iid item, reply_of_check e)]) d'
            | (Inl (Other w), d') \<Rightarrow> ((Some w, acc), d'))
      else delete_loop D override rest acc d)"

text \<open>
  \<open>delete_item(ids, element_info)\<close>: \<open>None\<close> when the program does not end or is undefined; an exception
  that leaves the function is \<open>Inl\<close>.
\<close>

definition delete_items ::
  "('d, 'h) manager_db \<Rightarrow> bool \<Rightarrow> ((info \<Rightarrow> info \<Rightarrow> bool) \<Rightarrow> info list \<Rightarrow> info list) \<Rightarrow> nat list \<Rightarrow> 'd \<Rightarrow>
     ((string + (nat \<times> db_reply) list \<times> db_a_elmnt list) \<times> 'd) option" where
  "delete_items D override arrange ids d =
     (case connect_error D of Some w \<Rightarrow> Some (Inl w, d) | None \<Rightarrow>
      Option.bind (collect_ids D ids d ids \<lparr> replies = [], toDel = [], element_info = [] \<rparr>) (\<lambda>(escaped, s).
      case escaped of Some w \<Rightarrow> Some (Inl w, d) | None \<Rightarrow>
      map_option
        (\<lambda>order. case delete_loop D override order (replies s) d of
           ((Some w, acc), d') \<Rightarrow> (Inl w, d')
         | ((None, acc), d') \<Rightarrow> (Inr (acc, element_info s), d'))
        (std_sort arrange (before (toDel s)) (toDel s))))"

subsection \<open>Lemmas\<close>

lemma outside_filter: "outside ids xs = filter (\<lambda>x. x \<notin> set ids) xs"
  unfolding outside_def
  by (induction ids arbitrary: xs) (auto simp: removeAll_filter_not_eq conj_commute intro!: filter_cong)

lemma outside_infos_filter: "outside_infos ids xs = filter (\<lambda>x. iid x \<notin> set ids) xs"
  unfolding outside_infos_def
  by (induction ids arbitrary: xs) (auto simp: conj_commute intro!: filter_cong)

lemma checkAndAddInfo_cases:
  assumes "checkAndAddInfo D item ids = Inr ids'"
  obtains "ids' = ids" and "iid item \<in> iid ` set ids"
  | "ids' = ids @ [item]" and "el_name (el item) \<noteq> RC0_INAME"
proof (cases "\<exists>check \<in> set ids. iid check = iid item")
  case True
  with assms have "ids' = ids" by (auto simp: checkAndAddInfo_def list_ex_iff)
  moreover from True have "iid item \<in> iid ` set ids" by (auto simp: image_iff) (metis)
  ultimately show ?thesis by (rule that(1))
next
  case False
  with assms that(2) show ?thesis by (auto simp: checkAndAddInfo_def list_ex_iff split: if_splits)
qed

lemma checkAndAddInfo_ids:
  "checkAndAddInfo D item ids = Inr ids' \<Longrightarrow> iid ` set ids' = insert (iid item) (iid ` set ids)"
  by (elim checkAndAddInfo_cases) auto

lemma iid_info_of_row [simp]: "iid (info_of_row row p) = ar_id row"
  by (simp add: info_of_row_def)

lemma info_of_basic_simps [simp]:
  "iid (info_of_basic i b) = i" "el_name (el (info_of_basic i b)) = be_name b"
  "el_status (el (info_of_basic i b)) = ''''" "el (x\<lparr> links := ls \<rparr>) = el x"
  by (simp_all add: info_of_basic_def)

declare collect_rows.simps [code] isAnyParent.simps [code]

lemmas collect_rows_induct = collect_rows.raw_induct [rotated, consumes 1, case_names step]

definition child_of :: "nat \<Rightarrow> asset_row \<Rightarrow> bool" where
  "child_of i row = (case ar_parent row of Inl _ \<Rightarrow> False | Inr p \<Rightarrow> u32 p = i)"

definition reads :: "nat \<Rightarrow> asset_row \<Rightarrow> bool" where
  \<comment> \<open>the callback of \<open>collectChildren(conn, i, ids)\<close> reads the parent of the row, and does not refuse it\<close>
  "reads i row = (case ar_parent row of Inl _ \<Rightarrow> False | Inr p \<Rightarrow> u32 p = i \<longrightarrow> ar_name row \<noteq> RC0_INAME)"

lemma collect_rows_complete:
  "collect_rows D rows i todo ids = Some res \<Longrightarrow>
     iid ` set ids \<subseteq> iid ` set (snd res) \<and>
     (fst res = None \<longrightarrow> (\<forall>row \<in> set todo. child_of i row \<longrightarrow> ar_id row \<in> iid ` set (snd res))) \<and>
     (callback_errors_caught D \<longrightarrow>
        (\<forall>row \<in> set (takeWhile (reads i) todo). child_of i row \<longrightarrow> ar_id row \<in> iid ` set (snd res)))"
proof (induction rule: collect_rows_induct)
  case (step collect D rows i todo ids res)
  show ?case
  proof (cases todo)
    case Nil
    with step(2) show ?thesis by auto
  next
    case (Cons row rest)
    note todo = Cons
    show ?thesis
    proof (cases "ar_parent row")
      case (Inl w)
      with step(2) todo show ?thesis by (auto simp: reads_def)
    next
      case (Inr p)
      note par = Inr
      show ?thesis
      proof (cases "i = u32 p")
        case False
        with par todo step(2) have "collect D rows i rest ids = Some res" by simp
        from step(1) [OF this] False par todo show ?thesis by (auto simp: child_of_def)
      next
        case True
        with par todo step(2) obtain err ids' where inner: "collect D rows (ar_id row) rows ids = Some (err, ids')"
          and r: "(case swallow (callback_errors_caught D) (err, ids') of
                      (Some e, ids') \<Rightarrow> Some (Some e, ids')
                    | (None, ids') \<Rightarrow>
                        (case checkAndAddInfo D (info_of_row row p) ids' of
                           Inl e \<Rightarrow> Some (Some e, ids')
                         | Inr ids'' \<Rightarrow> collect D rows i rest ids'')) = Some res"
          by (auto simp: bind_eq_Some_conv)
        from step(1) [OF inner] have grow: "iid ` set ids \<subseteq> iid ` set ids'" by simp
        show ?thesis
        proof (cases "\<exists>e. \<not> callback_errors_caught D \<and> err = Some e")
          case True
          with r have "callback_errors_caught D = False" "snd res = ids'" "fst res \<noteq> None" by (auto simp: swallow_def)
          with grow show ?thesis by (auto simp del: not_None_eq)
        next
          case False
          with r have r: "(case checkAndAddInfo D (info_of_row row p) ids' of
                             Inl e \<Rightarrow> Some (Some e, ids')
                           | Inr ids'' \<Rightarrow> collect D rows i rest ids'') = Some res"
            by (cases err) (auto simp: swallow_def split: if_splits)
          show ?thesis
          proof (cases "checkAndAddInfo D (info_of_row row p) ids'")
            case (Inl e)
            then have "ar_name row = RC0_INAME"
              by (auto simp: checkAndAddInfo_def info_of_row_def split: if_splits)
            with Inl r grow todo par True show ?thesis by (auto simp: reads_def)
          next
            case (Inr ids'')
            with r have "collect D rows i rest ids'' = Some res" by simp
            note ih = step(1) [OF this]
            then have more: "insert (ar_id row) (iid ` set ids') \<subseteq> iid ` set (snd res)"
              by (simp add: checkAndAddInfo_ids [OF Inr])
            with grow have "iid ` set ids \<subseteq> iid ` set (snd res)" by (meson insert_subset order_trans)
            moreover have "ar_id row \<in> iid ` set (snd res)" using more by simp
            ultimately show ?thesis using ih todo by auto
          qed
        qed
      qed
    qed
  qed
qed

definition rows_seen :: "('d, 'h) manager_db \<Rightarrow> nat \<Rightarrow> 'd \<Rightarrow> asset_row list" where
  \<comment> \<open>where the exceptions of the callback are swallowed, the rows before the first one it throws on\<close>
  "rows_seen D i d =
     (if callback_errors_caught D then takeWhile (reads i) (select_assets_rows D d) else select_assets_rows D d)"

lemma collectChildren_complete:
  assumes "collectChildren D i ids d = Some (None, children)"
    and "row \<in> set (rows_seen D i d)" and "child_of i row"
  shows "ar_id row \<in> iid ` set children"
proof -
  from assms(1) obtain res where res: "collect_rows D (select_assets_rows D d) i (select_assets_rows D d) ids = Some res"
    and sw: "swallow (callback_errors_caught D) res = (None, children)"
    by (auto simp: collectChildren_def)
  from sw have "snd res = children" "callback_errors_caught D \<or> fst res = None"
    by (cases res; simp add: swallow_def split: if_splits)+
  with collect_rows_complete [OF res] assms(2,3) show ?thesis
    by (auto simp: rows_seen_def split: if_splits)
qed

text \<open>
  The assets that may be deleted: requested, not the rack controller, with every child that is seen
  and every link among the requested ones.
\<close>

definition unprotected :: "('d, 'h) manager_db \<Rightarrow> nat list \<Rightarrow> 'd \<Rightarrow> nat \<Rightarrow> bool" where
  "unprotected D ids d i \<longleftrightarrow>
     (\<forall>row \<in> set (rows_seen D i d). child_of i row \<longrightarrow> ar_id row \<in> set ids) \<and>
     (case select_links_from D i d of Inl _ \<Rightarrow> False | Inr ls \<Rightarrow> set ls \<subseteq> set ids)"

definition collected_ok :: "('d, 'h) manager_db \<Rightarrow> nat list \<Rightarrow> 'd \<Rightarrow> collected \<Rightarrow> bool" where
  "collected_ok D ids d s \<longleftrightarrow>
     (\<forall>x \<in> set (toDel s). iid x \<in> set ids \<and> el_name (el x) \<noteq> RC0_INAME \<and> el_status (el x) = '''' \<and>
        (unprotected D ids d (iid x) \<or> iid x \<in> fst ` set (replies s))) \<and>
     (\<forall>p \<in> set (replies s). status (snd p) = 0)"

lemma status_fail_reply [simp]: "status (fail_reply t s m) = 0"
  by (simp add: fail_reply_def)

lemma status_reply_of_check [simp]: "status (reply_of_check e) = 0"
  by (simp add: reply_of_check_def)

lemma collect_one_toDel:
  assumes "collect_one D ids i b td d = Some (err, td')"
  shows "set td' \<subseteq> set td \<union> {x. iid x = i \<and> el_name (el x) \<noteq> RC0_INAME \<and> el_status (el x) = ''''}"
  using assms
  by (auto simp: collect_one_def Let_def bind_eq_Some_conv checkAndAddInfo_def
      split: option.splits sum.splits if_splits)

lemma collect_one_unprotected:
  assumes "collect_one D ids i b td d = Some (None, td')"
  shows "unprotected D ids d i"
proof -
  from assms(1) obtain children ls where ch: "collectChildren D i [] d = Some (None, children)"
    and ls: "selectAnyLinks D i d = Inr ls" and "outside_infos ids children = []" and "outside ids ls = []"
    by (auto simp: collect_one_def Let_def bind_eq_Some_conv split: option.splits sum.splits if_splits)
  then show ?thesis
    using collectChildren_complete [OF ch]
    by (fastforce simp: unprotected_def outside_filter outside_infos_filter filter_empty_conv selectAnyLinks_def
        split: sum.splits)
qed

lemma collect_ids_ok:
  assumes "collect_ids D ids d todo s = Some (None, s')" and "collected_ok D ids d s"
    and "set todo \<subseteq> set ids"
  shows "collected_ok D ids d s'"
  using assms
proof (induction todo arbitrary: s)
  case Nil
  then show ?case by simp
next
  case (Cons i todo)
  show ?case
  proof (cases "select_asset_element_web_byId D i d")
    case (Inl w)
    with Cons.prems show ?thesis by simp
  next
    case (Inr rep)
    show ?thesis
    proof (cases rep)
      case (Failed e)
      with Inr Cons.prems show ?thesis
        by (intro Cons.IH [of "s\<lparr> replies := replies s @ [(i, fail_reply (DB_ERR D) (DB_ERROR_NOTFOUND D)
              (Translate ''problem with selecting basic info'' []))] \<rparr>"]) (auto simp: collected_ok_def)
    next
      case (Item b)
      with Inr Cons.prems(1) obtain err td' where
        one: "collect_one D ids i b (toDel s) d = Some (err, td')"
        by (auto simp: Let_def bind_eq_Some_conv)
      note sub = collect_one_toDel [OF one]
      show ?thesis
      proof (cases err)
        case None
        then have "unprotected D ids d i" using one collect_one_unprotected by simp
        with None one Item Inr Cons.prems sub show ?thesis
          by (intro Cons.IH [of "s\<lparr> element_info := element_info s @ [el (info_of_basic i b)], toDel := td' \<rparr>"])
             (auto simp: collected_ok_def Let_def)
      next
        case (Some t)
        with one Item Inr Cons.prems(1) obtain e where t: "t = Check e" by (cases t) (auto simp: Let_def)
        with Some one Item Inr Cons.prems sub show ?thesis
          by (intro Cons.IH [of "s\<lparr> element_info := element_info s @ [el (info_of_basic i b)], toDel := td',
                replies := replies s @ [(i, reply_of_check e)] \<rparr>"])
             (auto simp: collected_ok_def Let_def)
      qed
    qed
  qed
qed

lemma find_append: "List.find P (xs @ ys) = (case List.find P xs of None \<Rightarrow> List.find P ys | Some x \<Rightarrow> Some x)"
  by (induction xs) simp_all

lemma find_Some_in: "List.find P xs = Some x \<Longrightarrow> x \<in> set xs \<and> P x"
  by (induction xs) (auto split: if_splits)

lemma find_in_keys: "i \<in> fst ` set xs \<Longrightarrow> \<exists>p \<in> set xs. List.find (\<lambda>p. fst p = i) xs = Some p"
  by (induction xs) auto

definition refused :: "(nat \<times> db_reply) list \<Rightarrow> nat \<Rightarrow> bool" where
  "refused acc i = (case List.find (\<lambda>p. fst p = i) acc of None \<Rightarrow> False | Some p \<Rightarrow> status (snd p) = 0)"

lemma refused_append: "refused acc i \<Longrightarrow> refused (acc @ bs) i"
  by (auto simp: refused_def find_append split: option.splits)

lemma delete_loop_step:
  "delete_loop D override (item # rest) acc d =
     (if refused acc (iid item) then delete_loop D override rest acc d
      else (case deleteAsset D override item d of
              (Inr r, d') \<Rightarrow> delete_loop D override rest (acc @ [(iid item, r)]) d'
            | (Inl (Check e), d') \<Rightarrow> delete_loop D override rest (acc @ [(iid item, reply_of_check e)]) d'
            | (Inl (Other w), d') \<Rightarrow> ((Some w, acc), d')))"
  by (auto simp: refused_def split: option.splits)

definition delete_run :: "('d, 'h) manager_db \<Rightarrow> bool \<Rightarrow> info list \<Rightarrow> 'd \<Rightarrow> 'd" where
  \<comment> \<open>the calls of \<open>deleteAsset\<close>, one after the other\<close>
  "delete_run D override xs d = fold (\<lambda>x d. snd (deleteAsset D override x d)) xs d"

lemma delete_loop_run:
  assumes "delete_loop D override xs acc d = (r, d')"
  shows "\<exists>ys. d' = delete_run D override ys d \<and> set ys \<subseteq> {x \<in> set xs. \<not> refused acc (iid x)} \<and>
           (\<forall>P. sorted_wrt P xs \<longrightarrow> sorted_wrt P ys)"
  using assms
proof (induction xs arbitrary: acc d)
  case Nil
  then show ?case by (intro exI [of _ "[]"]) (simp add: delete_run_def)
next
  case (Cons x xs)
  show ?case
  proof (cases "refused acc (iid x)")
    case True
    with Cons.prems have "delete_loop D override xs acc d = (r, d')" by (simp add: delete_loop_step del: delete_loop.simps(2))
    from Cons.IH [OF this] show ?thesis by auto
  next
    case False
    obtain q e where del: "deleteAsset D override x d = (q, e)" by force
    have cont: ?thesis if "delete_loop D override xs (acc @ [(iid x, b)]) e = (r, d')" for b
    proof -
      from Cons.IH [OF that] obtain ys where ys: "d' = delete_run D override ys e"
        "set ys \<subseteq> {y \<in> set xs. \<not> refused (acc @ [(iid x, b)]) (iid y)}"
        "\<forall>P. sorted_wrt P xs \<longrightarrow> sorted_wrt P ys" by blast
      then have "set ys \<subseteq> {y \<in> set xs. \<not> refused acc (iid y)}" using refused_append by blast
      with ys del False show ?thesis
        by (intro exI [of _ "x # ys"]) (auto simp: delete_run_def)
    qed
    show ?thesis
    proof (cases q)
      case (Inr b)
      with Cons.prems del False show ?thesis
        by (intro cont [of b]) (simp add: delete_loop_step del: delete_loop.simps(2))
    next
      case (Inl t)
      show ?thesis
      proof (cases t)
        case (Check c)
        with Inl Cons.prems del False show ?thesis
          by (intro cont [of "reply_of_check c"]) (simp add: delete_loop_step del: delete_loop.simps(2))
      next
        case (Other w)
        with Inl Cons.prems del False have "d' = e" by (simp add: delete_loop_step del: delete_loop.simps(2))
        with del False show ?thesis by (intro exI [of _ "[x]"]) (simp add: delete_run_def)
      qed
    qed
  qed
qed

lemma std_sort_result:
  assumes "std_sort arrange cmp xs = Some ys" and "sorts arrange"
  shows "mset ys = mset xs" and "sorted_wrt (\<lambda>x y. cmp y x = Some False) ys"
proof -
  let ?lt = "\<lambda>x y. cmp x y = Some True"
  from assms(1) have swo: "strict_weak_order_on ?lt xs" and ys: "ys = arrange ?lt xs"
    and total: "\<forall>x \<in> set xs. \<forall>y \<in> set xs. cmp x y \<noteq> None"
    by (simp_all add: std_sort_def Let_def split: if_splits)
  from assms(2) swo ys show mset: "mset ys = mset xs" by (simp add: sorts_def)
  from assms(2) swo ys have "sorted_wrt (\<lambda>x y. \<not> ?lt y x) ys" by (simp add: sorts_def)
  moreover from mset have "set ys = set xs" by (rule mset_eq_setD)
  ultimately show "sorted_wrt (\<lambda>x y. cmp y x = Some False) ys"
    using total by (elim sorted_wrt_mono_rel [rotated]) (metis (full_types) not_None_eq)
qed

lemma before_False: "before elems l r = Some False \<Longrightarrow> el_parent_id (el l) \<noteq> iid r \<and> \<not> isLinked l r"
  by (auto simp: before_def isAnyParent.simps [of _ l r] split: if_splits)

lemma before_nested:
  assumes "y \<in> set elems" and "el_parent_id (el x) = iid y"
  shows "before elems x x = Some True"
proof -
  obtain q where q: "List.find (\<lambda>z. iid z = el_parent_id (el x)) elems = Some q"
    using assms by (cases "List.find (\<lambda>z. iid z = el_parent_id (el x)) elems") (auto simp: find_None_iff)
  then have "iid q = el_parent_id (el x)" using find_Some_in by fastforce
  then have "isAnyParent elems x q = Some True" by (simp add: isAnyParent.simps)
  with q have "isAnyParent elems x x = Some True" by (subst isAnyParent.simps) simp
  then show ?thesis by (simp add: before_def)
qed

lemma collected_start: "collected_ok D ids d \<lparr> replies = [], toDel = [], element_info = [] \<rparr>"
  by (simp add: collected_ok_def)

lemma delete_items_run:
  assumes "delete_items D override arrange ids d = Some (r, d')"
  obtains "d' = d"
  | s order ys where "collect_ids D ids d ids \<lparr> replies = [], toDel = [], element_info = [] \<rparr> = Some (None, s)"
      and "std_sort arrange (before (toDel s)) (toDel s) = Some order"
      and "d' = delete_run D override ys d" and "set ys \<subseteq> {x \<in> set order. \<not> refused (replies s) (iid x)}"
      and "\<forall>P. sorted_wrt P order \<longrightarrow> sorted_wrt P ys"
proof (cases "connect_error D")
  case (Some w)
  with assms that(1) show ?thesis by (simp add: delete_items_def)
next
  case None
  with assms obtain esc s where c: "collect_ids D ids d ids \<lparr> replies = [], toDel = [], element_info = [] \<rparr> = Some (esc, s)"
    by (auto simp: delete_items_def bind_eq_Some_conv)
  show ?thesis
  proof (cases esc)
    case (Some w)
    with assms None c that(1) show ?thesis by (simp add: delete_items_def)
  next
    case esc: None
    with assms None c obtain order where o: "std_sort arrange (before (toDel s)) (toDel s) = Some order"
      and res: "(case delete_loop D override order (replies s) d of
           ((Some w, acc), d') \<Rightarrow> (Inl w, d')
         | ((None, acc), d') \<Rightarrow> (Inr (acc, element_info s), d')) = (r, d')"
      by (auto simp: delete_items_def)
    obtain q e where l: "delete_loop D override order (replies s) d = (q, e)"
      by (cases "delete_loop D override order (replies s) d")
    with res have "e = d'" by (auto split: prod.splits option.splits)
    with l have l: "delete_loop D override order (replies s) d = (q, d')" by simp
    from delete_loop_run [OF l] that(2) c esc o show ?thesis by blast
  qed
qed

lemma refused_collected:
  assumes "collected_ok D ids d s" and "x \<in> set (toDel s)" and "\<not> refused (replies s) (iid x)"
  shows "iid x \<in> set ids \<and> el_name (el x) \<noteq> RC0_INAME \<and> unprotected D ids d (iid x)"
proof -
  have "iid x \<notin> fst ` set (replies s)"
    using assms(1,3) find_in_keys [of "iid x" "replies s"] by (fastforce simp: collected_ok_def refused_def)
  with assms(1,2) show ?thesis by (auto simp: collected_ok_def)
qed

lemma bulk_guard:
  assumes "delete_items D override arrange ids d = Some (r, d')" and "sorts arrange"
  shows "\<exists>xs. d' = delete_run D override xs d \<and>
           (\<forall>x \<in> set xs. iid x \<in> set ids \<and> el_name (el x) \<noteq> RC0_INAME \<and> unprotected D ids d (iid x)) \<and>
           sorted_wrt (\<lambda>x y. el_parent_id (el y) \<noteq> iid x \<and> \<not> isLinked y x) xs"
  using assms(1)
proof (cases rule: delete_items_run)
  case 1
  then show ?thesis by (intro exI [of _ "[]"]) (simp add: delete_run_def)
next
  case (2 s order ys)
  have ok: "collected_ok D ids d s"
    using collect_ids_ok [OF 2(1) collected_start] by simp
  have "set order = set (toDel s)" using std_sort_result(1) [OF 2(2) assms(2)] by (rule mset_eq_setD)
  with 2(4) have sub: "\<And>x. x \<in> set ys \<Longrightarrow> x \<in> set (toDel s) \<and> \<not> refused (replies s) (iid x)" by auto
  have "sorted_wrt (\<lambda>x y. el_parent_id (el y) \<noteq> iid x \<and> \<not> isLinked y x) order"
    using std_sort_result(2) [OF 2(2) assms(2)] by (rule sorted_wrt_mono_rel [rotated]) (blast dest: before_False)
  with 2(5) have "sorted_wrt (\<lambda>x y. el_parent_id (el y) \<noteq> iid x \<and> \<not> isLinked y x) ys" by blast
  with 2(3) sub refused_collected [OF ok] show ?thesis by blast
qed

text \<open>The sort of the witnesses: insertion.\<close>

fun insert_by :: "('a \<Rightarrow> 'a \<Rightarrow> bool) \<Rightarrow> 'a \<Rightarrow> 'a list \<Rightarrow> 'a list" where
  "insert_by lt x [] = [x]"
| "insert_by lt x (y # ys) = (if lt y x then y # insert_by lt x ys else x # y # ys)"

definition insertion_sort :: "('a \<Rightarrow> 'a \<Rightarrow> bool) \<Rightarrow> 'a list \<Rightarrow> 'a list" where
  "insertion_sort lt xs = foldr (insert_by lt) xs []"

lemma mset_insert_by [simp]: "mset (insert_by lt x ys) = add_mset x (mset ys)"
  by (induction ys) simp_all

lemma sorted_insert_by:
  assumes "strict_weak_order_on lt zs" and "insert x (set ys) \<subseteq> set zs" and "sorted_wrt (\<lambda>x y. \<not> lt y x) ys"
  shows "sorted_wrt (\<lambda>x y. \<not> lt y x) (insert_by lt x ys)"
  using assms(2,3)
proof (induction ys)
  case Nil
  then show ?case by simp
next
  case (Cons y ys)
  have set_eq: "set (insert_by lt x ys) = insert x (set ys)"
    using mset_insert_by [of lt x ys] by (metis set_mset_add_mset_insert set_mset_mset)
  show ?case
  proof (cases "lt y x")
    case True
    then have "\<not> lt x y" using assms(1) Cons.prems(1) by (auto simp: strict_weak_order_on_def)
    with True Cons set_eq show ?thesis by auto
  next
    case False
    then have "\<not> lt z x" if "z \<in> set ys" for z
    proof -
      have "\<not> lt z y" using Cons.prems(2) that by simp
      moreover have "x \<in> set zs" "y \<in> set zs" "z \<in> set zs" using Cons.prems(1) that by auto
      moreover have "\<not> lt z x" if "\<not> lt z y" "\<not> lt y x" "x \<in> set zs" "y \<in> set zs" "z \<in> set zs"
      proof (cases "lt y z \<or> lt x y")
        case True
        with that assms(1) show ?thesis unfolding strict_weak_order_on_def by metis
      next
        case False
        with that assms(1) show ?thesis unfolding strict_weak_order_on_def by metis
      qed
      ultimately show ?thesis using False by blast
    qed
    with False Cons.prems show ?thesis by auto
  qed
qed

lemma insertion_sort_sorts: "sorts insertion_sort"
  unfolding sorts_def
proof (intro allI impI)
  fix lt :: "'a \<Rightarrow> 'a \<Rightarrow> bool" and xs :: "'a list"
  assume swo: "strict_weak_order_on lt xs"
  have "mset (foldr (insert_by lt) ys []) = mset ys \<and>
        sorted_wrt (\<lambda>x y. \<not> lt y x) (foldr (insert_by lt) ys [])" if "set ys \<subseteq> set xs" for ys
    using that
  proof (induction ys)
    case Nil
    then show ?case by simp
  next
    case (Cons y ys)
    then have "set (foldr (insert_by lt) ys []) = set ys" by (metis mset_eq_setD set_subset_Cons subset_trans)
    with Cons sorted_insert_by [OF swo] show ?case by simp
  qed
  from this [of xs] show "mset (insertion_sort lt xs) = mset xs \<and> sorted_wrt (\<lambda>x y. \<not> lt y x) (insertion_sort lt xs)"
    by (simp add: insertion_sort_def)
qed

lemma delete_item_body_change:
  assumes "delete_item_body D override i d = (q, d')" and "d' \<noteq> d"
  shows "\<exists>b n. select_asset_element_web_byId D i d = Inr (Item b) \<and> be_name b \<noteq> RC0_INAME \<and>
           count_keytag D ''logical_asset'' (be_name b) d = Inr n \<and> n \<le> 0 \<and>
           ((\<exists>r. q = Inr (r, Some b) \<and> status r \<noteq> 0) \<or> be_type_id b = DEVICE D \<and> be_status b = ''active'')"
proof -
  from assms obtain b n where b: "select_asset_element_web_byId D i d = Inr (Item b)" "be_name b \<noteq> RC0_INAME"
      "count_keytag D ''logical_asset'' (be_name b) d = Inr n" "n \<le> 0"
    by (auto simp: delete_item_body_def andThen_def query_def ret_def split: sum.splits reply.splits if_splits)
  have "(\<exists>r. q = Inr (r, Some b) \<and> status r \<noteq> 0) \<or> be_type_id b = DEVICE D \<and> be_status b = ''active''"
  proof (rule disjCI)
    assume na: "\<not> (be_type_id b = DEVICE D \<and> be_status b = ''active'')"
    have step: "\<exists>r. q = Inr (r, Some b) \<and> status r \<noteq> 0"
      if "wf_body done_reply m" and "andThen m (\<lambda>r. ret (r, Some b)) d = (q, d')" for m
    proof -
      obtain p e where m: "m d = (p, e)" by force
      with that assms(2) show ?thesis
        by (cases p) (auto simp: andThen_def ret_def wf_body_def done_reply_def)
    qed
    from assms(1) b na show "\<exists>r. q = Inr (r, Some b) \<and> status r \<noteq> 0"
      using step [OF delete_dc_atomic] step [OF delete_group_atomic] step [OF delete_device_atomic] assms(2)
      by (auto simp: delete_item_body_def andThen_def query_def ret_def split: if_splits)
  qed
  with b show ?thesis by blast
qed

text \<open>
  The bulk deletion does not depend on the licensing agent: the records it deletes have no status.
\<close>

abbreviation relicensed ::
  "('d, 'h) manager_db \<Rightarrow> (string \<Rightarrow> ('d, string, unit) prog) \<Rightarrow> (nat \<Rightarrow> 'd \<Rightarrow> string + string) \<Rightarrow> ('d, 'h) manager_db" where
  "relicensed D f g \<equiv> D\<lparr> deactivate := f, getJsonAsset := g \<rparr>"

lemma truncate_relicensed: "asset_db.truncate (relicensed D f g) = (asset_db.truncate D)\<lparr> deactivate := f \<rparr>"
  by (simp add: asset_db.defs)

lemma delete_relicensed [simp]:
  "delete_dc_room_row_rack (A\<lparr> deactivate := f \<rparr>) ov i = delete_dc_room_row_rack A ov i"
  "delete_group (A\<lparr> deactivate := f \<rparr>) i = delete_group A i"
  "delete_device (A\<lparr> deactivate := f \<rparr>) i '''' = delete_device A i ''''"
  by (simp_all add: delete_dc_room_row_rack_def delete_group_def delete_device_def Let_def cong: if_cong)

lemma deleteAsset_relicensed:
  "el_status (el x) \<noteq> ''active'' \<Longrightarrow> deleteAsset (relicensed D f g) ov x = deleteAsset D ov x"
  by (rule ext) (simp add: deleteAsset_def truncate_relicensed Let_def cong: if_cong sum.case_cong)

lemma delete_loop_relicensed:
  "\<forall>x \<in> set xs. el_status (el x) \<noteq> ''active'' \<Longrightarrow>
     delete_loop (relicensed D f g) ov xs acc d = delete_loop D ov xs acc d"
proof (induction xs arbitrary: acc d)
  case (Cons x xs)
  then have eq: "deleteAsset (relicensed D f g) ov x d = deleteAsset D ov x d" by (simp add: deleteAsset_relicensed)
  obtain q e where "deleteAsset D ov x d = (q, e)" by force
  with eq Cons show ?case by (cases q) (simp_all split: thrown.split)
qed simp

lemma checkAndAddInfo_relicensed [simp]: "checkAndAddInfo (relicensed D f g) x ids = checkAndAddInfo D x ids"
  by (simp add: checkAndAddInfo_def check_exception_of_def)

lemma collect_rows_mono:
  "collect_rows D rows i todo ids = Some res \<Longrightarrow>
     callback_errors_caught D' = callback_errors_caught D \<and> (\<forall>x ids. checkAndAddInfo D' x ids = checkAndAddInfo D x ids) \<Longrightarrow>
     collect_rows D' rows i todo ids = Some res"
proof (induction rule: collect_rows_induct)
  case (step collect D rows i todo ids res)
  note same = step(3)
  have ih: "collect D rows j t xs = Some r \<Longrightarrow> collect_rows D' rows j t xs = Some r" for j t xs r
    using step(1) same by blast
  show ?case
  proof (cases todo)
    case Nil
    with step(2) show ?thesis by (simp add: collect_rows.simps)
  next
    case (Cons row rest)
    note todo = Cons
    show ?thesis
    proof (cases "ar_parent row")
      case (Inl w)
      with step(2) todo show ?thesis by (simp add: collect_rows.simps [of D' rows i "row # rest" ids])
    next
      case (Inr p)
      show ?thesis
      proof (cases "i = u32 p")
        case False
        with todo Inr step(2) have "collect D rows i rest ids = Some res" by simp
        from ih [OF this] False Inr show ?thesis unfolding todo by (subst collect_rows.simps) simp
      next
        case True
        with todo Inr step(2) obtain inner where inner: "collect D rows (ar_id row) rows ids = Some inner"
          and r: "(case swallow (callback_errors_caught D) inner of
                      (Some e, ids') \<Rightarrow> Some (Some e, ids')
                    | (None, ids') \<Rightarrow>
                        (case checkAndAddInfo D (info_of_row row p) ids' of
                           Inl e \<Rightarrow> Some (Some e, ids')
                         | Inr ids'' \<Rightarrow> collect D rows i rest ids'')) = Some res"
          by (auto simp: bind_eq_Some_conv)
        obtain err xs where sw: "swallow (callback_errors_caught D) inner = (err, xs)" by force
        from ih [OF inner] True Inr r sw same show ?thesis
          unfolding todo by (subst collect_rows.simps) (auto simp: ih split: option.splits sum.splits)
      qed
    qed
  qed
qed

lemma collect_rows_relicensed [simp]: "collect_rows (relicensed D f g) rows i todo ids = collect_rows D rows i todo ids"
proof (cases "collect_rows D rows i todo ids")
  case (Some r)
  then show ?thesis using collect_rows_mono [OF Some, of "relicensed D f g"] by simp
next
  case None
  show ?thesis
  proof (cases "collect_rows (relicensed D f g) rows i todo ids")
    case (Some r)
    from collect_rows_mono [OF Some, of D] None show ?thesis by simp
  qed (simp add: None)
qed

lemma collect_one_relicensed [simp]: "collect_one (relicensed D f g) ids i b td d = collect_one D ids i b td d"
  by (simp add: collect_one_def collectChildren_def selectAnyLinks_def check_exception_of_def
      cong: if_cong sum.case_cong option.case_cong)

lemma collect_ids_relicensed [simp]: "collect_ids (relicensed D f g) ids d todo s = collect_ids D ids d todo s"
  by (induction todo arbitrary: s)
     (simp_all add: Let_def cong: sum.case_cong reply.case_cong option.case_cong thrown.case_cong)

lemma collect_one_status:
  assumes "collect_one D ids i b td d = Some (err, td')" and "\<forall>x \<in> set td. el_status (el x) = ''''"
  shows "\<forall>x \<in> set td'. el_status (el x) = ''''"
  using collect_one_toDel [OF assms(1)] assms(2) by blast

lemma collect_ids_status:
  assumes "collect_ids D ids d todo s = Some (esc, s')" and "\<forall>x \<in> set (toDel s). el_status (el x) = ''''"
  shows "\<forall>x \<in> set (toDel s'). el_status (el x) = ''''"
  using assms
proof (induction todo arbitrary: s)
  case (Cons i todo)
  show ?case
  proof (cases "select_asset_element_web_byId D i d")
    case (Inl w)
    with Cons.prems show ?thesis by simp
  next
    case (Inr rep)
    show ?thesis
    proof (cases rep)
      case (Failed e)
      with Inr Cons.prems(1)
      have "collect_ids D ids d todo (s\<lparr> replies := replies s @ [(i, fail_reply (DB_ERR D) (DB_ERROR_NOTFOUND D)
              (Translate ''problem with selecting basic info'' []))] \<rparr>) = Some (esc, s')" by simp
      from Cons.IH [OF this] Cons.prems(2) show ?thesis by simp
    next
      case (Item b)
      with Inr Cons.prems(1) obtain err td' where one: "collect_one D ids i b (toDel s) d = Some (err, td')"
        by (auto simp: Let_def bind_eq_Some_conv)
      note td' = collect_one_status [OF one Cons.prems(2)]
      show ?thesis
      proof (cases err)
        case None
        with Item Inr Cons.prems(1) one
        have "collect_ids D ids d todo
            (s\<lparr> element_info := element_info s @ [el (info_of_basic i b)], toDel := td' \<rparr>) = Some (esc, s')"
          by (simp add: Let_def)
        from Cons.IH [OF this] td' show ?thesis by simp
      next
        case (Some t)
        show ?thesis
        proof (cases t)
          case (Check e)
          with Some Item Inr Cons.prems(1) one
          have "collect_ids D ids d todo
              (s\<lparr> element_info := element_info s @ [el (info_of_basic i b)], toDel := td',
                 replies := replies s @ [(i, reply_of_check e)] \<rparr>) = Some (esc, s')"
            by (simp add: Let_def)
          from Cons.IH [OF this] td' show ?thesis by simp
        next
          case (Other w)
          with Some Item Inr Cons.prems(1) one td' show ?thesis by (auto simp: Let_def)
        qed
      qed
    qed
  qed
qed simp

lemma delete_items_relicensed:
  assumes "sorts arrange"
  shows "delete_items (relicensed D f g) override arrange ids d = delete_items D override arrange ids d"
proof -
  let ?start = "\<lparr> replies = [], toDel = [], element_info = [] \<rparr>"
  have loop: "delete_loop (relicensed D f g) override order (replies s) d = delete_loop D override order (replies s) d"
    if "collect_ids D ids d ids ?start = Some (None, s)"
      and "std_sort arrange (before (toDel s)) (toDel s) = Some order" for s order
  proof (rule delete_loop_relicensed)
    have "set order = set (toDel s)" using std_sort_result(1) [OF that(2) assms] by (rule mset_eq_setD)
    with collect_ids_status [OF that(1)] show "\<forall>x \<in> set order. el_status (el x) \<noteq> ''active''" by simp
  qed
  show ?thesis
  proof (cases "connect_error D")
    case (Some w)
    then show ?thesis by (simp add: delete_items_def)
  next
    case conn: None
    show ?thesis
    proof (cases "collect_ids D ids d ids ?start")
      case None
      with conn show ?thesis by (simp add: delete_items_def)
    next
      case (Some r)
      obtain esc s where r: "r = (esc, s)" by force
      show ?thesis
      proof (cases "std_sort arrange (before (toDel s)) (toDel s)")
        case None
        with conn Some r show ?thesis by (cases esc) (simp_all add: delete_items_def)
      next
        case order: (Some order)
        with conn Some r loop show ?thesis by (cases esc) (simp_all add: delete_items_def)
      qed
    qed
  qed
qed

text \<open>
  Two collected assets make the comparison unfit for the sort: one is the parent of the other, or
  one powers the other and a third is unrelated to both.
\<close>

definition unsortable :: "info list \<Rightarrow> bool" where
  "unsortable elems \<longleftrightarrow>
     (\<exists>x \<in> set elems. \<exists>y \<in> set elems. el_parent_id (el x) = iid y \<or>
        before elems x y = Some True \<and>
        (\<exists>z \<in> set elems. \<forall>u \<in> {x, y}. before elems u z = Some False \<and> before elems z u = Some False))"

lemma not_strict_weak:
  assumes "unsortable elems"
  shows "\<not> strict_weak_order_on (\<lambda>x y. before elems x y = Some True) elems"
proof
  assume swo: "strict_weak_order_on (\<lambda>x y. before elems x y = Some True) elems"
  from assms obtain x y where xy: "x \<in> set elems" "y \<in> set elems" and c: "el_parent_id (el x) = iid y \<or>
           before elems x y = Some True \<and>
           (\<exists>z \<in> set elems. \<forall>u \<in> {x, y}. before elems u z = Some False \<and> before elems z u = Some False)"
    unfolding unsortable_def by blast
  from c show False
  proof
    assume "el_parent_id (el x) = iid y"
    then have "before elems x x = Some True" by (rule before_nested [OF xy(2)])
    moreover have "before elems x x \<noteq> Some True" using swo xy(1) unfolding strict_weak_order_on_def by blast
    ultimately show False by contradiction
  next
    assume "before elems x y = Some True \<and>
           (\<exists>z \<in> set elems. \<forall>u \<in> {x, y}. before elems u z = Some False \<and> before elems z u = Some False)"
    then obtain z where z: "before elems x y = Some True" "z \<in> set elems" "before elems x z = Some False"
      "before elems z x = Some False" "before elems y z = Some False" "before elems z y = Some False" by auto
    from swo xy z(2) have "before elems x z \<noteq> Some True \<and> before elems z x \<noteq> Some True \<and>
        before elems z y \<noteq> Some True \<and> before elems y z \<noteq> Some True \<longrightarrow> before elems x y \<noteq> Some True"
      unfolding strict_weak_order_on_def by blast
    with z show False by simp
  qed
qed

text \<open>
  A data base for the witnesses: datacenter 1 holds room 2, which holds the devices 10 and 11; 10
  powers 11; 12 is the rack controller, in no room; a sensor refers to 13.
\<close>

definition sample_assets :: "asset_row list" where
  "sample_assets = map (\<lambda>(i, t, n, p). \<lparr> ar_id = i, ar_type = t, ar_subtype = 1, ar_name = n, ar_parent = Inr p \<rparr>)
     [(1, 2, ''dc-1'', 0), (2, 3, ''room-2'', 1), (10, 6, ''ups-10'', 2), (11, 6, ''server-11'', 2),
      (12, 6, ''rackcontroller-0'', 0), (13, 6, ''sensor-13'', 0)]"

definition sample_basic :: "nat \<Rightarrow> basic_element reply" where
  "sample_basic i =
     (case List.find (\<lambda>r. ar_id r = i) sample_assets of
        None \<Rightarrow> Failed \<lparr> err_type = 1, err_subtype = 4, err_msg = Raw ''not found'' \<rparr>
      | Some r \<Rightarrow> Item \<lparr> be_id = i, be_name = ar_name r, be_type_id = ar_type r, be_type_name = ''device'', be_subtype_id = 1, be_subtype_name = ''ups'',
          be_parent_id = (case ar_parent r of Inl _ \<Rightarrow> 0 | Inr p \<Rightarrow> p), be_status = ''active'', be_priority = 2, be_asset_tag = '''' \<rparr>)"

definition sample_manager :: "(string list, unit) manager_db" where
  "sample_manager = asset_db.extend (log_db '''' 1)
     (manager_db.fields 3 4 1 0 0 9 (\<lambda>_. 6) (\<lambda>_. 1) None
       (\<lambda>i d. Inr (sample_basic i)) (\<lambda>i d. Inr (Item [])) (\<lambda>i d. Inr (Item [])) (\<lambda>i d. Inr (Item []))
       (\<lambda>i d. Inr (0, [])) (\<lambda>t s d. Inr (Item [])) (\<lambda>k n d. Inr (if n = ''sensor-13'' then 1 else 0))
       (\<lambda>i d. Inr ''{}'') (\<lambda>d. sample_assets) False (\<lambda>i d. Inr (if i = 10 then [11] else [])))"

subsection \<open>Properties\<close>

text \<open>When the deletion of one asset changes the data base, the asset exists, is not the rack
  controller, no sensor refers to it, and the reply reports success, except that the deletion of an
  active device may report a failure: every refused or failed deletion leaves the data base as it
  was.\<close>

theorem delete_item_changes_only_on_success:
  assumes "delete_item D override i d = ((r, e), d')" and "d' \<noteq> d"
  shows "\<exists>b n. select_asset_element_web_byId D i d = Inr (Item b) \<and> be_name b \<noteq> RC0_INAME \<and>
           count_keytag D ''logical_asset'' (be_name b) d = Inr n \<and> n \<le> 0 \<and>
           (status r \<noteq> 0 \<or> be_type_id b = DEVICE D \<and> be_status b = ''active'')"
proof -
  from assms obtain q where "delete_item_body D override i d = (q, d')"
      and "case q of Inr x \<Rightarrow> x = (r, e) | Inl _ \<Rightarrow> True"
    by (auto simp: delete_item_def split: option.splits prod.splits sum.splits)
  with delete_item_body_change [OF this(1) assms(2)] show ?thesis by fastforce
qed

theorem delete_item_changes_only_on_success_witness:
  "snd (delete_item sample_manager False 10 []) \<noteq> [] \<and>
   (\<exists>b. sample_basic 10 = Item b \<and> be_name b \<noteq> RC0_INAME)"
proof -
  have change: "snd (delete_item sample_manager False 10 []) \<noteq> []" by code_simp
  obtain r e d' where run: "delete_item sample_manager False 10 [] = ((r, e), d')" by (metis prod.collapse)
  with change have "d' \<noteq> []" by simp
  from delete_item_changes_only_on_success [OF run this] change show ?thesis
    by (auto simp: sample_manager_def asset_db.defs manager_db.defs)
qed

text \<open>C4. A bulk deletion that ends deletes only requested assets, never the rack controller, never an
  asset with a child or a powered device outside the request, and deletes a device before the
  devices that power it; the data base is the one after exactly these deletions. The children are
  those of the rows the code sees: all the rows where the query for the assets lets an exception of
  its callback through, and where it swallows it (both are covered, the query is not part of this
  repository) the rows before the first one that the callback throws on, because its parent cannot be
  read or because it is the rack controller below the asset. The sort is any that sorts what it is
  given by a strict weak order; what is not one is undefined, and such a deletion does not end.\<close>

theorem bulk_deletion_guarded:
  assumes "delete_items D override arrange ids d = Some (r, d')" and "sorts arrange"
  shows "\<exists>xs. d' = delete_run D override xs d \<and>
           (\<forall>x \<in> set xs. iid x \<in> set ids \<and> el_name (el x) \<noteq> RC0_INAME \<and> unprotected D ids d (iid x)) \<and>
           sorted_wrt (\<lambda>x y. el_parent_id (el y) \<noteq> iid x \<and> \<not> isLinked y x) xs"
  using assms by (rule bulk_guard)

theorem bulk_deletion_guarded_witness:
  "\<exists>r d' xs. delete_items sample_manager False insertion_sort [10, 11] [] = Some (Inr r, d') \<and>
     d' \<noteq> [] \<and> map fst (fst r) = [11, 10] \<and>
     d' = delete_run sample_manager False xs [] \<and> (\<forall>x \<in> set xs. iid x \<in> {10, 11})"
proof -
  have "map_option (\<lambda>(r, d'). (case r of Inl _ \<Rightarrow> [] | Inr r \<Rightarrow> map fst (fst r), d' = []))
      (delete_items sample_manager False insertion_sort [10, 11] []) = Some ([11, 10], False)"
    by code_simp
  then obtain r d' where run: "delete_items sample_manager False insertion_sort [10, 11] [] = Some (Inr r, d')"
    and "map fst (fst r) = [11, 10]" "d' \<noteq> []"
    by (cases "delete_items sample_manager False insertion_sort [10, 11] []") (auto split: sum.splits)
  moreover from bulk_deletion_guarded [OF run insertion_sort_sorts]
  obtain xs where "d' = delete_run sample_manager False xs []" "\<forall>x \<in> set xs. iid x \<in> {10, 11}"
    by auto
  ultimately show ?thesis by (intro exI conjI)
qed

text \<open>C11. The comparison handed to the sort is not a strict weak order, and a bulk deletion that gets
  to the sort is undefined, as soon as the collected assets hold an asset and its parent (the
  comparison puts the asset before itself), or a device, one it powers and an asset unrelated to
  both (unrelatedness is not transitive).\<close>

theorem bulk_deletion_order_undefined:
  assumes "connect_error D = None"
    and "collect_ids D ids d ids \<lparr> replies = [], toDel = [], element_info = [] \<rparr> = Some (None, s)"
    and "unsortable (toDel s)"
  shows "delete_items D override arrange ids d = None"
  using assms not_strict_weak [OF assms(3)] by (simp add: delete_items_def std_sort_def Let_def)

theorem bulk_deletion_order_undefined_witness:
  "delete_items sample_manager False insertion_sort [1, 2, 10, 11] [] = None \<and>
   delete_items sample_manager False insertion_sort [10, 11, 1] [] = None"
proof
  let ?start = "\<lparr> replies = [], toDel = [], element_info = [] \<rparr>"
  have conn: "connect_error sample_manager = None" by code_simp
  have undefined_if: "delete_items sample_manager False insertion_sort ids [] = None"
    if "case collect_ids sample_manager ids [] ids ?start of Some (None, s) \<Rightarrow> unsortable (toDel s) | _ \<Rightarrow> False" for ids
    using that bulk_deletion_order_undefined [OF conn, of ids "[]"] by (auto split: option.splits prod.splits)
  show "delete_items sample_manager False insertion_sort [1, 2, 10, 11] [] = None"
    by (rule undefined_if) code_simp
  show "delete_items sample_manager False insertion_sort [10, 11, 1] [] = None"
    by (rule undefined_if) code_simp
qed

text \<open>A bulk deletion never deactivates the licence of a device it deletes, active or not, and
  does not read its description: its outcome is the same whatever the licensing agent answers (the
  collected records have no status).\<close>

theorem bulk_deletion_ignores_licensing:
  assumes "sorts arrange"
  shows "delete_items (D\<lparr> deactivate := f, getJsonAsset := g \<rparr>) override arrange ids d = delete_items D override arrange ids d"
  using assms by (rule delete_items_relicensed)

theorem bulk_deletion_ignores_licensing_witness:
  "delete_items (sample_manager\<lparr> deactivate := \<lambda>_ d. (Inr (), ''asked'' # d), getJsonAsset := \<lambda>_ d. Inl ''no'' \<rparr>)
     False insertion_sort [10, 11] [] = delete_items sample_manager False insertion_sort [10, 11] [] \<and>
   (\<exists>b. sample_basic 10 = Item b \<and> be_status b = ''active'')"
proof
  show "delete_items (sample_manager\<lparr> deactivate := \<lambda>_ d. (Inr (), ''asked'' # d), getJsonAsset := \<lambda>_ d. Inl ''no'' \<rparr>)
     False insertion_sort [10, 11] [] = delete_items sample_manager False insertion_sort [10, 11] []"
    by (rule bulk_deletion_ignores_licensing [OF insertion_sort_sorts])
  have "(case sample_basic 10 of Item b \<Rightarrow> be_status b = ''active'' | Failed _ \<Rightarrow> False)" by code_simp
  then show "\<exists>b. sample_basic 10 = Item b \<and> be_status b = ''active''" by (cases "sample_basic 10") simp_all
qed

end
