(* ===== verification/ImportRow.thy ===== *)
theory ImportRow
  imports ImportRc0 AssetCrud AssetManager
begin

text \<open>
  \<open>src/db/inout/importcsv.cc\<close>, \<open>process_row\<close>: one row of the table is checked, cell by cell in the order
  of the code, and stored. Up to the storing nothing is written: the phases are functions of the
  data base that may throw. What a phase leaves of \<open>unused_columns\<close>, the columns that become
  extended attributes, is part of its result.
\<close>

type_synonym hash = "(string \<times> string) list" \<comment> \<open>a \<open>zhash_t\<close>, ordered by its keys\<close>

record 'd import_db = "('d, hash) manager_db" +
  name_to_asset_id :: "string \<Rightarrow> 'd \<Rightarrow> string + int"
  extname_to_asset_name :: "string \<Rightarrow> 'd \<Rightarrow> string + (int \<times> string)"
  get_status_from_db_helper :: "string \<Rightarrow> 'd \<Rightarrow> string + string"
  is_ok_name :: "string \<Rightarrow> bool"
  views_of :: "'d \<Rightarrow> conn" \<comment> \<open>the tables the statements of \<open>assetcrud.cc\<close> read\<close>
  activate :: "string \<Rightarrow> ('d, string, unit) prog" \<comment> \<open>a request to the licensing agent\<close>
  implode :: "string list \<Rightarrow> string \<Rightarrow> string" \<comment> \<open>\<open>fty::implode\<close>\<close>
  stod :: "string \<Rightarrow> (nat \<times> bool) option"
  months :: "(string \<times> string) list" \<comment> \<open>of the locale\<close>
  uninitialised_tm :: tm
  past_end :: int \<comment> \<open>what is read through the end iterator of a map, undefined in C++\<close>

definition zhash_insert :: "hash \<Rightarrow> string \<Rightarrow> string \<Rightarrow> hash" where
  \<comment> \<open>a key that is present keeps its item; keys and items are C strings\<close>
  "zhash_insert h key item = map_emplace (c_str key) (c_str item) h"

definition u16i :: "int \<Rightarrow> nat" where
  "u16i i = nat (i mod 2 ^ 16)"

definition u32i :: "int \<Rightarrow> nat" where
  "u32i i = nat (i mod 2 ^ 32)"

definition dberr :: "string + 'a \<Rightarrow> import_exn + 'a" where
  \<comment> \<open>an exception of the data base goes through\<close>
  "dberr r = (case r of Inl w \<Rightarrow> Inl (Std (Raw w)) | Inr x \<Rightarrow> Inr x)"

definition database_failure :: import_exn where
  "database_failure = Bios ''internal-error'' [Translate ''Database failure'' []]"

definition element_id :: "'d import_db \<Rightarrow> import_exn \<Rightarrow> string \<Rightarrow> 'd \<Rightarrow> import_exn + nat" where
  \<comment> \<open>\<open>select_asset_element_by_name\<close> and what every caller in the file makes of its answer\<close>
  "element_id D not_found name d =
     (case select_asset_element_by_name (is_ok_name D) (views_of D d) (c_str name) of
        Found found \<Rightarrow> Inr (AssetCrud.db_a_elmnt.el_id found)
      | Not_found _ \<Rightarrow> Inl not_found
      | Assert_failed \<Rightarrow> Inl Undefined_behaviour
      | _ \<Rightarrow> Inl database_failure)"

subsection \<open>Numbered columns\<close>

text \<open>
  The loops over \<open>prefix.1\<close>, \<open>prefix.2\<close>, \<open>\<dots>\<close> end at the first title that is missing; \<open>indices\<close> is the list
  of the numbers they visit before it.
\<close>

definition numbered :: "string \<Rightarrow> nat \<Rightarrow> string" where
  "numbered prefix i = prefix @ to_string i"

lemma numbered_inj [simp]: "numbered p i = numbered p j \<longleftrightarrow> i = j"
  by (simp add: numbered_def)

lemma finite_numbered: "finite {k. i \<le> k \<and> numbered p k \<in> set titles}"
proof (rule finite_subset)
  show "{k. i \<le> k \<and> numbered p k \<in> set titles} \<subseteq> numbered p -` set titles" by auto
  show "finite (numbered p -` set titles)" by (rule finite_vimageI) (auto intro: injI)
qed

function indices :: "string \<Rightarrow> string list \<Rightarrow> nat \<Rightarrow> nat list" where
  "indices prefix titles i = (if numbered prefix i \<in> set titles then i # indices prefix titles (i + 1) else [])"
  by pat_completeness auto

termination
proof (relation "measure (\<lambda>(p, titles, i). card {k. i \<le> k \<and> numbered p k \<in> set titles})")
  fix p titles i
  assume i: "numbered p i \<in> set titles"
  have "i \<in> {k. i \<le> k \<and> numbered p k \<in> set titles} - {k. i + 1 \<le> k \<and> numbered p k \<in> set titles}"
    using i by simp
  moreover have "{k. i + 1 \<le> k \<and> numbered p k \<in> set titles} \<subseteq> {k. i \<le> k \<and> numbered p k \<in> set titles}"
    by (rule Collect_mono) simp
  ultimately have "{k. i + 1 \<le> k \<and> numbered p k \<in> set titles} \<subset> {k. i \<le> k \<and> numbered p k \<in> set titles}"
    by (metis DiffE psubsetI)
  then show "((p, titles, i + 1), (p, titles, i)) \<in> measure (\<lambda>(p, titles, i). card {k. i \<le> k \<and> numbered p k \<in> set titles})"
    by (simp add: psubset_card_mono [OF finite_numbered])
qed auto

declare indices.simps [simp del]

subsection \<open>sanitize\_row\_ext\_names\<close>

fun copy_row :: "CsvMap \<Rightarrow> nat \<Rightarrow> string list \<Rightarrow> import_exn + (string \<times> string) list" where
  "copy_row cm row_i [] = Inr []"
| "copy_row cm row_i (title # titles) =
     bindE (cell cm row_i title) (\<lambda>v. bindE (copy_row cm row_i titles) (\<lambda>m. Inr (map_put title v m)))"

definition sanitize_one ::
  "'d import_db \<Rightarrow> string \<Rightarrow> (string \<times> string) list \<Rightarrow> 'd \<Rightarrow> import_exn + (string \<times> string) list" where
  \<comment> \<open>one title, nothing when the row has no such title\<close>
  "sanitize_one D title result d =
     (case map_of result title of
        None \<Rightarrow> Inr result
      | Some v \<Rightarrow> bindE (dberr (extname_to_asset_name D v d)) (\<lambda>(rv, name).
          Inr (map_put title (if rv \<noteq> 0 then v else name) result)))"

fun sanitize_all ::
  "'d import_db \<Rightarrow> string list \<Rightarrow> (string \<times> string) list \<Rightarrow> 'd \<Rightarrow> import_exn + (string \<times> string) list" where
  "sanitize_all D [] result d = Inr result"
| "sanitize_all D (title # titles) result d =
     bindE (sanitize_one D title result d) (\<lambda>result. sanitize_all D titles result d)"

definition sanitize_row_ext_names ::
  "'d import_db \<Rightarrow> CsvMap \<Rightarrow> nat \<Rightarrow> bool \<Rightarrow> 'd \<Rightarrow> import_exn + (string \<times> string) list" where
  "sanitize_row_ext_names D cm row_i sanitize d =
     bindE (copy_row cm row_i (getTitles cm)) (\<lambda>result.
       if sanitize
       then
         let titles = map fst result
         in sanitize_all D
              ([''location'', ''logical_asset''] @
               map (numbered ''power_source.'') (indices ''power_source.'' titles 1) @
               map (numbered ''group.'') (indices ''group.'' titles 1)) result d
       else Inr result)"

subsection \<open>Licensing\<close>

record limitations =
  max_active_power_devices :: int
  global_configurability :: int

record metric =
  metric_name :: string
  metric_type :: string
  metric_value :: string

datatype licensing_answer =
    Licensing_not_sent
  | Licensing_none
  | Licensing string string "metric list" \<comment> \<open>the first two frames and the metrics after them\<close>

fun metrics_loop :: "metric list \<Rightarrow> limitations \<Rightarrow> limitations" where
  "metrics_loop [] l = l"
| "metrics_loop (m # ms) l =
     metrics_loop ms
       (if metric_name m = ''rackcontroller-0'' \<and> metric_type m = ''power_nodes.max_active''
        then l\<lparr> max_active_power_devices := atoi (metric_value m) \<rparr>
        else if metric_name m = ''rackcontroller-0'' \<and> metric_type m = ''configurability.global''
        then l\<lparr> global_configurability := atoi (metric_value m) \<rparr>
        else l)"

definition get_licensing_limitation :: "licensing_answer \<Rightarrow> import_exn + limitations" where
  "get_licensing_limitation answer =
     (let default = \<lparr> max_active_power_devices = - 1, global_configurability = 0 \<rparr>
      in case answer of
           Licensing_not_sent \<Rightarrow> Inl (Bios ''internal-error'' [Translate ''mlm_client_sendto failed.'' []])
         | Licensing_none \<Rightarrow> Inl (Bios ''internal-error'' [Translate ''client->recv () returned NULL'' []])
         | Licensing reply st metrics \<Rightarrow>
             Inr (if st = ''OK'' \<and> reply = ''REPLY'' then metrics_loop metrics default else default))"

subsection \<open>The basic cells of a row\<close>

definition SIZE_MAX :: nat where
  "SIZE_MAX = 2 ^ 64 - 1"

definition row_id_str :: "nat \<Rightarrow> nat \<Rightarrow> string \<Rightarrow> string" where
  "row_id_str rc_0 row_i id_str =
     (if rc_0 \<noteq> row_i \<and> id_str = ''rackcontroller-0'' \<and> rc_0 \<noteq> SIZE_MAX then ''''
      else if rc_0 = row_i \<and> id_str \<noteq> ''rackcontroller-0'' then ''rackcontroller-0''
      else id_str)"

definition checked_identity ::
  "'d import_db \<Rightarrow> CsvMap \<Rightarrow> nat \<Rightarrow> nat \<Rightarrow> nat list \<Rightarrow> 'd \<Rightarrow> import_exn + string \<times> int" where
  \<comment> \<open>the internal name, empty for a new asset, and the number of a known one\<close>
  "checked_identity D cm row_i rc_0 ids d =
     bindE (if ''id'' \<in> set (getTitles cm) then cell cm row_i ''id'' else Inr '''') (\<lambda>csv_id.
     let id_str = row_id_str rc_0 row_i csv_id in
     if id_str = '''' then Inr (id_str, 0)
     else bindE (dberr (name_to_asset_id D id_str d)) (\<lambda>i.
          if i = - 1 then Inl (Bios ''element-not-found'' [Raw id_str])
          else if u32i i \<in> set ids
          then Inl (Bios ''bad-request-document'' [Translate ''Element id '%s' found twice, aborting'' [id_str]])
          else Inr (id_str, i)))"

definition name_error :: "string \<Rightarrow> string \<Rightarrow> import_exn" where
  "name_error received expected =
     Bios ''request-param-bad'' [Raw ''name'', Translate received [], Translate expected []]"

definition checked_name :: "'d import_db \<Rightarrow> CsvMap \<Rightarrow> nat \<Rightarrow> string \<Rightarrow> 'd \<Rightarrow> import_exn + string \<times> string" where
  \<comment> \<open>the external name and the internal name the data base has for it\<close>
  "checked_name D cm row_i id_str d =
     bindE (cell cm row_i ''name'') (\<lambda>ename.
     if ename = '''' then Inl (name_error ''empty value'' ''unique, non empty value'')
     else if length ename > 50 then Inl (name_error ''too long string'' ''unique string from 1 to 50 characters'')
     else bindE (dberr (extname_to_asset_name D ename d)) (\<lambda>(rv, iname).
       if id_str \<noteq> '''' \<and> rv = 0 \<and> iname \<noteq> id_str
       then Inl (name_error ''already existing name'' ''unique string from 1 to 50 characters'')
       else if rv = - 2 then Inl database_failure
       else Inr (ename, iname)))"

definition received :: "string \<Rightarrow> msg" where
  "received s = (if s = '''' then Translate ''empty value'' [] else Jsonify (Raw s))"

definition checked_type :: "(string \<times> int) list \<Rightarrow> CsvMap \<Rightarrow> nat \<Rightarrow> import_exn + string \<times> int" where
  "checked_type TYPES cm row_i =
     bindE (cell_strip cm row_i ''type'') (\<lambda>type.
     case map_of TYPES type of
       None \<Rightarrow> Inl (Bios ''request-param-bad''
                  [Raw ''type'', received type, Jsonify (Raw (join_keys_map TYPES '', ''))])
     | Some type_id \<Rightarrow> Inr (type, type_id))"

definition STATUSES :: "string list" where
  "STATUSES = [''active'', ''nonactive'', ''retired'', ''spare'']" \<comment> \<open>in the order of the set\<close>

definition checked_status :: "'d import_db \<Rightarrow> CsvMap \<Rightarrow> nat \<Rightarrow> import_exn + string" where
  "checked_status D cm row_i =
     bindE (cell_strip cm row_i ''status'') (\<lambda>st.
     if st \<notin> set STATUSES
     then Inl (Bios ''request-param-bad'' [Raw ''status'', received st, Jsonify (Raw (implode D STATUSES '', ''))])
     else Inr st)"

definition checked_asset_tag :: "CsvMap \<Rightarrow> nat \<Rightarrow> import_exn + string" where
  "checked_asset_tag cm row_i =
     bindE (if ''asset_tag'' \<in> set (getTitles cm) then cell cm row_i ''asset_tag'' else Inr '''') (\<lambda>tag.
     if length tag > 50
     then Inl (Bios ''request-param-bad''
            [Raw ''asset_tag'', Translate ''too long string'' [], Translate ''unique string from 1 to 50 characters'' []])
     else Inr tag)"

definition checked_priority :: "CsvMap \<Rightarrow> nat \<Rightarrow> import_exn + nat" where
  "checked_priority cm row_i =
     bindE (cell_strip cm row_i ''priority'') (\<lambda>s.
     case get_priority s of None \<Rightarrow> Inl Undefined_behaviour | Some p \<Rightarrow> Inr p)"

definition checked_parent_id :: "'d import_db \<Rightarrow> (string \<times> string) list \<Rightarrow> 'd \<Rightarrow> import_exn + nat" where
  "checked_parent_id D sanitized d =
     (let location = (case map_of sanitized ''location'' of Some l \<Rightarrow> l | None \<Rightarrow> '''')
      in if location = '''' then Inr 0
         else element_id D
                (Bios ''request-param-bad''
                   [Raw ''location'', Raw (c_str location), Translate ''<existing asset name>'' []]) location d)"

definition local_SUBTYPES :: "'d import_db \<Rightarrow> (string \<times> int) list \<Rightarrow> (string \<times> int) list" where
  "local_SUBTYPES D SUBTYPES =
     (let at = (\<lambda>k. case map_of SUBTYPES k of Some i \<Rightarrow> i | None \<Rightarrow> past_end D);
          rc = at ''rack controller''; pp = at ''patch panel''
      in map_emplace ''patchpanel'' pp
           (map_emplace ''RC3'' rc (map_emplace ''RC'' rc (map_emplace ''rc'' rc
             (map_emplace ''rackcontroler'' rc (map_emplace ''rackcontroller'' rc SUBTYPES))))))"

definition checked_subtype ::
  "'d import_db \<Rightarrow> (string \<times> int) list \<Rightarrow> string \<Rightarrow> CsvMap \<Rightarrow> nat \<Rightarrow> import_exn + string \<times> int" where
  "checked_subtype D SUBTYPES type cm row_i =
     bindE (cell_strip cm row_i ''sub_type'') (\<lambda>subtype.
     let known = map_of (local_SUBTYPES D SUBTYPES) subtype in
     if type = ''device'' \<and> known = None
     then Inl (Bios ''request-param-bad''
            [Raw ''subtype'', received subtype, Jsonify (Raw (join_keys_map SUBTYPES '', ''))])
     else if subtype = '''' \<and> type = ''group''
     then Inl (Bios ''request-param-required'' [Translate ''subtype (for type group)'' []])
     else Inr (subtype, case known of Some i \<Rightarrow> i | None \<Rightarrow> past_end D))"

definition check_stored_types :: "'d import_db \<Rightarrow> string \<Rightarrow> int \<Rightarrow> int \<Rightarrow> int \<Rightarrow> 'd \<Rightarrow> import_exn + unit" where
  \<comment> \<open>an update must not change the type nor the subtype\<close>
  "check_stored_types D id_str i type_id subtype_id d =
     (if id_str = '''' then Inr ()
      else
        bindE (dberr (select_asset_element_web_byId D (u32i i) d)) (\<lambda>element_in_db.
        case element_in_db of
          Failed e \<Rightarrow>
            if err_subtype e = DB_ERROR_NOTFOUND D then Inl (Bios ''element-not-found'' [Raw id_str])
            else Inl database_failure
        | Item b \<Rightarrow>
            if int (be_type_id b) \<noteq> type_id
            then Inl (Bios ''bad-request-document'' [Translate ''Changing of asset type is forbidden'' []])
            else if int (be_subtype_id b) \<noteq> subtype_id \<and> be_subtype_name b \<noteq> ''N_A''
            then Inl (Bios ''bad-request-document'' [Translate ''Changing of asset subtype is forbidden'' []])
            else Inr ()))"

record row =
  id_str :: string
  asset_id :: int
  ename :: string
  iname :: string
  type :: string
  type_id :: int
  row_st :: string \<comment> \<open>\<open>status\<close>\<close>
  asset_tag :: string
  priority :: nat
  parent_id :: nat
  subtype :: string
  subtype_id :: int

definition basic_columns :: "string list" where
  "basic_columns = [''create_mode'', ''id'', ''name'', ''type'', ''status'', ''asset_tag'', ''priority'', ''location'', ''sub_type'']"

definition basic_cells ::
  "'d import_db \<Rightarrow> CsvMap \<Rightarrow> nat \<Rightarrow> (string \<times> int) list \<Rightarrow> (string \<times> int) list \<Rightarrow> nat list \<Rightarrow> nat \<Rightarrow>
     (string \<times> string) list \<Rightarrow> 'd \<Rightarrow> import_exn + row" where
  "basic_cells D cm row_i TYPES SUBTYPES ids rc_0 sanitized d =
     bindE (checked_identity D cm row_i rc_0 ids d) (\<lambda>(idn, i).
     bindE (checked_name D cm row_i idn d) (\<lambda>(en, inm).
     bindE (checked_type TYPES cm row_i) (\<lambda>(ty, ty_id).
     bindE (checked_status D cm row_i) (\<lambda>st.
     bindE (checked_asset_tag cm row_i) (\<lambda>tag.
     bindE (checked_priority cm row_i) (\<lambda>prio.
     bindE (checked_parent_id D sanitized d) (\<lambda>parent.
     bindE (checked_subtype D SUBTYPES ty cm row_i) (\<lambda>(sub, sub_id).
     bindE (check_stored_types D idn i ty_id sub_id d) (\<lambda>_.
       Inr \<lparr> id_str = idn, asset_id = i, ename = en, iname = inm, type = ty, type_id = ty_id, row_st = st,
             asset_tag = tag, priority = prio, parent_id = parent, subtype = sub, subtype_id = sub_id \<rparr>)))))))))"

subsection \<open>Groups and power sources\<close>

fun groups_of ::
  "'d import_db \<Rightarrow> (string \<times> string) list \<Rightarrow> nat list \<Rightarrow> nat list \<Rightarrow> 'd \<Rightarrow> import_exn + nat list" where
  \<comment> \<open>the loop over \<open>group.X\<close>, up to the first that is missing\<close>
  "groups_of D sanitized [] acc d = Inr acc"
| "groups_of D sanitized (k # ks) acc d =
     (let group = the (map_of sanitized (numbered ''group.'' k))
      in if group = '''' then groups_of D sanitized ks acc d
         else bindE (element_id D (Bios ''element-not-found'' [Raw (c_str group)]) group d) (\<lambda>i.
              groups_of D sanitized ks (set_insert i acc) d))"

definition four_bytes :: "import_exn + string \<Rightarrow> import_exn + string option" where
  \<comment> \<open>\<open>strcpy(new char[4], value.substr(0, 4).c_str())\<close>; an exception means that the column is missing\<close>
  "four_bytes c =
     (case c of
        Inl _ \<Rightarrow> Inr None
      | Inr v \<Rightarrow> if length (c_str (take 4 v)) \<ge> 4 then Inl Undefined_behaviour else Inr (Some (c_str (take 4 v))))"

definition power_link ::
  "'d import_db \<Rightarrow> CsvMap \<Rightarrow> nat \<Rightarrow> nat \<Rightarrow> string \<Rightarrow> 'd \<Rightarrow> import_exn + link" where
  \<comment> \<open>the body of the loop for one power source that is not the asset itself\<close>
  "power_link D cm row_i k link_source d =
     bindE (if link_source = '''' then Inr 0
            else element_id D (Bios ''element-not-found'' [Raw (c_str link_source)]) link_source d) (\<lambda>s.
     bindE (four_bytes (cell cm row_i (numbered ''power_plug_src.'' k))) (\<lambda>out.
     bindE (four_bytes (cell cm row_i (numbered ''power_input.'' k))) (\<lambda>inp.
       Inr \<lparr> src = s, dest = 0, src_out = out, dest_in = inp, link_type = 0 \<rparr>)))"

fun links_of ::
  "'d import_db \<Rightarrow> CsvMap \<Rightarrow> nat \<Rightarrow> string \<Rightarrow> string \<Rightarrow> (string \<times> string) list \<Rightarrow> nat list \<Rightarrow> link list \<Rightarrow> 'd \<Rightarrow>
     import_exn + link list" where
  \<comment> \<open>the loop over \<open>power_source.X\<close>\<close>
  "links_of D cm row_i en ty sanitized [] acc d = Inr acc"
| "links_of D cm row_i en ty sanitized (k # ks) acc d =
     (let link_source = the (map_of sanitized (numbered ''power_source.'' k))
      in if link_source = en then links_of D cm row_i en ty sanitized ks acc d
         else bindE (power_link D cm row_i k link_source d) (\<lambda>one_link.
              links_of D cm row_i en ty sanitized ks
                (if src one_link \<noteq> 0 \<and> ty = ''device'' then acc @ [one_link\<lparr> link_type := 1 \<rparr>] else acc) d))"

definition link_columns :: "nat list \<Rightarrow> string list" where
  "link_columns ks =
     map (numbered ''power_source.'') ks @ map (numbered ''power_plug_src.'') ks @ map (numbered ''power_input.'') ks"

subsection \<open>Extended attributes\<close>

definition hw_columns :: "string list \<Rightarrow> string list" where
  \<comment> \<open>the columns removed for the row of RC-0\<close>
  "hw_columns unused =
     map (numbered ''ip.'') (indices ''ip.'' unused 1) @ map (numbered ''ipv6.'') (indices ''ipv6.'' unused 1) @
     [''fqdn'', ''serial_no'', ''model'', ''manufacturer'', ''uuid'']"

definition unused_after ::
  "string list \<Rightarrow> (string \<times> string) list \<Rightarrow> nat \<Rightarrow> nat \<Rightarrow> string \<Rightarrow> string list" where
  \<comment> \<open>\<open>unused_columns\<close> when the extended attributes are read\<close>
  "unused_after titles sanitized rc_0 row_i idn =
     (let keys = map fst sanitized;
          unused = fold set_erase (basic_columns @ map (numbered ''group.'') (indices ''group.'' keys 1) @
                     link_columns (indices ''power_source.'' keys 1)) titles
      in if rc_0 = row_i \<and> idn \<noteq> ''rackcontroller-0'' then fold set_erase (hw_columns unused) unused
         else unused)"

definition check_date :: "'d import_db \<Rightarrow> string \<Rightarrow> string \<Rightarrow> import_exn + string" where
  "check_date D key val =
     (if is_date key \<and> val \<noteq> ''''
      then (case sanitize_date (months D) (uninitialised_tm D) (c_str val) of
              Null \<Rightarrow> Inl (Bios ''request-param-bad'' [Raw (c_str key), Raw (c_str val), Translate ''ISO date'' []])
            | Undefined_date \<Rightarrow> Inl Undefined_behaviour
            | Date s \<Rightarrow> Inr s)
      else Inr val)"

definition check_known_key ::
  "'d import_db \<Rightarrow> (string \<times> string) list \<Rightarrow> string \<Rightarrow> string \<Rightarrow> 'd \<Rightarrow> import_exn + string" where
  \<comment> \<open>the checks by the name of the column; the value, replaced for a logical asset\<close>
  "check_known_key D sanitized key val d =
     (if key = ''logical_asset'' \<and> val \<noteq> ''''
      then let v = the (map_of sanitized ''logical_asset'') \<comment> \<open>\<open>at\<close>; the title is there\<close>
           in bindE (element_id D (Bios ''element-not-found'' [Raw (c_str v)]) v d) (\<lambda>_. Inr v)
      else if (key = ''calibration_offset_t'' \<or> key = ''calibration_offset_h'') \<and> val \<noteq> ''''
      then bindE (sanitize_value_double (stod D) key val) (\<lambda>_. Inr val)
      else if (key = ''max_current'' \<or> key = ''max_power'') \<and> val \<noteq> ''''
      then bindE (sanitize_value_double (stod D) key val) (\<lambda>negative.
           if negative
           then Inl (Bios ''request-param-bad''
                  [Raw key, Raw (quoted val), Translate ''value must be a not negative number'' []])
           else Inr val)
      else Inr val)"

definition check_rack_units :: "string \<Rightarrow> string \<Rightarrow> import_exn + unit" where
  "check_rack_units key val =
     (if (key = ''location_u_pos'' \<or> key = ''u_size'') \<and> val \<noteq> ''''
      then bindE (check_u_number key val) (\<lambda>_. Inr ()) else Inr ())"

definition ext_attribute ::
  "'d import_db \<Rightarrow> CsvMap \<Rightarrow> nat \<Rightarrow> (string \<times> string) list \<Rightarrow> string \<Rightarrow> 'd \<Rightarrow> import_exn + string option" where
  \<comment> \<open>one column: the value stored, if any\<close>
  "ext_attribute D cm row_i sanitized key d =
     bindE (cell cm row_i key) (\<lambda>v.
     bindE (check_date D key v) (\<lambda>v.
     bindE (check_known_key D sanitized key v d) (\<lambda>v.
     bindE (check_rack_units key v) (\<lambda>_.
       case match_ext_attr v key of (matched, v) \<Rightarrow> Inr (if matched then Some v else None)))))"

fun ext_loop ::
  "'d import_db \<Rightarrow> CsvMap \<Rightarrow> nat \<Rightarrow> (string \<times> string) list \<Rightarrow> string list \<Rightarrow> hash \<Rightarrow> 'd \<Rightarrow> import_exn + hash" where
  "ext_loop D cm row_i sanitized [] h d = Inr h"
| "ext_loop D cm row_i sanitized (key # keys) h d =
     bindE (ext_attribute D cm row_i sanitized key d) (\<lambda>v.
       ext_loop D cm row_i sanitized keys (case v of None \<Rightarrow> h | Some v \<Rightarrow> zhash_insert h key v) d)"

definition extattributes_of ::
  "'d import_db \<Rightarrow> CsvMap \<Rightarrow> nat \<Rightarrow> (string \<times> string) list \<Rightarrow> string list \<Rightarrow> row \<Rightarrow> 'd \<Rightarrow> import_exn + hash" where
  "extattributes_of D cm row_i sanitized unused r d =
     bindE (ext_loop D cm row_i sanitized unused (zhash_insert [] ''name'' (ename r)) d) (\<lambda>h.
       Inr (if type r = ''group'' then zhash_insert h ''type'' (subtype r) else h))"

record prepared = row +
  groups :: "nat list"
  links :: "link list"
  extattributes :: hash

definition check_row ::
  "'d import_db \<Rightarrow> CsvMap \<Rightarrow> nat \<Rightarrow> (string \<times> int) list \<Rightarrow> (string \<times> int) list \<Rightarrow> nat list \<Rightarrow> bool \<Rightarrow> nat \<Rightarrow>
     limitations \<Rightarrow> 'd \<Rightarrow> import_exn + prepared" where
  \<comment> \<open>\<open>process_row\<close> up to the storing\<close>
  "check_row D cm row_i TYPES SUBTYPES ids sanitize rc_0 limits d =
     (if global_configurability limits = 0
      then Inl (Bios ''action-forbidden''
             [Translate ''Asset handling'' [], Translate ''Licensing global_configurability limit hit'' []])
      else
        bindE (sanitize_row_ext_names D cm row_i sanitize d) (\<lambda>sanitized.
        if getTitles cm = [] then Inl (Bios ''bad-request-document'' [Translate ''Cannot import empty document.'' []])
        else
          bindE (basic_cells D cm row_i TYPES SUBTYPES ids rc_0 sanitized d) (\<lambda>r.
          let keys = map fst sanitized in
          bindE (groups_of D sanitized (indices ''group.'' keys 1) [] d) (\<lambda>gs.
          bindE (links_of D cm row_i (ename r) (type r) sanitized (indices ''power_source.'' keys 1) [] d) (\<lambda>ls.
          bindE (extattributes_of D cm row_i sanitized
                   (unused_after (getTitles cm) sanitized rc_0 row_i (id_str r)) r d) (\<lambda>h.
            Inr (row.extend r \<lparr> groups = gs, links = ls, extattributes = h \<rparr>)))))))"

subsection \<open>What a checked row satisfies\<close>

lemma checked_name_ok: "checked_name D cm row_i idn d = Inr (en, inm) \<Longrightarrow> en \<noteq> '''' \<and> length en \<le> 50"
  by (auto simp: checked_name_def bindE_eq_Inr_iff split: if_splits prod.splits)

lemma checked_type_ok: "checked_type TYPES cm row_i = Inr (ty, i) \<Longrightarrow> map_of TYPES ty = Some i"
  by (auto simp: checked_type_def bindE_eq_Inr_iff split: option.splits)

lemma checked_status_ok: "checked_status D cm row_i = Inr st \<Longrightarrow> st \<in> set STATUSES"
  by (auto simp: checked_status_def bindE_eq_Inr_iff split: if_splits)

lemma checked_asset_tag_ok: "checked_asset_tag cm row_i = Inr tag \<Longrightarrow> length tag \<le> 50"
  by (auto simp: checked_asset_tag_def bindE_eq_Inr_iff split: if_splits)

lemma checked_priority_ok: "checked_priority cm row_i = Inr p \<Longrightarrow> 1 \<le> p \<and> p \<le> 5"
  using get_priority_range by (auto simp: checked_priority_def bindE_eq_Inr_iff split: option.splits)

lemma checked_identity_ok:
  "checked_identity D cm row_i rc_0 ids d = Inr (idn, i) \<Longrightarrow> idn \<noteq> '''' \<Longrightarrow> i \<noteq> - 1 \<and> u32i i \<notin> set ids"
  by (auto simp: checked_identity_def Let_def bindE_eq_Inr_iff split: if_splits)

definition row_ok :: "(string \<times> int) list \<Rightarrow> nat list \<Rightarrow> 'a row_scheme \<Rightarrow> bool" where
  "row_ok TYPES ids r \<longleftrightarrow>
     ename r \<noteq> '''' \<and> length (ename r) \<le> 50 \<and> map_of TYPES (type r) = Some (type_id r) \<and>
     row_st r \<in> set STATUSES \<and> length (asset_tag r) \<le> 50 \<and> 1 \<le> priority r \<and> priority r \<le> 5 \<and>
     (id_str r \<noteq> '''' \<longrightarrow> u32i (asset_id r) \<notin> set ids)"

lemma basic_cells_ok:
  assumes "basic_cells D cm row_i TYPES SUBTYPES ids rc_0 sanitized d = Inr r"
  shows "row_ok TYPES ids r"
proof -
  from assms obtain idn i en inm ty ty_id st tag prio parent sub sub_id where
    "checked_identity D cm row_i rc_0 ids d = Inr (idn, i)" "checked_name D cm row_i idn d = Inr (en, inm)"
    "checked_type TYPES cm row_i = Inr (ty, ty_id)" "checked_status D cm row_i = Inr st" "checked_asset_tag cm row_i = Inr tag"
    "checked_priority cm row_i = Inr prio"
    "r = \<lparr> id_str = idn, asset_id = i, ename = en, iname = inm, type = ty, type_id = ty_id, row_st = st,
           asset_tag = tag, priority = prio, parent_id = parent, subtype = sub, subtype_id = sub_id \<rparr>"
    by (fastforce simp: basic_cells_def bindE_eq_Inr_iff)
  then show ?thesis
    by (auto simp: row_ok_def dest: checked_identity_ok checked_name_ok checked_type_ok checked_status_ok checked_asset_tag_ok
        checked_priority_ok)
qed

lemma check_row_parts:
  assumes "check_row D cm row_i TYPES SUBTYPES ids sanitize rc_0 limits d = Inr r"
  obtains sanitized and b :: row where "global_configurability limits \<noteq> 0" and "row_ok TYPES ids b"
    and "extattributes_of D cm row_i sanitized
           (unused_after (getTitles cm) sanitized rc_0 row_i (id_str b)) b d = Inr (extattributes r)"
    and "row.truncate r = b"
proof -
  from assms obtain sanitized and b :: row and gs ls h where "global_configurability limits \<noteq> 0"
    and b: "basic_cells D cm row_i TYPES SUBTYPES ids rc_0 sanitized d = Inr b"
    and "extattributes_of D cm row_i sanitized
           (unused_after (getTitles cm) sanitized rc_0 row_i (id_str b)) b d = Inr h"
    and "r = row.extend b \<lparr> groups = gs, links = ls, extattributes = h \<rparr>"
    unfolding check_row_def Let_def by (auto simp: bindE_eq_Inr_iff split: if_splits)
  with that [of b sanitized] basic_cells_ok [OF b] show ?thesis
    by (simp add: row.defs prepared.defs)
qed

end
