(* ===== verification/ImportStore.thy ===== *)
theory ImportStore
  imports ImportRow
begin

text \<open>
  \<open>src/db/inout/importcsv.cc\<close>, \<open>process_row\<close>: the second half, which stores a checked row as an update
  or an insertion and asks the licensing agent to deactivate and activate devices, and the function
  as a whole.
\<close>

datatype asset_operation = Insert | Update

record imported = \<comment> \<open>the element returned\<close>
  m_id :: nat
  m_name :: string
  m_status :: string
  m_parent_id :: nat
  m_priority :: nat
  m_type_id :: nat
  m_subtype_id :: nat
  m_asset_tag :: string
  m_ext :: hash

definition as_std :: "('d, string, 'a) prog \<Rightarrow> ('d, import_exn, 'a) prog" where
  "as_std m = (\<lambda>d. case m d of (r, d') \<Rightarrow> (dberr r, d'))"

definition attempt :: "('d, string, unit) prog \<Rightarrow> ('d, import_exn, string option) prog" where
  \<comment> \<open>\<open>try { m } catch (const std::exception& e)\<close>: what was caught\<close>
  "attempt m = (\<lambda>d. case m d of (Inl w, d') \<Rightarrow> (Inr (Some w), d') | (Inr _, d') \<Rightarrow> (Inr None, d'))"

abbreviation db :: "'d import_db \<Rightarrow> ('d, hash) asset_db" where
  "db D \<equiv> asset_db.truncate D"

definition licensing_warning :: "string \<Rightarrow> string option \<Rightarrow> msg option" where
  "licensing_warning idn caught =
     (case caught of
        None \<Rightarrow> None
      | Some w \<Rightarrow> Some (Translate ''Element '%s' is updated but a licensing error occured: %s'' [idn, w]))"

definition ask_activation :: "'d import_db \<Rightarrow> bool \<Rightarrow> nat \<Rightarrow> string \<Rightarrow> ('d, import_exn, msg option) prog" where
  \<comment> \<open>\<open>if (requestedStatus == "active")\<close> activate, a failure becomes a warning\<close>
  "ask_activation D requested i idn =
     (if requested
      then andThen (attempt (andThen (query (getJsonAsset D i)) (activate D)))
             (\<lambda>caught. ret (licensing_warning idn caught))
      else ret None)"

definition updated_ok :: "int \<times> msg \<Rightarrow> ('d, import_exn, unit) prog" where
  \<comment> \<open>\<open>if ((ret) || (!errmsg.empty())) throw std::invalid_argument(errmsg);\<close>\<close>
  "updated_ok r = (if fst r \<noteq> 0 \<or> snd r \<noteq> Raw '''' then throw (Invalid_arg (snd r)) else ret ())"

definition update_ro :: "CsvMap \<Rightarrow> hash" where
  "update_ro cm =
     (let h = (if update_ts cm \<noteq> '''' then zhash_insert [] ''update_ts'' (update_ts cm) else [])
      in if update_user cm \<noteq> '''' then zhash_insert h ''update_user'' (update_user cm) else h)"

definition store_device ::
  "'d import_db \<Rightarrow> CsvMap \<Rightarrow> prepared \<Rightarrow> string \<Rightarrow> ('d, import_exn, unit) prog" where
  \<comment> \<open>a transaction with \<open>update_device\<close> for the status given\<close>
  "store_device D cm r st =
     andThen (as_std (with_transaction
       (update_device (db D) (u32i (asset_id r)) (iname r) (parent_id r) (extattributes r) st (u16 (priority r))
          (groups r) (links r) (asset_tag r) (Raw '''') (Some (update_ro cm)))))
       (\<lambda>(c, errmsg, ls). updated_ok (c, errmsg))"

definition update_asset :: "'d import_db \<Rightarrow> CsvMap \<Rightarrow> prepared \<Rightarrow> ('d, import_exn, nat \<times> string \<times> msg option) prog" where
  \<comment> \<open>the number, the value \<open>status\<close> is left with, and the warning\<close>
  "update_asset D cm r =
     (let i = u32i (asset_id r); idn = id_str r in
      if type r \<noteq> ''device''
      then andThen (as_std (update_dc_room_row_rack_group (db D) i (iname r) (parent_id r) (extattributes r)
                      (row_st r) (u16 (priority r)) (groups r) (asset_tag r) (Raw '''') (Some (update_ro cm))))
             (\<lambda>res. andThen (updated_ok res) (\<lambda>_. ret (i, row_st r, None)))
      else if idn \<noteq> ''rackcontroller-0''
      then
        andThen (as_std (query (get_status_from_db_helper D idn))) (\<lambda>currentStatus.
        andThen (if currentStatus = ''active''
                 then andThen (attempt (andThen (query (getJsonAsset D i)) (deactivate D))) (\<lambda>caught.
                      case caught of None \<Rightarrow> ret () | Some w \<Rightarrow> throw (Bios ''licensing-err'' [Jsonify (Raw w)]))
                 else ret ()) (\<lambda>_.
        andThen (store_device D cm r ''nonactive'') (\<lambda>_.
        andThen (ask_activation D (row_st r = ''active'') i idn) (\<lambda>warning.
          ret (i, if row_st r = ''active'' then ''nonactive'' else row_st r, warning)))))
      else andThen (store_device D cm r (row_st r)) (\<lambda>_. ret (i, row_st r, None)))"

definition create_ro :: "CsvMap \<Rightarrow> import_exn + hash" where
  \<comment> \<open>a table whose create mode was never set is read uninitialised\<close>
  "create_ro cm =
     (case create_mode cm of
        None \<Rightarrow> Inl Undefined_behaviour
      | Some mode \<Rightarrow>
          let h = (if mode \<noteq> 0 then zhash_insert [] ''create_mode'' (to_string (unat mode)) else [])
          in Inr (if create_user cm \<noteq> '''' then zhash_insert h ''create_user'' (create_user cm) else h))"

definition inserted_ok :: "db_reply \<Rightarrow> ('d, import_exn, nat) prog" where
  "inserted_ok r =
     (if AssetDb.status r \<noteq> 1 then throw (BiosError (rowid r) (reply_msg r)) else ret (u32 (rowid r)))"

definition insert_new_device ::
  "'d import_db \<Rightarrow> prepared \<Rightarrow> hash \<Rightarrow> string \<Rightarrow> ('d, import_exn, nat) prog" where
  "insert_new_device D r ro st =
     andThen (as_std (with_transaction
       (insert_device (db D) (links r) (groups r) (ename r) (parent_id r) (extattributes r) (u16i (subtype_id r)) st
          (u16 (priority r)) (asset_tag r) (Some ro)))) (\<lambda>(rep, ls). inserted_ok rep)"

definition rack_controller_id :: "'d import_db \<Rightarrow> (string \<times> int) list \<Rightarrow> int" where
  "rack_controller_id D SUBTYPES =
     (case map_of SUBTYPES ''rack controller'' of Some i \<Rightarrow> i | None \<Rightarrow> past_end D)"

definition insert_asset ::
  "'d import_db \<Rightarrow> CsvMap \<Rightarrow> (string \<times> int) list \<Rightarrow> prepared \<Rightarrow> ('d, import_exn, nat \<times> string \<times> msg option) prog" where
  "insert_asset D cm SUBTYPES r =
     andThen (lift (create_ro cm)) (\<lambda>ro.
     if type r \<noteq> ''device''
     then
       andThen (as_std (insert_dc_room_row_rack_group (db D) (ename r) (u16i (type_id r)) (parent_id r)
                  (extattributes r) (row_st r) (u16 (priority r)) (groups r) (asset_tag r) (Some ro))) (\<lambda>rep.
       andThen (inserted_ok rep) (\<lambda>i. ret (i, row_st r, None)))
     else if subtype_id r \<noteq> rack_controller_id D SUBTYPES
     then
       let st = (if row_st r = ''active'' then ''nonactive'' else row_st r) in
       andThen (insert_new_device D r ro st) (\<lambda>i.
       andThen (ask_activation D (row_st r = ''active'') i (id_str r)) (\<lambda>warning. ret (i, st, warning)))
     else
       andThen (insert_new_device D r ro (row_st r)) (\<lambda>i. ret (i, row_st r, None)))"

definition store_row ::
  "'d import_db \<Rightarrow> CsvMap \<Rightarrow> (string \<times> int) list \<Rightarrow> prepared \<Rightarrow>
     ('d, import_exn, imported \<times> asset_operation \<times> msg option) prog" where
  "store_row D cm SUBTYPES r =
     andThen (if id_str r \<noteq> '''' then update_asset D cm r else insert_asset D cm SUBTYPES r)
       (\<lambda>(i, st, warning).
     andThen (as_std (query (extname_to_asset_name D (ename r)))) (\<lambda>(rv, name).
     if rv \<noteq> 0 then throw database_failure
     else ret (\<lparr> m_id = i, m_name = name, m_status = st, m_parent_id = parent_id r, m_priority = u16 (priority r),
                 m_type_id = u16i (type_id r), m_subtype_id = u16i (subtype_id r), m_asset_tag = asset_tag r,
                 m_ext = extattributes r \<rparr>,
               if id_str r \<noteq> '''' then Update else Insert, warning)))"

definition process_row ::
  "'d import_db \<Rightarrow> CsvMap \<Rightarrow> nat \<Rightarrow> (string \<times> int) list \<Rightarrow> (string \<times> int) list \<Rightarrow> nat list \<Rightarrow> bool \<Rightarrow> nat \<Rightarrow>
     limitations \<Rightarrow> ('d, import_exn, (imported \<times> asset_operation) \<times> nat list \<times> msg option) prog" where
  \<comment> \<open>the element and the operation, the ids seen, the warning\<close>
  "process_row D cm row_i TYPES SUBTYPES ids sanitize rc_0 limits =
     andThen (query (check_row D cm row_i TYPES SUBTYPES ids sanitize rc_0 limits)) (\<lambda>r.
     andThen (store_row D cm SUBTYPES r) (\<lambda>(m, operation, warning).
       ret ((m, operation), if id_str r \<noteq> '''' then set_insert (u32i (asset_id r)) ids else ids, warning)))"

subsection \<open>Lemmas\<close>

definition clean_titles :: "CsvMap \<Rightarrow> bool" where
  \<comment> \<open>no title has a null character\<close>
  "clean_titles cm \<longleftrightarrow> (\<forall>t \<in> set (getTitles cm). CHR 0x00 \<notin> set t)"

lemma null_char_code: "CHR 0x00 = c \<longleftrightarrow> char_code c = 0"
proof
  assume "char_code c = 0"
  then have "(of_char c :: nat) = of_char (CHR 0x00)" by (simp add: char_code_def)
  then show "CHR 0x00 = c" by (metis of_char_eq_iff)
qed (auto simp: char_code_def)

lemma tolower_not_null: "char_code c \<noteq> 0 \<Longrightarrow> char_code (tolower c) \<noteq> 0"
proof (cases "isupper c")
  case True
  then have "char_code c \<le> 90" by (simp add: isupper_def)
  then have "char_code (char_of (char_code c + 32)) = char_code c + 32" by (simp add: char_code_def [of "char_of _"])
  with True show ?thesis by (simp add: tolower_def)
qed (simp add: tolower_def)

lemma ci_strip_clean: "CHR 0x00 \<notin> set (ci_strip s)"
proof -
  have "char_code (tolower c) \<noteq> 0" if "isalnum c \<or> c = CHR ''_'' \<or> c = CHR ''.''" for c
  proof -
    have "char_code (CHR ''_'') \<noteq> 0" "char_code (CHR ''.'') \<noteq> 0" by (simp_all add: char_code_def)
    with that have "char_code c \<noteq> 0" by (auto simp: isalnum_def isdigit_def isupper_def islower_def)
    then show ?thesis by (rule tolower_not_null)
  qed
  then have "\<forall>c \<in> set s. (isalnum c \<or> c = CHR ''_'' \<or> c = CHR ''.'') \<longrightarrow> CHR 0x00 \<noteq> tolower c"
    using null_char_code by blast
  then show ?thesis unfolding ci_strip_def set_map set_filter by blast
qed

lemma deserialized_clean:
  assumes "deserialized d cm"
  shows "clean_titles cm"
  unfolding clean_titles_def
proof
  fix t assume "t \<in> set (getTitles cm)"
  then have "t \<in> fst ` set (title_to_index cm)" by (simp add: getTitles_def set_fold_set_insert)
  then obtain i where "map_of (title_to_index cm) t = Some i"
    by (metis domIff dom_map_of_conv_image_fst option.exhaust)
  then have "index_of 0 (d ! 0) t = Some i" using deserialized_index(2) [OF assms] by (simp add: titles_index_def)
  then have "ci_strip (d ! 0 ! i) = t" by (auto dest: index_of_SomeD)
  with ci_strip_clean show "CHR 0x00 \<notin> set t" by metis
qed

text \<open>What the extended attributes of an imported asset satisfy.\<close>

definition rack_value_ok :: "string \<Rightarrow> string \<Rightarrow> bool" where
  "rack_value_ok key v \<longleftrightarrow>
     (key = ''u_size'' \<longrightarrow> (\<exists>n. 1 \<le> n \<and> n \<le> 52 \<and> v = to_string n)) \<and>
     (key = ''location_u_pos'' \<longrightarrow> (\<exists>w n. check_u_number key w = Inr n \<and> 1 \<le> n \<and> n \<le> 52 \<and> v = c_str w))"

definition rack_units_ok :: "hash \<Rightarrow> bool" where
  "rack_units_ok h \<longleftrightarrow> (\<forall>k v. map_of h k = Some v \<longrightarrow> rack_value_ok k v)"

lemma check_u_number_range: "check_u_number key v = Inr n \<Longrightarrow> 1 \<le> n \<and> n \<le> 52"
proof -
  assume "check_u_number key v = Inr n"
  then obtain p where s: "stoul v = Some (n, p)" and r: "n \<noteq> 0" "n \<le> 52"
    by (auto simp: check_u_number_def Let_def split: option.splits if_splits)
  have "0 \<le> n" using s by (auto simp: stoul_def strtoull_def Let_def split: prod.splits if_splits)
  with r show ?thesis by linarith
qed

lemma ext_attribute_rack:
  assumes "ext_attribute D cm row_i sanitized key d = Inr (Some v)"
  shows "rack_value_ok key (c_str v)"
proof -
  from assms obtain w u where u: "check_rack_units key w = Inr u" and m: "match_ext_attr w key = (True, v)"
    unfolding ext_attribute_def bindE_eq_Inr_iff by (fastforce split: prod.split_asm if_splits)
  have "\<exists>n. 1 \<le> n \<and> n \<le> 52 \<and> c_str v = to_string n" if "key = ''u_size''"
  proof -
    have c: "check_u_size w = (True, v)" using m that by (simp add: match_ext_attr_def)
    then have "w \<noteq> ''''" by (auto simp: check_u_size_def u_size_regex_def)
    with u that obtain n where "check_u_number key w = Inr n" by (auto simp: check_rack_units_def bindE_eq_Inr_iff)
    from u_size_text [OF this c] show ?thesis by (intro exI [of _ "nat n"]) auto
  qed
  moreover have "\<exists>w n. check_u_number key w = Inr n \<and> 1 \<le> n \<and> n \<le> 52 \<and> c_str v = c_str w"
    if "key = ''location_u_pos''"
  proof -
    have w: "w = v" "w \<noteq> ''''" using m that by (auto simp: match_ext_attr_def)
    with u that obtain n where "check_u_number key w = Inr n" by (auto simp: check_rack_units_def bindE_eq_Inr_iff)
    with w check_u_number_range [OF this] show ?thesis by blast
  qed
  ultimately show ?thesis by (simp add: rack_value_ok_def)
qed

lemma map_of_zhash_insert:
  "smap h \<Longrightarrow> smap (zhash_insert h k v) \<and>
     map_of (zhash_insert h k v) = (if map_of h (c_str k) = None then (map_of h)(c_str k \<mapsto> c_str v) else map_of h)"
  by (auto simp: zhash_insert_def map_emplace_def split: option.splits)

lemma zhash_insert_rack:
  "smap h \<Longrightarrow> rack_units_ok h \<Longrightarrow> rack_value_ok (c_str k) (c_str v) \<Longrightarrow> rack_units_ok (zhash_insert h k v)"
  using map_of_zhash_insert [of h k v] by (auto simp: rack_units_ok_def split: if_splits)

lemma zhash_insert_keeps: "smap h \<Longrightarrow> map_of h k = Some v \<Longrightarrow> map_of (zhash_insert h k' v') k = Some v"
  using map_of_zhash_insert [of h k' v'] by auto

lemma ext_loop_ok:
  assumes "ext_loop D cm row_i sanitized keys h d = Inr h'" and "smap h" and "rack_units_ok h"
    and "\<forall>k \<in> set keys. CHR 0x00 \<notin> set k"
  shows "smap h' \<and> rack_units_ok h' \<and> (\<forall>k v. map_of h k = Some v \<longrightarrow> map_of h' k = Some v)"
  using assms
proof (induction keys arbitrary: h)
  case Nil
  then show ?case by simp
next
  case (Cons key keys)
  from Cons.prems(1) obtain v where v: "ext_attribute D cm row_i sanitized key d = Inr v"
    and rest: "ext_loop D cm row_i sanitized keys (case v of None \<Rightarrow> h | Some v \<Rightarrow> zhash_insert h key v) d = Inr h'"
    by (auto simp: bindE_eq_Inr_iff)
  have key: "c_str key = key" using Cons.prems(4) by (simp add: c_str_clean)
  show ?case
  proof (cases v)
    case None
    with rest Cons show ?thesis by simp
  next
    case (Some w)
    let ?h = "zhash_insert h key w"
    have "rack_value_ok (c_str key) (c_str w)" unfolding key by (rule ext_attribute_rack [OF v [unfolded Some]])
    then have "rack_units_ok ?h" by (rule zhash_insert_rack [OF Cons.prems(2,3)])
    moreover have "smap ?h" using map_of_zhash_insert [OF Cons.prems(2)] by blast
    ultimately have "smap h' \<and> rack_units_ok h' \<and> (\<forall>k v. map_of ?h k = Some v \<longrightarrow> map_of h' k = Some v)"
      using Cons.IH [of ?h] rest Some Cons.prems(4) by simp
    with zhash_insert_keeps [OF Cons.prems(2)] show ?thesis by blast
  qed
qed

lemma set_fold_set_erase [simp]: "set (fold set_erase ks ts) = set ts - set ks"
  by (induction ks arbitrary: ts) auto

lemma unused_after_subset: "set (unused_after titles sanitized rc_0 row_i idn) \<subseteq> set titles"
  by (auto simp: unused_after_def Let_def)

lemma extattributes_ok:
  assumes "extattributes_of D cm row_i sanitized unused r d = Inr h"
    and "\<forall>t \<in> set unused. CHR 0x00 \<notin> set t"
  shows "rack_units_ok h \<and> map_of h ''name'' = Some (c_str (ename r))"
proof -
  have c: "c_str ''name'' = ''name''" "c_str ''type'' = ''type''" by code_simp+
  let ?h = "zhash_insert [] ''name'' (ename r)"
  have new: "smap ?h" "map_of ?h = [''name'' \<mapsto> c_str (ename r)]"
    using map_of_zhash_insert [of "[]" "''name''" "ename r"] c by (auto simp: fun_eq_iff)
  then have "rack_units_ok ?h" by (auto simp: rack_units_ok_def rack_value_ok_def split: if_splits)
  from assms(1) obtain h1 where loop: "ext_loop D cm row_i sanitized unused ?h d = Inr h1"
    and h: "h = (if type r = ''group'' then zhash_insert h1 ''type'' (subtype r) else h1)"
    by (auto simp: extattributes_of_def bindE_eq_Inr_iff)
  from ext_loop_ok [OF loop new(1) \<open>rack_units_ok ?h\<close> assms(2)] new(2)
  have h1: "smap h1" "rack_units_ok h1" "map_of h1 ''name'' = Some (c_str (ename r))" by auto
  have "rack_value_ok (c_str ''type'') (c_str (subtype r))" unfolding c by (simp add: rack_value_ok_def)
  from zhash_insert_rack [OF h1(1,2) this] zhash_insert_keeps [OF h1(1,3)] h h1 show ?thesis by auto
qed

text \<open>The status an import reports, and the warning that goes with it.\<close>

definition reported :: "prepared \<Rightarrow> string \<Rightarrow> msg option \<Rightarrow> bool" where
  "reported r st warning \<longleftrightarrow>
     st \<in> {row_st r, ''nonactive''} \<and> (warning \<noteq> None \<longrightarrow> row_st r = ''active'' \<and> st = ''nonactive'')"

lemma ask_activation_ok: "ask_activation D requested i idn d = (Inr w, d') \<Longrightarrow> w \<noteq> None \<Longrightarrow> requested"
  by (auto simp: ask_activation_def ret_def split: if_splits)

lemma update_asset_reported:
  "update_asset D cm r d = (Inr (i, st, w), d') \<Longrightarrow> i = u32i (asset_id r) \<and> reported r st w"
  unfolding update_asset_def Let_def
  by (auto simp: andThen_eq_Inr_iff ret_def reported_def split: if_splits dest: ask_activation_ok)

lemma insert_asset_reported: "insert_asset D cm SUBTYPES r d = (Inr (i, st, w), d') \<Longrightarrow> reported r st w"
  unfolding insert_asset_def Let_def
  by (auto simp: andThen_eq_Inr_iff ret_def reported_def split: if_splits dest: ask_activation_ok)

lemma store_row_element:
  assumes "store_row D cm SUBTYPES r d = (Inr (m, operation, w), d')"
  shows "reported r (m_status m) w \<and> m_priority m = u16 (priority r) \<and> m_type_id m = u16i (type_id r) \<and>
         m_asset_tag m = asset_tag r \<and> m_ext m = extattributes r \<and>
         (operation = Update \<longleftrightarrow> id_str r \<noteq> '''') \<and> (operation = Update \<longrightarrow> m_id m = u32i (asset_id r))"
proof -
  from assms obtain i st w1 d1 where
    run: "(if id_str r \<noteq> '''' then update_asset D cm r else insert_asset D cm SUBTYPES r) d = (Inr (i, st, w1), d1)"
    and m: "m_id m = i" "m_status m = st" "m_priority m = u16 (priority r)" "m_type_id m = u16i (type_id r)"
      "m_asset_tag m = asset_tag r" "m_ext m = extattributes r" "w = w1"
      "operation = (if id_str r \<noteq> '''' then Update else Insert)"
    unfolding store_row_def by (auto simp: andThen_eq_Inr_iff ret_def throw_def split: if_splits)
  have "reported r st w1 \<and> (id_str r \<noteq> '''' \<longrightarrow> i = u32i (asset_id r))"
    using run update_asset_reported insert_asset_reported by (cases "id_str r = ''''") fastforce+
  with m show ?thesis by auto
qed

lemma process_row_parts:
  assumes "process_row D cm row_i TYPES SUBTYPES ids sanitize rc_0 limits d = (Inr ((m, operation), ids', w), d')"
  obtains r where "check_row D cm row_i TYPES SUBTYPES ids sanitize rc_0 limits d = Inr r"
    and "store_row D cm SUBTYPES r d = (Inr (m, operation, w), d')"
    and "ids' = (if id_str r \<noteq> '''' then set_insert (u32i (asset_id r)) ids else ids)"
  using assms by (auto simp: process_row_def andThen_eq_Inr_iff ret_def query_def split: prod.splits)

lemma row_ok_truncate: "row_ok TYPES ids (row.truncate r) = row_ok TYPES ids (r :: prepared)"
  by (simp add: row_ok_def row.defs)

subsection \<open>An installation\<close>

text \<open>
  One data centre and one active UPS; the data base is the log of the statements, and an element that
  has been inserted gets the internal name \<open>new-1\<close>.
\<close>

definition import_views :: views where
  "import_views =
     \<lparr> v_link = [], v_group = [],
       v_element =
         [\<lparr> row_name = ''dc-1'', row_parent = None, row_status = ''active'', row_priority = 1, row_id = 1, row_id_type = 2,
            row_id_subtype = 1 \<rparr>,
          \<lparr> row_name = ''ups-12'', row_parent = Some 1, row_status = ''active'', row_priority = 1, row_id = 12,
            row_id_type = 6, row_id_subtype = 1 \<rparr>],
       v_ext = [], v_super_parent = [],
       v_element_type = [(''datacenter'', 2), (''rack'', 5), (''device'', 6)],
       v_device_type = [(''ups'', 1), (''rack controller'', 15), (''patch panel'', 20)] \<rparr>"

definition import_basic :: "nat \<Rightarrow> basic_element reply" where
  "import_basic i =
     (if i = 12
      then Item \<lparr> be_id = 12, be_name = ''ups-12'', be_type_id = 6, be_type_name = ''device'', be_subtype_id = 1, be_subtype_name = ''ups'',
             be_parent_id = 1, be_status = ''active'', be_priority = 2, be_asset_tag = '''' \<rparr>
      else Failed \<lparr> err_type = 1, err_subtype = 4, err_msg = Raw ''not found'' \<rparr>)"

definition sample_import :: "string \<Rightarrow> string list import_db" where
  \<comment> \<open>the argument is the statement that fails\<close>
  "sample_import bad = manager_db.extend
     (asset_db.extend (logging_db bad 1)
       (manager_db.fields 3 4 1 0 0 9 (\<lambda>_. 6) (\<lambda>_. 1) None
         (\<lambda>i d. Inr (import_basic i)) (\<lambda>i d. Inr (Item [])) (\<lambda>i d. Inr (Item [])) (\<lambda>i d. Inr (Item []))
         (\<lambda>i d. Inr (0, [])) (\<lambda>t s d. Inr (Item [])) (\<lambda>k n d. Inr 0)
         (\<lambda>i d. Inr ''{}'') (\<lambda>d. []) False (\<lambda>i d. Inr [])))
     (import_db.fields
       (\<lambda>n d. Inr (if n = ''ups-12'' then 12 else - 1))
       (\<lambda>n d. Inr (if n = ''UPS 12'' then (0, ''ups-12'') else if n = ''DC 1'' then (0, ''dc-1'')
                   else if ''insert_element'' \<in> set d then (0, ''new-1'') else (- 1, '''')))
       (\<lambda>n d. Inr ''active'') (\<lambda>_. True) (\<lambda>_. Inr import_views)
       (\<lambda>j d. if bad = ''activate'' then (Inl ''limit reached'', d) else (Inr (), d @ [''activate'']))
       (\<lambda>ss sep. concat ss) (\<lambda>_. None) [] \<lparr> tm_mday = 1, tm_mon = 1, tm_year = 0 \<rparr> 0)"

definition import_table :: "string list list \<Rightarrow> CsvMap" where
  "import_table cells = snd (deserialize (CsvMap_new
     ([''Name'', ''Type'', ''Sub_Type'', ''Location'', ''Status'', ''Priority'', ''id'', ''u_size''] # cells)))\<lparr> create_mode := Some 2 \<rparr>"

definition sample_limits :: limitations where
  "sample_limits = \<lparr> max_active_power_devices = 10, global_configurability = 1 \<rparr>"

abbreviation sample_process :: "string \<Rightarrow> string list \<Rightarrow> (string list, import_exn, (imported \<times> asset_operation) \<times> nat list \<times> msg option) prog" where
  "sample_process bad cells \<equiv>
     process_row (sample_import bad) (import_table [cells]) 1 (v_element_type import_views) (v_device_type import_views) [] True
       SIZE_MAX sample_limits"

subsection \<open>Properties\<close>

text \<open>The documented priority 0 does not exist.\<close>

lemma get_priority_zero: "get_priority ''0'' = Some 5"
  by code_simp

text \<open>C3. An element that an import reports is well formed: a known status, a priority between 1 and 5,
  a type of the dictionary, a tag of at most 50 characters, the name it was given (at most 50
  characters) and, where it has them, a size in a rack that is a number between 1 and 52 in decimal and
  a position that reads as one; an update is of an element not seen before in the table, and a warning
  of the licensing agent goes with an element left \<open>nonactive\<close>. The titles of the table are assumed
  to have no null character. (The comment of \<open>get_priority\<close> in \<open>db/inout.h\<close> says that the text 0 is the
  priority 0; the code reads it as 5, the value for a priority that is not detected, by \<open>get_priority_zero\<close>, and no element with the priority 0 is reported.)\<close>

theorem imported_element_well_formed:
  assumes "process_row D cm row_i TYPES SUBTYPES ids sanitize rc_0 limits d = (Inr ((m, operation), ids', w), d')"
    and "clean_titles cm"
  shows "m_status m \<in> set STATUSES \<and> 1 \<le> m_priority m \<and> m_priority m \<le> 5 \<and> length (m_asset_tag m) \<le> 50 \<and>
     (\<exists>ty i. map_of TYPES ty = Some i \<and> m_type_id m = u16i i) \<and>
     (\<exists>en. en \<noteq> '''' \<and> length en \<le> 50 \<and> map_of (m_ext m) ''name'' = Some (c_str en)) \<and> rack_units_ok (m_ext m) \<and>
     (if operation = Update then m_id m \<notin> set ids \<and> ids' = set_insert (m_id m) ids else ids' = ids) \<and>
     (w \<noteq> None \<longrightarrow> m_status m = ''nonactive'')"
proof -
  obtain r where check: "check_row D cm row_i TYPES SUBTYPES ids sanitize rc_0 limits d = Inr r"
    and store: "store_row D cm SUBTYPES r d = (Inr (m, operation, w), d')"
    and ids': "ids' = (if id_str r \<noteq> '''' then set_insert (u32i (asset_id r)) ids else ids)"
    by (rule process_row_parts [OF assms(1)])
  obtain sanitized and b :: row where b: "row_ok TYPES ids b" "row.truncate r = b"
    and ext: "extattributes_of D cm row_i sanitized
                (unused_after (getTitles cm) sanitized rc_0 row_i (id_str b)) b d = Inr (extattributes r)"
    by (rule check_row_parts [OF check])
  have ok: "row_ok TYPES ids r" using b row_ok_truncate by metis
  have clean: "\<forall>t \<in> set (unused_after (getTitles cm) sanitized rc_0 row_i (id_str b)). CHR 0x00 \<notin> set t"
    using unused_after_subset assms(2) unfolding clean_titles_def by blast
  have "ename b = ename r" using b(2) by (auto simp: row.defs)
  with extattributes_ok [OF ext clean] store_row_element [OF store] ok ids' show ?thesis
    by (auto simp: row_ok_def reported_def STATUSES_def u16_def)
qed

lemma runs_to: "(case fst q of Inl _ \<Rightarrow> False | Inr x \<Rightarrow> P x) \<Longrightarrow> \<exists>x. q = (Inr x, snd q) \<and> P x"
  by (cases q) (auto split: sum.splits)

lemma import_table_clean:
  assumes "distinct (map ci_strip [''Name'', ''Type'', ''Sub_Type'', ''Location'', ''Status'', ''Priority'', ''id'', ''u_size''])"
  shows "clean_titles (import_table cells)"
proof -
  let ?d = "[''Name'', ''Type'', ''Sub_Type'', ''Location'', ''Status'', ''Priority'', ''id'', ''u_size''] # cells"
  have "\<exists>cm. deserialized ?d cm" using assms by (simp add: deserialized_iff)
  then have "deserialized ?d (snd (deserialize (CsvMap_new ?d)))" by (auto simp: deserialized_def)
  from deserialized_clean [OF this] show ?thesis by (simp add: import_table_def clean_titles_def getTitles_def)
qed

theorem imported_element_well_formed_witness:
  "\<exists>m w ids' d. sample_process ''activate'' [''UPS 12'', ''device'', ''ups'', ''dc-1'', ''active'', ''P2'', ''ups-12'', ''07''] [] =
       (Inr ((m, Update), ids', Some w), d) \<and>
     m_status m = ''nonactive'' \<and> m_priority m = 2 \<and> map_of (m_ext m) ''u_size'' = Some ''7'' \<and> ids' = [12]"
proof -
  let ?run = "sample_process ''activate'' [''UPS 12'', ''device'', ''ups'', ''dc-1'', ''active'', ''P2'', ''ups-12'', ''07''] []"
  have "case fst ?run of Inl _ \<Rightarrow> False
        | Inr x \<Rightarrow> snd (fst x) = Update \<and> snd (snd x) \<noteq> None \<and> m_id (fst (fst x)) = 12 \<and> m_priority (fst (fst x)) = 2 \<and>
            map_of (m_ext (fst (fst x))) ''u_size'' = Some ''7''" by code_simp
  from runs_to [OF this] obtain x where run: "?run = (Inr x, snd ?run)" and x: "snd (fst x) = Update"
    "snd (snd x) \<noteq> None" "m_id (fst (fst x)) = 12" "m_priority (fst (fst x)) = 2"
    "map_of (m_ext (fst (fst x))) ''u_size'' = Some ''7''" by blast
  obtain m ids' w where "x = ((m, Update), ids', Some w)" using x by (metis option.collapse prod.collapse)
  with run x have run: "?run = (Inr ((m, Update), ids', Some w), snd ?run)"
    and m: "m_id m = 12" "m_priority m = 2" "map_of (m_ext m) ''u_size'' = Some ''7''" by simp_all
  have "distinct (map ci_strip [''Name'', ''Type'', ''Sub_Type'', ''Location'', ''Status'', ''Priority'', ''id'', ''u_size''])"
    by code_simp
  from imported_element_well_formed [OF run import_table_clean [OF this]]
  have "m_status m = ''nonactive'' \<and> ids' = set_insert (m_id m) []" by simp
  with run m show ?thesis by (intro exI conjI) (assumption | simp add: set_insert_def)+
qed

text \<open>
  To say which status is stored: a data base in which the statement that updates an asset stores
  \<open>nonactive\<close>, whatever status it is given, and does everything else as before.
\<close>

definition storing_nonactive :: "'d import_db \<Rightarrow> 'd import_db" where
  "storing_nonactive D =
     D\<lparr> update_asset_element := \<lambda>i n p st. update_asset_element D i n p ''nonactive'' \<rparr>"

lemma update_device_stores:
  "update_device (db (storing_nonactive D)) i n p e ''nonactive'' pr gs ls tag err ro =
   update_device (db D) i n p e ''nonactive'' pr gs ls tag err ro"
  by (simp add: update_device_def storing_nonactive_def asset_db.defs cong: if_cong option.case_cong)

lemma store_device_nonactive: "store_device (storing_nonactive D) cm r ''nonactive'' = store_device D cm r ''nonactive''"
  by (simp add: store_device_def update_device_stores)

lemma ask_activation_storing: "ask_activation (storing_nonactive D) b i idn = ask_activation D b i idn"
  by (simp add: ask_activation_def storing_nonactive_def)

lemma storing_nonactive_sel:
  "getJsonAsset (storing_nonactive D) = getJsonAsset D" "activate (storing_nonactive D) = activate D"
  "deactivate (storing_nonactive D) = deactivate D"
  "get_status_from_db_helper (storing_nonactive D) = get_status_from_db_helper D"
  by (simp_all add: storing_nonactive_def)

text \<open>C29. An update of a device other than the rack controller stores the status \<open>nonactive\<close>, whatever
  status was asked for: it has the result and the effect it has on a data base whose update statement
  stores \<open>nonactive\<close> whatever it is given. The licensing agent is then asked to activate the device when
  \<open>active\<close> was asked for; so an import that asks for \<open>retired\<close> or \<open>spare\<close> has exactly the effect of one
  that asks for \<open>nonactive\<close>, and still reports the status asked for. (The rack controller is stored
  with the status asked for.)\<close>

theorem update_loses_requested_status:
  assumes "type r = ''device''" and "id_str r \<noteq> ''rackcontroller-0''"
  shows "update_asset D cm r d = update_asset (storing_nonactive D) cm r d \<and>
   (row_st r \<noteq> ''active'' \<longrightarrow> update_asset D cm r d =
     (case update_asset D cm (r\<lparr> row_st := ''nonactive'' \<rparr>) d of
        (Inl e, d') \<Rightarrow> (Inl e, d') | (Inr (i, st, w), d') \<Rightarrow> (Inr (i, row_st r, w), d')))"
proof (intro conjI impI)
  show "update_asset D cm r d = update_asset (storing_nonactive D) cm r d"
    using assms by (simp add: update_asset_def store_device_nonactive ask_activation_storing storing_nonactive_sel Let_def cong: if_cong)
next
  have store: "store_device D cm (r\<lparr> row_st := x \<rparr>) = store_device D cm r" for x
    by (simp add: store_device_def fun_eq_iff)
  assume "row_st r \<noteq> ''active''"
  then show "update_asset D cm r d =
     (case update_asset D cm (r\<lparr> row_st := ''nonactive'' \<rparr>) d of
        (Inl e, d') \<Rightarrow> (Inl e, d') | (Inr (i, st, w), d') \<Rightarrow> (Inr (i, row_st r, w), d'))"
    using assms unfolding update_asset_def Let_def
    by (auto simp: store ask_activation_def andThen_def ret_def split: prod.splits sum.splits if_splits)
qed

definition sample_prepared :: "string \<Rightarrow> prepared" where
  "sample_prepared st =
     \<lparr> id_str = ''ups-12'', asset_id = 12, ename = ''UPS 12'', iname = ''ups-12'', type = ''device'', type_id = 6, row_st = st,
       asset_tag = '''', priority = 2, parent_id = 1, subtype = ''ups'', subtype_id = 1, groups = [], links = [],
       extattributes = [(''name'', ''UPS 12'')] \<rparr>"

abbreviation status_log :: "string list import_db" where
  \<comment> \<open>the status an update stores is in the log\<close>
  "status_log \<equiv> (sample_import '''')\<lparr> update_asset_element := \<lambda>i n p s pr t d. (Inr (0, 1), d @ [s]) \<rparr>"

theorem update_loses_requested_status_witness:
  "snd (update_asset status_log (import_table []) (sample_prepared ''retired'') []) =
     snd (update_asset status_log (import_table []) (sample_prepared ''nonactive'') []) \<and>
   hd (snd (update_asset status_log (import_table []) (sample_prepared ''retired'') [])) = ''nonactive'' \<and>
   fst (update_asset status_log (import_table []) (sample_prepared ''retired'') []) = Inr (12, ''retired'', None)"
proof -
  have r: "(sample_prepared ''retired'')\<lparr> row_st := ''nonactive'' \<rparr> = sample_prepared ''nonactive''"
    by (simp add: sample_prepared_def)
  have "type (sample_prepared ''retired'') = ''device''" "id_str (sample_prepared ''retired'') \<noteq> ''rackcontroller-0''"
    by code_simp+
  note lost = update_loses_requested_status [OF this, of status_log "import_table []" "[]", unfolded r]
  have "row_st (sample_prepared ''retired'') \<noteq> ''active''" by code_simp
  note same = lost [THEN conjunct2, rule_format, OF this]
  have run: "case update_asset status_log (import_table []) (sample_prepared ''nonactive'') [] of
      (Inl _, d) \<Rightarrow> False | (Inr x, d) \<Rightarrow> fst x = 12 \<and> snd (snd x) = None \<and> hd d = ''nonactive''" by code_simp
  have "row_st (sample_prepared ''retired'') = ''retired''" by code_simp
  with run show ?thesis unfolding same by (auto split: prod.splits sum.splits)
qed

end
