(* ===== verification/ImportCsv.thy ===== *)
theory ImportCsv
  imports ImportStore
begin

text \<open>
  \<open>src/db/inout/importcsv.cc\<close>: the import of one asset and of a whole table. \<open>load_asset_csv\<close> goes
  over the rows again and again, as long as a pass imports something, so that a row may refer to an
  asset of a later row.
\<close>

datatype failure = Refused import_exn | Warned msg

record 'd load_state =
  base :: 'd
  ok_rows :: "(imported \<times> asset_operation) list"
  fail_rows :: "(nat \<times> failure) list"
  seen_ids :: "nat list" \<comment> \<open>\<open>ids\<close>\<close>
  processed_rows :: "nat list"
  something_processed :: bool

type_synonym 'd row_processor =
  "nat \<Rightarrow> nat list \<Rightarrow> ('d, import_exn, (imported \<times> asset_operation) \<times> nat list \<times> msg option) prog"

definition caught :: "bool \<Rightarrow> import_exn \<Rightarrow> bool" where
  \<comment> \<open>the \<open>catch\<close> clause; the argument is whether the errors of \<open>bios_throw\<close> are \<open>std::invalid_argument\<close>\<close>
  "caught bios_caught e =
     (case e of
        Bios _ _ \<Rightarrow> bios_caught | BiosError _ _ \<Rightarrow> bios_caught | Invalid_arg _ \<Rightarrow> True
      | Csv (Invalid_argument _) \<Rightarrow> True | Csv (Out_of_range _) \<Rightarrow> False
      | Std _ \<Rightarrow> False | Undefined_behaviour \<Rightarrow> False)"

definition import_one :: "'d row_processor \<Rightarrow> bool \<Rightarrow> nat \<Rightarrow> 'd load_state \<Rightarrow> import_exn option \<times> 'd load_state" where
  \<comment> \<open>the body of the loop over the rows; an exception that is not caught ends the import\<close>
  "import_one p bios_caught row_i s =
     (if row_i \<in> set (processed_rows s) then (None, s)
      else case p row_i (seen_ids s) (base s) of
        (Inr (element, ids', warning), d') \<Rightarrow>
          (None, s\<lparr> base := d', seen_ids := ids',
             ok_rows := (if warning = None then ok_rows s @ [element] else ok_rows s),
             fail_rows := (case warning of None \<Rightarrow> fail_rows s
                           | Some w \<Rightarrow> map_emplace (row_i + 1) (Warned w) (fail_rows s)),
             something_processed := True, processed_rows := set_insert row_i (processed_rows s) \<rparr>)
      | (Inl e, d') \<Rightarrow>
          if caught bios_caught e
          then (None, s\<lparr> base := d', fail_rows := map_emplace (row_i + 1) (Refused e) (fail_rows s) \<rparr>)
          else (Some e, s\<lparr> base := d' \<rparr>))"

fun import_pass :: "'d row_processor \<Rightarrow> bool \<Rightarrow> nat list \<Rightarrow> 'd load_state \<Rightarrow> import_exn option \<times> 'd load_state" where
  "import_pass p bios_caught [] s = (None, s)"
| "import_pass p bios_caught (row_i # rs) s =
     (case import_one p bios_caught row_i s of
        (Some e, s') \<Rightarrow> (Some e, s')
      | (None, s') \<Rightarrow> import_pass p bios_caught rs s')"

definition start_pass :: "'d load_state \<Rightarrow> 'd load_state" where
  "start_pass s = s\<lparr> something_processed := False, fail_rows := [] \<rparr>"

lemma import_one_grows:
  "import_one p bc row_i s = (e, s') \<Longrightarrow>
     set (processed_rows s) \<subseteq> set (processed_rows s') \<and>
     set (processed_rows s') \<subseteq> insert row_i (set (processed_rows s)) \<and>
     (something_processed s' \<longrightarrow> something_processed s \<or> row_i \<notin> set (processed_rows s) \<and> row_i \<in> set (processed_rows s'))"
  by (auto simp: import_one_def split: if_splits sum.splits prod.splits)

lemma import_pass_grows:
  "import_pass p bc rs s = (e, s') \<Longrightarrow>
     set (processed_rows s) \<subseteq> set (processed_rows s') \<and>
     set (processed_rows s') \<subseteq> set rs \<union> set (processed_rows s) \<and>
     (something_processed s' \<longrightarrow>
        something_processed s \<or> (\<exists>r \<in> set rs. r \<notin> set (processed_rows s) \<and> r \<in> set (processed_rows s')))"
proof (induction rs arbitrary: s)
  case Nil
  then show ?case by simp
next
  case (Cons r rs)
  obtain e1 s1 where one: "import_one p bc r s = (e1, s1)" by force
  note grow = import_one_grows [OF one]
  show ?case
  proof (cases e1)
    case (Some x)
    with Cons.prems one grow show ?thesis by auto
  next
    case None
    with Cons.prems one have "import_pass p bc rs s1 = (e, s')" by simp
    from Cons.IH [OF this] grow show ?thesis by auto
  qed
qed

function import_passes :: "'d row_processor \<Rightarrow> bool \<Rightarrow> nat list \<Rightarrow> 'd load_state \<Rightarrow> import_exn option \<times> 'd load_state" where
  \<comment> \<open>\<open>do ... while (somethingProcessed)\<close>\<close>
  "import_passes p bios_caught rs s =
     (case import_pass p bios_caught rs (start_pass s) of
        (Some e, s') \<Rightarrow> (Some e, s')
      | (None, s') \<Rightarrow> if something_processed s' then import_passes p bios_caught rs s' else (None, s'))"
  by pat_completeness auto

termination
proof (relation "measure (\<lambda>(p, bc, rs, s). card (set rs - set (processed_rows s)))")
  fix p :: "'d row_processor" and bc rs s x s'
  assume "(x, s') = import_pass p bc rs (start_pass s)" and "x = None" and some: "something_processed s'"
  then have pass: "import_pass p bc rs (start_pass s) = (None, s')" by simp
  note grow = import_pass_grows [OF pass]
  obtain r where "r \<in> set rs" "r \<notin> set (processed_rows s)" "r \<in> set (processed_rows s')"
    using grow some by (auto simp: start_pass_def)
  then have "set rs - set (processed_rows s') \<subset> set rs - set (processed_rows s)"
    using grow by (auto simp: start_pass_def)
  then show "((p, bc, rs, s'), (p, bc, rs, s)) \<in> measure (\<lambda>(p, bc, rs, s). card (set rs - set (processed_rows s)))"
    by (simp add: psubset_card_mono)
qed auto

declare import_passes.simps [simp del]

definition types_of :: "(string \<times> int) list item_reply \<Rightarrow> (string \<times> int) list" where
  \<comment> \<open>\<open>read_element_types\<close> and \<open>read_device_types\<close>: empty in case of any error\<close>
  "types_of reply = (case reply of Found t \<Rightarrow> t | _ \<Rightarrow> [])"

definition no_connection :: import_exn where
  "no_connection = Bios ''internal-error'' [Translate ''No connection to database'' []]"

definition load_asset_csv ::
  "'d import_db \<Rightarrow> bool \<Rightarrow> licensing_answer \<Rightarrow> CsvMap \<Rightarrow> 'd load_state \<Rightarrow> import_exn option \<times> 'd load_state" where
  \<comment> \<open>on a table; the state has the lists the caller passes by reference\<close>
  "load_asset_csv D bios_caught answer cm s =
     (let m = mandatory_missing cm in
      if m \<noteq> ''''
      then (Some (Bios ''request-param-bad'' [Raw m, Translate ''<missing column '%s'>'' [m],
              Translate ''<column '%s' is present in csv>'' [m]]), s)
      else if connect_error D \<noteq> None then (Some no_connection, s)
      else
        let TYPES = types_of (get_dictionary_element_type (views_of D (base s))) in
        if TYPES = [] then (Some no_connection, s)
        else
          let SUBTYPES = types_of (get_dictionary_device_type (views_of D (base s))) in
          if SUBTYPES = [] then (Some no_connection, s)
          else
            case get_licensing_limitation answer of
              Inl e \<Rightarrow> (Some e, s)
            | Inr limits \<Rightarrow>
                import_passes
                  (\<lambda>row_i ids. process_row D cm row_i TYPES SUBTYPES ids True SIZE_MAX limits)
                  bios_caught [1..<rows cm] (s\<lparr> seen_ids := [], processed_rows := [] \<rparr>))"

definition CREATE_MODE_CSV :: "32 word" where
  "CREATE_MODE_CSV = 2"

definition prepare_table :: "string option \<Rightarrow> string \<Rightarrow> CsvMap \<Rightarrow> CsvMap" where
  \<comment> \<open>create mode, users and time stamp of an import from a stream; no time stamp when \<open>strftime\<close> fails\<close>
  "prepare_table timestamp user cm =
     (let cm = setUpdateUser user (setCreateUser user (setCreateMode CREATE_MODE_CSV cm))
      in case timestamp of None \<Rightarrow> cm | Some ts \<Rightarrow> setUpdateTs ts cm)"

definition load_asset_csv_stream ::
  "(char \<Rightarrow> istream \<Rightarrow> csv_exn + string list list) \<Rightarrow> 'd import_db \<Rightarrow> bool \<Rightarrow> licensing_answer \<Rightarrow> string option \<Rightarrow>
     istream \<Rightarrow> string \<Rightarrow> 'd load_state \<Rightarrow> import_exn option \<times> 'd load_state" where
  \<comment> \<open>on a stream; the parser of the library is the first argument\<close>
  "load_asset_csv_stream csv_parse D bios_caught answer timestamp input user s =
     (case findDelimiter input 60 of (delimiter, input) \<Rightarrow>
      if delimiter = CHR 0x00
      then (Some (Bios ''bad-request-document''
              [Translate ''Cannot detect the delimiter, use comma (,) semicolon (;) or tabulator'' []]), s)
      else (case csv_parse delimiter input of
        Inl e \<Rightarrow> (Some (Csv e), s)
      | Inr d \<Rightarrow>
          (case deserialize (CsvMap_new d) of
             (Inl e, cm) \<Rightarrow> (Some (Csv e), s)
           | (Inr _, cm) \<Rightarrow> load_asset_csv D bios_caught answer (prepare_table timestamp user cm) s)))"

definition process_one_asset ::
  "'d import_db \<Rightarrow> licensing_answer \<Rightarrow> CsvMap \<Rightarrow> ('d, import_exn, imported \<times> asset_operation) prog" where
  "process_one_asset D answer cm d =
     (let m = mandatory_missing cm in
      if m \<noteq> '''' then (Inl (Bios ''request-param-required'' [Raw m]), d)
      else if connect_error D \<noteq> None then (Inl (Bios ''internal-error'' [Raw ''No connection to database'']), d)
      else
        let TYPES = types_of (get_dictionary_element_type (views_of D d));
            SUBTYPES = types_of (get_dictionary_device_type (views_of D d)) in
        if TYPES = [] \<or> SUBTYPES = [] then (Inl (Bios ''internal-error'' [Raw ''No connection to database'']), d)
        else if getTitles cm = [] then (Inl (Bios ''bad-request-document'' [Raw ''Cannot import empty document.'']), d)
        else
          andThen (lift (if ''id'' \<in> set (getTitles cm) then cell cm 1 ''id'' else Inr ''noid'')) (\<lambda>i.
          andThen (lift (get_licensing_limitation answer)) (\<lambda>limits.
          andThen (process_row D cm 1 TYPES SUBTYPES [] True (if i = ''rackcontroller-0'' then 1 else SIZE_MAX) limits)
            (\<lambda>(element, ids, warning). ret element))) d)"

subsection \<open>Lemmas\<close>

text \<open>
  What a pass knows of the rows it has gone through: each is imported or has a failure under its
  number, and only those.
\<close>

fun failure_ok :: "bool \<Rightarrow> 'd load_state \<Rightarrow> nat \<Rightarrow> failure \<Rightarrow> bool" where
  "failure_ok bc s r (Refused e) = (caught bc e \<and> r \<notin> set (processed_rows s))"
| "failure_ok bc s r (Warned w) = something_processed s"

definition pass_inv :: "bool \<Rightarrow> nat set \<Rightarrow> 'd load_state \<Rightarrow> bool" where
  "pass_inv bc seen s \<longleftrightarrow> smap (fail_rows s) \<and>
     (\<forall>r \<in> seen. r \<in> set (processed_rows s) \<or> r + 1 \<in> fst ` set (fail_rows s)) \<and>
     (\<forall>k f. (k, f) \<in> set (fail_rows s) \<longrightarrow> (\<exists>r \<in> seen. k = r + 1 \<and> failure_ok bc s r f))"

lemma set_map_put: "k \<notin> fst ` set m \<Longrightarrow> set (map_put k v m) = insert (k, v) (set m)"
  by (induction k v m rule: map_put.induct) auto

lemma set_map_emplace_new: "k \<notin> fst ` set m \<Longrightarrow> set (map_emplace k v m) = insert (k, v) (set m)"
proof -
  assume k: "k \<notin> fst ` set m"
  then have "map_of m k = None" by (simp add: map_of_eq_None_iff)
  with k show ?thesis by (simp add: map_emplace_def set_map_put)
qed

lemma failure_ok_mono:
  "failure_ok bc s r f \<Longrightarrow> r \<notin> set (processed_rows s') - set (processed_rows s) \<Longrightarrow>
     (something_processed s \<Longrightarrow> something_processed s') \<Longrightarrow> failure_ok bc s' r f"
  by (cases f) auto

lemma pass_inv_step:
  assumes "pass_inv bc seen s" and "r \<notin> seen" and "smap (fail_rows s')"
    and "set (processed_rows s') - set (processed_rows s) \<subseteq> {r}" and "set (processed_rows s) \<subseteq> set (processed_rows s')"
    and "something_processed s \<Longrightarrow> something_processed s'"
    and "set (fail_rows s') = set (fail_rows s) \<union> new" and "\<And>k f. (k, f) \<in> new \<Longrightarrow> k = r + 1 \<and> failure_ok bc s' r f"
    and "r \<in> set (processed_rows s') \<or> r + 1 \<in> fst ` new"
  shows "pass_inv bc (insert r seen) s'"
  unfolding pass_inv_def
proof (intro conjI ballI allI impI)
  fix q assume "q \<in> insert r seen"
  then show "q \<in> set (processed_rows s') \<or> q + 1 \<in> fst ` set (fail_rows s')"
    using assms(1,5,7,9) by (auto simp: pass_inv_def)
next
  fix k f assume "(k, f) \<in> set (fail_rows s')"
  then consider "(k, f) \<in> set (fail_rows s)" | "(k, f) \<in> new" using assms(7) by blast
  then show "\<exists>q \<in> insert r seen. k = q + 1 \<and> failure_ok bc s' q f"
  proof cases
    case 1
    then obtain q where q: "q \<in> seen" "k = q + 1" "failure_ok bc s q f"
      using assms(1) unfolding pass_inv_def by blast
    with assms(2,4) have "q \<notin> set (processed_rows s') - set (processed_rows s)" by auto
    with q assms(6) show ?thesis by (blast intro: failure_ok_mono)
  next
    case 2
    with assms(8) show ?thesis by blast
  qed
qed (rule assms(3))

lemma import_one_inv:
  assumes "import_one p bc r s = (None, s')" and "pass_inv bc seen s" and "r \<notin> seen"
  shows "pass_inv bc (insert r seen) s'"
proof -
  have fresh: "r + 1 \<notin> fst ` set (fail_rows s)" using assms(2,3) by (force simp: pass_inv_def)
  note new = set_map_emplace_new [OF fresh]
  have smap: "smap (fail_rows s)" using assms(2) by (simp add: pass_inv_def)
  show ?thesis
  proof (cases "r \<in> set (processed_rows s)")
    case True
    with assms show ?thesis by (auto simp: import_one_def pass_inv_def)
  next
    case False
    obtain q d' where run: "p r (seen_ids s) (base s) = (q, d')" by force
    show ?thesis
    proof (cases q)
      case (Inl e)
      with False run assms(1) have c: "caught bc e"
        and s': "s' = s\<lparr> base := d', fail_rows := map_emplace (r + 1) (Refused e) (fail_rows s) \<rparr>"
        by (auto simp: import_one_def split: if_splits)
      show ?thesis
        by (rule pass_inv_step [OF assms(2,3), where new = "{(r + 1, Refused e)}"])
           (use c False new smap in \<open>simp_all add: s'\<close>)
    next
      case (Inr x)
      obtain element ids' w where x: "x = (element, ids', w)" by (cases x) auto
      show ?thesis
      proof (cases w)
        case None
        with Inr x False run assms(1)
        have s': "s' = s\<lparr> base := d', seen_ids := ids', ok_rows := ok_rows s @ [element],
            something_processed := True, processed_rows := set_insert r (processed_rows s) \<rparr>"
          by (simp add: import_one_def)
        show ?thesis
          by (rule pass_inv_step [OF assms(2,3), where new = "{}"]) (use smap in \<open>auto simp: s'\<close>)
      next
        case (Some m)
        with Inr x False run assms(1)
        have s': "s' = s\<lparr> base := d', seen_ids := ids', fail_rows := map_emplace (r + 1) (Warned m) (fail_rows s),
            something_processed := True, processed_rows := set_insert r (processed_rows s) \<rparr>"
          by (simp add: import_one_def)
        show ?thesis
          by (rule pass_inv_step [OF assms(2,3), where new = "{(r + 1, Warned m)}"])
             (use new smap in \<open>auto simp: s'\<close>)
      qed
    qed
  qed
qed

lemma import_pass_inv:
  assumes "import_pass p bc rs s = (None, s')" and "pass_inv bc seen s" and "distinct rs" and "set rs \<inter> seen = {}"
  shows "pass_inv bc (set rs \<union> seen) s'"
  using assms
proof (induction rs arbitrary: s seen)
  case Nil
  then show ?case by simp
next
  case (Cons r rs)
  obtain e1 s1 where one: "import_one p bc r s = (e1, s1)" by force
  with Cons.prems(1) have "e1 = None" and rest: "import_pass p bc rs s1 = (None, s')"
    by (auto split: option.splits)
  with one have "pass_inv bc (insert r seen) s1"
    using import_one_inv Cons.prems(2,4) by auto
  from Cons.IH [OF rest this] Cons.prems(3,4) show ?case by auto
qed

text \<open>The end of the loop: a last pass that imported nothing.\<close>

lemma import_passes_last:
  assumes "import_passes p bc rs s = (None, s')"
  shows "\<exists>s1. import_pass p bc rs (start_pass s1) = (None, s') \<and> \<not> something_processed s' \<and>
           set (processed_rows s) \<subseteq> set (processed_rows s1) \<and> set (processed_rows s1) \<subseteq> set rs \<union> set (processed_rows s)"
  using assms
proof (induction p bc rs s rule: import_passes.induct)
  case (1 p bc rs s)
  obtain e s2 where pass: "import_pass p bc rs (start_pass s) = (e, s2)" by force
  with 1(2) have e: "e = None" by (subst (asm) import_passes.simps) (auto split: option.splits)
  show ?case
  proof (cases "something_processed s2")
    case False
    with 1(2) pass e have "s' = s2" by (subst (asm) import_passes.simps) simp
    with pass e False show ?thesis by auto
  next
    case True
    with 1(2) pass e have "import_passes p bc rs s2 = (None, s')" by (subst (asm) import_passes.simps) simp
    from 1(1) [OF pass [symmetric] e True this] import_pass_grows [OF pass] show ?thesis
      using e by (fastforce simp: start_pass_def)
  qed
qed

lemma import_pass_still:
  assumes "import_pass p bc rs s = (None, s')" and "\<not> something_processed s'" and "\<not> something_processed s"
  shows "set (processed_rows s') = set (processed_rows s) \<and> ok_rows s' = ok_rows s \<and> seen_ids s' = seen_ids s"
  using assms
proof (induction rs arbitrary: s)
  case (Cons r rs)
  obtain e1 s1 where one: "import_one p bc r s = (e1, s1)" by force
  with Cons.prems(1) have e1: "e1 = None" and rest: "import_pass p bc rs s1 = (None, s')"
    by (auto split: option.splits)
  have mono: "something_processed t \<longrightarrow> something_processed t'" if "import_pass p bc us t = (x, t')" for us t x t'
    using that
  proof (induction us arbitrary: t)
    case (Cons u us)
    then show ?case by (fastforce simp: import_one_def split: option.splits prod.splits sum.splits if_splits)
  qed simp
  have "\<not> something_processed s1" using mono [OF rest] Cons.prems(2) by blast
  with one e1 Cons.prems(3) have "processed_rows s1 = processed_rows s \<and> ok_rows s1 = ok_rows s \<and> seen_ids s1 = seen_ids s"
    by (auto simp: import_one_def split: if_splits sum.splits prod.splits)
  with Cons.IH [OF rest Cons.prems(2) \<open>\<not> something_processed s1\<close>] show ?case by simp
qed simp

lemma start_pass_inv: "pass_inv bc {} (start_pass s)"
  by (simp add: pass_inv_def start_pass_def)

lemma import_one_counts:
  assumes "import_one p bc r s = (e, s')"
  shows "length (ok_rows s') + length (processed_rows s) \<le> length (ok_rows s) + length (processed_rows s')"
  using assms by (auto simp: import_one_def set_insert_def split: if_splits sum.splits prod.splits)

lemma import_pass_counts:
  "import_pass p bc rs s = (e, s') \<Longrightarrow>
     length (ok_rows s') + length (processed_rows s) \<le> length (ok_rows s) + length (processed_rows s')"
proof (induction rs arbitrary: s)
  case (Cons r rs)
  obtain e1 s1 where one: "import_one p bc r s = (e1, s1)" by force
  note c = import_one_counts [OF one]
  show ?case
  proof (cases e1)
    case None
    with Cons.prems one have "import_pass p bc rs s1 = (e, s')" by simp
    from Cons.IH [OF this] c show ?thesis by simp
  next
    case (Some x)
    with Cons.prems one c show ?thesis by simp
  qed
qed simp

lemma import_passes_counts:
  "import_passes p bc rs s = (e, s') \<Longrightarrow>
     length (ok_rows s') + length (processed_rows s) \<le> length (ok_rows s) + length (processed_rows s')"
proof (induction p bc rs s rule: import_passes.induct)
  case (1 p bc rs s)
  obtain e1 s1 where pass: "import_pass p bc rs (start_pass s) = (e1, s1)" by force
  have c: "length (ok_rows s1) + length (processed_rows s) \<le> length (ok_rows s) + length (processed_rows s1)"
    using import_pass_counts [OF pass] by (simp add: start_pass_def)
  show ?case
  proof (cases "e1 = None \<and> something_processed s1")
    case True
    with 1(2) pass have rest: "import_passes p bc rs s1 = (e, s')" by (subst (asm) import_passes.simps) simp
    from 1(1) [OF pass [symmetric] conjunct1 [OF True] conjunct2 [OF True] rest] c show ?thesis by simp
  next
    case False
    with 1(2) pass have "s' = s1" by (subst (asm) import_passes.simps) (auto split: option.splits if_splits)
    with c show ?thesis by simp
  qed
qed

lemma import_passes_account:
  assumes "import_passes p bc rs s = (None, s')" and "distinct rs"
  shows "(\<forall>r \<in> set rs. r \<in> set (processed_rows s') \<longleftrightarrow> r + 1 \<notin> fst ` set (fail_rows s')) \<and>
     (\<forall>(k, f) \<in> set (fail_rows s'). \<exists>r e. r \<in> set rs \<and> k = r + 1 \<and> f = Refused e \<and> caught bc e)"
proof -
  from import_passes_last [OF assms(1)] obtain s1 where last_pass: "import_pass p bc rs (start_pass s1) = (None, s')"
    and still: "\<not> something_processed s'" by blast
  have inv: "pass_inv bc (set rs) s'" using import_pass_inv [OF last_pass start_pass_inv assms(2)] by simp
  have fail: "\<exists>r e. r \<in> set rs \<and> k = r + 1 \<and> f = Refused e \<and> caught bc e \<and> r \<notin> set (processed_rows s')"
    if "(k, f) \<in> set (fail_rows s')" for k f
  proof -
    from inv that obtain r where "r \<in> set rs" "k = r + 1" "failure_ok bc s' r f" unfolding pass_inv_def by blast
    with still show ?thesis by (cases f) auto
  qed
  have "r \<in> set (processed_rows s') \<longleftrightarrow> r + 1 \<notin> fst ` set (fail_rows s')" if "r \<in> set rs" for r
    using fail that inv unfolding pass_inv_def by force
  with fail show ?thesis by blast
qed

lemma load_is_passes:
  assumes "load_asset_csv D bc answer cm s = (None, s')"
  obtains TYPES SUBTYPES limits where
    "import_passes (\<lambda>row_i ids. process_row D cm row_i TYPES SUBTYPES ids True SIZE_MAX limits) bc [1..<rows cm]
       (s\<lparr> seen_ids := [], processed_rows := [] \<rparr>) = (None, s')"
  using assms by (auto simp: load_asset_csv_def Let_def split: if_splits sum.splits)

text \<open>An import whose every row fails with the same exception and no effect has no effect.\<close>

lemma import_pass_refused:
  assumes "\<And>r ids d. p r ids d = (Inl e, d)"
  shows "import_pass p bc rs s = (x, s') \<Longrightarrow>
     base s' = base s \<and> ok_rows s' = ok_rows s \<and> something_processed s' = something_processed s"
proof (induction rs arbitrary: s)
  case (Cons r rs)
  obtain e1 s1 where one: "import_one p bc r s = (e1, s1)" by force
  with assms have s1: "base s1 = base s \<and> ok_rows s1 = ok_rows s \<and> something_processed s1 = something_processed s"
    by (auto simp: import_one_def split: if_splits)
  show ?case
  proof (cases e1)
    case None
    with Cons.prems one have "import_pass p bc rs s1 = (x, s')" by simp
    from Cons.IH [OF this] s1 show ?thesis by simp
  next
    case (Some y)
    with Cons.prems one s1 show ?thesis by simp
  qed
qed simp

lemma import_passes_refused:
  assumes "\<And>r ids d. p r ids d = (Inl e, d)" and "import_passes p bc rs s = (x, s')"
  shows "base s' = base s \<and> ok_rows s' = ok_rows s"
proof -
  obtain x1 s1 where pass: "import_pass p bc rs (start_pass s) = (x1, s1)" by force
  note same = import_pass_refused [OF assms(1) pass]
  then have "\<not> something_processed s1" by (simp add: start_pass_def)
  with assms(2) pass have "s' = s1" by (subst (asm) import_passes.simps) (auto split: option.splits)
  with same show ?thesis by (simp add: start_pass_def)
qed

lemma process_row_unlicensed:
  "global_configurability limits = 0 \<Longrightarrow>
     process_row D cm row_i TYPES SUBTYPES ids sanitize rc_0 limits d =
       (Inl (Bios ''action-forbidden''
          [Translate ''Asset handling'' [], Translate ''Licensing global_configurability limit hit'' []]), d)"
  by (simp add: process_row_def check_row_def andThen_def query_def)

lemma load_unlicensed:
  assumes "\<And>limits. get_licensing_limitation answer = Inr limits \<Longrightarrow> global_configurability limits = 0"
  shows "load_asset_csv D bc answer cm s = (x, s') \<Longrightarrow> base s' = base s \<and> ok_rows s' = ok_rows s"
    and "snd (process_one_asset D answer cm d) = d"
proof -
  assume run: "load_asset_csv D bc answer cm s = (x, s')"
  show "base s' = base s \<and> ok_rows s' = ok_rows s"
  proof (cases "s' = s")
    case False
    with run obtain TYPES SUBTYPES limits where "get_licensing_limitation answer = Inr limits" and
      "import_passes (\<lambda>row_i ids. process_row D cm row_i TYPES SUBTYPES ids True SIZE_MAX limits) bc [1..<rows cm]
         (s\<lparr> seen_ids := [], processed_rows := [] \<rparr>) = (x, s')"
      by (auto simp: load_asset_csv_def Let_def split: if_splits sum.splits)
    then show ?thesis
      using import_passes_refused [OF process_row_unlicensed [OF assms]] by fastforce
  qed simp
next
  show "snd (process_one_asset D answer cm d) = d"
    using assms
    by (auto simp: process_one_asset_def Let_def andThen_def lift_def ret_def process_row_unlicensed
        split: sum.split prod.split)
qed

subsection \<open>Properties\<close>

text \<open>C2. An import that ends without an exception accounts for every row: a row has been processed or
  is reported as failed, under its number from 1, with an error the import catches, never both; no
  more elements are reported as imported than rows processed. No warning of the licensing agent is
  ever in the report: the pass that imports nothing, the last one, has cleared them.\<close>

theorem load_accounts_for_every_row:
  assumes "load_asset_csv D bc answer cm s = (None, s')"
  shows "(\<forall>r. 1 \<le> r \<and> r < rows cm \<longrightarrow> (r \<in> set (processed_rows s') \<longleftrightarrow> r + 1 \<notin> fst ` set (fail_rows s'))) \<and>
     (\<forall>(k, f) \<in> set (fail_rows s'). \<exists>r e. 1 \<le> r \<and> r < rows cm \<and> k = r + 1 \<and> f = Refused e \<and> caught bc e) \<and>
     length (ok_rows s') \<le> length (ok_rows s) + length (processed_rows s')"
proof -
  obtain TYPES SUBTYPES limits where run:
    "import_passes (\<lambda>row_i ids. process_row D cm row_i TYPES SUBTYPES ids True SIZE_MAX limits) bc [1..<rows cm]
       (s\<lparr> seen_ids := [], processed_rows := [] \<rparr>) = (None, s')"
    by (rule load_is_passes [OF assms])
  from import_passes_account [OF run] import_passes_counts [OF run] show ?thesis by fastforce
qed

definition start_import :: "'d \<Rightarrow> 'd load_state" where
  "start_import d = \<lparr> base = d, ok_rows = [], fail_rows = [], seen_ids = [], processed_rows = [], something_processed = False \<rparr>"

definition licensed :: licensing_answer where
  "licensed = Licensing ''REPLY'' ''OK''
     [\<lparr> metric_name = ''rackcontroller-0'', metric_type = ''configurability.global'', metric_value = ''1'' \<rparr>]"

definition sample_file :: CsvMap where
  \<comment> \<open>the UPS, and a rack with a status that is unknown\<close>
  "sample_file = import_table
     [[''UPS 12'', ''device'', ''ups'', ''dc-1'', ''active'', ''P2'', ''ups-12'', ''07''],
      [''Rack 1'', ''rack'', '''', ''dc-1'', ''broken'', ''P1'', '''', '''']]"

theorem load_accounts_for_every_row_witness:
  "\<exists>s'. load_asset_csv (sample_import ''activate'') True licensed sample_file (start_import []) = (None, s') \<and>
     processed_rows s' = [1] \<and> fst ` set (fail_rows s') = {3} \<and> ok_rows s' = []"
proof -
  let ?run = "load_asset_csv (sample_import ''activate'') True licensed sample_file (start_import [])"
  have e: "fst ?run = None \<and> processed_rows (snd ?run) = [1] \<and> length (ok_rows (snd ?run)) = 0 \<and> rows sample_file = 3"
    by code_simp
  then have run: "?run = (None, snd ?run)" by (metis prod.collapse)
  obtain keys where keys: "keys = fst ` set (fail_rows (snd ?run))" by blast
  from load_accounts_for_every_row [OF run] e
  have all: "\<And>r. 1 \<le> r \<Longrightarrow> r < 3 \<Longrightarrow> (r = 1 \<longleftrightarrow> r + 1 \<notin> keys)"
    and fail: "\<And>k. k \<in> keys \<Longrightarrow> \<exists>r. 1 \<le> r \<and> r < 3 \<and> k = r + 1" unfolding keys by fastforce+
  have "1 + 1 \<notin> keys" "2 + 1 \<in> keys" using all [of 2] all [of 1] by auto
  then have "keys = {3}" using fail by (force simp: numeral_eq_Suc less_Suc_eq)
  with keys have "fst ` set (fail_rows (snd ?run)) = {3}" by simp
  with run e show ?thesis by (intro exI [of _ "snd ?run"]) auto
qed

text \<open>C13. Without a licence for configuration nothing is imported: whenever the answer of the licensing
  agent leaves \<open>global_configurability\<close> at 0 (so also when it is no \<open>OK\<close> reply), an import of a table
  or of one asset leaves the data base as it was and reports no element, whatever is in the table.\<close>

theorem no_licence_no_change:
  assumes "\<And>limits. get_licensing_limitation answer = Inr limits \<Longrightarrow> global_configurability limits = 0"
  shows "base (snd (load_asset_csv D bc answer cm s)) = base s \<and> ok_rows (snd (load_asset_csv D bc answer cm s)) = ok_rows s \<and>
     snd (process_one_asset D answer cm d) = d"
  using load_unlicensed [OF assms] by (metis prod.collapse)

theorem no_licence_no_change_witness:
  "base (snd (load_asset_csv (sample_import '''') True (Licensing ''REPLY'' ''ERROR'' []) sample_file (start_import [''before''])))
     = [''before''] \<and>
   base (snd (load_asset_csv (sample_import '''') True licensed sample_file (start_import [''before'']))) \<noteq> [''before'']"
proof
  have "get_licensing_limitation (Licensing ''REPLY'' ''ERROR'' []) = Inr l \<Longrightarrow> global_configurability l = 0" for l
    by (auto simp: get_licensing_limitation_def)
  from no_licence_no_change [of "Licensing ''REPLY'' ''ERROR'' []", OF this, of "sample_import ''''" True sample_file
      "start_import [''before'']"]
  show "base (snd (load_asset_csv (sample_import '''') True (Licensing ''REPLY'' ''ERROR'' []) sample_file (start_import [''before''])))
     = [''before'']" by (simp add: start_import_def)
  show "base (snd (load_asset_csv (sample_import '''') True licensed sample_file (start_import [''before'']))) \<noteq> [''before'']"
    by code_simp
qed

end
