(* ===== verification/ExportCsv.thy ===== *)
theory ExportCsv
  imports ImportText AssetManager
begin

text \<open>
  \<open>src/db/inout/exportcsv.cc\<close>, \<open>export_asset_csv\<close>: all assets, or those of a data centre, as a
  table. The stream is the list of what was written to it, the lines of the table before the CSV
  serializer of the library formats them. Queries of fty-common-db are parameters: they return a
  code and what they put in their output argument, or throw (\<open>Inl\<close>); a column that may be NULL is an
  option, and \<open>get\<close> leaves the variable alone when it is.
\<close>

record web_row = \<comment> \<open>of \<open>v_web_element\<close>\<close>
  w_id :: "nat option"
  w_parent :: "nat option"
  w_type_name :: "string option"
  w_subtype_name :: "string option"
  w_status :: "string option"
  w_priority :: "nat option"
  w_asset_tag :: "string option"

type_synonym ext_map = "(string \<times> (string \<times> bool)) list" \<comment> \<open>value and \<open>read_only\<close>, ordered by key\<close>
type_synonym power_rows = "(string option \<times> string option \<times> string option) list"

record ('d, 'h) export_db = "('d, 'h) manager_db" +
  max_number_of_power_links :: "'d \<Rightarrow> string + int"
  max_number_of_asset_groups :: "'d \<Rightarrow> string + int"
  select_ext_rw_attributes_keytags :: "'d \<Rightarrow> string + int \<times> string option list"
  id_to_name_ext_name :: "nat \<Rightarrow> 'd \<Rightarrow> string + string \<times> string"
  ext_attributes_map :: "nat \<Rightarrow> 'd \<Rightarrow> string + int \<times> ext_map" \<comment> \<open>\<open>select_ext_attributes\<close> with an output argument\<close>
  select_v_web_asset_power_link_src_byId :: "nat \<Rightarrow> 'd \<Rightarrow> string + int \<times> power_rows"
  select_group_names :: "nat \<Rightarrow> 'd \<Rightarrow> string + int \<times> string list"
  name_to_extname :: "string \<Rightarrow> 'd \<Rightarrow> string + int \<times> string"
  select_asset_element_all :: "'d \<Rightarrow> string + int \<times> web_row list"
  select_asset_element_by_dc :: "int \<Rightarrow> 'd \<Rightarrow> string + int \<times> web_row list"
  uninitialised_priority :: nat

datatype export_exn =
    No_connection \<comment> \<open>\<open>throw std::runtime_error(msg)\<close>, whatever went wrong\<close>
  | Db string \<comment> \<open>an exception of the data base\<close>

definition ask :: "string + 'a \<Rightarrow> export_exn + 'a" where
  "ask q = (case q of Inl w \<Rightarrow> Inl (Db w) | Inr x \<Rightarrow> Inr x)"

definition checked :: "string + int \<times> 'a \<Rightarrow> export_exn + 'a" where
  \<comment> \<open>\<open>if (rv != 0) throw std::runtime_error(msg.c_str());\<close>\<close>
  "checked q = bindE (ask q) (\<lambda>(rv, x). if rv \<noteq> 0 then Inl No_connection else Inr x)"

definition text_of :: "string option \<Rightarrow> string" where
  "text_of s = (case s of Some v \<Rightarrow> v | None \<Rightarrow> '''')"

subsection \<open>Columns\<close>

definition ASSET_ELEMENT_KEYTAGS :: "string list" where
  "ASSET_ELEMENT_KEYTAGS =
     [''id'', ''name'', ''type'', ''sub_type'', ''location'', ''status'', ''priority'', ''asset_tag'']"

fun keytags_loop :: "string list \<Rightarrow> string option list \<Rightarrow> string list \<Rightarrow> string list" where
  \<comment> \<open>the callback of \<open>s_update_keytags\<close> on the rows\<close>
  "keytags_loop aek [] s = s"
| "keytags_loop aek (r # rs) s =
     (let keytag = text_of r
      in keytags_loop aek rs (if keytag \<in> set aek then s else if keytag \<notin> set s then s @ [keytag] else s))"

definition s_update_keytags ::
  "('d, 'h) export_db \<Rightarrow> string list \<Rightarrow> string list \<Rightarrow> 'd \<Rightarrow> string + int \<times> string list" where
  "s_update_keytags D aek s d =
     bindE (select_ext_rw_attributes_keytags D d) (\<lambda>(rv, rs). Inr (rv, keytags_loop aek rs s))"

definition s_power_links ::
  "('d, 'h) export_db \<Rightarrow> nat \<Rightarrow> 'd \<Rightarrow> string + int \<times> (string \<times> string \<times> string) list" where
  "s_power_links D i d =
     bindE (select_v_web_asset_power_link_src_byId D i d) (\<lambda>(rv, rs).
       Inr (rv, map (\<lambda>(s, out, inp). (text_of s, text_of out, text_of inp)) rs))"

definition KEYTAGS :: "string list" where
  "KEYTAGS =
     [''description'', ''ip.1'', ''company'', ''site_name'', ''region'', ''country'', ''address'', ''contact_name'',
      ''contact_email'', ''contact_phone'', ''u_size'', ''manufacturer'', ''model'', ''serial_no'', ''runtime'',
      ''installation_date'', ''maintenance_date'', ''maintenance_due'', ''location_u_pos'', ''location_w_pos'',
      ''end_warranty_date'', ''hostname.1'', ''http_link.1'']"

subsection \<open>Lines\<close>

datatype written = Bom | Line "string list"

record LineCsvSerializer =
  sink :: "written list" \<comment> \<open>the stream\<close>
  buf :: "string list"

definition add :: "string \<Rightarrow> LineCsvSerializer \<Rightarrow> LineCsvSerializer" where
  "add s lcs = lcs\<lparr> buf := buf lcs @ [s] \<rparr>"

definition serialize :: "LineCsvSerializer \<Rightarrow> LineCsvSerializer" where
  "serialize lcs = lcs\<lparr> sink := sink lcs @ [Line (buf lcs)], buf := [] \<rparr>"

definition at_least_one :: "int \<Rightarrow> nat" where
  \<comment> \<open>\<open>uint32_t(i)\<close>, and 1 when that is 0\<close>
  "at_least_one i = (let m = nat (i mod 2 ^ 32) in if m = 0 then 1 else m)"

definition numbered_column :: "string \<Rightarrow> nat \<Rightarrow> string" where
  "numbered_column prefix i = prefix @ to_string (i + 1)"

definition title_row :: "string list \<Rightarrow> nat \<Rightarrow> nat \<Rightarrow> string list" where
  "title_row keytags max_power_links max_groups =
     filter (\<lambda>k. k \<noteq> ''id'') ASSET_ELEMENT_KEYTAGS @
     concat (map (\<lambda>i. [numbered_column ''power_source.'' i, numbered_column ''power_plug_src.'' i,
                       numbered_column ''power_input.'' i]) [0..<max_power_links]) @
     keytags @ map (numbered_column ''group.'') [0..<max_groups] @ [''id'']"

subsection \<open>The line of an asset\<close>

definition asset_names :: "('d, 'h) export_db \<Rightarrow> web_row \<Rightarrow> 'd \<Rightarrow> export_exn + nat \<times> string \<times> string" where
  \<comment> \<open>the number, the internal and the external name\<close>
  "asset_names D r d =
     (let id_num = (case w_id r of Some i \<Rightarrow> i | None \<Rightarrow> 0)
      in bindE (ask (id_to_name_ext_name D id_num d)) (\<lambda>names.
         if fst names = '''' \<and> snd names = '''' then Inl No_connection else Inr (id_num, names)))"

definition subtype_cell :: "web_row \<Rightarrow> ext_map \<Rightarrow> string \<times> ext_map" where
  \<comment> \<open>the subtype of a group is its attribute \<open>type\<close>, which is removed\<close>
  "subtype_cell r exts =
     (let (name, exts) =
        (if text_of (w_type_name r) = ''group''
         then (case map_of exts ''type'' of Some (v, _) \<Rightarrow> (v, map_erase ''type'' exts) | None \<Rightarrow> ('''', exts))
         else (text_of (w_subtype_name r), exts))
      in (strip (if name = ''N_A'' then '''' else name), exts))"

definition priority_cell :: "('d, 'h) export_db \<Rightarrow> web_row \<Rightarrow> string" where
  "priority_cell D r = ''P'' @ to_string (case w_priority r of Some p \<Rightarrow> p | None \<Rightarrow> uninitialised_priority D)"

fun power_cells ::
  "('d, 'h) export_db \<Rightarrow> (string \<times> string \<times> string) list \<Rightarrow> nat list \<Rightarrow> 'd \<Rightarrow> export_exn + string list" where
  \<comment> \<open>the loop over the columns, nothing for those past the links\<close>
  "power_cells D power_links [] d = Inr []"
| "power_cells D power_links (i # is) d =
     bindE (if i \<ge> length power_links then Inr ['''', '''', '''']
            else case power_links ! i of (s, plug_src, input) \<Rightarrow>
              bindE (checked (name_to_extname D s d)) (\<lambda>source. Inr [source, plug_src, input])) (\<lambda>c.
     bindE (power_cells D power_links is d) (\<lambda>cs. Inr (c @ cs)))"

definition logical_asset_name :: "('d, 'h) export_db \<Rightarrow> ext_map \<Rightarrow> 'd \<Rightarrow> export_exn + ext_map" where
  "logical_asset_name D exts d =
     (case map_of exts ''logical_asset'' of
        None \<Rightarrow> Inr exts
      | Some (v, ro) \<Rightarrow> bindE (checked (name_to_extname D v d)) (\<lambda>extname.
          Inr (map_put ''logical_asset'' (extname, ro) exts)))"

definition ext_cell :: "ext_map \<Rightarrow> string \<Rightarrow> string" where
  "ext_cell exts k = (case map_of exts k of Some (v, False) \<Rightarrow> v | _ \<Rightarrow> '''')"

fun group_cells :: "('d, 'h) export_db \<Rightarrow> string list \<Rightarrow> nat list \<Rightarrow> 'd \<Rightarrow> export_exn + string list" where
  "group_cells D group_list [] d = Inr []"
| "group_cells D group_list (i # is) d =
     bindE (if i \<ge> length group_list then Inr '''' else checked (name_to_extname D (group_list ! i) d)) (\<lambda>c.
     bindE (group_cells D group_list is d) (\<lambda>cs. Inr (c # cs)))"

definition row_cells ::
  "('d, 'h) export_db \<Rightarrow> string list \<Rightarrow> nat \<Rightarrow> nat \<Rightarrow> web_row \<Rightarrow> 'd \<Rightarrow> export_exn + string list" where
  \<comment> \<open>what one call of the callback adds to the line\<close>
  "row_cells D keytags max_power_links max_groups r d =
     bindE (asset_names D r d) (\<lambda>(id_num, iname, ename).
     bindE (ask (id_to_name_ext_name D (case w_parent r of Some i \<Rightarrow> i | None \<Rightarrow> 0) d)) (\<lambda>(_, location).
     bindE (checked (ext_attributes_map D id_num d)) (\<lambda>ext_attrs.
     bindE (checked (s_power_links D id_num d)) (\<lambda>power_links.
     bindE (checked (select_group_names D id_num d)) (\<lambda>group_list.
     case subtype_cell r ext_attrs of (subtype_name, ext_attrs) \<Rightarrow>
     bindE (power_cells D power_links [0..<max_power_links] d) (\<lambda>powers.
     bindE (logical_asset_name D ext_attrs d) (\<lambda>ext_attrs.
     bindE (group_cells D group_list [0..<max_groups] d) (\<lambda>gs.
       Inr ([ename, text_of (w_type_name r), subtype_name, location, text_of (w_status r), priority_cell D r,
             text_of (w_asset_tag r)] @ powers @ map (ext_cell ext_attrs) keytags @ gs @ [iname])))))))))"

fun print_rows ::
  "('d, 'h) export_db \<Rightarrow> string list \<Rightarrow> nat \<Rightarrow> nat \<Rightarrow> 'd \<Rightarrow> web_row list \<Rightarrow> (LineCsvSerializer, export_exn, unit) prog"
where
  \<comment> \<open>the callback on the rows in turn\<close>
  "print_rows D keytags mpl mg d [] lcs = (Inr (), lcs)"
| "print_rows D keytags mpl mg d (r # rs) lcs =
     (case row_cells D keytags mpl mg r d of
        Inl e \<Rightarrow> (Inl e, lcs)
      | Inr cells \<Rightarrow> print_rows D keytags mpl mg d rs (serialize (fold add cells lcs)))"

definition select_rows ::
  "bool \<Rightarrow> string + int \<times> web_row list \<Rightarrow> (web_row list \<Rightarrow> ('s, export_exn, unit) prog) \<Rightarrow> ('s, export_exn, int) prog" where
  \<comment> \<open>a query with a callback; the first argument is whether it catches what the callback throws\<close>
  "select_rows catches q callback s =
     (case q of
        Inl w \<Rightarrow> (Inl (Db w), s)
      | Inr (rv, rs) \<Rightarrow> (case callback rs s of
            (Inr _, s') \<Rightarrow> (Inr rv, s')
          | (Inl e, s') \<Rightarrow> ((if catches then Inr (- 1) else Inl e), s')))"

fun print_table ::
  "('d, 'h) export_db \<Rightarrow> int \<Rightarrow> 'd \<Rightarrow> written list \<Rightarrow> nat \<times> nat \<times> string list \<Rightarrow> (export_exn + unit) \<times> written list" where
  \<comment> \<open>the title row and the rows, once the columns are known\<close>
  "print_table D dc_id d out (mpl, mg, keytags) =
     (case select_rows (callback_errors_caught D)
             (if dc_id > 0 then select_asset_element_by_dc D dc_id d else select_asset_element_all D d)
             (print_rows D keytags mpl mg d)
             (serialize (fold add (title_row keytags mpl mg) \<lparr> sink = out, buf = [] \<rparr>)) of
        (Inl e, lcs) \<Rightarrow> (Inl e, sink lcs)
      | (Inr rv, lcs) \<Rightarrow> (if rv \<noteq> 0 then Inl No_connection else Inr (), sink lcs))"

definition export_asset_csv ::
  "('d, 'h) export_db \<Rightarrow> int \<Rightarrow> bool \<Rightarrow> 'd \<Rightarrow> (written list, export_exn, unit) prog" where
  "export_asset_csv D dc_id generate_bom d out =
     (if connect_error D \<noteq> None then (Inl No_connection, out)
      else
        let out = (if generate_bom then out @ [Bom] else out);
            columns =
              bindE (ask (max_number_of_power_links D d)) (\<lambda>links.
              bindE (ask (max_number_of_asset_groups D d)) (\<lambda>group_list.
              bindE (checked (s_update_keytags D ASSET_ELEMENT_KEYTAGS KEYTAGS d)) (\<lambda>keytags.
                Inr (at_least_one links, at_least_one group_list, keytags))))
        in case columns of Inl e \<Rightarrow> (Inl e, out) | Inr columns \<Rightarrow> print_table D dc_id d out columns)"

subsection \<open>The shape of the table\<close>

lemma checked_Inr [simp]: "checked q = Inr x \<longleftrightarrow> q = Inr (0, x)"
  by (auto simp: checked_def ask_def bindE_eq_Inr_iff split: sum.splits if_splits)

lemma ask_Inr [simp]: "ask q = Inr x \<longleftrightarrow> q = Inr x"
  by (auto simp: ask_def split: sum.splits)

lemma length_power_cells: "power_cells D ls ks d = Inr cs \<Longrightarrow> length cs = 3 * length ks"
  by (induction ks arbitrary: cs) (auto simp: bindE_eq_Inr_iff split: if_splits prod.splits)

lemma length_group_cells: "group_cells D gs ks d = Inr cs \<Longrightarrow> length cs = length ks"
  by (induction ks arbitrary: cs) (auto simp: bindE_eq_Inr_iff)

definition power_titles :: "nat \<Rightarrow> string list" where
  "power_titles n =
     concat (map (\<lambda>i. [numbered_column ''power_source.'' i, numbered_column ''power_plug_src.'' i,
                       numbered_column ''power_input.'' i]) [0..<n])"

lemma title_row_eq:
  "title_row keytags mpl mg =
     [''name'', ''type'', ''sub_type'', ''location'', ''status'', ''priority'', ''asset_tag''] @ power_titles mpl @
     keytags @ map (numbered_column ''group.'') [0..<mg] @ [''id'']"
  by (simp add: title_row_def ASSET_ELEMENT_KEYTAGS_def power_titles_def)

lemma length_power_titles [simp]: "length (power_titles n) = 3 * n"
  by (induction n) (simp_all add: power_titles_def)

text \<open>The parts of a line.\<close>

lemma row_cells_parts:
  assumes "row_cells D keytags mpl mg r d = Inr cs"
  obtains i iname ename pname exts sub exts' exts'' location ps gs
  where "asset_names D r d = Inr (i, iname, ename)" and "ext_attributes_map D i d = Inr (0, exts)"
    and "id_to_name_ext_name D (case w_parent r of Some p \<Rightarrow> p | None \<Rightarrow> 0) d = Inr (pname, location)"
    and "subtype_cell r exts = (sub, exts')" and "logical_asset_name D exts' d = Inr exts''"
    and "length ps = 3 * mpl" and "length gs = mg"
    and "cs = [ename, text_of (w_type_name r), sub, location, text_of (w_status r), priority_cell D r,
               text_of (w_asset_tag r)] @ ps @ map (ext_cell exts'') keytags @ gs @ [iname]"
  using assms
  by (fastforce simp: row_cells_def bindE_eq_Inr_iff case_prod_unfold prod_eq_iff dest: length_power_cells length_group_cells)

lemma length_row_cells: "row_cells D keytags mpl mg r d = Inr cs \<Longrightarrow> length cs = length (title_row keytags mpl mg)"
  by (erule row_cells_parts) (simp add: title_row_eq)

lemma fold_add: "fold add cs lcs = lcs\<lparr> buf := buf lcs @ cs \<rparr>"
  by (induction cs arbitrary: lcs) (simp_all add: add_def)

lemma print_rows_ok:
  "print_rows D keytags mpl mg d rs lcs = (Inr (), lcs') \<Longrightarrow> buf lcs = [] \<Longrightarrow>
     \<exists>table. sink lcs' = sink lcs @ map Line table \<and> list_all2 (\<lambda>r cs. row_cells D keytags mpl mg r d = Inr cs) rs table"
proof (induction rs arbitrary: lcs)
  case (Cons r rs)
  from Cons.prems(1) obtain cs where cs: "row_cells D keytags mpl mg r d = Inr cs"
    and rest: "print_rows D keytags mpl mg d rs (serialize (fold add cs lcs)) = (Inr (), lcs')"
    by (auto split: sum.splits)
  let ?lcs = "serialize (fold add cs lcs)"
  have "sink ?lcs = sink lcs @ [Line cs]" "buf ?lcs = []" using Cons.prems(2) by (simp_all add: serialize_def fold_add)
  with Cons.IH [OF rest] obtain table where "sink lcs' = sink lcs @ map Line (cs # table)"
    and "list_all2 (\<lambda>r cs. row_cells D keytags mpl mg r d = Inr cs) rs table" by auto
  with cs show ?case by (intro exI [of _ "cs # table"]) simp
qed simp

definition exported_rows :: "('d, 'h) export_db \<Rightarrow> int \<Rightarrow> 'd \<Rightarrow> web_row list" where
  \<comment> \<open>the rows of the query\<close>
  "exported_rows D dc_id d =
     (case (if dc_id > 0 then select_asset_element_by_dc D dc_id d else select_asset_element_all D d) of
        Inr (_, rs) \<Rightarrow> rs | Inl _ \<Rightarrow> [])"

definition exported_keytags :: "('d, 'h) export_db \<Rightarrow> 'd \<Rightarrow> string list" where
  "exported_keytags D d =
     (case select_ext_rw_attributes_keytags D d of
        Inr (_, ks) \<Rightarrow> keytags_loop ASSET_ELEMENT_KEYTAGS ks KEYTAGS | Inl _ \<Rightarrow> KEYTAGS)"

definition columns_for :: "string + int \<Rightarrow> nat" where
  "columns_for q = (case q of Inr n \<Rightarrow> at_least_one n | Inl _ \<Rightarrow> 1)"

definition exported_titles :: "('d, 'h) export_db \<Rightarrow> 'd \<Rightarrow> string list" where
  "exported_titles D d =
     title_row (exported_keytags D d) (columns_for (max_number_of_power_links D d))
       (columns_for (max_number_of_asset_groups D d))"

lemma export_ok:
  assumes "export_asset_csv D dc_id bom d out = (Inr (), out')"
  obtains mpl mg table where "exported_titles D d = title_row (exported_keytags D d) mpl mg"
    and "out' = (if bom then out @ [Bom] else out) @ map Line (exported_titles D d # table)"
    and "list_all2 (\<lambda>r cs. row_cells D (exported_keytags D d) mpl mg r d = Inr cs) (exported_rows D dc_id d) table"
proof -
  let ?out = "if bom then out @ [Bom] else out"
  let ?q = "if dc_id > 0 then select_asset_element_by_dc D dc_id d else select_asset_element_all D d"
  from assms obtain links gr keytags where "max_number_of_power_links D d = Inr links"
    and "max_number_of_asset_groups D d = Inr gr" and "s_update_keytags D ASSET_ELEMENT_KEYTAGS KEYTAGS d = Inr (0, keytags)"
    and run: "(case select_rows (callback_errors_caught D) ?q (print_rows D keytags (at_least_one links) (at_least_one gr) d)
        (serialize (fold add (title_row keytags (at_least_one links) (at_least_one gr)) \<lparr> sink = ?out, buf = [] \<rparr>)) of
        (Inl e, lcs) \<Rightarrow> (Inl e, sink lcs) | (Inr rv, lcs) \<Rightarrow> (if rv \<noteq> 0 then Inl No_connection else Inr (), sink lcs))
      = (Inr (), out')"
    by (auto simp: export_asset_csv_def Let_def bindE_eq_Inr_iff split: if_splits sum.splits)
  moreover from this have "exported_keytags D d = keytags"
    by (auto simp: s_update_keytags_def exported_keytags_def bindE_eq_Inr_iff)
  moreover obtain rv rs lcs' where q: "?q = Inr (rv, rs)"
    and "print_rows D keytags (at_least_one links) (at_least_one gr) d rs
        (serialize (fold add (title_row keytags (at_least_one links) (at_least_one gr)) \<lparr> sink = ?out, buf = [] \<rparr>)) = (Inr (), lcs')"
    and "sink lcs' = out'"
    using run by (auto simp: select_rows_def split: sum.splits prod.splits if_splits)
  moreover have "exported_rows D dc_id d = rs" using q by (simp add: exported_rows_def)
  ultimately show thesis
    using that [of "at_least_one links" "at_least_one gr"] print_rows_ok
    by (fastforce simp: exported_titles_def columns_for_def serialize_def fold_add)
qed

subsection \<open>The table read back\<close>

lemma csv_cell:
  assumes "deserialized tab cm" and "r < length tab" and "length (tab ! r) = length (tab ! 0)"
    and "(t, v) \<in> set (zip (tab ! 0) (tab ! r))"
  shows "get cm r t = Inr v"
proof -
  from assms(4) obtain k where k: "k < length (tab ! 0)" "t = tab ! 0 ! k" "v = tab ! r ! k"
    by (auto simp: in_set_zip)
  have "distinct (map ci_strip (tab ! 0))" using assms(1) deserialized_iff by blast
  then have "index_of 0 (tab ! 0) (ci_strip t) = Some k" using index_of_nth [of "tab ! 0" k 0] k by simp
  with deserialized_index [OF assms(1)] assms(2,3) k show ?thesis
    by (auto simp: get_def titles_index_def Let_def)
qed

lemma zip_append_mem: "length a = length a' \<Longrightarrow> set (zip (a @ b) (a' @ b')) = set (zip a a') \<union> set (zip b b')"
  by simp

lemma row_zip:
  assumes "row_cells D keytags mpl mg r d = Inr cs"
  obtains i iname ename pname location exts sub exts' exts''
  where "asset_names D r d = Inr (i, iname, ename)" and "ext_attributes_map D i d = Inr (0, exts)"
    and "id_to_name_ext_name D (case w_parent r of Some p \<Rightarrow> p | None \<Rightarrow> 0) d = Inr (pname, location)"
    and "subtype_cell r exts = (sub, exts')" and "logical_asset_name D exts' d = Inr exts''"
    and "{(''id'', iname), (''name'', ename), (''type'', text_of (w_type_name r)), (''sub_type'', sub),
          (''location'', location), (''status'', text_of (w_status r)), (''priority'', priority_cell D r),
          (''asset_tag'', text_of (w_asset_tag r))} \<union>
         (\<lambda>k. (k, ext_cell exts'' k)) ` set keytags \<subseteq> set (zip (title_row keytags mpl mg) cs)"
proof -
  from assms obtain i iname ename pname exts sub exts' exts'' location ps gs
    where parts: "asset_names D r d = Inr (i, iname, ename)" "ext_attributes_map D i d = Inr (0, exts)"
      "id_to_name_ext_name D (case w_parent r of Some p \<Rightarrow> p | None \<Rightarrow> 0) d = Inr (pname, location)"
      "subtype_cell r exts = (sub, exts')" "logical_asset_name D exts' d = Inr exts''"
    and len: "length ps = 3 * mpl" "length gs = mg"
    and cs: "cs = [ename, text_of (w_type_name r), sub, location, text_of (w_status r), priority_cell D r,
               text_of (w_asset_tag r)] @ ps @ map (ext_cell exts'') keytags @ gs @ [iname]"
    by (rule row_cells_parts)
  have "set (zip keytags (map (ext_cell exts'') keytags)) = (\<lambda>k. (k, ext_cell exts'' k)) ` set keytags"
    by (induction keytags) auto
  then show thesis using len by (intro that [OF parts]) (auto simp: cs title_row_eq zip_append_mem)
qed

definition lines_of :: "written list \<Rightarrow> string list list" where
  "lines_of out = concat (map (\<lambda>w. case w of Bom \<Rightarrow> [] | Line l \<Rightarrow> [l]) out)"

lemma lines_of_simps [simp]:
  "lines_of [] = []" "lines_of (Bom # out) = lines_of out" "lines_of (Line l # out) = l # lines_of out"
  "lines_of (map Line ls) = ls" "lines_of (a @ b) = lines_of a @ lines_of b"
  by (simp_all add: lines_of_def comp_def)

lemma export_lines:
  assumes "export_asset_csv D dc_id bom d [] = (Inr (), out)"
  obtains mpl mg table where "exported_titles D d = title_row (exported_keytags D d) mpl mg"
    and "lines_of out = exported_titles D d # table"
    and "list_all2 (\<lambda>r cs. row_cells D (exported_keytags D d) mpl mg r d = Inr cs) (exported_rows D dc_id d) table"
proof -
  obtain mpl mg table where "exported_titles D d = title_row (exported_keytags D d) mpl mg"
    and out: "out = (if bom then [] @ [Bom] else []) @ map Line (exported_titles D d # table)"
    and "list_all2 (\<lambda>r cs. row_cells D (exported_keytags D d) mpl mg r d = Inr cs) (exported_rows D dc_id d) table"
    by (rule export_ok [OF assms])
  moreover have "lines_of out = exported_titles D d # table" unfolding out by simp
  ultimately show thesis by (intro that)
qed

lemma titles_of_deserialized:
  assumes "deserialized tab cm"
  shows "set (getTitles cm) = ci_strip ` set (tab ! 0)"
proof -
  have "t \<in> dom (map_of (title_to_index cm)) \<longleftrightarrow> t \<in> ci_strip ` set (tab ! 0)" for t
    using deserialized_index(2) [OF assms] index_of_None_iff [of 0 "tab ! 0" t]
    by (auto simp: titles_index_def domIff)
  then show ?thesis unfolding set_getTitles by blast
qed

lemma mandatory_titles: "ci_strip ` set (title_row keytags mpl mg) \<supseteq> set MANDATORY"
proof -
  have "set MANDATORY \<subseteq> ci_strip ` {''name'', ''type'', ''sub_type'', ''location'', ''status'', ''priority''}"
    by code_simp
  also have "\<dots> \<subseteq> ci_strip ` set (title_row keytags mpl mg)" by (auto simp: title_row_eq)
  finally show ?thesis .
qed

lemma no_title_missing: "set MANDATORY \<subseteq> set (getTitles cm) \<Longrightarrow> mandatory_missing cm = ''''"
proof (cases "List.find (\<lambda>s. s \<notin> set (getTitles cm)) MANDATORY")
  case None
  then show ?thesis by (simp add: mandatory_missing_def)
next
  case (Some t)
  then have "t \<in> set MANDATORY" "t \<notin> set (getTitles cm)" by (auto simp: find_Some_iff)
  moreover assume "set MANDATORY \<subseteq> set (getTitles cm)"
  ultimately show ?thesis by blast
qed

lemma map_of_map_put_other: "k' \<noteq> k \<Longrightarrow> map_of (map_put k v m) k' = map_of m k'"
  by (induction k v m rule: map_put.induct) auto

lemma ext_cell_kept:
  assumes "subtype_cell r exts = (sub, exts')" and "logical_asset_name D exts' d = Inr exts''"
    and "k \<noteq> ''type''" and "k \<noteq> ''logical_asset''"
  shows "ext_cell exts'' k = ext_cell exts k"
proof -
  have "map_of exts' k = map_of exts k"
    using assms(1,3) by (auto simp: subtype_cell_def Let_def split: if_splits option.splits prod.splits)
  moreover have "map_of exts'' k = map_of exts' k"
    using assms(2,4) by (auto simp: logical_asset_name_def bindE_eq_Inr_iff map_of_map_put_other split: option.splits)
  ultimately show ?thesis by (simp add: ext_cell_def)
qed

lemma set_keytags_loop: "set (keytags_loop aek ks s) = set s \<union> (set (map text_of ks) - set aek)"
  by (induction aek ks s rule: keytags_loop.induct) (auto simp: Let_def)

lemma distinct_keytags_loop: "distinct s \<Longrightarrow> distinct (keytags_loop aek ks s)"
  by (induction aek ks s rule: keytags_loop.induct) (auto simp: Let_def)

lemma keytags_plain: "distinct KEYTAGS" "set KEYTAGS \<inter> set ASSET_ELEMENT_KEYTAGS = {}" "distinct ASSET_ELEMENT_KEYTAGS"
  by code_simp+

lemma exported_keytags_ok:
  "distinct (exported_keytags D d)" "set (exported_keytags D d) \<inter> set ASSET_ELEMENT_KEYTAGS = {}"
  using keytags_plain
  by (auto simp: exported_keytags_def set_keytags_loop distinct_keytags_loop split: sum.split)

lemma read_back_row:
  assumes "deserialized (lines_of out) cm" and "lines_of out = title_row keytags mpl mg # table"
    and "j < length table" and "row_cells D keytags mpl mg r d = Inr (table ! j)"
  obtains i iname ename pname location exts exts' exts'' sub where "asset_names D r d = Inr (i, iname, ename)"
    and "ext_attributes_map D i d = Inr (0, exts)"
    and "id_to_name_ext_name D (case w_parent r of Some p \<Rightarrow> p | None \<Rightarrow> 0) d = Inr (pname, location)"
    and "subtype_cell r exts = (sub, exts')" and "logical_asset_name D exts' d = Inr exts''"
    and "get cm (j + 1) ''id'' = Inr iname" and "get cm (j + 1) ''name'' = Inr ename"
    and "get cm (j + 1) ''type'' = Inr (text_of (w_type_name r))" and "get cm (j + 1) ''sub_type'' = Inr sub"
    and "get cm (j + 1) ''location'' = Inr location"
    and "get cm (j + 1) ''status'' = Inr (text_of (w_status r))"
    and "get cm (j + 1) ''priority'' = Inr (priority_cell D r)"
    and "get cm (j + 1) ''asset_tag'' = Inr (text_of (w_asset_tag r))"
    and "\<And>k. k \<in> set keytags \<Longrightarrow> get cm (j + 1) k = Inr (ext_cell exts'' k)"
proof -
  have cell: "get cm (j + 1) t = Inr v" if "(t, v) \<in> set (zip (title_row keytags mpl mg) (table ! j))" for t v
    by (rule csv_cell [OF assms(1)]) (use that assms(2,3) length_row_cells [OF assms(4)] in simp_all)
  obtain i iname ename pname location exts sub exts' exts'' where parts: "asset_names D r d = Inr (i, iname, ename)"
      "ext_attributes_map D i d = Inr (0, exts)"
      "id_to_name_ext_name D (case w_parent r of Some p \<Rightarrow> p | None \<Rightarrow> 0) d = Inr (pname, location)" "subtype_cell r exts = (sub, exts')"
      "logical_asset_name D exts' d = Inr exts''"
    and cells: "{(''id'', iname), (''name'', ename), (''type'', text_of (w_type_name r)), (''sub_type'', sub),
          (''location'', location), (''status'', text_of (w_status r)), (''priority'', priority_cell D r),
          (''asset_tag'', text_of (w_asset_tag r))} \<union>
         (\<lambda>k. (k, ext_cell exts'' k)) ` set keytags \<subseteq> set (zip (title_row keytags mpl mg) (table ! j))"
    by (rule row_zip [OF assms(4)])
  show thesis by (rule that [OF parts]; rule cell; use cells in blast)
qed

text \<open>The titles of the numbered columns.\<close>

definition numbered_titles :: "('d, 'h) export_db \<Rightarrow> 'd \<Rightarrow> string list" where
  "numbered_titles D d =
     power_titles (columns_for (max_number_of_power_links D d)) @
     map (numbered_column ''group.'') [0..<columns_for (max_number_of_asset_groups D d)]"

lemma ci_strip_append: "ci_strip (a @ b) = ci_strip a @ ci_strip b"
  by (simp add: ci_strip_def)

lemma ci_strip_to_string [simp]: "ci_strip (to_string n) = to_string n"
proof -
  have "\<forall>c \<in> set (to_string n). (isalnum c \<or> c = CHR ''_'' \<or> c = CHR ''.'') \<and> tolower c = c"
    by (auto dest!: to_string_digits simp: isalnum_def tolower_def isupper_def isdigit_def)
  then show ?thesis by (simp add: ci_strip_def map_idI cong: filter_cong)
qed

lemma ci_strip_numbered: "ci_strip p = p \<Longrightarrow> ci_strip (numbered_column p i) = numbered_column p i"
  by (simp add: numbered_column_def ci_strip_append)

lemma prefixes_plain:
  "ci_strip ''power_source.'' = ''power_source.''" "ci_strip ''power_plug_src.'' = ''power_plug_src.''"
  "ci_strip ''power_input.'' = ''power_input.''" "ci_strip ''group.'' = ''group.''"
  by code_simp+

lemma power_titles_Suc:
  "power_titles (Suc n) = power_titles n @
     [numbered_column ''power_source.'' n, numbered_column ''power_plug_src.'' n, numbered_column ''power_input.'' n]"
  by (simp add: power_titles_def)

lemma numbered_column_eq [simp]: "numbered_column p i = numbered_column p j \<longleftrightarrow> i = j"
  by (simp add: numbered_column_def)

lemma numbered_column_other [simp]:
  "numbered_column ''power_source.'' i \<noteq> numbered_column ''power_plug_src.'' j"
  "numbered_column ''power_source.'' i \<noteq> numbered_column ''power_input.'' j"
  "numbered_column ''power_plug_src.'' i \<noteq> numbered_column ''power_input.'' j"
  "numbered_column ''power_plug_src.'' i \<noteq> numbered_column ''power_source.'' j"
  "numbered_column ''power_input.'' i \<noteq> numbered_column ''power_source.'' j"
  "numbered_column ''power_input.'' i \<noteq> numbered_column ''power_plug_src.'' j"
  by (simp_all add: numbered_column_def)

lemma set_power_titles:
  "set (power_titles n) = (\<Union>i<n. {numbered_column ''power_source.'' i, numbered_column ''power_plug_src.'' i,
     numbered_column ''power_input.'' i})"
  by (auto simp: power_titles_def)

lemma distinct_power_titles: "distinct (power_titles n)"
  by (induction n) (auto simp: power_titles_Suc set_power_titles power_titles_def)

lemma numbered_titles_facts:
  "map ci_strip (numbered_titles D d) = numbered_titles D d" "distinct (numbered_titles D d)"
  "set (numbered_titles D d) \<inter> set ASSET_ELEMENT_KEYTAGS = {}"
proof -
  have head: "take 6 t = ''power_'' \<or> take 6 t = ''group.''" if "t \<in> set (numbered_titles D d)" for t
    using that by (auto simp: numbered_titles_def set_power_titles numbered_column_def)
  have no: "\<forall>t \<in> set ASSET_ELEMENT_KEYTAGS. take 6 t \<noteq> ''power_'' \<and> take 6 t \<noteq> ''group.''" by code_simp
  show "set (numbered_titles D d) \<inter> set ASSET_ELEMENT_KEYTAGS = {}" using head no by blast
  have "ci_strip t = t" if "t \<in> set (numbered_titles D d)" for t
    using that prefixes_plain by (auto simp: numbered_titles_def set_power_titles ci_strip_numbered)
  then show "map ci_strip (numbered_titles D d) = numbered_titles D d" by (simp add: map_idI)
  have "distinct (map (numbered_column ''group.'') [0..<n])" for n by (simp add: distinct_map inj_on_def)
  moreover have "set (power_titles n) \<inter> set (map (numbered_column ''group.'') [0..<m]) = {}" for n m
    by (auto simp: set_power_titles numbered_column_def)
  ultimately show "distinct (numbered_titles D d)"
    unfolding numbered_titles_def distinct_append using distinct_power_titles by blast
qed

lemma distinct_titles:
  assumes "\<forall>k \<in> set (exported_keytags D d). ci_strip k = k"
  shows "distinct (map ci_strip (exported_titles D d)) \<longleftrightarrow>
     set (exported_keytags D d) \<inter> set (numbered_titles D d) = {}"
proof -
  have aek: "map ci_strip ASSET_ELEMENT_KEYTAGS = ASSET_ELEMENT_KEYTAGS" by code_simp
  have mset: "mset (exported_titles D d) = mset (ASSET_ELEMENT_KEYTAGS @ exported_keytags D d @ numbered_titles D d)"
    by (simp add: exported_titles_def title_row_eq numbered_titles_def ASSET_ELEMENT_KEYTAGS_def)
  then have "set (exported_titles D d) = set (ASSET_ELEMENT_KEYTAGS @ exported_keytags D d @ numbered_titles D d)"
    by (rule mset_eq_setD)
  moreover have "ci_strip k = k" if "k \<in> set ASSET_ELEMENT_KEYTAGS \<union> set (numbered_titles D d)" for k
    using that aek numbered_titles_facts(1) [of D d] by (metis Un_iff map_eq_conv map_ident)
  ultimately have "map ci_strip (exported_titles D d) = exported_titles D d"
    using assms by (intro map_idI) auto
  then show ?thesis
    using mset_eq_imp_distinct_iff [OF mset] exported_keytags_ok [of D d] numbered_titles_facts [of D d] keytags_plain(3)
    by auto
qed

subsection \<open>An installation\<close>

text \<open>A data centre with one UPS that has a writable and a read-only attribute and one power source.\<close>

definition export_row :: "nat \<Rightarrow> nat option \<Rightarrow> string \<Rightarrow> string \<Rightarrow> web_row" where
  "export_row i parent ty sub = \<lparr> w_id = Some i, w_parent = parent, w_type_name = Some ty, w_subtype_name = Some sub,
     w_status = Some ''active'', w_priority = Some 2, w_asset_tag = None \<rparr>"

definition export_names :: "nat \<Rightarrow> string \<times> string" where
  "export_names i = (if i = 1 then (''dc-1'', ''DC 1'') else if i = 12 then (''ups-12'', ''UPS 12'') else ('''', ''''))"

definition sample_export :: "string list \<Rightarrow> (string list, unit) export_db" where
  \<comment> \<open>the argument is the list of the attribute names in the data base\<close>
  "sample_export keytags = manager_db.extend sample_manager
     (export_db.fields (\<lambda>d. Inr 1) (\<lambda>d. Inr 0) (\<lambda>d. Inr (0, map Some keytags)) (\<lambda>i d. Inr (export_names i))
       (\<lambda>i d. Inr (0, if i = 12
          then [(''logical_asset'', (''dc-1'', False)), (''mac.1'', (''00:11'', True)), (''model'', (''9PX'', False))] else []))
       (\<lambda>i d. Inr (0, if i = 12 then [(Some ''dc-1'', None, Some ''1'')] else []))
       (\<lambda>i d. Inr (0, []))
       (\<lambda>n d. Inr (0, if n = ''dc-1'' then ''DC 1'' else ''UPS 12''))
       (\<lambda>d. Inr (0, [export_row 1 None ''datacenter'' ''N_A'', export_row 12 (Some 1) ''device'' ''ups'']))
       (\<lambda>i d. Inr (0, [])) 0)"

subsection \<open>Properties\<close>

definition exported_attribute :: "('d, 'h) export_db \<Rightarrow> ext_map \<Rightarrow> string \<Rightarrow> 'd \<Rightarrow> string \<Rightarrow> bool" where
  \<comment> \<open>the value of a writable attribute, for \<open>logical_asset\<close> the external name of the asset it names; nothing otherwise\<close>
  "exported_attribute D exts k d c \<longleftrightarrow>
     (case map_of exts k of
        Some (v, False) \<Rightarrow> if k = ''logical_asset'' then name_to_extname D v d = Inr (0, c) else c = v
      | _ \<Rightarrow> c = '''')"

lemma ext_cell_exported:
  assumes "subtype_cell r exts = (sub, exts')" and "logical_asset_name D exts' d = Inr exts''" and "k \<noteq> ''type''"
  shows "exported_attribute D exts k d (ext_cell exts'' k)"
proof (cases "k = ''logical_asset''")
  case False
  with ext_cell_kept [OF assms] show ?thesis
    by (simp add: exported_attribute_def ext_cell_def split: option.splits prod.splits bool.splits)
next
  case True
  have "map_of exts' k = map_of exts k"
    using assms(1,3) by (auto simp: subtype_cell_def Let_def split: if_splits option.splits prod.splits)
  moreover have "map_of (map_put k v m) k = Some v" for v :: "string \<times> bool" and m
    by (induction k v m rule: map_put.induct) auto
  ultimately show ?thesis
    using assms(2) True
    by (auto simp: logical_asset_name_def exported_attribute_def ext_cell_def bindE_eq_Inr_iff
        split: option.splits prod.splits bool.splits)
qed

definition row_read_back :: "('d, 'h) export_db \<Rightarrow> CsvMap \<Rightarrow> nat \<Rightarrow> web_row \<Rightarrow> 'd \<Rightarrow> bool" where
  \<comment> \<open>the table has in a line what the data base has in a row\<close>
  "row_read_back D cm line r d \<longleftrightarrow>
     (\<exists>i iname ename exts. asset_names D r d = Inr (i, iname, ename) \<and> ext_attributes_map D i d = Inr (0, exts) \<and>
        get cm line ''id'' = Inr iname \<and> get cm line ''name'' = Inr ename \<and>
        get cm line ''type'' = Inr (text_of (w_type_name r)) \<and>
        get cm line ''sub_type'' = Inr (fst (subtype_cell r exts)) \<and>
        get cm line ''status'' = Inr (text_of (w_status r)) \<and>
        get cm line ''priority'' = Inr (priority_cell D r) \<and>
        get cm line ''asset_tag'' = Inr (text_of (w_asset_tag r)) \<and>
        (\<exists>q. id_to_name_ext_name D (case w_parent r of Some p \<Rightarrow> p | None \<Rightarrow> 0) d = Inr q \<and>
             get cm line ''location'' = Inr (snd q)) \<and>
        (\<forall>k \<in> set (exported_keytags D d). \<exists>c. get cm line k = Inr c \<and> exported_attribute D exts k d c))"

lemma exported_row_read_back:
  assumes "deserialized (lines_of out) cm" and lines: "lines_of out = title_row (exported_keytags D d) mpl mg # table"
    and table: "list_all2 (\<lambda>r cs. row_cells D (exported_keytags D d) mpl mg r d = Inr cs) rs table"
    and j: "j < length rs"
  shows "row_read_back D cm (j + 1) (rs ! j) d"
proof -
  have j': "j < length table" using j table by (simp add: list_all2_lengthD)
  have cells: "row_cells D (exported_keytags D d) mpl mg (rs ! j) d = Inr (table ! j)"
    using list_all2_nthD [OF table j] .
  have no_type: "''type'' \<notin> set (exported_keytags D d)"
    using exported_keytags_ok(2) [of D d] by (auto simp: ASSET_ELEMENT_KEYTAGS_def)
  let ?r = "rs ! j"
  obtain i iname ename pname location exts exts' exts'' sub where
    parts: "asset_names D ?r d = Inr (i, iname, ename)" "ext_attributes_map D i d = Inr (0, exts)"
    and parent: "id_to_name_ext_name D (case w_parent ?r of Some p \<Rightarrow> p | None \<Rightarrow> 0) d = Inr (pname, location)"
    and sub: "subtype_cell ?r exts = (sub, exts')" and la: "logical_asset_name D exts' d = Inr exts''"
    and got: "get cm (j + 1) ''id'' = Inr iname" "get cm (j + 1) ''name'' = Inr ename"
      "get cm (j + 1) ''type'' = Inr (text_of (w_type_name ?r))" "get cm (j + 1) ''sub_type'' = Inr sub"
      "get cm (j + 1) ''location'' = Inr location" "get cm (j + 1) ''status'' = Inr (text_of (w_status ?r))"
      "get cm (j + 1) ''priority'' = Inr (priority_cell D ?r)" "get cm (j + 1) ''asset_tag'' = Inr (text_of (w_asset_tag ?r))"
    and attr: "\<And>k. k \<in> set (exported_keytags D d) \<Longrightarrow> get cm (j + 1) k = Inr (ext_cell exts'' k)"
    by (rule read_back_row [OF assms(1) lines j' cells]) (rule that; assumption)
  have attributes: "\<forall>k \<in> set (exported_keytags D d). \<exists>c. get cm (j + 1) k = Inr c \<and> exported_attribute D exts k d c"
  proof
    fix k assume k: "k \<in> set (exported_keytags D d)"
    with no_type have "k \<noteq> ''type''" by blast
    from attr [OF k] ext_cell_exported [OF sub la this]
    show "\<exists>c. get cm (j + 1) k = Inr c \<and> exported_attribute D exts k d c" by blast
  qed
  have "fst (subtype_cell ?r exts) = sub" "snd (pname, location) = location" using sub by simp_all
  with parts got parent attributes show ?thesis
    unfolding row_read_back_def by (intro exI conjI) (assumption | simp only:)+
qed

text \<open>C22. An export that succeeds and can be read back by the table of the import gives back what it
  exported: no mandatory column is missing, there is a row per asset in the order of the query, and
  the cells of a row are the names, the type and subtype, the status, the priority and the tag of its asset, the
  external name of its location and, for every attribute name of the installation, the attribute's value when it
  is writable and nothing when it is read-only or absent; the value of \<open>logical_asset\<close>, which is the internal
  name of an asset, is replaced by that asset's external name. (The numbered columns of the power sources and the
  groups are in the titles, but not part of this statement.)\<close>

theorem exported_table_read_back:
  assumes "export_asset_csv D dc_id bom d [] = (Inr (), out)" and "deserialized (lines_of out) cm"
  shows "mandatory_missing cm = '''' \<and> length (lines_of out) = Suc (length (exported_rows D dc_id d)) \<and>
    (\<forall>j < length (exported_rows D dc_id d). row_read_back D cm (j + 1) (exported_rows D dc_id d ! j) d)"
proof -
  obtain mpl mg table where titles: "exported_titles D d = title_row (exported_keytags D d) mpl mg"
    and lines: "lines_of out = exported_titles D d # table"
    and table: "list_all2 (\<lambda>r cs. row_cells D (exported_keytags D d) mpl mg r d = Inr cs) (exported_rows D dc_id d) table"
    by (rule export_lines [OF assms(1)])
  note lines' = lines [unfolded titles]
  have "set MANDATORY \<subseteq> set (getTitles cm)"
    using mandatory_titles titles_of_deserialized [OF assms(2)] lines' by simp
  then have "mandatory_missing cm = ''''" by (rule no_title_missing)
  then show ?thesis
    using lines table exported_row_read_back [OF assms(2) lines' table] by (simp add: list_all2_lengthD)
qed

theorem exported_table_read_back_witness:
  "\<exists>out cm. export_asset_csv (sample_export [''mac.1'', ''logical_asset'']) 0 True [] [] = (Inr (), out) \<and> deserialized (lines_of out) cm \<and>
     get cm 2 ''model'' = Inr ''9PX'' \<and> get cm 2 ''mac.1'' = Inr '''' \<and> get cm 2 ''logical_asset'' = Inr ''DC 1''"
proof -
  let ?D = "sample_export [''mac.1'', ''logical_asset'']"
  let ?run = "export_asset_csv ?D 0 True [] []"
  have ok: "fst ?run = Inr ()" by code_simp
  have "\<forall>k \<in> set (exported_keytags ?D []). ci_strip k = k"
    "set (exported_keytags ?D []) \<inter> set (numbered_titles ?D []) = {}" by code_simp+
  then have distinct: "distinct (map ci_strip (exported_titles ?D []))" by (rule distinct_titles [THEN iffD2])
  have rows: "length (exported_rows ?D 0 []) = 2" 
    and tags: "''model'' \<in> set (exported_keytags ?D [])" "''mac.1'' \<in> set (exported_keytags ?D [])"
      "''logical_asset'' \<in> set (exported_keytags ?D [])"
    and second: "asset_names ?D (exported_rows ?D 0 [] ! 1) [] = Inr (12, ''ups-12'', ''UPS 12'')"
    and exts: "ext_attributes_map ?D 12 [] =
      Inr (0, [(''logical_asset'', (''dc-1'', False)), (''mac.1'', (''00:11'', True)), (''model'', (''9PX'', False))])"
    by code_simp+
  from ok have run: "?run = (Inr (), snd ?run)" by (metis prod.collapse)
  obtain table where "lines_of (snd ?run) = exported_titles ?D [] # table" by (rule export_lines [OF run])
  then obtain cm where cm: "deserialized (lines_of (snd ?run)) cm" using distinct deserialized_iff by fastforce
  from exported_table_read_back [OF run cm] rows have "row_read_back ?D cm (1 + 1) (exported_rows ?D 0 [] ! 1) []" by auto
  then obtain e where "ext_attributes_map ?D 12 [] = Inr (0, e)"
    and attr: "\<And>k. k \<in> set (exported_keytags ?D []) \<Longrightarrow> \<exists>c. get cm 2 k = Inr c \<and> exported_attribute ?D e k [] c"
    unfolding row_read_back_def second by (auto simp: numeral_2_eq_2)
  with exts have e: "e = [(''logical_asset'', (''dc-1'', False)), (''mac.1'', (''00:11'', True)), (''model'', (''9PX'', False))]"
    by simp
  have dc: "name_to_extname ?D ''dc-1'' [] = Inr (0, ''DC 1'')" by code_simp
  have "get cm 2 ''model'' = Inr ''9PX''" "get cm 2 ''mac.1'' = Inr ''''" "get cm 2 ''logical_asset'' = Inr ''DC 1''"
    using attr [OF tags(1)] attr [OF tags(2)] attr [OF tags(3)] dc by (auto simp: e exported_attribute_def)
  with run cm show ?thesis by (intro exI conjI) auto
qed

text \<open>C34. With attribute names that the import reads unchanged, an exported table can be imported exactly
  when no attribute is named like one of its numbered columns \<open>power_source.1\<close>, \<open>power_plug_src.1\<close>,
  \<open>power_input.1\<close>, \<open>group.1\<close>, \<open>\<dots>\<close>: otherwise the import refuses the whole table for a title that
  occurs twice. (An import stores a column \<open>group.3\<close> as such an attribute when there is no \<open>group.2\<close>.)\<close>

theorem exported_table_importable:
  assumes "export_asset_csv D dc_id bom d [] = (Inr (), out)"
    and "\<forall>k \<in> set (exported_keytags D d). ci_strip k = k"
  shows "(\<exists>cm. deserialized (lines_of out) cm) \<longleftrightarrow> set (exported_keytags D d) \<inter> set (numbered_titles D d) = {}"
proof -
  obtain table where "lines_of out = exported_titles D d # table" by (rule export_lines [OF assms(1)])
  then show ?thesis using deserialized_iff [of "lines_of out"] distinct_titles [OF assms(2)] by simp
qed

theorem exported_table_importable_witness:
  "(\<exists>cm. deserialized (lines_of (snd (export_asset_csv (sample_export [''mac.1'']) 0 True [] []))) cm) \<and>
   \<not> (\<exists>cm. deserialized (lines_of (snd (export_asset_csv (sample_export [''group.1'']) 0 True [] []))) cm)"
proof -
  have run: "export_asset_csv (sample_export ks) 0 True [] [] = (Inr (), snd (export_asset_csv (sample_export ks) 0 True [] []))"
    if "fst (export_asset_csv (sample_export ks) 0 True [] []) = Inr ()" for ks
    using that by (metis prod.collapse)
  have ok: "fst (export_asset_csv (sample_export [''mac.1'']) 0 True [] []) = Inr ()"
      "fst (export_asset_csv (sample_export [''group.1'']) 0 True [] []) = Inr ()"
    and plain: "\<forall>k \<in> set (exported_keytags (sample_export [''mac.1'']) []). ci_strip k = k"
      "\<forall>k \<in> set (exported_keytags (sample_export [''group.1'']) []). ci_strip k = k"
    and sets: "set (exported_keytags (sample_export [''mac.1'']) []) \<inter> set (numbered_titles (sample_export [''mac.1'']) []) = {}"
      "set (exported_keytags (sample_export [''group.1'']) []) \<inter> set (numbered_titles (sample_export [''group.1'']) []) \<noteq> {}"
    by code_simp+
  show ?thesis
    using exported_table_importable [OF run [OF ok(1)] plain(1)] exported_table_importable [OF run [OF ok(2)] plain(2)] sets
    by simp
qed

end
