(* ===== verification/BiosCsv.thy ===== *)
theory BiosCsv
  imports ExportCsv
begin

text \<open>
  \<open>bios-csv/bios-csv.cc\<close>: the command that exports the assets as a table and compares two tables. A
  file is read by a parameter, a function of its name.
\<close>

datatype compare_exn =
    Csv csv_exn
  | Undefined_read \<comment> \<open>\<open>get_priority\<close> of an empty string\<close>

definition read_cell :: "CsvMap \<Rightarrow> nat \<Rightarrow> string \<Rightarrow> compare_exn + string" where
  "read_cell c line title = (case get c line title of Inl e \<Rightarrow> Inl (Csv e) | Inr v \<Rightarrow> Inr v)"

definition cells_equal :: "string \<Rightarrow> string \<Rightarrow> string \<Rightarrow> compare_exn + bool" where
  "cells_equal title foo1 foo2 =
     (if title = ''priority''
      then (case (get_priority foo1, get_priority foo2) of
              (Some p1, Some p2) \<Rightarrow> Inr (p1 = p2) | _ \<Rightarrow> Inl Undefined_read)
      else if title = ''type'' \<or> title = ''sub_type'' \<or> title = ''status''
      then Inr (map tolower foo1 = map tolower foo2)
      else Inr (foo1 = foo2))"

fun titles_loop ::
  "CsvMap \<Rightarrow> CsvMap \<Rightarrow> string list \<Rightarrow> nat \<Rightarrow> string list \<Rightarrow> string list \<Rightarrow> compare_exn + string list option" where
  \<comment> \<open>the columns of the second table not used so far; \<open>None\<close>: \<open>return false\<close>\<close>
  "titles_loop c1 c2 t2 line [] unused_columns = Inr (Some unused_columns)"
| "titles_loop c1 c2 t2 line (title # t1) unused_columns =
     (if title \<notin> set t2
      then bindE (read_cell c1 line title) (\<lambda>v.
             if v \<noteq> '''' then Inr None else titles_loop c1 c2 t2 line t1 (set_erase title unused_columns))
      else bindE (read_cell c1 line title) (\<lambda>foo1.
           bindE (read_cell c2 line title) (\<lambda>foo2.
           bindE (cells_equal title foo1 foo2) (\<lambda>equals.
             if \<not> equals then Inr None else titles_loop c1 c2 t2 line t1 (set_erase title unused_columns)))))"

fun unused_loop :: "CsvMap \<Rightarrow> nat \<Rightarrow> string list \<Rightarrow> compare_exn + bool" where
  "unused_loop c2 line [] = Inr True"
| "unused_loop c2 line (one_col # cs) =
     bindE (read_cell c2 line one_col) (\<lambda>v. if v \<noteq> '''' then Inr False else unused_loop c2 line cs)"

definition compare_line :: "CsvMap \<Rightarrow> CsvMap \<Rightarrow> nat \<Rightarrow> compare_exn + bool" where
  "compare_line c1 c2 line =
     bindE (titles_loop c1 c2 (getTitles c2) line (getTitles c1) (getTitles c2)) (\<lambda>r.
       case r of None \<Rightarrow> Inr False
       | Some unused_columns \<Rightarrow> unused_loop c2 line (set_erase ''id'' unused_columns))"

fun lines_loop :: "CsvMap \<Rightarrow> CsvMap \<Rightarrow> nat list \<Rightarrow> compare_exn + bool" where
  "lines_loop c1 c2 [] = Inr True"
| "lines_loop c1 c2 (line # ls) =
     bindE (compare_line c1 c2 line) (\<lambda>b. if b then lines_loop c1 c2 ls else Inr False)"

definition s_compare :: "CsvMap \<Rightarrow> CsvMap \<Rightarrow> compare_exn + bool" where
  \<comment> \<open>of two tables read from files, which have a row of titles at least\<close>
  "s_compare c1 c2 = (if rows c1 \<noteq> rows c2 then Inr False else lines_loop c1 c2 [1..<rows c1])"

subsection \<open>The command\<close>

definition ini_path :: "string \<Rightarrow> string" where
  \<comment> \<open>the home directory and the name, with nothing between\<close>
  "ini_path home = home @ ''.my.cnf''"

definition setenv :: "string \<Rightarrow> string \<Rightarrow> (string \<rightharpoonup> string) \<Rightarrow> (string \<rightharpoonup> string)" where
  "setenv name value env = (if value \<noteq> '''' then env(name \<mapsto> c_str value) else env)"

definition s_load_name_password ::
  "string \<Rightarrow> (string \<Rightarrow> (string \<times> string) option) \<Rightarrow> (string \<rightharpoonup> string) \<Rightarrow> (string \<rightharpoonup> string)" where
  \<comment> \<open>a configuration file gives the user and the password of \<open>client\<close>, empty when it has none, or cannot be read\<close>
  "s_load_name_password home ini env =
     (if env ''DB_USER'' \<noteq> None \<and> env ''DB_PASSWD'' \<noteq> None then env
      else case ini (ini_path home) of
             None \<Rightarrow> env
           | Some (user, password) \<Rightarrow> setenv ''DB_PASSWD'' password (setenv ''DB_USER'' user env))"

datatype exit_code = EXIT_SUCCESS | EXIT_FAILURE

definition exit_of :: "'e + bool \<Rightarrow> exit_code" where
  "exit_of r = (case r of Inr True \<Rightarrow> EXIT_SUCCESS | _ \<Rightarrow> EXIT_FAILURE)"

fun bios_csv_main ::
  "(string \<Rightarrow> compare_exn + CsvMap) \<Rightarrow> ('d, 'h) export_db \<Rightarrow> 'd \<Rightarrow> string list \<Rightarrow> exit_code \<times> written list" where
  \<comment> \<open>the arguments after the name of the program; the code and what is written to the standard output\<close>
  "bios_csv_main load D d [] = (EXIT_FAILURE, [])"
| "bios_csv_main load D d (command # args) =
     (if command = ''export''
      then (case export_asset_csv D (- 1) True d [] of (r, out) \<Rightarrow> (exit_of (bindE r (\<lambda>_. Inr True)), out))
      else if command = ''compare''
      then (case args of
              file1 # file2 # _ \<Rightarrow> (exit_of (bindE (load file1) (\<lambda>c1. bindE (load file2) (\<lambda>c2. s_compare c1 c2))), [])
            | _ \<Rightarrow> (EXIT_FAILURE, []))
      else (EXIT_FAILURE, []))"

subsection \<open>When two tables correspond\<close>

definition readable_table :: "CsvMap \<Rightarrow> bool" where
  \<comment> \<open>no row is shorter than the row of titles, every priority has a first character\<close>
  "readable_table c \<longleftrightarrow> (\<forall>line \<in> {1..<rows c}. \<forall>t \<in> set (getTitles c). \<exists>v. get c line t = Inr v \<and>
     (t = ''priority'' \<longrightarrow> get_priority v \<noteq> None))"

definition cell :: "CsvMap \<Rightarrow> nat \<Rightarrow> string \<Rightarrow> string" where
  "cell c line t = (case get c line t of Inr v \<Rightarrow> v | Inl _ \<Rightarrow> '''')"

definition corresponds :: "string \<Rightarrow> string \<Rightarrow> string \<Rightarrow> bool" where
  \<comment> \<open>the meaning of two cells under a title\<close>
  "corresponds t v1 v2 \<longleftrightarrow>
     (if t = ''priority'' then get_priority v1 = get_priority v2
      else if t \<in> {''type'', ''sub_type'', ''status''} then map tolower v1 = map tolower v2 else v1 = v2)"

lemma cells_equal_Inr:
  "(t = ''priority'' \<Longrightarrow> get_priority v1 \<noteq> None \<and> get_priority v2 \<noteq> None) \<Longrightarrow> cells_equal t v1 v2 = Inr (corresponds t v1 v2)"
  by (cases "t = ''priority''") (auto simp: cells_equal_def corresponds_def split: option.splits)

lemma read_cell_readable:
  assumes "readable_table c" and "line \<in> {1..<rows c}" and "t \<in> set (getTitles c)"
  shows "read_cell c line t = Inr (cell c line t)" and "t = ''priority'' \<Longrightarrow> get_priority (cell c line t) \<noteq> None"
proof -
  from assms obtain v where "get c line t = Inr v" "t = ''priority'' \<longrightarrow> get_priority v \<noteq> None"
    unfolding readable_table_def by blast
  then show "read_cell c line t = Inr (cell c line t)" "t = ''priority'' \<Longrightarrow> get_priority (cell c line t) \<noteq> None"
    by (simp_all add: read_cell_def cell_def)
qed

definition cell_ok :: "CsvMap \<Rightarrow> CsvMap \<Rightarrow> nat \<Rightarrow> string \<Rightarrow> bool" where
  "cell_ok c1 c2 line t \<longleftrightarrow>
     (if t \<in> set (getTitles c2) then corresponds t (cell c1 line t) (cell c2 line t) else cell c1 line t = '''')"

lemma titles_loop_result:
  assumes "readable_table c1" and "readable_table c2" and "line \<in> {1..<rows c1}" and "line \<in> {1..<rows c2}"
    and "set ts \<subseteq> set (getTitles c1)"
  shows "titles_loop c1 c2 (getTitles c2) line ts us =
     Inr (if \<forall>t \<in> set ts. cell_ok c1 c2 line t then Some (fold set_erase ts us) else None)"
  using assms(5)
proof (induction ts arbitrary: us)
  case (Cons t ts)
  note r1 = read_cell_readable [OF assms(1,3), of t] and r2 = read_cell_readable [OF assms(2,4), of t]
  have "cells_equal t (cell c1 line t) (cell c2 line t) = Inr (corresponds t (cell c1 line t) (cell c2 line t))"
    if "t \<in> set (getTitles c2)"
    by (rule cells_equal_Inr, intro conjI) (use r1(2) r2(2) that Cons.prems in simp_all)
  with r1 r2 Cons show ?case by (simp add: cell_ok_def [of _ _ _ t])
qed simp

lemma unused_loop_result:
  assumes "readable_table c" and "line \<in> {1..<rows c}" and "set cs \<subseteq> set (getTitles c)"
  shows "unused_loop c line cs = Inr (\<forall>t \<in> set cs. cell c line t = '''')"
  using assms(3) by (induction cs) (simp_all add: read_cell_readable [OF assms(1,2)])

lemma set_fold_erase: "set (fold set_erase ts us) = set us - set ts"
  by (induction ts arbitrary: us) auto

definition line_corresponds :: "CsvMap \<Rightarrow> CsvMap \<Rightarrow> nat \<Rightarrow> bool" where
  "line_corresponds c1 c2 line \<longleftrightarrow>
     (\<forall>t \<in> set (getTitles c1) \<inter> set (getTitles c2). corresponds t (cell c1 line t) (cell c2 line t)) \<and>
     (\<forall>t \<in> set (getTitles c1) - set (getTitles c2). cell c1 line t = '''') \<and>
     (\<forall>t \<in> set (getTitles c2) - set (getTitles c1) - {''id''}. cell c2 line t = '''')"

lemma compare_line_result:
  assumes "readable_table c1" and "readable_table c2" and "line \<in> {1..<rows c1}" and "line \<in> {1..<rows c2}"
  shows "compare_line c1 c2 line = Inr (line_corresponds c1 c2 line)"
proof -
  let ?us = "set_erase ''id'' (fold set_erase (getTitles c1) (getTitles c2))"
  have us: "set ?us = set (getTitles c2) - set (getTitles c1) - {''id''}" by (simp add: set_fold_erase)
  then have "unused_loop c2 line ?us = Inr (\<forall>t \<in> set ?us. cell c2 line t = '''')"
    by (intro unused_loop_result [OF assms(2,4)]) auto
  with us titles_loop_result [OF assms, of "getTitles c1" "getTitles c2"] show ?thesis
    by (auto simp: compare_line_def line_corresponds_def cell_ok_def)
qed

lemma compared_lines:
  assumes "\<And>l. l \<in> set ls \<Longrightarrow> compare_line c1 c2 l = Inr (f l)"
  shows "lines_loop c1 c2 ls = Inr (\<forall>l \<in> set ls. f l)"
  using assms by (induction ls) auto

subsection \<open>Properties\<close>

lemma s_compare_readable:
  assumes "readable_table c1" and "readable_table c2"
  shows "s_compare c1 c2 = Inr (rows c1 = rows c2 \<and> (\<forall>line \<in> {1..<rows c1}. line_corresponds c1 c2 line))"
proof (cases "rows c1 = rows c2")
  case True
  have "lines_loop c1 c2 [1..<rows c1] = Inr (\<forall>l \<in> set [1..<rows c1]. line_corresponds c1 c2 l)"
    by (rule compared_lines) (use compare_line_result [OF assms] True in simp)
  with True show ?thesis by (simp add: s_compare_def)
qed (simp add: s_compare_def)

text \<open>C17. Two tables without short rows correspond exactly when they have the same number of rows and in
  every row the cells under common titles have the same meaning (the same priority, the same type,
  subtype and status but for the case of letters, the same text otherwise) and the cells under a
  title of one table only are empty, except that the second table may have identifiers of its own.\<close>

theorem compare_correct:
  assumes "readable_table c1" and "readable_table c2"
  shows "s_compare c1 c2 = Inr (rows c1 = rows c2 \<and> (\<forall>line \<in> {1..<rows c1}. line_corresponds c1 c2 line))"
  using assms by (rule s_compare_readable)

definition table_of :: "string list list \<Rightarrow> CsvMap" where
  "table_of d = snd (deserialize (CsvMap_new d))"

theorem compare_correct_witness:
  "s_compare (table_of [[''name'', ''type'', ''priority''], [''ups'', ''Device'', ''P1'']])
     (table_of [[''id'', ''name'', ''priority'', ''type''], [''ups-12'', ''ups'', ''1'', ''device'']]) = Inr True \<and>
   line_corresponds (table_of [[''name'', ''type'', ''priority''], [''ups'', ''Device'', ''P1'']])
     (table_of [[''id'', ''name'', ''priority'', ''type''], [''ups-12'', ''ups'', ''1'', ''device'']]) 1"
proof -
  let ?c1 = "table_of [[''name'', ''type'', ''priority''], [''ups'', ''Device'', ''P1'']]"
  let ?c2 = "table_of [[''id'', ''name'', ''priority'', ''type''], [''ups-12'', ''ups'', ''1'', ''device'']]"
  have run: "s_compare ?c1 ?c2 = Inr True" by code_simp
  have "rows ?c1 = 2" "rows ?c2 = 2" "getTitles ?c1 = [''name'', ''priority'', ''type'']"
    "getTitles ?c2 = [''id'', ''name'', ''priority'', ''type'']"
    "get ?c1 1 ''name'' = Inr ''ups''" "get ?c1 1 ''type'' = Inr ''Device''" "get ?c1 1 ''priority'' = Inr ''P1''"
    "get ?c2 1 ''name'' = Inr ''ups''" "get ?c2 1 ''type'' = Inr ''device''" "get ?c2 1 ''priority'' = Inr ''1''"
    "get ?c2 1 ''id'' = Inr ''ups-12''" "get_priority ''P1'' = Some 1" "get_priority ''1'' = Some 1"
    by code_simp+
  then have "readable_table ?c1" "readable_table ?c2" "rows ?c1 = 2"
    by (auto simp: readable_table_def atLeastLessThan_def numeral_2_eq_2 less_Suc_eq)
  with compare_correct [of ?c1 ?c2] run show ?thesis by auto
qed

subsection \<open>A table that was exported\<close>

lemma get_priority_defined: "2 \<le> length s \<Longrightarrow> get_priority s \<noteq> None"
  by (auto simp: get_priority_def char_at_def split: if_splits)

lemma exported_readable:
  assumes "export_asset_csv D dc_id bom d [] = (Inr (), out)" and "deserialized (lines_of out) cm"
  shows "readable_table cm"
  unfolding readable_table_def
proof (intro ballI)
  fix line t
  assume line: "line \<in> {1..<rows cm}" and t: "t \<in> set (getTitles cm)"
  obtain mpl mg table where titles: "exported_titles D d = title_row (exported_keytags D d) mpl mg"
    and lines: "lines_of out = exported_titles D d # table"
    and table: "list_all2 (\<lambda>r cs. row_cells D (exported_keytags D d) mpl mg r d = Inr cs) (exported_rows D dc_id d) table"
    by (rule export_lines [OF assms(1)])
  note lines' = lines [unfolded titles]
  have "data cm = lines_of out" using deserialized_index(1) [OF assms(2)] .
  with line obtain j where j: "line = j + 1" "j < length table"
    by (cases line) (simp_all add: rows_def lines)
  with table have row: "row_cells D (exported_keytags D d) mpl mg (exported_rows D dc_id d ! j) d = Inr (table ! j)"
    by (simp add: list_all2_conv_all_nth)
  from t titles_of_deserialized [OF assms(2)] lines' obtain title
    where title: "title \<in> set (title_row (exported_keytags D d) mpl mg)" "t = ci_strip title" by auto
  then obtain v where "(title, v) \<in> set (zip (title_row (exported_keytags D d) mpl mg) (table ! j))"
    using length_row_cells [OF row] by (auto simp: in_set_conv_nth set_zip)
  then have v: "get cm line title = Inr v"
    unfolding j using lines' j length_row_cells [OF row] by (intro csv_cell [OF assms(2)]) simp_all
  then have g: "get cm line t = Inr v" by (auto simp: get_def title(2) Let_def split: if_splits option.splits)
  have "get cm line ''priority'' = Inr (priority_cell D (exported_rows D dc_id d ! j))"
    unfolding j by (rule read_back_row [OF assms(2) lines' j(2) row])
  then have "t = ''priority'' \<Longrightarrow> 2 \<le> length v"
    using g by (auto simp: priority_cell_def Suc_le_eq)
  with g get_priority_defined show "\<exists>v. get cm line t = Inr v \<and> (t = ''priority'' \<longrightarrow> get_priority v \<noteq> None)" by blast
qed

text \<open>C18. What \<open>bios-csv export\<close> writes corresponds with itself: the command exports with success, and comparing two
  copies of the exported file, read as the import reads tables, succeeds.\<close>

theorem export_compares_with_itself:
  assumes "export_asset_csv D (- 1) True d [] = (Inr (), out)" and "deserialized (lines_of out) cm"
    and "load file1 = Inr cm" and "load file2 = Inr cm"
  shows "bios_csv_main load D d [''export''] = (EXIT_SUCCESS, out) \<and>
         bios_csv_main load D d [''compare'', file1, file2] = (EXIT_SUCCESS, [])"
proof -
  have r: "readable_table cm" by (rule exported_readable [OF assms(1,2)])
  have "s_compare cm cm = Inr True"
    using s_compare_readable [OF r r] by (simp add: line_corresponds_def corresponds_def)
  with assms show ?thesis by (simp add: exit_of_def)
qed

theorem export_compares_with_itself_witness:
  "\<exists>out cm. export_asset_csv (sample_export [''mac.1'']) (- 1) True [] [] = (Inr (), out) \<and> deserialized (lines_of out) cm \<and>
     bios_csv_main (\<lambda>_. Inr cm) (sample_export [''mac.1'']) [] [''compare'', ''old.csv'', ''new.csv''] = (EXIT_SUCCESS, [])"
proof -
  let ?D = "sample_export [''mac.1'']"
  let ?run = "export_asset_csv ?D (- 1) True [] []"
  have "fst ?run = Inr ()" by code_simp
  then have run: "?run = (Inr (), snd ?run)" by (metis prod.collapse)
  have "\<forall>k \<in> set (exported_keytags ?D []). ci_strip k = k"
    "set (exported_keytags ?D []) \<inter> set (numbered_titles ?D []) = {}" by code_simp+
  then have distinct: "distinct (map ci_strip (exported_titles ?D []))" by (rule distinct_titles [THEN iffD2])
  obtain table where "lines_of (snd ?run) = exported_titles ?D [] # table" by (rule export_lines [OF run])
  then obtain cm where cm: "deserialized (lines_of (snd ?run)) cm" using distinct deserialized_iff by fastforce
  from export_compares_with_itself [OF run cm, of "\<lambda>_. Inr cm" "''old.csv''" "''new.csv''"] run cm
  show ?thesis by blast
qed

end
