(* ===== verification/Sse.thy ===== *)
theory Sse
  imports Rest_Prelude
begin

text \<open>
  \<open>src/web/src/sse.cc\<close>, class \<open>Sse\<close>: the messages of the bus that become server-sent events of one
  client, who watches one datacenter. The object is a record of the sets of assets it keeps and of
  the last state published for every alert rule; the handlers of an alert, an asset and a generic
  message return the text to send (empty for none) and the new object.

  The data base, the queries of the other agents and the tokens are parameters: a record \<open>env\<close>
  holds what they answer while one message is handled, and a run of the object takes a new one for
  every message. A \<open>fty_proto_t\<close> is a record; its auxiliary hash is an association list.
\<close>

record fty_proto =
  proto_name :: string
  operation :: string
  aux :: "(string \<times> string) list"
  rule :: string
  proto_state :: string
  severity :: string

definition aux_string :: "fty_proto \<Rightarrow> string \<Rightarrow> string \<Rightarrow> string" where
  "aux_string a key dflt = (case map_of (aux a) key of Some v \<Rightarrow> v | None \<Rightarrow> dflt)"

record AlertState =
  m_state :: string
  m_severity :: string

record Sse =
  token :: string
  datacenter :: string
  datacenter_id :: nat
  assetsOfDatacenter :: "(string \<times> int) list"
  assetsWithNoLocation :: "(string \<times> int) list"
  alertStates :: "(string \<times> AlertState) list"

definition Sse_new :: Sse where
  "Sse_new = \<lparr> token = [], datacenter = [], datacenter_id = 0, assetsOfDatacenter = [],
               assetsWithNoLocation = [], alertStates = [] \<rparr>"

datatype query = Throws string | Returns int "string list" \<comment> \<open>the result and the names of the rows visited\<close>

record env =
  getJsonAlert :: "fty_proto \<Rightarrow> string"
  getJsonAsset :: "int \<Rightarrow> string"
  name_to_asset_id :: "string \<Rightarrow> int"
  verify_token :: "string \<Rightarrow> int option" \<comment> \<open>the time left, \<open>None\<close> for the anonymous profile\<close>
  select_byId :: "nat \<Rightarrow> string + string" \<comment> \<open>the message of a failure or the name of the element\<close>
  select_by_container :: "nat \<Rightarrow> query"
  select_without_container :: query

datatype load_msg = Ok | Db_message string | Translate string | Jsonify string

subsection \<open>The set of assets of the datacenter\<close>

definition emplace_all :: "string list \<Rightarrow> (string \<times> int) list \<Rightarrow> (string \<times> int) list" where
  "emplace_all names m = fold (\<lambda>name. map_emplace name 5) names m"

definition loadAssetFromDatacenter :: "env \<Rightarrow> Sse \<Rightarrow> load_msg \<times> Sse" where
  "loadAssetFromDatacenter E s =
     (case select_byId E (datacenter_id s) of
        Inl m \<Rightarrow> (Db_message m, s)
      | Inr name \<Rightarrow>
          (case select_by_container E (datacenter_id s) of
             Throws what \<Rightarrow> (Jsonify what, s)
           | Returns rv names \<Rightarrow>
               let assets = emplace_all names (map_emplace name 5 [])
               in if rv \<noteq> 0 then (Translate ''DBAssets::select_assets_by_container () failed.'', s)
                  else
                    let s = s\<lparr> assetsOfDatacenter := assets \<rparr>
                    in (case select_without_container E of
                          Throws what \<Rightarrow> (Jsonify what, s)
                        | Returns rv names \<Rightarrow>
                            if rv \<noteq> 0 then (Translate ''DBAssets::select_assets_by_container () failed.'', s)
                            else (Ok, s\<lparr> assetsWithNoLocation := emplace_all names [] \<rparr>))))"

definition checkTokenValidity :: "env \<Rightarrow> Sse \<Rightarrow> int" where
  "checkTokenValidity E s = (case verify_token E (token s) of None \<Rightarrow> - 1 | Some tme \<Rightarrow> tme)"

definition parent_key :: "nat \<Rightarrow> string" where
  "parent_key i = ''parent_name.'' @ to_string i"

lemma parent_key_inj: "parent_key i = parent_key j \<longleftrightarrow> i = j"
  by (simp add: parent_key_def)

text \<open>
  The loop of \<open>isAssetInDatacenter\<close>, from index \<open>i\<close> on. It ends because the hash of a message is
  finite.
\<close>

function parent_loop :: "fty_proto \<Rightarrow> string \<Rightarrow> nat \<Rightarrow> bool" where
  "parent_loop asset dc i =
     (let parentName = aux_string asset (parent_key i) ''not found'';
          found = (parentName = dc)
      in if \<not> found \<and> parentName \<noteq> ''not found'' then parent_loop asset dc (i + 1) else found)"
  by pat_completeness auto
termination
proof (relation "measure (\<lambda>(asset, dc, i). card {k \<in> fst ` set (aux asset). \<exists>j \<ge> i. k = parent_key j})")
  fix asset :: fty_proto and dc i x xa
  assume x: "x = aux_string asset (parent_key i) ''not found''" and "\<not> xa \<and> x \<noteq> ''not found''"
  let ?S = "\<lambda>i. {k \<in> fst ` set (aux asset). \<exists>j \<ge> i. k = parent_key j}"
  from x \<open>\<not> xa \<and> x \<noteq> ''not found''\<close> have "map_of (aux asset) (parent_key i) \<noteq> None"
    by (auto simp: aux_string_def split: option.splits)
  then have "parent_key i \<in> ?S i" by (auto simp: map_of_eq_None_iff)
  moreover have "parent_key i \<notin> ?S (i + 1)" by (auto simp: parent_key_inj)
  moreover have "?S (i + 1) \<subseteq> ?S i"
  proof
    fix k assume "k \<in> ?S (i + 1)"
    then obtain j where "k \<in> fst ` set (aux asset)" "i + 1 \<le> j" "k = parent_key j" by blast
    moreover from this have "i \<le> j" by simp
    ultimately show "k \<in> ?S i" by blast
  qed
  ultimately have "?S (i + 1) \<subset> ?S i" by blast
  then have "card (?S (i + 1)) < card (?S i)" by (intro psubset_card_mono) simp_all
  then show "((asset, dc, i + 1), asset, dc, i)
      \<in> measure (\<lambda>(asset, dc, i). card {k \<in> fst ` set (aux asset). \<exists>j \<ge> i. k = parent_key j})"
    by simp
qed simp

declare parent_loop.simps [simp del]

definition isAssetInDatacenter :: "Sse \<Rightarrow> fty_proto \<Rightarrow> bool" where
  "isAssetInDatacenter s asset = parent_loop asset (datacenter s) 1"

subsection \<open>Frames\<close>

definition quot :: string where
  "quot = [CHR 0x22]"

definition frame :: "string \<Rightarrow> string \<Rightarrow> string" where
  \<comment> \<open>\<open>data:{"topic":"TOPIC","payload":PAYLOAD}\<close> and two line feeds\<close>
  "frame topic payload =
     ''data:{'' @ quot @ ''topic'' @ quot @ '':'' @ quot @ topic @ quot @ '','' @ quot @ ''payload'' @ quot
     @ '':'' @ payload @ ''}'' @ [CHR 0x0A, CHR 0x0A]"

definition shouldPublishAlert :: "fty_proto \<Rightarrow> Sse \<Rightarrow> bool \<times> Sse" where
  "shouldPublishAlert alert s =
     (let alertRule = rule alert;
          alertState = \<lparr> m_state = proto_state alert, m_severity = severity alert \<rparr>
      in case map_of (alertStates s) alertRule of
           Some old \<Rightarrow>
             if old = alertState then (False, s)
             else (True, s\<lparr> alertStates := map_put alertRule alertState (alertStates s) \<rparr>)
         | None \<Rightarrow> (True, s\<lparr> alertStates := map_emplace alertRule alertState (alertStates s) \<rparr>))"

definition changeFtyProtoAlert2Json :: "env \<Rightarrow> fty_proto \<Rightarrow> Sse \<Rightarrow> string \<times> Sse" where
  "changeFtyProtoAlert2Json E alert s =
     (if map_of (assetsOfDatacenter s) (proto_name alert) = None then ('''', s)
      else
        let jsonPayload = getJsonAlert E alert
        in if jsonPayload \<noteq> ''''
           then case shouldPublishAlert alert s of
                  (False, s) \<Rightarrow> ('''', s)
                | (True, s) \<Rightarrow> (frame (''alarm/'' @ rule alert) jsonPayload, s)
           else ('''', s))"

text \<open>
  The asset handler. \<open>asset_tail\<close> is what follows the bookkeeping of an update, inventory or create
  message: the identifier is looked up and, unless a frame is already there, the asset is fetched.
\<close>

definition asset_tail :: "env \<Rightarrow> string \<Rightarrow> string \<Rightarrow> Sse \<Rightarrow> string \<times> Sse" where
  "asset_tail E nameElement json s =
     (let elemId = name_to_asset_id E nameElement
      in if elemId = - 1 then (json, s)
         else
           let jsonPayload = (if json = '''' then getJsonAsset E elemId else '''')
           in (if jsonPayload \<noteq> '''' then json @ frame (''asset/'' @ nameElement) jsonPayload else json, s))"

definition changeFtyProtoAsset2Json :: "env \<Rightarrow> fty_proto \<Rightarrow> Sse \<Rightarrow> string \<times> Sse" where
  "changeFtyProtoAsset2Json E asset s =
     (let nameElement = proto_name asset;
          in_dc = (map_of (assetsOfDatacenter s) nameElement \<noteq> None);
          in_no_loc = (map_of (assetsWithNoLocation s) nameElement \<noteq> None)
      in if operation asset = ''delete''
         then if \<not> in_dc
              then if in_no_loc
                   then (frame (''asset/'' @ nameElement) ''{}'',
                         s\<lparr> assetsWithNoLocation := map_erase nameElement (assetsWithNoLocation s) \<rparr>)
                   else ('''', s)
              else (frame (''asset/'' @ nameElement) ''{}'',
                    s\<lparr> assetsOfDatacenter := map_erase nameElement (assetsOfDatacenter s) \<rparr>)
         else if operation asset = ''update'' \<or> operation asset = ''inventory''
         then if \<not> in_dc
              then if in_no_loc
                   then let s = s\<lparr> assetsWithNoLocation := map_erase nameElement (assetsWithNoLocation s) \<rparr>
                        in if \<not> isAssetInDatacenter s asset
                           then asset_tail E nameElement (frame (''asset/'' @ nameElement) ''{}'') s
                           else asset_tail E nameElement ''''
                                  (s\<lparr> assetsOfDatacenter := map_emplace nameElement 5 (assetsOfDatacenter s) \<rparr>)
                   else ('''', s)
              else asset_tail E nameElement '''' s
         else if operation asset = ''create''
         then if aux_string asset ''parent'' ''0'' = ''0''
              then let type = aux_string asset ''type'' ''none''
                   in if type = ''device'' \<or> type = ''none''
                      then asset_tail E nameElement ''''
                             (s\<lparr> assetsWithNoLocation := map_emplace nameElement 5 (assetsWithNoLocation s) \<rparr>)
                      else ('''', s)
              else if \<not> isAssetInDatacenter s asset then ('''', s)
              else asset_tail E nameElement ''''
                     (s\<lparr> assetsOfDatacenter := map_emplace nameElement 5 (assetsOfDatacenter s) \<rparr>)
         else ('''', s))"

fun pop_frame :: "string list \<Rightarrow> string \<times> string list" where
  "pop_frame [] = ('''', [])"
| "pop_frame (f # fs) = (f, fs)"

definition changeSseMessage2Json :: "string list option \<Rightarrow> Sse \<Rightarrow> string" where
  \<comment> \<open>the frames of the message, \<open>None\<close> for the null pointer\<close>
  "changeSseMessage2Json message s =
     (case message of
        None \<Rightarrow> ''''
      | Some fs \<Rightarrow>
          (case pop_frame fs of (topic, fs) \<Rightarrow>
           case pop_frame fs of (jsonPayload, fs) \<Rightarrow>
           case pop_frame fs of (assetID, fs) \<Rightarrow>
             if assetID \<noteq> '''' \<and> map_of (assetsOfDatacenter s) assetID = None then ''''
             else frame topic jsonPayload))"

subsection \<open>Which assets belong to the datacenter\<close>

lemma aux_not_found:
  "aux_string a k ''not found'' \<noteq> ''not found'' \<Longrightarrow> map_of (aux a) k = Some (aux_string a k ''not found'')"
  by (auto simp: aux_string_def split: option.splits)

lemma ex_ge_step:
  assumes "\<not> A i" and "B i"
  shows "(\<exists>k \<ge> i + 1. A k \<and> (\<forall>j. i + 1 \<le> j \<longrightarrow> j < k \<longrightarrow> B j)) \<longleftrightarrow>
         (\<exists>k \<ge> (i :: nat). A k \<and> (\<forall>j. i \<le> j \<longrightarrow> j < k \<longrightarrow> B j))" (is "?L \<longleftrightarrow> ?R")
proof
  assume ?L
  then obtain k where k: "i + 1 \<le> k" "A k" "\<And>j. i + 1 \<le> j \<Longrightarrow> j < k \<Longrightarrow> B j" by blast
  have "B j" if "i \<le> j" "j < k" for j using that k(3) [of j] assms(2) by (cases "j = i") auto
  with k show ?R by (intro exI [of _ k]) auto
next
  assume ?R
  then obtain k where k: "i \<le> k" "A k" "\<And>j. i \<le> j \<Longrightarrow> j < k \<Longrightarrow> B j" by blast
  with assms(1) have "i \<noteq> k" by auto
  with k show ?L by (intro exI [of _ k]) auto
qed

lemma parent_loop_iff:
  assumes "dc \<noteq> ''not found''"
  shows "parent_loop asset dc i \<longleftrightarrow>
    (\<exists>k \<ge> i. map_of (aux asset) (parent_key k) = Some dc \<and>
       (\<forall>j. i \<le> j \<longrightarrow> j < k \<longrightarrow> aux_string asset (parent_key j) ''not found'' \<noteq> ''not found''))"
  using assms
proof (induction asset dc i rule: parent_loop.induct)
  case (1 asset dc i)
  let ?p = "aux_string asset (parent_key i) ''not found''"
  show ?case
  proof (cases "?p = dc")
    case True
    then have "map_of (aux asset) (parent_key i) = Some dc"
      using "1.prems" aux_not_found [of asset "parent_key i"] by simp
    then show ?thesis using True by (subst parent_loop.simps) (auto simp: Let_def)
  next
    case False
    then have not_here: "map_of (aux asset) (parent_key i) \<noteq> Some dc" by (auto simp: aux_string_def)
    show ?thesis
    proof (cases "?p = ''not found''")
      case True
      then show ?thesis using False not_here
        by (subst parent_loop.simps) (auto simp: Let_def le_less)
    next
      case np: False
      have "parent_loop asset dc i = parent_loop asset dc (i + 1)"
        using False np by (subst parent_loop.simps) (simp add: Let_def)
      also have "\<dots> \<longleftrightarrow> (\<exists>k \<ge> i + 1. map_of (aux asset) (parent_key k) = Some dc \<and>
          (\<forall>j. i + 1 \<le> j \<longrightarrow> j < k \<longrightarrow> aux_string asset (parent_key j) ''not found'' \<noteq> ''not found''))"
        using "1.IH" [OF refl refl] False np "1.prems" by simp
      also have "\<dots> \<longleftrightarrow> (\<exists>k \<ge> i. map_of (aux asset) (parent_key k) = Some dc \<and>
          (\<forall>j. i \<le> j \<longrightarrow> j < k \<longrightarrow> aux_string asset (parent_key j) ''not found'' \<noteq> ''not found''))"
        by (rule ex_ge_step) (use not_here np in simp_all)
      finally show ?thesis .
    qed
  qed
qed

text \<open>The search through the parents always ends, and an asset belongs to the datacenter exactly
  when the datacenter is one of the \<open>parent_name.1\<close>, \<open>parent_name.2\<close>, ... of the message before the
  first number that is missing (the datacenter not being named "not found").\<close>

theorem in_datacenter_iff_listed_parent:
  assumes "datacenter s \<noteq> ''not found''"
  shows "isAssetInDatacenter s asset \<longleftrightarrow>
    (\<exists>k \<ge> 1. map_of (aux asset) (parent_key k) = Some (datacenter s) \<and>
       (\<forall>j. 1 \<le> j \<longrightarrow> j < k \<longrightarrow> aux_string asset (parent_key j) ''not found'' \<noteq> ''not found''))"
  unfolding isAssetInDatacenter_def using assms by (rule parent_loop_iff)

definition sample_asset :: "string \<Rightarrow> fty_proto" where
  "sample_asset op =
     \<lparr> proto_name = ''rack-1'', operation = op, aux = [(''parent_name.1'', ''room-1''), (''parent_name.2'', ''dc-1'')],
       rule = '''', proto_state = '''', severity = '''' \<rparr>"

theorem in_datacenter_iff_listed_parent_witness:
  "\<exists>k \<ge> 1. map_of (aux (sample_asset ''update'')) (parent_key k) = Some ''dc-1''"
proof -
  have "isAssetInDatacenter (Sse_new\<lparr> datacenter := ''dc-1'' \<rparr>) (sample_asset ''update'')"
    unfolding isAssetInDatacenter_def by code_simp
  with in_datacenter_iff_listed_parent [of "Sse_new\<lparr> datacenter := ''dc-1'' \<rparr>" "sample_asset ''update''"]
  show ?thesis by (auto simp: Sse_new_def)
qed

subsection \<open>Runs\<close>

text \<open>
  The object as a state machine: one step per message, with whatever the environment answers
  while it is handled, labelled by the message and the text sent.
\<close>

datatype event = Alert fty_proto | Asset fty_proto | Generic "string list option" | Load

inductive sse_step :: "Sse \<Rightarrow> event \<times> string \<Rightarrow> Sse \<Rightarrow> bool" where
  alert: "changeFtyProtoAlert2Json E a s = (out, s') \<Longrightarrow> sse_step s (Alert a, out) s'"
| asset: "changeFtyProtoAsset2Json E a s = (out, s') \<Longrightarrow> sse_step s (Asset a, out) s'"
| generic: "changeSseMessage2Json m s = out \<Longrightarrow> sse_step s (Generic m, out) s"
| load: "loadAssetFromDatacenter E s = (r, s') \<Longrightarrow> sse_step s (Load, '''') s'"

inductive_cases sse_stepE: "sse_step s l s'"
inductive_cases sse_alertE: "sse_step s (Alert a, out) s'"
inductive_cases sse_assetE: "sse_step s (Asset a, out) s'"

inductive sse_run :: "Sse \<Rightarrow> (event \<times> string) list \<Rightarrow> Sse \<Rightarrow> bool" where
  start: "sse_run s [] s"
| more: "sse_run s tr t \<Longrightarrow> sse_step t l u \<Longrightarrow> sse_run s (tr @ [l]) u"

text \<open>The alerts of one rule that were published, in order, as pairs of state and severity.\<close>

fun published :: "string \<Rightarrow> (event \<times> string) list \<Rightarrow> AlertState list" where
  "published r [] = []"
| "published r ((Alert a, out) # tr) =
     (if rule a = r \<and> out \<noteq> '''' then \<lparr> m_state = proto_state a, m_severity = severity a \<rparr> # published r tr
      else published r tr)"
| "published r (_ # tr) = published r tr"

lemma published_append: "published r (xs @ ys) = published r xs @ published r ys"
  by (induction r xs rule: published.induct) auto

lemma frame_not_Nil [simp]: "frame t p \<noteq> ''''"
  by (simp add: frame_def)

lemma asset_tail_state [simp]: "snd (asset_tail E n j s) = s"
  by (simp add: asset_tail_def Let_def)

lemma asset_alertStates:
  "alertStates (snd (changeFtyProtoAsset2Json E a s)) = alertStates s"
  by (simp add: changeFtyProtoAsset2Json_def Let_def)

lemma load_alertStates: "alertStates (snd (loadAssetFromDatacenter E s)) = alertStates s"
  by (simp add: loadAssetFromDatacenter_def Let_def split: sum.splits query.splits)

definition alert_inv :: "(event \<times> string) list \<Rightarrow> Sse \<Rightarrow> bool" where
  \<comment> \<open>the object remembers for every rule the alert published last\<close>
  "alert_inv tr s \<longleftrightarrow> smap (alertStates s) \<and>
     (\<forall>r. distinct_adj (published r tr) \<and>
        map_of (alertStates s) r = (if published r tr = [] then None else Some (last (published r tr))))"

lemma alert_step:
  assumes "alert_inv tr s" and "changeFtyProtoAlert2Json E a s = (out, s')"
  shows "alert_inv (tr @ [(Alert a, out)]) s'"
proof -
  define st where "st = \<lparr> m_state = proto_state a, m_severity = severity a \<rparr>"
  have sm: "smap (alertStates s)" using assms(1) by (simp add: alert_inv_def)
  have inv: "distinct_adj (published r tr)"
    "map_of (alertStates s) r = (if published r tr = [] then None else Some (last (published r tr)))" for r
    using assms(1) by (auto simp: alert_inv_def)
  have "out = '''' \<and> s' = s \<or>
      out \<noteq> '''' \<and> map_of (alertStates s) (rule a) \<noteq> Some st \<and> smap (alertStates s') \<and>
      map_of (alertStates s') = (map_of (alertStates s))(rule a \<mapsto> st)"
  proof (cases "map_of (assetsOfDatacenter s) (proto_name a) = None \<or> getJsonAlert E a = ''''")
    case True
    then have "changeFtyProtoAlert2Json E a s = ('''', s)" by (auto simp: changeFtyProtoAlert2Json_def)
    then show ?thesis using assms(2) by simp
  next
    case go: False
    show ?thesis
    proof (cases "map_of (alertStates s) (rule a)")
      case None
      with go have "changeFtyProtoAlert2Json E a s = (frame (''alarm/'' @ rule a) (getJsonAlert E a),
          s\<lparr> alertStates := map_emplace (rule a) st (alertStates s) \<rparr>)"
        by (auto simp: changeFtyProtoAlert2Json_def shouldPublishAlert_def Let_def st_def)
      then have "s' = s\<lparr> alertStates := map_emplace (rule a) st (alertStates s) \<rparr>" "out \<noteq> ''''"
        using assms(2) by auto
      with None sm show ?thesis by simp
    next
      case (Some old)
      show ?thesis
      proof (cases "old = st")
        case True
        with go Some have "changeFtyProtoAlert2Json E a s = ('''', s)"
          by (auto simp: changeFtyProtoAlert2Json_def shouldPublishAlert_def Let_def st_def)
        then show ?thesis using assms(2) by simp
      next
        case False
        with go Some have "changeFtyProtoAlert2Json E a s = (frame (''alarm/'' @ rule a) (getJsonAlert E a),
            s\<lparr> alertStates := map_put (rule a) st (alertStates s) \<rparr>)"
          by (auto simp: changeFtyProtoAlert2Json_def shouldPublishAlert_def Let_def st_def)
        then have "s' = s\<lparr> alertStates := map_put (rule a) st (alertStates s) \<rparr>" "out \<noteq> ''''"
          using assms(2) by auto
        with Some False sm show ?thesis by simp
      qed
    qed
  qed
  then consider "out = ''''" "s' = s"
    | "out \<noteq> ''''" "map_of (alertStates s) (rule a) \<noteq> Some st" "smap (alertStates s')"
      "map_of (alertStates s') = (map_of (alertStates s))(rule a \<mapsto> st)"
    by blast
  then show ?thesis
  proof cases
    case 1
    then show ?thesis using assms(1) by (simp add: alert_inv_def published_append)
  next
    case 2
    have "published r (tr @ [(Alert a, out)]) = published r tr @ (if r = rule a then [st] else [])" for r
      using 2(1) by (simp add: published_append st_def)
    moreover have "distinct_adj (published (rule a) tr @ [st])"
      using inv [of "rule a"] 2(2) by (auto simp: distinct_adj_append_iff split: if_splits)
    ultimately show ?thesis using 2(3,4) inv by (simp add: alert_inv_def)
  qed
qed

lemma run_alert_inv: "sse_run s tr t \<Longrightarrow> alertStates s = [] \<Longrightarrow> alert_inv tr t"
proof (induction rule: sse_run.induct)
  case (start s)
  then show ?case by (simp add: alert_inv_def)
next
  case (more s tr t l u)
  then have inv: "alert_inv tr t" by simp
  from more.hyps(2) show ?case
  proof (cases rule: sse_step.cases)
    case (alert E a out)
    then show ?thesis using alert_step [OF inv] by simp
  next
    case (asset E a out)
    then have "alertStates u = alertStates t" using asset_alertStates [of E a t] by simp
    with asset inv show ?thesis by (simp add: alert_inv_def published_append)
  next
    case (generic m out)
    with inv show ?thesis by (simp add: alert_inv_def published_append)
  next
    case (load E r)
    then have "alertStates u = alertStates t" using load_alertStates [of E t] by simp
    with load inv show ?thesis by (simp add: alert_inv_def published_append)
  qed
qed

text \<open>C24. In every run of the object, with alerts, assets, generic messages and reloads in any order,
  no alert rule is published twice in a row with the same state and severity, and the object
  remembers for every rule exactly what it published last.\<close>

theorem alerts_published_on_change_only:
  assumes "sse_run s tr t" and "alertStates s = []"
  shows "distinct_adj (published r tr) \<and>
         map_of (alertStates t) r = (if published r tr = [] then None else Some (last (published r tr)))"
  using run_alert_inv [OF assms] by (simp add: alert_inv_def)

definition sample_alert :: "string \<Rightarrow> fty_proto" where
  "sample_alert st =
     \<lparr> proto_name = ''rack-1'', operation = '''', aux = [], rule = ''temperature@rack-1'',
       proto_state = st, severity = ''WARNING'' \<rparr>"

definition sample_env :: env where
  "sample_env =
     \<lparr> getJsonAlert = (\<lambda>a. ''{}''), getJsonAsset = (\<lambda>i. ''{1}''), name_to_asset_id = (\<lambda>n. 7),
       verify_token = (\<lambda>t. None), select_byId = (\<lambda>i. Inr ''dc-1''),
       select_by_container = (\<lambda>i. Returns 0 [''rack-1'']), select_without_container = Returns 0 [''ups-9''] \<rparr>"

definition sample_sse :: Sse where
  "sample_sse = snd (loadAssetFromDatacenter sample_env (Sse_new\<lparr> datacenter := ''dc-1'' \<rparr>))"

theorem alerts_published_on_change_only_witness:
  "\<exists>out t. sse_run sample_sse [(Alert (sample_alert ''ACTIVE''), out), (Alert (sample_alert ''ACTIVE''), '''')] t \<and>
     distinct_adj (published ''temperature@rack-1''
       [(Alert (sample_alert ''ACTIVE''), out), (Alert (sample_alert ''ACTIVE''), '''')])"
proof -
  obtain out t where 1: "changeFtyProtoAlert2Json sample_env (sample_alert ''ACTIVE'') sample_sse = (out, t)"
    by force
  have "fst (changeFtyProtoAlert2Json sample_env (sample_alert ''ACTIVE'')
      (snd (changeFtyProtoAlert2Json sample_env (sample_alert ''ACTIVE'') sample_sse))) = ''''" by code_simp
  then obtain u where 2: "changeFtyProtoAlert2Json sample_env (sample_alert ''ACTIVE'') t = ('''', u)"
    using 1 by (metis fst_conv snd_conv surj_pair)
  have run: "sse_run sample_sse ([] @ [(Alert (sample_alert ''ACTIVE''), out)] @ [(Alert (sample_alert ''ACTIVE''), '''')]) u"
    unfolding append_assoc [symmetric]
    by (intro sse_run.intros) (use 1 2 in \<open>auto intro: sse_step.alert sse_run.start\<close>)
  have "alertStates sample_sse = []" by code_simp
  with run alerts_published_on_change_only [of sample_sse _ u "''temperature@rack-1''"] show ?thesis by auto
qed

subsection \<open>The two lists of assets\<close>

definition lists_ok :: "Sse \<Rightarrow> bool" where
  \<comment> \<open>both maps are ordered and no asset is in both\<close>
  "lists_ok s \<longleftrightarrow> smap (assetsOfDatacenter s) \<and> smap (assetsWithNoLocation s) \<and>
     (\<forall>n. map_of (assetsOfDatacenter s) n = None \<or> map_of (assetsWithNoLocation s) n = None)"

definition known :: "Sse \<Rightarrow> string \<Rightarrow> bool" where
  "known s n \<longleftrightarrow> n \<in> dom (map_of (assetsOfDatacenter s)) \<union> dom (map_of (assetsWithNoLocation s))"

lemma known_Inr: "known s n \<longleftrightarrow> map_of (assetsOfDatacenter s) n \<noteq> None \<or> map_of (assetsWithNoLocation s) n \<noteq> None"
  by (auto simp: known_def)

lemma asset_delete:
  "operation a = ''delete'' \<Longrightarrow> proto_name a = n \<Longrightarrow>
   changeFtyProtoAsset2Json E a s =
     (if map_of (assetsOfDatacenter s) n \<noteq> None
      then (frame (''asset/'' @ n) ''{}'', s\<lparr> assetsOfDatacenter := map_erase n (assetsOfDatacenter s) \<rparr>)
      else if map_of (assetsWithNoLocation s) n \<noteq> None
      then (frame (''asset/'' @ n) ''{}'', s\<lparr> assetsWithNoLocation := map_erase n (assetsWithNoLocation s) \<rparr>)
      else ('''', s))"
  by (simp add: changeFtyProtoAsset2Json_def Let_def)

text \<open>What an asset message does to the lists.\<close>

definition moves :: "bool \<Rightarrow> string \<Rightarrow> Sse \<Rightarrow> Sse \<Rightarrow> bool" where
  \<comment> \<open>the name was taken out of a list, or put in one, or moved to the list of the datacenter;
        only a create message puts an asset in a list\<close>
  "moves create n s s' \<longleftrightarrow>
     s' = s \<and> known s n
   \<or> s' = s\<lparr> assetsOfDatacenter := map_erase n (assetsOfDatacenter s) \<rparr> \<and> map_of (assetsOfDatacenter s) n \<noteq> None
   \<or> s' = s\<lparr> assetsWithNoLocation := map_erase n (assetsWithNoLocation s) \<rparr> \<and> map_of (assetsWithNoLocation s) n \<noteq> None
   \<or> s' = s\<lparr> assetsWithNoLocation := map_erase n (assetsWithNoLocation s),
             assetsOfDatacenter := map_emplace n 5 (assetsOfDatacenter s) \<rparr> \<and> map_of (assetsOfDatacenter s) n = None
   \<or> create \<and> s' = s\<lparr> assetsWithNoLocation := map_emplace n 5 (assetsWithNoLocation s) \<rparr>
   \<or> create \<and> s' = s\<lparr> assetsOfDatacenter := map_emplace n 5 (assetsOfDatacenter s) \<rparr>"

lemma asset_moves:
  assumes "changeFtyProtoAsset2Json E a s = (out, s')"
  shows "out = '''' \<and> s' = s \<or> moves (operation a = ''create'') (proto_name a) s s'"
proof -
  have s': "s' = snd (changeFtyProtoAsset2Json E a s)" and out: "out = fst (changeFtyProtoAsset2Json E a s)"
    using assms by auto
  consider "operation a = ''delete''" | "operation a = ''update'' \<or> operation a = ''inventory''"
    | "operation a = ''create''" | "operation a \<notin> {''delete'', ''update'', ''inventory'', ''create''}" by auto
  then show ?thesis
  proof cases
    case 1
    then show ?thesis unfolding s' out asset_delete [OF 1 refl] by (auto simp: moves_def)
  next
    case 2
    then have no: "operation a \<noteq> ''delete''" by auto
    show ?thesis
      unfolding s' out changeFtyProtoAsset2Json_def Let_def moves_def known_Inr
      by (simp only: 2 no if_True if_False) (simp split: if_split)
  next
    case 3
    show ?thesis
      unfolding s' out changeFtyProtoAsset2Json_def Let_def moves_def
      by (simp add: 3)
  next
    case 4
    then show ?thesis unfolding s' out changeFtyProtoAsset2Json_def Let_def by simp
  qed
qed

lemma moves_known_other: "lists_ok s \<Longrightarrow> moves c n s s' \<Longrightarrow> m \<noteq> n \<Longrightarrow> known s' m = known s m"
  by (auto simp: moves_def known_Inr lists_ok_def split: option.splits)

lemma moves_known: "lists_ok s \<Longrightarrow> moves c n s s' \<Longrightarrow> known s n \<or> known s' n"
  by (auto simp: moves_def known_Inr lists_ok_def split: option.splits)

lemma moves_lists_ok:
  "lists_ok s \<Longrightarrow> moves c n s s' \<Longrightarrow> (c \<Longrightarrow> \<not> known s n) \<Longrightarrow> lists_ok s'"
  unfolding moves_def known_Inr lists_ok_def
  by (elim disjE conjE) (auto split: option.splits)

text \<open>An asset message changes the lists for the asset it names only, keeps the two lists disjoint
  (a create message naming a new asset), and sends something only about an asset that is in one of
  the lists before or after. A delete message takes the asset out and sends a frame exactly when
  the asset was in a list, so a repeated delete message is silent.\<close>

theorem asset_message_effect:
  assumes "changeFtyProtoAsset2Json E a s = (out, s')" and "lists_ok s"
    and "operation a = ''create'' \<longrightarrow> \<not> known s (proto_name a)"
  shows "lists_ok s' \<and>
         (\<forall>m. m \<noteq> proto_name a \<longrightarrow> known s' m = known s m) \<and>
         (out \<noteq> '''' \<longrightarrow> known s (proto_name a) \<or> known s' (proto_name a)) \<and>
         (operation a = ''delete'' \<longrightarrow>
            \<not> known s' (proto_name a) \<and> (out \<noteq> '''' \<longleftrightarrow> known s (proto_name a)) \<and>
            changeFtyProtoAsset2Json E a s' = ('''', s'))"
proof -
  have del: "\<not> known s' (proto_name a) \<and> (out \<noteq> '''' \<longleftrightarrow> known s (proto_name a))"
    if "operation a = ''delete''"
  proof -
    have "map_of (assetsOfDatacenter s) (proto_name a) = None \<or> map_of (assetsWithNoLocation s) (proto_name a) = None"
      using assms(2) by (simp add: lists_ok_def)
    then show ?thesis
      using assms(1) unfolding asset_delete [OF that refl] by (auto simp: known_Inr split: if_splits)
  qed
  moreover have "changeFtyProtoAsset2Json E a s' = ('''', s')" if "operation a = ''delete''"
    using del [OF that] unfolding asset_delete [OF that refl] by (simp add: known_Inr)
  moreover have "lists_ok s'" and "\<forall>m. m \<noteq> proto_name a \<longrightarrow> known s' m = known s m"
    and "out \<noteq> '''' \<longrightarrow> known s (proto_name a) \<or> known s' (proto_name a)"
    using asset_moves [OF assms(1)]
  proof (atomize (full), elim disjE conjE)
    assume "moves (operation a = ''create'') (proto_name a) s s'"
    note m = moves_lists_ok [OF assms(2) this] moves_known_other [OF assms(2) this] moves_known [OF assms(2) this]
    show "lists_ok s' \<and> (\<forall>m. m \<noteq> proto_name a \<longrightarrow> known s' m = known s m) \<and>
        (out \<noteq> '''' \<longrightarrow> known s (proto_name a) \<or> known s' (proto_name a))"
      using m assms(3) by blast
  qed (use assms(2) in simp)
  ultimately show ?thesis by blast
qed

theorem asset_message_effect_witness:
  "\<not> known (snd (changeFtyProtoAsset2Json sample_env (sample_asset ''delete'') sample_sse)) ''rack-1''"
proof -
  have "assetsOfDatacenter sample_sse = [(''dc-1'', 5), (''rack-1'', 5)]"
    and "assetsWithNoLocation sample_sse = [(''ups-9'', 5)]"
    and "smap (assetsOfDatacenter sample_sse)" and "smap (assetsWithNoLocation sample_sse)"
    unfolding smap_def sset_def by code_simp+
  then have "lists_ok sample_sse" by (simp add: lists_ok_def)
  with asset_message_effect [of sample_env "sample_asset ''delete''" sample_sse
      "fst (changeFtyProtoAsset2Json sample_env (sample_asset ''delete'') sample_sse)"
      "snd (changeFtyProtoAsset2Json sample_env (sample_asset ''delete'') sample_sse)"]
  show ?thesis by (simp add: sample_asset_def)
qed

text \<open>After a successful load the lists are those of the data base.\<close>

lemma emplace_all_props:
  "smap m \<Longrightarrow> smap (emplace_all names m) \<and>
     dom (map_of (emplace_all names m)) = set names \<union> dom (map_of m)"
proof (induction names arbitrary: m)
  case (Cons x xs)
  then show ?case using Cons.IH [of "map_emplace x 5 m"]
    by (auto simp: emplace_all_def split: option.splits)
qed (simp add: emplace_all_def)

text \<open>Loading replaces the list of the datacenter by the datacenter itself and what the data base
  puts in it, and the other list by the devices without a container, when all three queries
  succeed; a failure of the first two leaves the object unchanged, a failure of the third leaves
  the new list of the datacenter with the old other list.\<close>

theorem load_asset_lists:
  assumes "loadAssetFromDatacenter E s = (r, s')"
  shows "(r = Ok \<longrightarrow>
            (\<exists>name xs ys. select_byId E (datacenter_id s) = Inr name \<and>
               select_by_container E (datacenter_id s) = Returns 0 xs \<and>
               select_without_container E = Returns 0 ys \<and>
               dom (map_of (assetsOfDatacenter s')) = insert name (set xs) \<and>
               dom (map_of (assetsWithNoLocation s')) = set ys)) \<and>
         (r \<noteq> Ok \<longrightarrow> assetsWithNoLocation s' = assetsWithNoLocation s \<and>
            (s' = s \<or> (\<exists>xs. select_by_container E (datacenter_id s) = Returns 0 xs)))"
proof -
  have d1: "dom (map_of (emplace_all xs (map_emplace n 5 []))) = insert n (set xs)" for xs n
    using emplace_all_props [of "map_emplace n 5 []" xs] by (simp add: map_emplace_def smap_Cons)
  have d2: "dom (map_of (emplace_all xs [])) = set xs" for xs
    using emplace_all_props [of "[]" xs] by simp
  show ?thesis
  proof (cases "\<exists>name xs ys. select_byId E (datacenter_id s) = Inr name \<and>
      select_by_container E (datacenter_id s) = Returns 0 xs \<and> select_without_container E = Returns 0 ys")
    case True
    then obtain name xs ys where q: "select_byId E (datacenter_id s) = Inr name"
      "select_by_container E (datacenter_id s) = Returns 0 xs" "select_without_container E = Returns 0 ys"
      by blast
    with assms have "r = Ok" "s' = s\<lparr> assetsOfDatacenter := emplace_all xs (map_emplace name 5 []),
        assetsWithNoLocation := emplace_all ys [] \<rparr>"
      by (auto simp: loadAssetFromDatacenter_def Let_def)
    with q show ?thesis by (simp add: d1 d2)
  next
    case False
    with assms have "r \<noteq> Ok"
      by (auto simp: loadAssetFromDatacenter_def Let_def split: sum.splits query.splits if_splits)
    moreover from assms False have "assetsWithNoLocation s' = assetsWithNoLocation s \<and>
        (s' = s \<or> (\<exists>xs. select_by_container E (datacenter_id s) = Returns 0 xs))"
      by (auto simp: loadAssetFromDatacenter_def Let_def split: sum.splits query.splits if_splits)
    ultimately show ?thesis by blast
  qed
qed

theorem load_asset_lists_witness:
  "dom (map_of (assetsOfDatacenter sample_sse)) = {''dc-1'', ''rack-1''}"
proof -
  have "fst (loadAssetFromDatacenter sample_env (Sse_new\<lparr> datacenter := ''dc-1'' \<rparr>)) = Ok"
    by code_simp
  with load_asset_lists [of sample_env "Sse_new\<lparr> datacenter := ''dc-1'' \<rparr>" Ok sample_sse]
  show ?thesis by (auto simp: sample_sse_def sample_env_def prod_eq_iff Sse_new_def)
qed

end
