(* ===== verification/AssetComputed.thy ===== *)
theory AssetComputed
  imports ExportCsv
begin

text \<open>
  \<open>src/web/src/asset_computed_impl.cc\<close>: the free height of a rack and the free outlets of its power
  distribution units. \<open>int\<close> is kept at 32 bits: a sum that leaves it is undefined. An exception of
  the data base is \<open>Thrown\<close>.
\<close>

record container_row = \<comment> \<open>a row of \<open>select_assets_by_container\<close>\<close>
  c_asset :: "nat option" \<comment> \<open>\<open>None\<close> for NULL, which leaves the variable at 0\<close>
  c_subtype :: "nat option"

record ('d, 'h) computed_db = "('d, 'h) export_db" +
  select_asset_ext_attribute_by_keytag :: "string \<Rightarrow> nat list \<Rightarrow> 'd \<Rightarrow> string + int \<times> string option list"
  select_assets_by_container :: "nat \<Rightarrow> 'd \<Rightarrow> string + int \<times> container_row list"
  count_of_link_src :: "nat \<Rightarrow> 'd \<Rightarrow> string + int"
  is_epdu :: "nat \<Rightarrow> bool"
  is_pdu :: "nat \<Rightarrow> bool"

datatype fault = Overflow | Thrown string

definition int32 :: "int \<Rightarrow> fault + int" where
  "int32 n = (if is_int32 n then Inr n else Inl Overflow)"

definition null_or :: "nat option \<Rightarrow> nat" where
  "null_or v = (case v of Some n \<Rightarrow> n | None \<Rightarrow> 0)"

subsection \<open>Queries with a callback\<close>

fun each_row :: "('r \<Rightarrow> ('s, fault, unit) prog) \<Rightarrow> 'r list \<Rightarrow> ('s, fault, unit) prog" where
  "each_row callback [] s = (Inr (), s)"
| "each_row callback (r # rs) s =
     (case callback r s of (Inl e, s') \<Rightarrow> (Inl e, s') | (Inr _, s') \<Rightarrow> each_row callback rs s')"

definition for_rows ::
  "bool \<Rightarrow> string + int \<times> 'r list \<Rightarrow> ('r \<Rightarrow> ('s, fault, unit) prog) \<Rightarrow> ('s, fault, int) prog" where
  \<comment> \<open>the first argument is whether the query catches what its callback throws\<close>
  "for_rows catches q callback s =
     (case q of
        Inl w \<Rightarrow> (Inl (Thrown w), s)
      | Inr (rv, rs) \<Rightarrow> (case each_row callback rs s of
            (Inr _, s') \<Rightarrow> (Inr rv, s')
          | (Inl (Thrown w), s') \<Rightarrow> ((if catches then Inr (- 1) else Inl (Thrown w)), s')
          | (Inl Overflow, s') \<Rightarrow> (Inl Overflow, s')))"

subsection \<open>Free height\<close>

definition sumarize :: "string option \<Rightarrow> (int, fault, unit) prog" where
  "sumarize v height =
     (case v of
        None \<Rightarrow> (Inl (Thrown ''null value''), height)
      | Some s \<Rightarrow>
          (let tmp = fst (string_to_uint32 (Some (c_str s)))
           in if tmp \<noteq> UINT32_MAX
              then (case int32 (height + to_int32 tmp) of Inl e \<Rightarrow> (Inl e, height) | Inr n \<Rightarrow> (Inr (), n))
              else (Inr (), height)))"

definition s_get_devices_usize :: "('d, 'h) computed_db \<Rightarrow> nat list \<Rightarrow> 'd \<Rightarrow> fault + int" where
  \<comment> \<open>the elements are a set, in increasing order\<close>
  "s_get_devices_usize D elements d =
     (case for_rows (callback_errors_caught D) (select_asset_ext_attribute_by_keytag D ''u_size'' elements d) sumarize 0 of
        (Inl e, _) \<Rightarrow> Inl e
      | (Inr rv, height) \<Rightarrow> Inr (if rv \<noteq> 0 then rv else height))"

definition container_ids :: "container_row list \<Rightarrow> nat list" where
  "container_ids rs = fold (\<lambda>r. set_insert (null_or (c_asset r))) rs []"

definition free_u_size_body :: "('d, 'h) computed_db \<Rightarrow> nat \<Rightarrow> 'd \<Rightarrow> fault + int" where
  "free_u_size_body D elementId d =
     bindE (s_get_devices_usize D [elementId] d) (\<lambda>freeusize.
     if freeusize = 0 then Inr (- 1)
     else (case select_assets_by_container D elementId d of
             Inl w \<Rightarrow> Inl (Thrown w)
           | Inr (rv, rs) \<Rightarrow>
               if rv = - 1 then Inr (- 1)
               else bindE (s_get_devices_usize D (container_ids rs) d) (\<lambda>freeusize2.
                      if freeusize2 = 0 then Inr (- 1)
                      else int32 (freeusize - (if container_ids rs = [] then 0 else freeusize2)))))"

definition free_u_size :: "('d, 'h) computed_db \<Rightarrow> nat \<Rightarrow> 'd \<Rightarrow> int option" where
  \<comment> \<open>\<open>None\<close>: an addition overflows\<close>
  "free_u_size D elementId d =
     (if connect_error D \<noteq> None then Some (- 1)
      else case free_u_size_body D elementId d of
             Inr n \<Rightarrow> Some n | Inl (Thrown _) \<Rightarrow> Some (- 1) | Inl Overflow \<Rightarrow> None)"

subsection \<open>Free outlets\<close>

definition outlet_digits :: "string \<Rightarrow> string" where
  \<comment> \<open>the attribute without its first dot and what follows\<close>
  "outlet_digits s = takeWhile (\<lambda>c. c \<noteq> CHR ''.'') (c_str s)"

definition s_select_outlet_count :: "('d, 'h) computed_db \<Rightarrow> nat \<Rightarrow> 'd \<Rightarrow> string + int" where
  "s_select_outlet_count D i d =
     bindE (ext_attributes_map D i d) (\<lambda>(rv, res).
       Inr (if rv \<noteq> 0 then UINT32_MAX
            else case map_of res ''outlet.count'' of
                   None \<Rightarrow> UINT32_MAX
                 | Some (v, _) \<Rightarrow>
                     if length (outlet_digits v) > 5 then UINT32_MAX
                     else fst (string_to_uint32 (Some (outlet_digits v)))))"

record outlet_sum =
  osum :: int
  tainted :: bool
  counts :: "(string \<times> int) list"

definition count_outlets :: "nat \<Rightarrow> int \<Rightarrow> (outlet_sum, fault, unit) prog" where
  \<comment> \<open>the end of the callback: the outlets of a device enter the result\<close>
  "count_outlets i outlet_count s =
     (if outlet_count \<ge> 0
      then (case int32 (osum s + outlet_count) of
              Inl e \<Rightarrow> (Inl e, s)
            | Inr n \<Rightarrow> (Inr (), s\<lparr> osum := n, counts := map_put (to_string i) outlet_count (counts s) \<rparr>))
      else (Inr (), s\<lparr> tainted := True, counts := map_put (to_string i) outlet_count (counts s) \<rparr>))"

definition outlets_callback :: "('d, 'h) computed_db \<Rightarrow> 'd \<Rightarrow> container_row \<Rightarrow> (outlet_sum, fault, unit) prog" where
  "outlets_callback D d row s =
     (let i = null_or (c_asset row); t = null_or (c_subtype row) in
      if \<not> is_epdu D t \<and> \<not> is_pdu D t then (Inr (), s)
      else case s_select_outlet_count D i d of
             Inl w \<Rightarrow> (Inl (Thrown w), s)
           | Inr foo \<Rightarrow>
               let outlet_count = (if foo \<noteq> UINT32_MAX then to_int32 foo else - 1) in
               (case count_of_link_src D i d of
                  Inl w \<Rightarrow> (Inl (Thrown w), s)
                | Inr outlet_used \<Rightarrow>
                    (case (if outlet_used = - 1 then Inr (- 1) else int32 (outlet_count - outlet_used)) of
                       Inl e \<Rightarrow> (Inl e, s)
                     | Inr n \<Rightarrow> count_outlets i n s)))"

definition rack_outlets_available ::
  "('d, 'h) computed_db \<Rightarrow> nat \<Rightarrow> 'd \<Rightarrow> (string \<times> int) list \<Rightarrow> (int \<times> (string \<times> int) list) option" where
  \<comment> \<open>the result, and the map; \<open>None\<close>: an addition overflows\<close>
  "rack_outlets_available D elementId d res =
     (let s0 = \<lparr> osum = - 1, tainted = False, counts = map_put ''sum'' (- 1) res \<rparr> in
      if connect_error D \<noteq> None then Some (- 1, counts s0)
      else case for_rows (callback_errors_caught D) (select_assets_by_container D elementId d)
                  (outlets_callback D d) s0 of
             (Inl Overflow, _) \<Rightarrow> None
           | (Inl (Thrown _), s) \<Rightarrow> Some (- 1, counts s)
           | (Inr rv, s) \<Rightarrow>
               if tainted s then Some (rv, counts s)
               else (case int32 (osum s + 1) of
                       Inl _ \<Rightarrow> None | Inr n \<Rightarrow> Some (rv, map_put ''sum'' n (counts s))))"

subsection \<open>Free height of a rack\<close>

lemma sumarize_number:
  assumes "int n \<le> INT32_MAX" and "0 \<le> h" and "h + int n \<le> INT32_MAX"
  shows "sumarize (Some (to_string n)) h = (Inr (), h + int n)"
proof -
  have u: "to_int32 (int n) = int n" "int n \<noteq> UINT32_MAX" "int n \<le> UINT64_MAX" "is_int32 (h + int n)"
    using assms by (auto simp: int_limits is_int32_def to_int32_id)
  have "to_uint32 (int n) = int n"
    unfolding to_uint32_def using assms(1) by (intro take_bit_int_eq_self) (auto simp: int_limits)
  note u = u this
  show ?thesis by (simp add: sumarize_def string_to_uint32_decimal u int32_def)
qed

lemma each_row_sumarize:
  assumes "0 \<le> h" and "h + int (sum_list hs) \<le> INT32_MAX"
  shows "each_row sumarize (map (\<lambda>n. Some (to_string n)) hs) h = (Inr (), h + int (sum_list hs))"
  using assms by (induction hs arbitrary: h) (auto simp: sumarize_number)

lemma usize_numbers:
  assumes "select_asset_ext_attribute_by_keytag D ''u_size'' els d = Inr (rv, map (\<lambda>n. Some (to_string n)) hs)"
    and "int (sum_list hs) \<le> INT32_MAX"
  shows "s_get_devices_usize D els d = Inr (if rv \<noteq> 0 then rv else int (sum_list hs))"
  using assms each_row_sumarize [of 0 hs] by (simp add: s_get_devices_usize_def for_rows_def)

subsection \<open>Free outlets of a rack\<close>

definition outlets_left :: "('d, 'h) computed_db \<Rightarrow> 'd \<Rightarrow> nat \<Rightarrow> int" where
  \<comment> \<open>the outlets of a device not in use, negative when they are not known\<close>
  "outlets_left D d i =
     (case (s_select_outlet_count D i d, count_of_link_src D i d) of
        (Inr n, Inr u) \<Rightarrow> if u = - 1 then - 1 else (if n = UINT32_MAX then - 1 else to_int32 n) - u
      | _ \<Rightarrow> 0)"

definition power_strips :: "('d, 'h) computed_db \<Rightarrow> container_row list \<Rightarrow> nat list" where
  "power_strips D rs =
     map (\<lambda>r. null_or (c_asset r)) (filter (\<lambda>r. is_epdu D (null_or (c_subtype r)) \<or> is_pdu D (null_or (c_subtype r))) rs)"

definition add_outlets :: "nat \<Rightarrow> int \<Rightarrow> outlet_sum \<Rightarrow> outlet_sum" where
  "add_outlets i n s =
     (if n \<ge> 0 then s\<lparr> osum := osum s + n, counts := map_put (to_string i) n (counts s) \<rparr>
      else s\<lparr> tainted := True, counts := map_put (to_string i) n (counts s) \<rparr>)"

lemma int32_Inr [simp]: "int32 n = Inr m \<longleftrightarrow> is_int32 n \<and> m = n"
  by (auto simp: int32_def)

lemma count_outlets_Inr: "count_outlets i n s = (Inr (), s') \<Longrightarrow> s' = add_outlets i n s"
  by (auto simp: count_outlets_def add_outlets_def split: if_splits sum.splits)

lemma outlets_callback_Inr:
  assumes "outlets_callback D d row s = (Inr (), s')"
  shows "s' = fold (\<lambda>i. add_outlets i (outlets_left D d i)) (power_strips D [row]) s"
  using assms
  by (auto simp: outlets_callback_def Let_def power_strips_def outlets_left_def split: if_splits sum.splits
      dest!: count_outlets_Inr)

lemma each_row_outlets:
  "each_row (outlets_callback D d) rs s = (Inr (), s') \<Longrightarrow>
     s' = fold (\<lambda>i. add_outlets i (outlets_left D d i)) (power_strips D rs) s"
proof (induction rs arbitrary: s)
  case (Cons r rs)
  from Cons.prems obtain t where "outlets_callback D d r s = (Inr (), t)"
    and rest: "each_row (outlets_callback D d) rs t = (Inr (), s')"
    by (auto split: prod.splits sum.splits)
  from outlets_callback_Inr [OF this(1)] Cons.IH [OF rest] show ?case
    by (auto simp: power_strips_def)
qed (simp add: power_strips_def)

lemma fold_add_outlets:
  shows "osum (fold (\<lambda>i. add_outlets i (f i)) js s) = osum s + (\<Sum>i \<leftarrow> js. max 0 (f i))"
    and "tainted (fold (\<lambda>i. add_outlets i (f i)) js s) \<longleftrightarrow> tainted s \<or> (\<exists>i \<in> set js. f i < 0)"
    and "smap (counts s) \<Longrightarrow> smap (counts (fold (\<lambda>i. add_outlets i (f i)) js s))"
  by (induction js arbitrary: s) (auto simp: add_outlets_def)

lemma counts_fold_add_outlets:
  assumes "smap (counts s)"
  shows "k \<notin> to_string ` set js \<Longrightarrow> map_of (counts (fold (\<lambda>i. add_outlets i (f i)) js s)) k = map_of (counts s) k"
    and "i \<in> set js \<Longrightarrow> map_of (counts (fold (\<lambda>i. add_outlets i (f i)) js s)) (to_string i) = Some (f i)"
proof -
  have step: "smap (counts (add_outlets j n s))" "map_of (counts (add_outlets j n s)) = (map_of (counts s))(to_string j \<mapsto> n)"
    if "smap (counts s)" for j n s
    using that by (simp_all add: add_outlets_def)
  show other: "k \<notin> to_string ` set js \<Longrightarrow> map_of (counts (fold (\<lambda>i. add_outlets i (f i)) js s)) k = map_of (counts s) k"
    for k js
    using assms by (induction js arbitrary: s) (simp_all add: step image_iff)
  show "i \<in> set js \<Longrightarrow> map_of (counts (fold (\<lambda>i. add_outlets i (f i)) js s)) (to_string i) = Some (f i)"
    using assms
  proof (induction js arbitrary: s)
    case (Cons j js)
    show ?case
    proof (cases "i \<in> set js")
      case True
      with Cons step show ?thesis by simp
    next
      case False
      with Cons.prems have "i = j" by simp
      have "map_of (counts (fold (\<lambda>i. add_outlets i (f i)) js t)) (to_string i) = map_of (counts t) (to_string i)"
        if "smap (counts t)" for t
        using that False by (induction js arbitrary: t) (auto simp: step)
      with Cons.prems(2) step \<open>i = j\<close> show ?thesis by simp
    qed
  qed simp
qed

lemma to_string_not_sum [simp]: "to_string i \<noteq> ''sum''"
  using to_string_digits [of "CHR ''s''" i] by (auto simp: isdigit_def char_code_def)

lemma sum_not_asset: "''sum'' \<notin> to_string ` A"
  by (metis imageE to_string_not_sum)

lemma rack_outlets_result:
  assumes "rack_outlets_available D i d res = Some (0, out)" and "smap res"
  obtains rs where "select_assets_by_container D i d = Inr (0, rs)"
    and "smap out"
    and "map_of out ''sum'' = Some (if \<forall>j \<in> set (power_strips D rs). outlets_left D d j \<ge> 0
           then \<Sum>j \<leftarrow> power_strips D rs. outlets_left D d j else - 1)"
    and "\<And>j. j \<in> set (power_strips D rs) \<Longrightarrow> map_of out (to_string j) = Some (outlets_left D d j)"
    and "\<And>k. k \<noteq> ''sum'' \<Longrightarrow> k \<notin> to_string ` set (power_strips D rs) \<Longrightarrow> map_of out k = map_of res k"
proof -
  let ?f = "outlets_left D d"
  define s0 where "s0 = \<lparr> osum = - 1, tainted = False, counts = map_put ''sum'' (- 1) res \<rparr>"
  have s0: "smap (counts s0)" "map_of (counts s0) = (map_of res)(''sum'' \<mapsto> - 1)"
    using assms(2) by (simp_all add: s0_def)
  from assms(1) obtain rs s where q: "select_assets_by_container D i d = Inr (0, rs)"
    and run: "each_row (outlets_callback D d) rs s0 = (Inr (), s)"
    and out: "out = (if tainted s then counts s else map_put ''sum'' (osum s + 1) (counts s))"
    by (auto simp: rack_outlets_available_def for_rows_def Let_def s0_def
        split: if_splits sum.splits prod.splits fault.splits)
  have s: "s = fold (\<lambda>j. add_outlets j (?f j)) (power_strips D rs) s0" using each_row_outlets [OF run] .
  note fold = fold_add_outlets [where f = ?f and js = "power_strips D rs" and s = s0]
    and cnt = counts_fold_add_outlets [where f = ?f and js = "power_strips D rs" and s = s0, OF s0(1)]
  have "(\<Sum>j \<leftarrow> js. max 0 (?f j)) = (\<Sum>j \<leftarrow> js. ?f j)" if "\<forall>j \<in> set js. 0 \<le> ?f j" for js
    using that by (induction js) simp_all
  then have "map_of out ''sum'' = Some (if \<forall>j \<in> set (power_strips D rs). ?f j \<ge> 0
           then \<Sum>j \<leftarrow> power_strips D rs. ?f j else - 1)"
    using fold cnt(1) [OF sum_not_asset] s0 by (auto simp: out s s0_def not_le)
  moreover have "smap out" using fold(3) s0(1) by (simp add: out s)
  moreover have "map_of out (to_string j) = Some (?f j)" if "j \<in> set (power_strips D rs)" for j
    using cnt(2) [OF that] fold(3) s0(1) by (simp add: out s)
  moreover have "map_of out k = map_of res k" if "k \<noteq> ''sum''" "k \<notin> to_string ` set (power_strips D rs)" for k
    using cnt(1) [OF that(2)] fold(3) s0 that(1) by (simp add: out s)
  ultimately show ?thesis using q that by blast
qed

subsection \<open>A rack\<close>

text \<open>
  A rack, asset 20, of height 42 with two power distribution units and a server, each two units high;
  each unit feeds three devices.
\<close>

definition rack_row :: "nat \<Rightarrow> nat \<Rightarrow> container_row" where
  "rack_row i t = \<lparr> c_asset = Some i, c_subtype = Some t \<rparr>"

definition sample_computed :: "container_row list \<Rightarrow> string \<Rightarrow> int \<Rightarrow> (string list, unit) computed_db" where
  \<comment> \<open>the contents of the rack, the number of outlets of a unit, the code of the query for the devices\<close>
  "sample_computed rs n code = export_db.extend
     ((sample_export [])\<lparr> ext_attributes_map := (\<lambda>i d. Inr (0, [(''outlet.count'', (n, False))])) \<rparr>)
     (computed_db.fields
       (\<lambda>k els d. if els = [20] then Inr (0, [Some (to_string 42)]) else Inr (code, map (\<lambda>_. Some (to_string 2)) els))
       (\<lambda>i d. Inr (0, rs)) (\<lambda>i d. Inr 3) (\<lambda>t. t = 3) (\<lambda>t. t = 4))"

definition sample_rack :: "container_row list" where
  "sample_rack = [rack_row 12 3, rack_row 13 4, rack_row 14 1]"

subsection \<open>Properties\<close>

text \<open>C30. The free height of a rack whose devices have a height is the height of the rack less the sum of
  theirs; when the devices have no height, or there are none, it is reported as unknown (\<open>-1\<close>), so
  an empty rack does not have its own height free.\<close>

theorem free_height_of_rack:
  assumes "connect_error D = None"
    and "select_asset_ext_attribute_by_keytag D ''u_size'' [i] d = Inr (0, [Some (to_string height)])"
    and "0 < height" and "int height \<le> INT32_MAX"
    and "select_assets_by_container D i d = Inr (rv, rs)" and "rv \<noteq> - 1"
    and "select_asset_ext_attribute_by_keytag D ''u_size'' (container_ids rs) d =
           Inr (0, map (\<lambda>n. Some (to_string n)) heights)"
    and "int (sum_list heights) \<le> INT32_MAX" and "rs = [] \<Longrightarrow> heights = []"
  shows "free_u_size D i d =
           Some (if sum_list heights = 0 then - 1 else int height - int (sum_list heights))"
proof -
  have "s_get_devices_usize D [i] d = Inr (int height)"
    using usize_numbers [where hs = "[height]" and rv = 0] assms(2,4) by simp
  moreover have "s_get_devices_usize D (container_ids rs) d = Inr (int (sum_list heights))"
    using usize_numbers [OF assms(7,8)] by simp
  moreover have "container_ids rs \<noteq> []" if "rs \<noteq> []"
    using that set_fold_set_insert [of "map (\<lambda>r. null_or (c_asset r)) rs" "[]"]
    by (auto simp: container_ids_def fold_map comp_def)
  moreover have "is_int32 (int height - int (sum_list heights))"
    using assms(4,8) by (simp add: is_int32_def int_limits)
  moreover have "rs = [] \<Longrightarrow> sum_list heights = 0" using assms(9) by simp
  ultimately show ?thesis
    using assms(1,3,5,6) by (auto simp: free_u_size_def free_u_size_body_def int32_def)
qed

theorem free_height_of_rack_witness:
  "free_u_size (sample_computed sample_rack ''8'' 0) 20 [] = Some 36 \<and>
   free_u_size (sample_computed [] ''8'' 0) 20 [] = Some (- 1)"
proof -
  have "free_u_size (sample_computed sample_rack ''8'' 0) 20 [] =
      Some (if sum_list [2, 2, 2] = (0 :: nat) then - 1 else int 42 - int (sum_list [2, 2, 2]))"
    by (rule free_height_of_rack [where rs = sample_rack and rv = 0])
      (simp_all add: sample_computed_def sample_rack_def rack_row_def container_ids_def null_or_def set_insert_def
        computed_db.defs export_db.defs sample_export_def sample_manager_def manager_db.defs asset_db.defs int_limits)
  moreover have "free_u_size (sample_computed [] ''8'' 0) 20 [] =
      Some (if sum_list [] = (0 :: nat) then - 1 else int 42 - int (sum_list []))"
    by (rule free_height_of_rack [where rs = "[]" and rv = 0])
      (simp_all add: sample_computed_def container_ids_def
        computed_db.defs export_db.defs sample_export_def sample_manager_def manager_db.defs asset_db.defs int_limits)
  ultimately show ?thesis by simp
qed

text \<open>C16. The number of free outlets of a rack: every power distribution unit in it is listed with its
  outlets less the links that start there, the other devices are not, and the sum is the sum over the
  units when each has a known and sufficient number of outlets, and unknown otherwise.\<close>

theorem free_outlets_of_rack:
  assumes "rack_outlets_available D i d [] = Some (0, res)"
  shows "\<exists>rs. select_assets_by_container D i d = Inr (0, rs) \<and>
           dom (map_of res) = insert ''sum'' (to_string ` set (power_strips D rs)) \<and>
           (\<forall>j \<in> set (power_strips D rs). map_of res (to_string j) = Some (outlets_left D d j)) \<and>
           map_of res ''sum'' = Some (if \<forall>j \<in> set (power_strips D rs). outlets_left D d j \<ge> 0
             then \<Sum>j \<leftarrow> power_strips D rs. outlets_left D d j else - 1)"
proof (rule rack_outlets_result [OF assms])
  fix rs
  assume r: "select_assets_by_container D i d = Inr (0, rs)"
    and sm: "map_of res ''sum'' = Some (if \<forall>j \<in> set (power_strips D rs). outlets_left D d j \<ge> 0
      then \<Sum>j \<leftarrow> power_strips D rs. outlets_left D d j else - 1)"
    and val: "\<And>j. j \<in> set (power_strips D rs) \<Longrightarrow> map_of res (to_string j) = Some (outlets_left D d j)"
    and oth: "\<And>k. k \<noteq> ''sum'' \<Longrightarrow> k \<notin> to_string ` set (power_strips D rs) \<Longrightarrow> map_of res k = map_of [] k"
  have "map_of res k \<noteq> None \<longleftrightarrow> k \<in> insert ''sum'' (to_string ` set (power_strips D rs))" for k
    using sm val oth [of k] by (cases "k = ''sum'' \<or> k \<in> to_string ` set (power_strips D rs)") auto
  then have "dom (map_of res) = insert ''sum'' (to_string ` set (power_strips D rs))" unfolding dom_def by blast
  with r sm val show ?thesis by blast
qed simp

theorem free_outlets_of_rack_witness:
  "\<exists>res. rack_outlets_available (sample_computed sample_rack ''8.0'' 0) 20 [] [] = Some (0, res) \<and>
     map_of res ''sum'' = Some 10 \<and> ''12'' \<in> dom (map_of res) \<and> ''14'' \<notin> dom (map_of res)"
proof -
  have run: "rack_outlets_available (sample_computed sample_rack ''8.0'' 0) 20 [] [] =
      Some (0, [(''12'', 5), (''13'', 5), (''sum'', 10)])"
    by code_simp
  from free_outlets_of_rack [OF this] run show ?thesis by auto
qed

end
