(* ===== verification/JsonCsv.thy ===== *)
theory JsonCsv
  imports CsvMap
begin

text \<open>
  \<open>src/shared/csv.cc\<close>, from \<open>process_powers_key\<close> to \<open>CsvMap_from_serialization_info\<close>: a JSON
  object becomes a table of a title row and a value row. \<open>cxxtools::SerializationInfo\<close> is the tree
  it documents: a name, a category and members in order, or a value; the conversion of a node to a
  string or a boolean, which may throw, is a parameter (\<open>getString\<close>, \<open>getBool\<close>).
\<close>

datatype category = Void | Value | Object | Array

datatype si = SI (si_name: string) (si_category: category) (si_value: string) (si_members: "si list")

type_synonym table = "string list list"

definition findMember :: "si \<Rightarrow> string \<Rightarrow> si option" where
  "findMember s name = find (\<lambda>m. si_name m = name) (si_members s)"

definition invalid :: "string \<Rightarrow> csv_exn" where
  "invalid what = Invalid_argument (Bad_json what)"

definition getMember :: "si \<Rightarrow> string \<Rightarrow> csv_exn + si" where
  "getMember s name = (case findMember s name of Some m \<Rightarrow> Inr m | None \<Rightarrow> Inl (invalid name))"

definition push2 :: "string \<Rightarrow> string \<Rightarrow> table \<Rightarrow> table" where
  \<comment> \<open>\<open>data[0].push_back(title); data[1].push_back(value)\<close>\<close>
  "push2 title val d = d[0 := d ! 0 @ [title], 1 := d ! 1 @ [val]]"

lemma findMember_size: "findMember s n = Some m \<Longrightarrow> size m < size s"
proof -
  assume "findMember s n = Some m"
  then have "m \<in> set (si_members s)"
    by (auto simp: findMember_def find_Some_iff)
  then have "size m < Suc (size_list size (si_members s))"
    by (simp add: size_list_estimation' less_Suc_eq_le)
  then show ?thesis by (cases s) simp
qed

subsection \<open>The keys with a special treatment\<close>

fun powers_loop :: "(si \<Rightarrow> csv_exn + string) \<Rightarrow> nat \<Rightarrow> si list \<Rightarrow> table \<Rightarrow> csv_exn + table" where
  "powers_loop getString i [] d = Inr d"
| "powers_loop getString i (el # els) d =
     (case findMember el ''src_name'' of
        None \<Rightarrow> Inl (invalid ''src_name'')
      | Some m \<Rightarrow>
          bindE (getString m) (\<lambda>src_name.
            let d = push2 (''power_source.'' @ to_string i) src_name d
            in bindE (case findMember el ''src_socket'' of
                        None \<Rightarrow> Inr d
                      | Some m \<Rightarrow> bindE (getString m) (\<lambda>src_socket.
                          Inr (push2 (''power_plug_src.'' @ to_string i) src_socket d))) (\<lambda>d.
               bindE (case findMember el ''dest_socket'' of
                        None \<Rightarrow> Inr d
                      | Some m \<Rightarrow> bindE (getString m) (\<lambda>dest_socket.
                          Inr (push2 (''power_input.'' @ to_string i) dest_socket d)))
                 (powers_loop getString (i + 1) els))))"

definition process_powers_key :: "(si \<Rightarrow> csv_exn + string) \<Rightarrow> si \<Rightarrow> table \<Rightarrow> csv_exn + table" where
  "process_powers_key getString powers_si d =
     (if si_category powers_si \<noteq> Array then Inl (invalid ''powers'')
      else powers_loop getString 1 (si_members powers_si) d)"

fun groups_loop :: "(si \<Rightarrow> csv_exn + string) \<Rightarrow> nat \<Rightarrow> si list \<Rightarrow> table \<Rightarrow> csv_exn + table" where
  "groups_loop getString i [] d = Inr d"
| "groups_loop getString i (el # els) d =
     (case findMember el ''name'' of
        None \<Rightarrow> Inl (invalid ''name'')
      | Some m \<Rightarrow>
          bindE (getString m) (\<lambda>group_name.
            groups_loop getString (i + 1) els (push2 (''group.'' @ to_string i) group_name d)))"

definition process_groups_key :: "(si \<Rightarrow> csv_exn + string) \<Rightarrow> si \<Rightarrow> table \<Rightarrow> csv_exn + table" where
  "process_groups_key getString groups_si d =
     (if si_category groups_si \<noteq> Array then Inl (invalid ''groups'')
      else groups_loop getString 1 (si_members groups_si) d)"

text \<open>\<open>ips\<close>, \<open>macs\<close>, \<open>hostnames\<close> and \<open>fqdns\<close> are four copies of one loop.\<close>

fun values_loop :: "(si \<Rightarrow> csv_exn + string) \<Rightarrow> string \<Rightarrow> nat \<Rightarrow> si list \<Rightarrow> table \<Rightarrow> csv_exn + table" where
  "values_loop getString prefix i [] d = Inr d"
| "values_loop getString prefix i (el # els) d =
     bindE (getString el) (\<lambda>v.
       values_loop getString prefix (i + 1) els (push2 (prefix @ to_string i) v d))"

definition process_ips_key :: "(si \<Rightarrow> csv_exn + string) \<Rightarrow> si \<Rightarrow> table \<Rightarrow> csv_exn + table" where
  "process_ips_key getString s d =
     (if si_category s \<noteq> Array then Inl (invalid ''ips'')
      else values_loop getString ''ip.'' 1 (si_members s) d)"

definition process_macs_key :: "(si \<Rightarrow> csv_exn + string) \<Rightarrow> si \<Rightarrow> table \<Rightarrow> csv_exn + table" where
  "process_macs_key getString s d =
     (if si_category s \<noteq> Array then Inl (invalid ''macs'')
      else values_loop getString ''mac.'' 1 (si_members s) d)"

definition process_hostnames_key :: "(si \<Rightarrow> csv_exn + string) \<Rightarrow> si \<Rightarrow> table \<Rightarrow> csv_exn + table" where
  "process_hostnames_key getString s d =
     (if si_category s \<noteq> Array then Inl (invalid ''hostnames'')
      else values_loop getString ''hostname.'' 1 (si_members s) d)"

definition process_fqdns_key :: "(si \<Rightarrow> csv_exn + string) \<Rightarrow> si \<Rightarrow> table \<Rightarrow> csv_exn + table" where
  "process_fqdns_key getString s d =
     (if si_category s \<noteq> Array then Inl (invalid ''fqdns'')
      else values_loop getString ''fqdn.'' 1 (si_members s) d)"

fun oneOutlet_loop ::
  "(si \<Rightarrow> csv_exn + string) \<Rightarrow> (si \<Rightarrow> csv_exn + bool) \<Rightarrow> string \<Rightarrow> si list \<Rightarrow> table \<Rightarrow> csv_exn + table" where
  "oneOutlet_loop getString getBool outlet [] d = Inr d"
| "oneOutlet_loop getString getBool outlet (a # attrs) d =
     (case bindE (bindE (getMember a ''name'') getString) (\<lambda>name.
           bindE (bindE (getMember a ''value'') getString) (\<lambda>v.
           bindE (bindE (getMember a ''read_only'') getBool) (\<lambda>isReadOnly. Inr (name, v)))) of
        Inl _ \<Rightarrow> Inl (invalid ''name/value/read_only'') \<comment> \<open>\<open>catch (...)\<close>\<close>
      | Inr (name, v) \<Rightarrow>
          oneOutlet_loop getString getBool outlet attrs (push2 (''outlet.'' @ outlet @ ''.'' @ name) v d))"

definition process_oneOutlet ::
  "(si \<Rightarrow> csv_exn + string) \<Rightarrow> (si \<Rightarrow> csv_exn + bool) \<Rightarrow> si \<Rightarrow> table \<Rightarrow> csv_exn + table" where
  "process_oneOutlet getString getBool outlet_si d =
     (if si_category outlet_si \<noteq> Array then Inl (invalid (si_name outlet_si))
      else oneOutlet_loop getString getBool (si_name outlet_si) (si_members outlet_si) d)"

fun outlets_loop ::
  "(si \<Rightarrow> csv_exn + string) \<Rightarrow> (si \<Rightarrow> csv_exn + bool) \<Rightarrow> si list \<Rightarrow> table \<Rightarrow> csv_exn + table" where
  "outlets_loop getString getBool [] d = Inr d"
| "outlets_loop getString getBool (o1 # os) d =
     bindE (process_oneOutlet getString getBool o1 d) (outlets_loop getString getBool os)"

definition process_outlets_key ::
  "(si \<Rightarrow> csv_exn + string) \<Rightarrow> (si \<Rightarrow> csv_exn + bool) \<Rightarrow> si \<Rightarrow> table \<Rightarrow> csv_exn + table" where
  "process_outlets_key getString getBool outlets_si d =
     (if si_category outlets_si \<noteq> Object then Inl (invalid ''outlets'')
      else outlets_loop getString getBool (si_members outlets_si) d)"

text \<open>The two members of an extended attribute in the format of a GET.\<close>

fun ext_pair_loop :: "(si \<Rightarrow> csv_exn + string) \<Rightarrow> si list \<Rightarrow> table \<Rightarrow> csv_exn + table" where
  "ext_pair_loop getString [] d = Inr d"
| "ext_pair_loop getString (oneAttr # attrs) d =
     (if si_name oneAttr = ''read_only'' then ext_pair_loop getString attrs d
      else bindE (getString oneAttr) (\<lambda>v. ext_pair_loop getString attrs (push2 (si_name oneAttr) v d)))"

fun ext_array_loop :: "(si \<Rightarrow> csv_exn + string) \<Rightarrow> si list \<Rightarrow> table \<Rightarrow> csv_exn + table" where
  "ext_array_loop getString [] d = Inr d"
| "ext_array_loop getString (oneAttrEl # els) d =
     (if length (si_members oneAttrEl) \<noteq> 2 then Inl (invalid ''ext attribute'')
      else bindE (ext_pair_loop getString (si_members oneAttrEl) d) (ext_array_loop getString els))"

subsection \<open>The object\<close>

definition ignored_keys :: "string list" where
  "ignored_keys = [''location_id'', ''location_uri'', ''power_devices_in_uri'', ''parents'']"

text \<open>
  \<open>s_read_si\<close> and \<open>process_ext_key\<close> call each other: the member named \<open>ext\<close> of an object is read by
  the same function. \<open>read_loop\<close> is the loop over the members still to visit; like the code it
  passes the first member with the name of the key, not the member visited.
\<close>

function s_read_si ::
    "(si \<Rightarrow> csv_exn + string) \<Rightarrow> (si \<Rightarrow> csv_exn + bool) \<Rightarrow> si \<Rightarrow> table \<Rightarrow> csv_exn + table"
  and process_ext_key ::
    "(si \<Rightarrow> csv_exn + string) \<Rightarrow> (si \<Rightarrow> csv_exn + bool) \<Rightarrow> si \<Rightarrow> table \<Rightarrow> csv_exn + table"
  and read_loop ::
    "(si \<Rightarrow> csv_exn + string) \<Rightarrow> (si \<Rightarrow> csv_exn + bool) \<Rightarrow> si \<Rightarrow> si list \<Rightarrow> table \<Rightarrow> csv_exn + table"
where
  "s_read_si gs gb s d =
     (if length d \<noteq> 2 then Inl (invalid ''two items'') else read_loop gs gb s (si_members s) d)"
| "process_ext_key gs gb ext_si d =
     (if si_category ext_si = Array then ext_array_loop gs (si_members ext_si) d
      else if si_category ext_si = Object then s_read_si gs gb ext_si d
      else Inl (invalid ''ext''))"
| "read_loop gs gb s [] d = Inr d"
| "read_loop gs gb s (it # its) d =
     (let name = si_name it in
      if name = ''ext''
      then (case findMember s ''ext'' of
              None \<Rightarrow> Inl (invalid ''ext'')
            | Some m \<Rightarrow> bindE (process_ext_key gs gb m d) (read_loop gs gb s its))
      else if name \<in> set ignored_keys then read_loop gs gb s its d
      else if name = ''powers''
      then bindE (bindE (getMember s ''powers'') (\<lambda>m. process_powers_key gs m d)) (read_loop gs gb s its)
      else if name = ''groups''
      then bindE (bindE (getMember s ''groups'') (\<lambda>m. process_groups_key gs m d)) (read_loop gs gb s its)
      else if name = ''outlets''
      then bindE (bindE (getMember s ''outlets'') (\<lambda>m. process_outlets_key gs gb m d)) (read_loop gs gb s its)
      else if name = ''ips''
      then bindE (bindE (getMember s ''ips'') (\<lambda>m. process_ips_key gs m d)) (read_loop gs gb s its)
      else if name = ''macs''
      then bindE (bindE (getMember s ''macs'') (\<lambda>m. process_macs_key gs m d)) (read_loop gs gb s its)
      else if name = ''hostnames''
      then bindE (bindE (getMember s ''hostnames'') (\<lambda>m. process_hostnames_key gs m d)) (read_loop gs gb s its)
      else if name = ''fqdns''
      then bindE (bindE (getMember s ''fqdns'') (\<lambda>m. process_fqdns_key gs m d)) (read_loop gs gb s its)
      else bindE (gs it) (\<lambda>v. read_loop gs gb s its (push2 name v d)))"
  by pat_completeness auto
termination
  by (relation "measures [\<lambda>x. case x of Inl (_, _, s, _) \<Rightarrow> size s
                             | Inr (Inl (_, _, s, _)) \<Rightarrow> size s
                             | Inr (Inr (_, _, s, its, _)) \<Rightarrow> size s,
                          \<lambda>x. case x of Inl (_, _, s, _) \<Rightarrow> Suc (length (si_members s))
                             | Inr (Inl (_, _, s, _)) \<Rightarrow> Suc (Suc (length (si_members s)))
                             | Inr (Inr (_, _, s, its, _)) \<Rightarrow> length its]")
     (auto dest: findMember_size)

definition CsvMap_from_serialization_info ::
  "(si \<Rightarrow> csv_exn + string) \<Rightarrow> (si \<Rightarrow> csv_exn + bool) \<Rightarrow> si \<Rightarrow> csv_exn + CsvMap" where
  "CsvMap_from_serialization_info gs gb s =
     bindE (s_read_si gs gb s [[], []])
       (\<lambda>d. fst (andThen deserialize (\<lambda>_ cm. (Inr cm, cm)) (CsvMap_new d)))"

subsection \<open>The table stays rectangular\<close>

definition extends :: "table \<Rightarrow> table \<Rightarrow> bool" where
  \<comment> \<open>as many titles as values were appended, the rows before are kept\<close>
  "extends d d' \<longleftrightarrow>
     length d = 2 \<longrightarrow> (\<exists>ts vs. d' = [d ! 0 @ ts, d ! 1 @ vs] \<and> length ts = length vs)"

named_theorems extends_intros \<open>every step of the conversion extends the table\<close>

lemma extends_refl [extends_intros]: "extends d d"
  by (auto simp: extends_def numeral_2_eq_2 length_Suc_conv)

lemma extends_push2 [extends_intros]: "extends d (push2 t v d)"
  by (auto simp: extends_def push2_def numeral_2_eq_2 length_Suc_conv)

lemma extends_trans: "extends d d' \<Longrightarrow> extends d' d'' \<Longrightarrow> extends d d''"
  by (auto simp: extends_def)

lemma extends_length: "extends d d' \<Longrightarrow> length d = 2 \<Longrightarrow> length d' = 2"
  by (auto simp: extends_def)

lemma extends_bind:
  assumes "bindE m k = Inr d''" and "\<And>d'. m = Inr d' \<Longrightarrow> extends d d'"
    and "\<And>d'. k d' = Inr d'' \<Longrightarrow> extends d' d''"
  shows "extends d d''"
  using assms by (auto simp: bindE_eq_Inr_iff intro: extends_trans)

lemma values_loop_extends: "values_loop gs p i els d = Inr d' \<Longrightarrow> extends d d'"
  by (induction gs p i els d rule: values_loop.induct)
     (auto simp: bindE_eq_Inr_iff intro: extends_intros extends_trans)

lemma groups_loop_extends: "groups_loop gs i els d = Inr d' \<Longrightarrow> extends d d'"
proof (induction els arbitrary: i d)
  case (Cons el els)
  from Cons.prems obtain v where "groups_loop gs (i + 1) els (push2 (''group.'' @ to_string i) v d) = Inr d'"
    by (auto simp: bindE_eq_Inr_iff split: option.splits)
  from Cons.IH [OF this] show ?case using extends_push2 extends_trans by blast
qed (auto intro: extends_intros)

lemma powers_loop_extends: "powers_loop gs i els d = Inr d' \<Longrightarrow> extends d d'"
proof (induction els arbitrary: i d)
  case (Cons el els)
  from Cons.prems obtain m v where m: "findMember el ''src_name'' = Some m" "gs m = Inr v"
    by (auto simp: bindE_eq_Inr_iff split: option.splits)
  let ?d = "push2 (''power_source.'' @ to_string i) v d"
  note rest = Cons.prems [simplified m powers_loop.simps option.case bindE.simps Let_def]
  have "extends ?d d'"
  proof (rule extends_bind [OF rest])
    fix d1 assume "(case findMember el ''src_socket'' of None \<Rightarrow> Inr ?d
      | Some m \<Rightarrow> bindE (gs m) (\<lambda>s. Inr (push2 (''power_plug_src.'' @ to_string i) s ?d))) = Inr d1"
    then show "extends ?d d1"
      by (auto simp: bindE_eq_Inr_iff split: option.splits intro: extends_intros)
  next
    fix d1
    assume r: "bindE (case findMember el ''dest_socket'' of None \<Rightarrow> Inr d1
      | Some m \<Rightarrow> bindE (gs m) (\<lambda>s. Inr (push2 (''power_input.'' @ to_string i) s d1)))
      (powers_loop gs (i + 1) els) = Inr d'"
    show "extends d1 d'"
      by (rule extends_bind [OF r])
         (auto simp: bindE_eq_Inr_iff split: option.splits intro: extends_intros Cons.IH)
  qed
  then show ?case using extends_push2 extends_trans by blast
qed (auto intro: extends_intros)

lemma oneOutlet_loop_extends: "oneOutlet_loop gs gb o1 attrs d = Inr d' \<Longrightarrow> extends d d'"
proof (induction attrs arbitrary: d)
  case (Cons a attrs)
  from Cons.prems obtain n v where
    "oneOutlet_loop gs gb o1 attrs (push2 (''outlet.'' @ o1 @ ''.'' @ n) v d) = Inr d'"
    by (auto split: sum.splits)
  from Cons.IH [OF this] show ?case using extends_push2 extends_trans by blast
qed (auto intro: extends_intros)

lemma outlets_loop_extends: "outlets_loop gs gb os d = Inr d' \<Longrightarrow> extends d d'"
proof (induction os arbitrary: d)
  case (Cons o1 os)
  then show ?case
    by (auto simp: bindE_eq_Inr_iff process_oneOutlet_def split: if_splits
        dest!: oneOutlet_loop_extends intro: extends_trans)
qed (auto intro: extends_intros)

lemma ext_pair_loop_extends: "ext_pair_loop gs attrs d = Inr d' \<Longrightarrow> extends d d'"
  by (induction gs attrs d rule: ext_pair_loop.induct)
     (auto simp: bindE_eq_Inr_iff split: if_splits intro: extends_intros extends_trans)

lemma ext_array_loop_extends: "ext_array_loop gs els d = Inr d' \<Longrightarrow> extends d d'"
  by (induction els arbitrary: d)
     (auto simp: bindE_eq_Inr_iff split: if_splits intro: extends_intros extends_trans
       dest!: ext_pair_loop_extends)

lemma process_keys_extend:
  "process_powers_key gs m d = Inr d' \<Longrightarrow> extends d d'"
  "process_groups_key gs m d = Inr d' \<Longrightarrow> extends d d'"
  "process_outlets_key gs gb m d = Inr d' \<Longrightarrow> extends d d'"
  "process_ips_key gs m d = Inr d' \<Longrightarrow> extends d d'"
  "process_macs_key gs m d = Inr d' \<Longrightarrow> extends d d'"
  "process_hostnames_key gs m d = Inr d' \<Longrightarrow> extends d d'"
  "process_fqdns_key gs m d = Inr d' \<Longrightarrow> extends d d'"
  by (auto simp: process_powers_key_def process_groups_key_def process_outlets_key_def
      process_ips_key_def process_macs_key_def process_hostnames_key_def process_fqdns_key_def
      split: if_splits intro: powers_loop_extends groups_loop_extends outlets_loop_extends values_loop_extends)

declare s_read_si.simps [simp del] process_ext_key.simps [simp del] read_loop.simps(2) [simp del]

text \<open>One turn of the loop: the key visited and the rest.\<close>

definition read_key ::
  "(si \<Rightarrow> csv_exn + string) \<Rightarrow> (si \<Rightarrow> csv_exn + bool) \<Rightarrow> si \<Rightarrow> si \<Rightarrow> table \<Rightarrow> csv_exn + table" where
  "read_key gs gb s it d = read_loop gs gb s [it] d"

lemma bindE_Inr_right [simp]: "bindE m Inr = m"
  by (cases m) auto

lemma read_loop_Nil [simp]: "read_loop gs gb s [] = Inr"
  by (rule ext) simp

lemma read_loop_Cons: "read_loop gs gb s (it # its) d = bindE (read_key gs gb s it d) (read_loop gs gb s its)"
  unfolding read_key_def by (simp add: read_loop.simps(2) Let_def bindE_assoc split: option.splits)

lemma read_key_extends:
  assumes "\<And>m d d'. findMember s ''ext'' = Some m \<Longrightarrow> process_ext_key gs gb m d = Inr d' \<Longrightarrow> extends d d'"
    and "read_key gs gb s it d = Inr d'"
  shows "extends d d'"
  using assms(2) unfolding read_key_def
  by (auto simp: read_loop.simps(2) Let_def bindE_eq_Inr_iff getMember_def
      split: if_splits option.splits intro: extends_intros assms(1) process_keys_extend)

lemma read_loop_extends:
  assumes "\<And>m d d'. findMember s ''ext'' = Some m \<Longrightarrow> process_ext_key gs gb m d = Inr d' \<Longrightarrow> extends d d'"
  shows "read_loop gs gb s its d = Inr d' \<Longrightarrow> extends d d'"
proof (induction its arbitrary: d)
  case (Cons it its)
  then obtain d1 where d1: "read_key gs gb s it d = Inr d1" "read_loop gs gb s its d1 = Inr d'"
    by (auto simp: read_loop_Cons bindE_eq_Inr_iff)
  have "extends d d1"
    by (rule read_key_extends [OF _ d1(1)]) (use assms in blast)
  with Cons.IH [OF d1(2)] show ?case using extends_trans by blast
qed (auto intro: extends_intros)

lemma process_ext_key_extends: "process_ext_key gs gb s d = Inr d' \<Longrightarrow> extends d d'"
proof (induction "size s" arbitrary: s d d' rule: less_induct)
  case less
  have "extends d1 d2" if "findMember s ''ext'' = Some m" "process_ext_key gs gb m d1 = Inr d2" for m d1 d2
    using that less.hyps [of m d1 d2] findMember_size by blast
  from read_loop_extends [of s gs gb, OF this] less.prems show ?case
    by (auto simp: process_ext_key.simps s_read_si.simps split: if_splits intro: ext_array_loop_extends)
qed

lemma s_read_si_extends: "s_read_si gs gb s d = Inr d' \<Longrightarrow> extends d d'"
  using read_loop_extends [OF process_ext_key_extends]
  by (auto simp: s_read_si.simps split: if_splits)

lemma from_si_deserialized:
  assumes "CsvMap_from_serialization_info gs gb s = Inr cm"
  obtains ts vs where "s_read_si gs gb s [[], []] = Inr [ts, vs]" and "length ts = length vs"
    and "deserialized [ts, vs] cm"
proof -
  from assms obtain d where d1: "s_read_si gs gb s [[], []] = Inr d"
    and r: "fst (andThen deserialize (\<lambda>_ cm. (Inr cm, cm)) (CsvMap_new d)) = Inr cm"
    by (auto simp: CsvMap_from_serialization_info_def bindE_eq_Inr_iff)
  obtain x y where xy: "deserialize (CsvMap_new d) = (x, y)" by force
  with r have "deserialized d cm" by (cases x) (auto simp: deserialized_def andThen_apply)
  with d1 have d: "s_read_si gs gb s [[], []] = Inr d" "deserialized d cm" by auto
  with s_read_si_extends [OF d(1)] that show thesis by (auto simp: extends_def)
qed

text \<open>The table made from a JSON object has exactly two rows of the same length, with titles
  distinct after normalisation, whatever the object holds: every title of the table has its value
  in row 1, so a lookup of a known title in it cannot fail.\<close>

theorem json_table_rectangular:
  assumes "CsvMap_from_serialization_info gs gb s = Inr cm"
  shows "rows cm = 2 \<and> length (data cm ! 0) = length (data cm ! 1) \<and>
         distinct (map ci_strip (data cm ! 0)) \<and>
         (hasTitle cm t \<longleftrightarrow> (\<exists>v. get cm 1 t = Inr v))"
proof -
  from assms obtain ts vs where d: "length ts = length vs" "deserialized [ts, vs] cm"
    by (rule from_si_deserialized)
  note ix = deserialized_index [OF d(2)]
  have "get cm 1 t = Inr v \<Longrightarrow> hasTitle cm t" for v by (rule csv_title.lookup_has)
  moreover have "\<exists>v. get cm 1 t = Inr v" if "hasTitle cm t"
  proof -
    from that ix(2) obtain k where "index_of 0 ts (ci_strip t) = Some k"
      by (auto simp: hasTitle_def titles_index_def)
    with index_of_SomeD [OF this] ix d(1) show ?thesis by (auto simp: get_def titles_index_def Let_def)
  qed
  ultimately show ?thesis
    using ix d deserialized_iff [of "[ts, vs]"] by (auto simp: rows_def)
qed

definition str_member :: "string \<Rightarrow> string \<Rightarrow> si" where
  "str_member n v = SI n Value v []"

definition plain_getString :: "si \<Rightarrow> csv_exn + string" where
  \<comment> \<open>the documented conversion of a node: its value, an exception on an object or an array\<close>
  "plain_getString s = (if si_category s = Value then Inr (si_value s) else Inl (invalid (si_name s)))"

theorem json_table_rectangular_witness:
  "\<exists>cm. CsvMap_from_serialization_info plain_getString (\<lambda>s. Inr True)
      (SI '''' Object '''' [str_member ''name'' ''DC-1'', SI ''ips'' Array '''' [str_member '''' ''10.0.0.1'']]) = Inr cm
      \<and> rows cm = 2"
proof -
  let ?s = "SI '''' Object '''' [str_member ''name'' ''DC-1'', SI ''ips'' Array '''' [str_member '''' ''10.0.0.1'']]"
  have "\<exists>cm. CsvMap_from_serialization_info plain_getString (\<lambda>s. Inr True) ?s = Inr cm"
  proof -
    have "case CsvMap_from_serialization_info plain_getString (\<lambda>s. Inr True) ?s of Inl _ \<Rightarrow> False | Inr _ \<Rightarrow> True"
      by code_simp
    then show ?thesis by (auto split: sum.splits)
  qed
  then obtain cm where "CsvMap_from_serialization_info plain_getString (\<lambda>s. Inr True) ?s = Inr cm" ..
  with json_table_rectangular [OF this] show ?thesis by blast
qed

definition special_keys :: "string list" where
  "special_keys = ''ext'' # ignored_keys @
     [''powers'', ''groups'', ''outlets'', ''ips'', ''macs'', ''hostnames'', ''fqdns'']"

lemma read_key_plain:
  "si_name it \<notin> set special_keys \<Longrightarrow> read_key gs gb s it d = bindE (gs it) (\<lambda>v. Inr (push2 (si_name it) v d))"
  unfolding read_key_def by (auto simp: read_loop.simps(2) special_keys_def Let_def)

lemma read_loop_plain:
  assumes "\<forall>m \<in> set its. si_name m \<notin> set special_keys \<and> gs m = Inr (val m)"
  shows "read_loop gs gb s its [ts, vs] = Inr [ts @ map si_name its, vs @ map val its]"
  using assms
  by (induction its arbitrary: ts vs) (simp_all add: read_loop_Cons read_key_plain push2_def)

text \<open>C35. An object of plain keys goes through the table unchanged: when no key has a special
  treatment, every value converts to a string and the keys are distinct after normalisation, the
  table is built and the value under every key, in any spelling, is the value of that member.\<close>

theorem json_flat_object_roundtrip:
  assumes "\<forall>m \<in> set (si_members s). si_name m \<notin> set special_keys \<and> gs m = Inr (val m)"
    and "distinct (map (ci_strip \<circ> si_name) (si_members s))"
  shows "\<exists>cm. CsvMap_from_serialization_info gs gb s = Inr cm \<and>
           (\<forall>m \<in> set (si_members s). \<forall>t. ci_strip t = ci_strip (si_name m) \<longrightarrow> get cm 1 t = Inr (val m))"
proof -
  let ?ts = "map si_name (si_members s)" and ?vs = "map val (si_members s)"
  have r: "s_read_si gs gb s [[], []] = Inr [?ts, ?vs]"
    using read_loop_plain [OF assms(1), of gb s "[]" "[]"] by (simp add: s_read_si.simps)
  have dist: "distinct (map ci_strip ?ts)" using assms(2) by (simp add: comp_def)
  then obtain cm where cm: "deserialized [?ts, ?vs] cm" using deserialized_iff [of "[?ts, ?vs]"] by auto
  note ix = deserialized_index [OF cm]
  have "get cm 1 t = Inr (val m)" if m: "m \<in> set (si_members s)" and t: "ci_strip t = ci_strip (si_name m)" for m t
  proof -
    from m obtain k where k: "k < length (si_members s)" "si_members s ! k = m" by (auto simp: in_set_conv_nth)
    with index_of_nth [OF dist, of k 0] have "index_of 0 ?ts (ci_strip t) = Some k" by (simp add: t)
    with ix k show ?thesis by (simp add: get_def titles_index_def Let_def)
  qed
  moreover have "CsvMap_from_serialization_info gs gb s = Inr cm"
    using r cm by (simp add: CsvMap_from_serialization_info_def deserialized_def andThen_apply)
  ultimately show ?thesis by blast
qed

theorem json_flat_object_roundtrip_witness:
  "\<exists>cm. CsvMap_from_serialization_info plain_getString (\<lambda>s. Inr True)
      (SI '''' Object '''' [str_member ''name'' ''DC-1'', str_member ''type'' ''datacenter'']) = Inr cm \<and>
      get cm 1 ''Type'' = Inr ''datacenter''"
proof -
  let ?s = "SI '''' Object '''' [str_member ''name'' ''DC-1'', str_member ''type'' ''datacenter'']"
  have "distinct (map (ci_strip \<circ> si_name) (si_members ?s))" by code_simp
  moreover have "\<forall>m \<in> set (si_members ?s). si_name m \<notin> set special_keys \<and> plain_getString m = Inr (si_value m)"
    by code_simp
  ultimately obtain cm where cm: "CsvMap_from_serialization_info plain_getString (\<lambda>s. Inr True) ?s = Inr cm"
    "\<forall>m \<in> set (si_members ?s). \<forall>t. ci_strip t = ci_strip (si_name m) \<longrightarrow> get cm 1 t = Inr (si_value m)"
    using json_flat_object_roundtrip [where s = ?s] by blast
  moreover have "ci_strip ''Type'' = ci_strip ''type''" by code_simp
  ultimately show ?thesis by (auto simp: str_member_def)
qed

end
