(* ===== verification/ExportJson.thy ===== *)
theory ExportJson
  imports ExportCsv JsonCsv
begin

text \<open>
  \<open>src/db/inout/exportcsv.cc\<close>, \<open>export_asset_json\<close>: the requested assets as a JSON array, built as a
  \<open>SerializationInfo\<close>, the tree of \<open>JsonCsv\<close>; a boolean is stored as its text. Each asset comes out in
  the format that \<open>CsvMap_from_serialization_info\<close> reads.
\<close>

subsection \<open>Nodes\<close>

definition leaf :: "string \<Rightarrow> string \<Rightarrow> si" where
  "leaf n v = SI n Value v []"

definition flag :: "string \<Rightarrow> bool \<Rightarrow> si" where
  "flag n b = SI n Value (if b then ''true'' else ''false'') []"

definition object :: "string \<Rightarrow> si list \<Rightarrow> si" where
  "object n ms = SI n Object '''' ms"

definition array :: "string \<Rightarrow> si list \<Rightarrow> si" where
  "array n ms = SI n Array '''' ms"

subsection \<open>Outlets\<close>

record Outlet =
  label :: string
  label_r :: bool
  otype :: string
  type_r :: bool
  ogroup :: string
  group_r :: bool

definition Outlet_new :: Outlet where
  "Outlet_new = \<lparr> label = '''', label_r = False, otype = '''', type_r = False, ogroup = '''', group_r = False \<rparr>"

definition getOutletNumber :: "string \<Rightarrow> string" where
  "getOutletNumber s =
     (let oNumber = (if CHR ''.'' \<in> set s then tl (dropWhile (\<lambda>c. c \<noteq> CHR ''.'') s) else s)
      in takeWhile (\<lambda>c. c \<noteq> CHR ''.'') oNumber)"

definition outlet_regex :: "string \<Rightarrow> bool \<Rightarrow> string \<Rightarrow> bool" where
  \<comment> \<open>\<open>^outlet\.[0-9][0-9]*\.label$\<close> and its siblings; the flag is whether the expression ends in \<open>$\<close>\<close>
  "outlet_regex tail whole key =
     (starts_with key ''outlet.'' \<and>
      (let r = drop 7 key; rest = dropWhile isdigit r
       in takeWhile isdigit r \<noteq> [] \<and> (if whole then rest = tail else starts_with rest tail)))"

definition put_outlet ::
  "string \<Rightarrow> (Outlet \<Rightarrow> Outlet) \<Rightarrow> (string \<times> Outlet) list \<Rightarrow> (string \<times> Outlet) list" where
  \<comment> \<open>find, else emplace, then the assignments\<close>
  "put_outlet n f outlets =
     map_put n (f (case map_of outlets n of Some x \<Rightarrow> x | None \<Rightarrow> Outlet_new)) outlets"

definition outlet_si :: "string \<times> Outlet \<Rightarrow> si" where
  "outlet_si x = (case x of (n, y) \<Rightarrow>
     array n
       ([object '''' (if label y \<noteq> ''''
                     then [leaf ''name'' ''label'', leaf ''value'' (label y), flag ''read_only'' (label_r y)]
                     else [leaf ''name'' ''label'', leaf ''value'' n, flag ''read_only'' True])] @
        (if ogroup y \<noteq> ''''
         then [object '''' [leaf ''name'' ''group'', leaf ''value'' (ogroup y), flag ''read_only'' (group_r y)]] else []) @
        (if otype y \<noteq> ''''
         then [object '''' [leaf ''name'' ''type'', leaf ''value'' (otype y), flag ''read_only'' (type_r y)]] else [])))"

subsection \<open>Extended attributes\<close>

definition ext_si :: "string \<Rightarrow> string \<Rightarrow> bool \<Rightarrow> si" where
  "ext_si k v ro = object '''' [leaf k v, flag ''read_only'' ro]"

definition is_ip :: "string \<Rightarrow> bool" where
  "is_ip k \<longleftrightarrow> starts_with k ''ip.''"

definition attribute_step ::
  "string \<Rightarrow> string \<Rightarrow> bool \<Rightarrow> (string \<times> Outlet) list \<Rightarrow> (string \<times> Outlet) list \<times> si list" where
  \<comment> \<open>one attribute: the outlets after it, and what it adds to the list \<open>ext\<close>\<close>
  "attribute_step k v ro outlets =
     (if k = ''name'' \<or> is_ip k \<or> k = ''location_type'' then (outlets, [])
      else if outlet_regex ''.label'' True k
      then (put_outlet (getOutletNumber k) (\<lambda>y. y\<lparr> label := v, label_r := ro \<rparr>) outlets, [])
      else if outlet_regex ''.group'' True k
      then (put_outlet (getOutletNumber k) (\<lambda>y. y\<lparr> ogroup := v, group_r := ro \<rparr>) outlets, [])
      else if outlet_regex ''.type'' True k
      then (put_outlet (getOutletNumber k) (\<lambda>y. y\<lparr> otype := v, type_r := ro \<rparr>) outlets, [])
      else
        (if outlet_regex ''.switchable'' False k then map_emplace (getOutletNumber k) Outlet_new outlets
         else if k = ''outlet.switchable'' then map_emplace ''0'' Outlet_new outlets
         else if k = ''outlet.label'' then put_outlet ''0'' (\<lambda>y. y\<lparr> label := v, label_r := ro \<rparr>) outlets
         else outlets, [ext_si k v ro]))"

fun attributes_loop :: "ext_map \<Rightarrow> (string \<times> Outlet) list \<Rightarrow> (string \<times> Outlet) list \<times> si list" where
  "attributes_loop [] outlets = (outlets, [])"
| "attributes_loop ((k, v, ro) # exts) outlets =
     (case attribute_step k v ro outlets of (outlets, shown) \<Rightarrow>
      case attributes_loop exts outlets of (outlets, shown') \<Rightarrow> (outlets, shown @ shown'))"

definition ips_si :: "ext_map \<Rightarrow> si list" where
  "ips_si exts = map (\<lambda>(k, v, ro). leaf '''' v) (filter (\<lambda>(k, v, ro). is_ip k) exts)"

subsection \<open>An asset\<close>

fun powers_si ::
  "('d, 'h) export_db \<Rightarrow> (string \<times> string \<times> string) list \<Rightarrow> 'd \<Rightarrow> export_exn + si list" where
  "powers_si D [] d = Inr []"
| "powers_si D ((s, plug_src, input) # ls) d =
     bindE (checked (name_to_extname D s d)) (\<lambda>source.
     bindE (powers_si D ls d) (\<lambda>ms.
       Inr (object '''' [leaf ''src_name'' source, leaf ''src_id'' s, leaf ''src_socket'' plug_src,
                        leaf ''dest_socket'' input] # ms)))"

definition location_type :: "('d, 'h) export_db \<Rightarrow> nat \<Rightarrow> 'd \<Rightarrow> string" where
  \<comment> \<open>\<open>get_item1(id_parent_num).item.basic.type_name\<close>: set by the first query of \<open>get_item1\<close>, whatever
     becomes of the others, and empty before\<close>
  "location_type D i d =
     (if i = 0 then ''''
      else case connected (manager_db.truncate D) (select_asset_element_web_byId D i d) of
             Inr (Item b) \<Rightarrow> be_type_name b | _ \<Rightarrow> '''')"

definition asset_object ::
  "string \<Rightarrow> string \<Rightarrow> web_row \<Rightarrow> string \<Rightarrow> string \<times> string \<Rightarrow> string \<Rightarrow> string \<Rightarrow> si list \<Rightarrow> ext_map \<Rightarrow> si" where
  \<comment> \<open>from the names, the row, the priority, the names of the parent, its type, the subtype, the power_list and the
     attributes\<close>
  "asset_object iname ename r prio parent_names parent_type subtype_name power_list exts =
     (let location_id = fst parent_names; location = snd parent_names;
          outlets = fst (attributes_loop exts []); shown = snd (attributes_loop exts []);
          tag = text_of (w_asset_tag r)
      in object ''''
            ([leaf ''id'' iname,
              leaf ''power_devices_in_uri''
                (''/api/v1/assets?in='' @ iname @ ''&sub_type=epdu,pdu,feed,genset,ups,sts,rackcontroller''),
              leaf ''name'' ename, leaf ''status'' (text_of (w_status r)), leaf ''priority'' prio,
              leaf ''type'' (text_of (w_type_name r))] @
             (if location \<noteq> ''''
              then [leaf ''location_uri'' (''/api/v1/asset/'' @ location_id), leaf ''location_id'' location_id] else []) @
             [leaf ''location'' location, leaf ''location_type'' parent_type,
              array ''groups'' [], leaf ''sub_type'' subtype_name, array ''parents'' [],
              array ''powers'' power_list,
              array ''ext'' ((if tag \<noteq> '''' then [ext_si ''asset_tag'' tag False] else []) @ shown),
              array ''ips'' (ips_si exts)] @
             (if outlets \<noteq> [] then [object ''outlets'' (map outlet_si outlets)] else [])))"

definition asset_json ::
  "('d, 'h) export_db \<Rightarrow> string list option \<Rightarrow> web_row \<Rightarrow> 'd \<Rightarrow> export_exn + si option" where
  \<comment> \<open>one call of the callback; nothing for an asset that is not requested\<close>
  "asset_json D listElements r d =
     bindE (asset_names D r d) (\<lambda>(id_num, iname, ename).
     if listElements = None \<or> iname \<notin> set (the listElements) then Inr None
     else
       let id_parent_num = (case w_parent r of Some i \<Rightarrow> i | None \<Rightarrow> 0) in
       bindE (if id_parent_num > 0 then ask (id_to_name_ext_name D id_parent_num d) else Inr ('''', '''')) (\<lambda>location_names.
       bindE (checked (ext_attributes_map D id_num d)) (\<lambda>ext_attrs.
       bindE (checked (s_power_links D id_num d)) (\<lambda>power_links.
       bindE (checked (select_group_names D id_num d)) (\<lambda>_.
       bindE (powers_si D power_links d) (\<lambda>power_list.
       bindE (logical_asset_name D (snd (subtype_cell r ext_attrs)) d) (\<lambda>ext_attrs'.
         Inr (Some (asset_object iname ename r (priority_cell D r) location_names
                      (location_type D id_parent_num d) (fst (subtype_cell r ext_attrs)) power_list ext_attrs')))))))))"

fun collect_assets ::
  "('d, 'h) export_db \<Rightarrow> string list option \<Rightarrow> 'd \<Rightarrow> web_row list \<Rightarrow> (si list, export_exn, unit) prog" where
  "collect_assets D listElements d [] ms = (Inr (), ms)"
| "collect_assets D listElements d (r # rs) ms =
     (case asset_json D listElements r d of
        Inl e \<Rightarrow> (Inl e, ms)
      | Inr None \<Rightarrow> collect_assets D listElements d rs ms
      | Inr (Some s) \<Rightarrow> collect_assets D listElements d rs (ms @ [s]))"

definition export_asset_json ::
  "('d, 'h) export_db \<Rightarrow> string list option \<Rightarrow> 'd \<Rightarrow> export_exn + si" where
  \<comment> \<open>the document written; an exception comes before anything is written\<close>
  "export_asset_json D listElements d =
     (if connect_error D \<noteq> None then Inl No_connection
      else case select_rows (callback_errors_caught D) (select_asset_element_all D d)
                  (collect_assets D listElements d) [] of
             (Inl e, _) \<Rightarrow> Inl e
           | (Inr rv, ms) \<Rightarrow> if rv \<noteq> 0 then Inl No_connection else Inr (array '''' ms))"

subsection \<open>Reading an exported asset\<close>

text \<open>
  A step of the reader that appends columns, whatever the table so far.
\<close>

definition adds :: "(string \<times> string) list \<Rightarrow> (table \<Rightarrow> csv_exn + table) \<Rightarrow> bool" where
  "adds cs f \<longleftrightarrow> (\<forall>ts vs. f [ts, vs] = Inr [ts @ map fst cs, vs @ map snd cs])"

named_theorems adds_intros \<open>the columns every step of the reader appends\<close>

lemma adds_Inr [adds_intros]: "adds [] Inr"
  by (simp add: adds_def)

lemma adds_push2 [adds_intros]: "adds [(t, v)] (\<lambda>d. Inr (push2 t v d))"
  by (simp add: adds_def push2_def)

lemma adds_bind: "adds c1 f \<Longrightarrow> adds c2 g \<Longrightarrow> adds (c1 @ c2) (\<lambda>d. bindE (f d) g)"
  by (simp add: adds_def)

lemma adds_push_then: "adds cs f \<Longrightarrow> adds ((t, v) # cs) (\<lambda>d. f (push2 t v d))"
  by (simp add: adds_def push2_def)

definition reads_values :: "(si \<Rightarrow> csv_exn + string) \<Rightarrow> (si \<Rightarrow> csv_exn + bool) \<Rightarrow> bool" where
  \<comment> \<open>the documented conversions of the nodes an export makes\<close>
  "reads_values gs gb \<longleftrightarrow> (\<forall>n v. gs (leaf n v) = Inr v) \<and> (\<forall>n b. gb (flag n b) = Inr b)"

lemma si_name_simps [simp]:
  "si_name (leaf n v) = n" "si_name (flag n b) = n" "si_name (object n ms) = n" "si_name (array n ms) = n"
  "si_category (object n ms) = Object" "si_category (array n ms) = Array"
  "si_members (object n ms) = ms" "si_members (array n ms) = ms"
  by (simp_all add: leaf_def flag_def object_def array_def)

fun power_columns :: "nat \<Rightarrow> (string \<times> string \<times> string \<times> string) list \<Rightarrow> (string \<times> string) list" where
  "power_columns i [] = []"
| "power_columns i ((source, s, plug_src, input) # ps) =
     (''power_source.'' @ to_string i, source) # (''power_plug_src.'' @ to_string i, plug_src) #
     (''power_input.'' @ to_string i, input) # power_columns (i + 1) ps"

definition power_si :: "string \<times> string \<times> string \<times> string \<Rightarrow> si" where
  "power_si p = (case p of (source, s, plug_src, input) \<Rightarrow>
     object '''' [leaf ''src_name'' source, leaf ''src_id'' s, leaf ''src_socket'' plug_src, leaf ''dest_socket'' input])"

lemma powers_si_are: "powers_si D ls d = Inr ms \<Longrightarrow> \<exists>ps. ms = map power_si ps"
proof (induction D ls d arbitrary: ms rule: powers_si.induct)
  case (2 D s plug_src input ls d)
  then obtain source ms' where "checked (name_to_extname D s d) = Inr source" "powers_si D ls d = Inr ms'"
    and ms: "ms = power_si (source, s, plug_src, input) # ms'"
    by (auto simp: bindE_eq_Inr_iff power_si_def)
  with 2 obtain ps where "ms' = map power_si ps" by blast
  with ms show ?case by (intro exI [of _ "(source, s, plug_src, input) # ps"]) simp
qed simp

lemma powers_loop_adds:
  assumes "reads_values gs gb"
  shows "adds (power_columns i ps) (powers_loop gs i (map power_si ps))"
  unfolding adds_def
proof (intro allI, induction i ps rule: power_columns.induct)
  case (2 i source s plug_src input ps)
  have f: "findMember (power_si (source, s, plug_src, input)) ''src_name'' = Some (leaf ''src_name'' source)"
    "findMember (power_si (source, s, plug_src, input)) ''src_socket'' = Some (leaf ''src_socket'' plug_src)"
    "findMember (power_si (source, s, plug_src, input)) ''dest_socket'' = Some (leaf ''dest_socket'' input)"
    by (simp_all add: findMember_def power_si_def)
  show ?case using assms 2 by (simp add: f reads_values_def push2_def)
qed simp

fun value_columns :: "string \<Rightarrow> nat \<Rightarrow> string list \<Rightarrow> (string \<times> string) list" where
  "value_columns prefix i [] = []"
| "value_columns prefix i (v # vs) = (prefix @ to_string i, v) # value_columns prefix (i + 1) vs"

lemma values_loop_adds:
  assumes "reads_values gs gb"
  shows "adds (value_columns p i vs) (values_loop gs p i (map (leaf '''') vs))"
  unfolding adds_def
  by (intro allI, induction p i vs rule: value_columns.induct) (use assms in \<open>simp_all add: reads_values_def push2_def\<close>)

definition ext_columns :: "(string \<times> string \<times> bool) list \<Rightarrow> (string \<times> string) list" where
  "ext_columns xs = map (\<lambda>(k, v, ro). (k, v)) (filter (\<lambda>(k, v, ro). k \<noteq> ''read_only'') xs)"

lemma ext_array_loop_adds:
  assumes "reads_values gs gb"
  shows "adds (ext_columns xs) (ext_array_loop gs (map (\<lambda>(k, v, ro). ext_si k v ro) xs))"
  unfolding adds_def
proof (intro allI, induction xs)
  case (Cons x xs)
  obtain k v ro where x: "x = (k, v, ro)" by (cases x) auto
  show ?case using Cons assms by (simp add: x ext_columns_def ext_si_def reads_values_def push2_def)
qed (simp add: ext_columns_def)

definition outlet_columns :: "string \<times> Outlet \<Rightarrow> (string \<times> string) list" where
  "outlet_columns x = (case x of (n, y) \<Rightarrow>
     [(''outlet.'' @ n @ ''.label'', if label y \<noteq> '''' then label y else n)] @
     (if ogroup y \<noteq> '''' then [(''outlet.'' @ n @ ''.group'', ogroup y)] else []) @
     (if otype y \<noteq> '''' then [(''outlet.'' @ n @ ''.type'', otype y)] else []))"

lemma outlet_attr_adds:
  assumes "reads_values gs gb" and "adds cs (oneOutlet_loop gs gb n attrs)"
  shows "adds ((''outlet.'' @ n @ ''.'' @ a, v) # cs)
     (oneOutlet_loop gs gb n (object '''' [leaf ''name'' a, leaf ''value'' v, flag ''read_only'' ro] # attrs))"
  using assms by (simp add: adds_def reads_values_def getMember_def findMember_def push2_def)

lemma outlets_loop_adds:
  assumes "reads_values gs gb"
  shows "adds (concat (map outlet_columns outlets)) (outlets_loop gs gb (map outlet_si outlets))"
proof (induction outlets)
  case (Cons x outlets)
  obtain n y where x: "x = (n, y)" by (cases x) auto
  have nil: "adds [] (oneOutlet_loop gs gb n [])" by (simp add: adds_def)
  note attr = outlet_attr_adds [OF assms]
  have "adds (outlet_columns x) (oneOutlet_loop gs gb n (si_members (outlet_si x)))"
    using attr [OF attr [OF attr [OF nil, where a = "''type''"], where a = "''group''"], where a = "''label''"]
      attr [OF attr [OF nil, where a = "''group''"], where a = "''label''"] attr [OF attr [OF nil, where a = "''type''"], where a = "''label''"]
      attr [OF nil, where a = "''label''"]
    by (simp add: x outlet_columns_def outlet_si_def)
  then have "adds (outlet_columns x) (process_oneOutlet gs gb (outlet_si x))"
    by (simp add: process_oneOutlet_def adds_def x outlet_si_def)
  from adds_bind [OF this Cons.IH] show ?case by (simp add: adds_def)
qed (simp add: adds_def)

lemma adds_leaf:
  assumes "reads_values gs gb" and "n \<notin> set special_keys" and "adds cs (read_loop gs gb s its)"
  shows "adds ((n, v) # cs) (read_loop gs gb s (leaf n v # its))"
  using assms by (simp add: adds_def read_loop_Cons read_key_plain reads_values_def push2_def)

lemma adds_skip:
  assumes "si_name it \<in> set ignored_keys" and "adds cs (read_loop gs gb s its)"
  shows "adds cs (read_loop gs gb s (it # its))"
proof -
  have "read_key gs gb s it d = Inr d" for d
    unfolding read_key_def using assms(1) by (auto simp: read_loop.simps(2) ignored_keys_def Let_def)
  with assms(2) show ?thesis by (simp add: adds_def read_loop_Cons)
qed

lemma adds_key:
  assumes "adds c1 (read_key gs gb s it)" and "adds c2 (read_loop gs gb s its)"
  shows "adds (c1 @ c2) (read_loop gs gb s (it # its))"
  using adds_bind [OF assms] by (simp add: adds_def read_loop_Cons)

lemma special_steps:
  assumes "reads_values gs gb"
  shows "findMember s ''groups'' = Some (array ''groups'' []) \<Longrightarrow> adds [] (read_key gs gb s (array ''groups'' []))"
    and "findMember s ''powers'' = Some (array ''powers'' (map power_si ps)) \<Longrightarrow>
      adds (power_columns 1 ps) (read_key gs gb s (array ''powers'' (map power_si ps)))"
    and "findMember s ''ext'' = Some (array ''ext'' (map (\<lambda>(k, v, ro). ext_si k v ro) xs)) \<Longrightarrow>
      adds (ext_columns xs) (read_key gs gb s (array ''ext'' (map (\<lambda>(k, v, ro). ext_si k v ro) xs)))"
    and "findMember s ''ips'' = Some (array ''ips'' (map (leaf '''') vs)) \<Longrightarrow>
      adds (value_columns ''ip.'' 1 vs) (read_key gs gb s (array ''ips'' (map (leaf '''') vs)))"
    and "findMember s ''outlets'' = Some (object ''outlets'' (map outlet_si outlets)) \<Longrightarrow>
      adds (concat (map outlet_columns outlets)) (read_key gs gb s (object ''outlets'' (map outlet_si outlets)))"
  using powers_loop_adds [OF assms] ext_array_loop_adds [OF assms] values_loop_adds [OF assms] outlets_loop_adds [OF assms]
  by (simp_all add: adds_def read_key_def read_loop.simps(2) ignored_keys_def getMember_def process_groups_key_def
      process_powers_key_def process_ext_key.simps process_ips_key_def process_outlets_key_def)

lemma find_distinct:
  "distinct (map f xs) \<Longrightarrow> x \<in> set xs \<Longrightarrow> find (\<lambda>y. f y = f x) xs = Some x"
proof (induction xs)
  case (Cons y ys)
  then show ?case by (cases "f y = f x") (auto simp: image_iff)
qed simp

lemma findMember_distinct:
  "distinct (map si_name ms) \<Longrightarrow> it \<in> set ms \<Longrightarrow> findMember (object n ms) (si_name it) = Some it"
  using find_distinct [of si_name ms it] by (simp add: findMember_def)

text \<open>The members of an exported asset, and the columns they are read as.\<close>

definition members_of ::
  "(string \<Rightarrow> string) \<Rightarrow> (string \<times> string) option \<Rightarrow> (string \<times> string \<times> string \<times> string) list \<Rightarrow>
     (string \<times> string \<times> bool) list \<Rightarrow> string list \<Rightarrow> (string \<times> Outlet) list \<Rightarrow> si list" where
  "members_of f loc ps xs vs outlets =
     [leaf ''id'' (f ''id''), leaf ''power_devices_in_uri'' (f ''power_devices_in_uri''), leaf ''name'' (f ''name''),
      leaf ''status'' (f ''status''), leaf ''priority'' (f ''priority''), leaf ''type'' (f ''type'')] @
     (case loc of None \<Rightarrow> [] | Some (u, i) \<Rightarrow> [leaf ''location_uri'' u, leaf ''location_id'' i]) @
     [leaf ''location'' (f ''location''), leaf ''location_type'' (f ''location_type''), array ''groups'' [],
      leaf ''sub_type'' (f ''sub_type''), array ''parents'' [], array ''powers'' (map power_si ps),
      array ''ext'' (map (\<lambda>(k, v, ro). ext_si k v ro) xs), array ''ips'' (map (leaf '''') vs)] @
     (if outlets \<noteq> [] then [object ''outlets'' (map outlet_si outlets)] else [])"

definition columns_of ::
  "(string \<Rightarrow> string) \<Rightarrow> (string \<times> string \<times> string \<times> string) list \<Rightarrow> (string \<times> string \<times> bool) list \<Rightarrow> string list \<Rightarrow>
     (string \<times> Outlet) list \<Rightarrow> (string \<times> string) list" where
  "columns_of f ps xs vs outlets =
     map (\<lambda>t. (t, f t)) [''id'', ''name'', ''status'', ''priority'', ''type'', ''location'', ''location_type'', ''sub_type''] @
     power_columns 1 ps @ ext_columns xs @ value_columns ''ip.'' 1 vs @ concat (map outlet_columns outlets)"

lemma distinct_members: "distinct (map si_name (members_of f loc ps xs vs outlets))"
  by (cases loc) (auto simp: members_of_def)

lemma plain_names:
  "\<forall>n \<in> {''id'', ''name'', ''status'', ''priority'', ''type'', ''location'', ''location_type'', ''sub_type''}.
     n \<notin> set special_keys"
  "\<forall>n \<in> {''power_devices_in_uri'', ''location_uri'', ''location_id'', ''parents''}. n \<in> set ignored_keys"
  by code_simp+

lemma read_members:
  assumes "reads_values gs gb"
  shows "s_read_si gs gb (object '''' (members_of f loc ps xs vs outlets)) [[], []] =
     Inr [map fst (columns_of f ps xs vs outlets), map snd (columns_of f ps xs vs outlets)]"
proof -
  let ?ms = "members_of f loc ps xs vs outlets"
  obtain s where s: "s = object '''' ?ms" by blast
  note found = findMember_distinct [OF distinct_members, of _ f loc ps xs vs outlets "''''"]
  have find: "findMember s ''groups'' = Some (array ''groups'' [])"
    "findMember s ''powers'' = Some (array ''powers'' (map power_si ps))"
    "findMember s ''ext'' = Some (array ''ext'' (map (\<lambda>(k, v, ro). ext_si k v ro) xs))"
    "findMember s ''ips'' = Some (array ''ips'' (map (leaf '''') vs))"
    "outlets \<noteq> [] \<Longrightarrow> findMember s ''outlets'' = Some (object ''outlets'' (map outlet_si outlets))"
    using found [of "array ''groups'' []"] found [of "array ''powers'' (map power_si ps)"]
      found [of "array ''ext'' (map (\<lambda>(k, v, ro). ext_si k v ro) xs)"] found [of "array ''ips'' (map (leaf '''') vs)"]
      found [of "object ''outlets'' (map outlet_si outlets)"]
    unfolding s by (simp_all add: members_of_def)
  note steps = special_steps [OF assms, where s = s]
  note leaf = adds_leaf [OF assms, where s = s]
  have last_step: "adds (concat (map outlet_columns outlets))
      (read_loop gs gb s (if outlets \<noteq> [] then [object ''outlets'' (map outlet_si outlets)] else []))"
  proof (cases "outlets = []")
    case False
    have "adds [] (read_loop gs gb s [])" by (simp add: adds_def)
    from adds_key [OF steps(5) [OF find(5) [OF False]] this] False show ?thesis by simp
  qed (simp add: adds_def)
  have tail: "adds ((''location'', f ''location'') # (''location_type'', f ''location_type'') # (''sub_type'', f ''sub_type'') #
        power_columns 1 ps @ ext_columns xs @ value_columns ''ip.'' 1 vs @ concat (map outlet_columns outlets))
      (read_loop gs gb s ([leaf ''location'' (f ''location''), leaf ''location_type'' (f ''location_type''),
        array ''groups'' [], leaf ''sub_type'' (f ''sub_type''), array ''parents'' [], array ''powers'' (map power_si ps),
        array ''ext'' (map (\<lambda>(k, v, ro). ext_si k v ro) xs), array ''ips'' (map (leaf '''') vs)] @
        (if outlets \<noteq> [] then [object ''outlets'' (map outlet_si outlets)] else [])))"
    unfolding append_Cons append_Nil
    by (intro leaf adds_skip adds_key [OF steps(1) [OF find(1)], simplified append_Nil]
        adds_key [OF steps(2) [OF find(2)]] adds_key [OF steps(3) [OF find(3)]] adds_key [OF steps(4) [OF find(4)]] last_step)
      (use plain_names in simp_all)
  let ?loc = "case loc of None \<Rightarrow> [] | Some (u, i) \<Rightarrow> [leaf ''location_uri'' u, leaf ''location_id'' i]"
  have skip: "adds cs (read_loop gs gb s its) \<Longrightarrow> adds cs (read_loop gs gb s (?loc @ its))" for cs its
    using plain_names(2) by (cases loc) (auto intro!: adds_skip)
  have n: "''id'' \<notin> set special_keys" "''name'' \<notin> set special_keys" "''status'' \<notin> set special_keys"
    "''priority'' \<notin> set special_keys" "''type'' \<notin> set special_keys"
    and i: "si_name (leaf ''power_devices_in_uri'' (f ''power_devices_in_uri'')) \<in> set ignored_keys"
    using plain_names by simp_all
  have "adds (columns_of f ps xs vs outlets) (read_loop gs gb s ?ms)"
    unfolding members_of_def columns_of_def list.map append_Cons append_Nil
    by (rule leaf [OF n(1) adds_skip [OF i leaf [OF n(2) leaf [OF n(3) leaf [OF n(4) leaf [OF n(5)
          skip [OF tail [unfolded append_Cons append_Nil]]]]]]]])
  then show ?thesis by (simp add: s_read_si.simps adds_def s)
qed

subsection \<open>The exported object\<close>

definition shown_key :: "string \<Rightarrow> bool" where
  \<comment> \<open>an attribute that is listed under \<open>ext\<close>\<close>
  "shown_key k \<longleftrightarrow> k \<noteq> ''name'' \<and> \<not> is_ip k \<and> k \<noteq> ''location_type'' \<and> \<not> outlet_regex ''.label'' True k \<and>
     \<not> outlet_regex ''.group'' True k \<and> \<not> outlet_regex ''.type'' True k"

lemma attributes_loop_shown:
  "snd (attributes_loop exts outlets) = map (\<lambda>(k, v, ro). ext_si k v ro) (filter (\<lambda>(k, v, ro). shown_key k) exts)"
proof (induction exts outlets rule: attributes_loop.induct)
  case (2 k v ro exts outlets)
  obtain o1 shown where step: "attribute_step k v ro outlets = (o1, shown)" by force
  have "shown = (if shown_key k then [ext_si k v ro] else [])"
    using step by (auto simp: attribute_step_def shown_key_def split: if_splits)
  moreover obtain o2 shown' where "attributes_loop exts o1 = (o2, shown')" by force
  ultimately show ?case using 2 step by simp
qed simp

lemma asset_json_members:
  assumes "asset_json D (Some els) r d = Inr (Some s)"
  obtains f loc ps xs vs outlets i iname ename exts exts' where
    "asset_names D r d = Inr (i, iname, ename)" and "iname \<in> set els" and "ext_attributes_map D i d = Inr (0, exts)"
    and "logical_asset_name D (snd (subtype_cell r exts)) d = Inr exts'"
    and "s = object '''' (members_of f loc ps xs vs outlets)"
    and "f ''id'' = iname" and "f ''name'' = ename" and "f ''status'' = text_of (w_status r)"
    and "f ''priority'' = priority_cell D r" and "f ''type'' = text_of (w_type_name r)"
    and "f ''sub_type'' = fst (subtype_cell r exts)"
    and "xs = (if text_of (w_asset_tag r) \<noteq> '''' then [(''asset_tag'', text_of (w_asset_tag r), False)] else []) @
           filter (\<lambda>(k, v, ro). shown_key k) exts'"
    and "vs = map (fst \<circ> snd) (filter (is_ip \<circ> fst) exts')"
proof -
  from assms obtain i iname ename where names: "asset_names D r d = Inr (i, iname, ename)" by (auto simp: asset_json_def bindE_eq_Inr_iff)
  have listed: "iname \<in> set els" using assms names by (auto simp: asset_json_def split: if_splits)
  let ?tag = "text_of (w_asset_tag r)"
  from assms names listed obtain loc_names loc_type exts power_list exts' where
    exts: "ext_attributes_map D i d = Inr (0, exts)" and power_list: "\<exists>ls. powers_si D ls d = Inr power_list"
    and la: "logical_asset_name D (snd (subtype_cell r exts)) d = Inr exts'"
    and s: "s = asset_object iname ename r (priority_cell D r) loc_names loc_type (fst (subtype_cell r exts)) power_list exts'"
    unfolding asset_json_def Let_def by (fastforce simp: bindE_eq_Inr_iff)
  from power_list obtain ls where "powers_si D ls d = Inr power_list" by blast
  then obtain ps where ps: "power_list = map power_si ps" using powers_si_are by metis
  let ?xs = "(if ?tag \<noteq> '''' then [(''asset_tag'', ?tag, False)] else []) @ filter (\<lambda>(k, v, ro). shown_key k) exts'"
  let ?vs = "map (fst \<circ> snd) (filter (is_ip \<circ> fst) exts')"
  let ?f = "(\<lambda>_. '''')(''id'' := iname, ''power_devices_in_uri'' :=
      ''/api/v1/assets?in='' @ iname @ ''&sub_type=epdu,pdu,feed,genset,ups,sts,rackcontroller'', ''name'' := ename,
      ''status'' := text_of (w_status r), ''priority'' := priority_cell D r, ''type'' := text_of (w_type_name r),
      ''location'' := snd loc_names, ''location_type'' := loc_type, ''sub_type'' := fst (subtype_cell r exts))"
  let ?loc = "if snd loc_names \<noteq> '''' then Some (''/api/v1/asset/'' @ fst loc_names, fst loc_names) else None"
  have "ips_si exts' = map (leaf '''') ?vs"
    by (auto simp: ips_si_def comp_def case_prod_unfold)
  then have "s = object '''' (members_of ?f ?loc ps ?xs ?vs (fst (attributes_loop exts' [])))"
    unfolding s ps members_of_def asset_object_def Let_def by (simp add: attributes_loop_shown)
  with names listed exts la show thesis by (rule that) simp_all
qed

lemma value_columns_nth: "j < length vs \<Longrightarrow> (p @ to_string (i + j), vs ! j) \<in> set (value_columns p i vs)"
proof (induction p i vs arbitrary: j rule: value_columns.induct)
  case (2 p i v vs)
  then show ?case by (cases j) auto
qed simp

lemma collect_assets_ids:
  "collect_assets D els d rs ms = (x, ms') \<Longrightarrow>
     \<exists>new. ms' = ms @ new \<and> (\<forall>m \<in> set new. \<exists>L r. els = Some L \<and> r \<in> set rs \<and> asset_json D (Some L) r d = Inr (Some m))"
proof (induction rs arbitrary: ms)
  case (Cons r rs)
  show ?case
  proof (cases "asset_json D els r d")
    case (Inr q)
    show ?thesis
    proof (cases q)
      case None
      with Cons Inr show ?thesis by fastforce
    next
      case (Some m)
      with Inr obtain L where L: "els = Some L" by (cases els) (auto simp: asset_json_def bindE_eq_Inr_iff)
      from Cons.prems Inr Some have "collect_assets D els d rs (ms @ [m]) = (x, ms')" by simp
      from Cons.IH [OF this] obtain new where "ms' = (ms @ [m]) @ new"
        and "\<forall>m \<in> set new. \<exists>L r. els = Some L \<and> r \<in> set rs \<and> asset_json D (Some L) r d = Inr (Some m)" by blast
      with L Inr Some show ?thesis by (intro exI [of _ "m # new"]) auto
    qed
  qed (use Cons in simp)
qed simp

definition sample_reader :: "si \<Rightarrow> csv_exn + bool" where
  "sample_reader s = Inr (si_value s = ''true'')"

lemma plain_reads_values: "reads_values plain_getString sample_reader"
  by (simp add: reads_values_def plain_getString_def sample_reader_def leaf_def flag_def)

subsection \<open>Properties\<close>

lemma columns_of_shown:
  assumes "(k, v, ro) \<in> set exts" and "shown_key k \<and> k \<noteq> ''read_only''"
    and "xs = tag @ filter (\<lambda>(k, v, ro). shown_key k) exts"
  shows "(k, v) \<in> set (columns_of f ps xs vs outlets)"
proof -
  have "(k, v) \<in> set (ext_columns xs)" using assms by (force simp: ext_columns_def)
  then show ?thesis by (simp add: columns_of_def)
qed

lemma columns_of_numbered:
  "j < length vs \<Longrightarrow> (''ip.'' @ to_string (j + 1), vs ! j) \<in> set (columns_of f ps xs vs outlets)"
  using value_columns_nth [of j vs "''ip.''" 1] by (simp add: columns_of_def)

text \<open>A table made from these columns lacks no mandatory one and has the name.\<close>

lemma columns_of_table:
  assumes "CsvMap_from_serialization_info gs gb s = Inr cm"
    and "s_read_si gs gb s [[], []] = Inr [map fst (columns_of f ps xs vs outlets), map snd (columns_of f ps xs vs outlets)]"
    and "f ''name'' = ename"
  shows "mandatory_missing cm = '''' \<and> get cm 1 ''name'' = Inr ename"
proof -
  let ?cs = "columns_of f ps xs vs outlets"
  from from_si_deserialized [OF assms(1)] assms(2) have des: "deserialized [map fst ?cs, map snd ?cs] cm" by auto
  have "set MANDATORY \<subseteq> ci_strip ` {''name'', ''type'', ''sub_type'', ''location'', ''status'', ''priority''}" by code_simp
  also have "\<dots> \<subseteq> set (getTitles cm)"
    unfolding titles_of_deserialized [OF des] by (rule image_mono) (auto simp: columns_of_def)
  finally have "mandatory_missing cm = ''''" by (rule no_title_missing)
  moreover have "(''name'', ename) \<in> set ?cs" by (simp add: columns_of_def assms(3))
  then have "get cm 1 ''name'' = Inr ename"
    by (intro csv_cell [OF des]) (simp_all add: zip_map_fst_snd)
  ultimately show ?thesis ..
qed

text \<open>C27. The table the import makes from an exported asset has the asset's columns: its names, status,
  priority, type and subtype, every attribute listed under \<open>ext\<close> with its value, and the values of the
  attributes \<open>ip.x\<close> under \<open>ip.1\<close>, \<open>ip.2\<close>, \<open>\<dots>\<close> in the order of their keys; no mandatory column is missing.\<close>

theorem exported_json_read_back:
  assumes "asset_json D (Some els) r d = Inr (Some s)" and "reads_values gs gb"
  shows "\<exists>i iname ename exts exts' cs. asset_names D r d = Inr (i, iname, ename) \<and> ext_attributes_map D i d = Inr (0, exts) \<and>
     logical_asset_name D (snd (subtype_cell r exts)) d = Inr exts' \<and>
     s_read_si gs gb s [[], []] = Inr [map fst cs, map snd cs] \<and>
     {(''id'', iname), (''name'', ename), (''status'', text_of (w_status r)), (''priority'', priority_cell D r),
      (''type'', text_of (w_type_name r)), (''sub_type'', fst (subtype_cell r exts))} \<subseteq> set cs \<and>
     (\<forall>(k, v, ro) \<in> set exts'. shown_key k \<and> k \<noteq> ''read_only'' \<longrightarrow> (k, v) \<in> set cs) \<and>
     (let vs = map (fst \<circ> snd) (filter (is_ip \<circ> fst) exts')
      in \<forall>j < length vs. (''ip.'' @ to_string (j + 1), vs ! j) \<in> set cs) \<and>
     (\<forall>cm. CsvMap_from_serialization_info gs gb s = Inr cm \<longrightarrow>
        mandatory_missing cm = '''' \<and> get cm 1 ''name'' = Inr ename)"
proof -
  obtain f loc ps xs vs outlets i iname ename exts exts' where
    names: "asset_names D r d = Inr (i, iname, ename)" and exts: "ext_attributes_map D i d = Inr (0, exts)"
    and la: "logical_asset_name D (snd (subtype_cell r exts)) d = Inr exts'"
    and s: "s = object '''' (members_of f loc ps xs vs outlets)"
    and f: "f ''id'' = iname" "f ''name'' = ename" "f ''status'' = text_of (w_status r)" "f ''priority'' = priority_cell D r"
      "f ''type'' = text_of (w_type_name r)" "f ''sub_type'' = fst (subtype_cell r exts)"
    and xs: "xs = (if text_of (w_asset_tag r) \<noteq> '''' then [(''asset_tag'', text_of (w_asset_tag r), False)] else []) @
           filter (\<lambda>(k, v, ro). shown_key k) exts'"
    and vs: "vs = map (fst \<circ> snd) (filter (is_ip \<circ> fst) exts')"
    by (rule asset_json_members [OF assms(1)])
  let ?cs = "columns_of f ps xs vs outlets"
  have read: "s_read_si gs gb s [[], []] = Inr [map fst ?cs, map snd ?cs]" unfolding s by (rule read_members [OF assms(2)])
  have base: "{(''id'', iname), (''name'', ename), (''status'', text_of (w_status r)), (''priority'', priority_cell D r),
      (''type'', text_of (w_type_name r)), (''sub_type'', fst (subtype_cell r exts))} \<subseteq> set ?cs"
    by (auto simp: columns_of_def f)
  have listed: "\<forall>(k, v, ro) \<in> set exts'. shown_key k \<and> k \<noteq> ''read_only'' \<longrightarrow> (k, v) \<in> set ?cs"
    using columns_of_shown [OF _ _ xs] by blast
  let ?vs = "map (fst \<circ> snd) (filter (is_ip \<circ> fst) exts')"
  have ips: "\<forall>j < length ?vs. (''ip.'' @ to_string (j + 1), ?vs ! j) \<in> set ?cs"
    unfolding vs [symmetric] using columns_of_numbered by blast
  have table: "\<forall>cm. CsvMap_from_serialization_info gs gb s = Inr cm \<longrightarrow>
      mandatory_missing cm = '''' \<and> get cm 1 ''name'' = Inr ename"
    using columns_of_table [OF _ read f(2)] by blast
  show ?thesis
    unfolding Let_def
    by (rule exI [of _ i], rule exI [of _ iname], rule exI [of _ ename], rule exI [of _ exts], rule exI [of _ exts'],
        rule exI [of _ ?cs])
      (intro conjI names exts la read base listed ips table)
qed

text \<open>A JSON export lists requested assets only: every member of the document is the object of an
  asset of the query whose internal name is in the given set; without a set, the default of the
  header, the document is empty.\<close>

theorem exported_json_only_requested:
  assumes "export_asset_json D els d = Inr doc"
  shows "(\<forall>m \<in> set (si_members doc). \<exists>L r i iname ename. els = Some L \<and> asset_names D r d = Inr (i, iname, ename) \<and>
            iname \<in> set L \<and> asset_json D (Some L) r d = Inr (Some m)) \<and>
         (els = None \<longrightarrow> doc = array '''' [])"
proof -
  from assms obtain ms rs where doc: "doc = array '''' ms" and "\<exists>x. collect_assets D els d rs [] = (x, ms)"
    by (auto simp: export_asset_json_def select_rows_def split: if_splits sum.splits prod.splits)
  then have "\<forall>m \<in> set ms. \<exists>L r. els = Some L \<and> asset_json D (Some L) r d = Inr (Some m)"
    using collect_assets_ids by fastforce
  moreover have "\<exists>i iname ename. asset_names D r d = Inr (i, iname, ename) \<and> iname \<in> set L"
    if "asset_json D (Some L) r d = Inr (Some m)" for L r m
    using asset_json_members [OF that] by metis
  ultimately show ?thesis unfolding doc by (auto, metis)
qed

theorem exported_json_read_back_witness:
  "\<exists>s cm. asset_json (sample_export []) (Some [''ups-12'']) (export_row 12 (Some 1) ''device'' ''ups'') [] = Inr (Some s) \<and>
     CsvMap_from_serialization_info plain_getString sample_reader s = Inr cm \<and>
     mandatory_missing cm = '''' \<and> get cm 1 ''name'' = Inr ''UPS 12''"
proof -
  let ?r = "export_row 12 (Some 1) ''device'' ''ups''"
  have "case asset_json (sample_export []) (Some [''ups-12'']) ?r [] of
      Inr (Some s) \<Rightarrow> (case CsvMap_from_serialization_info plain_getString sample_reader s of Inr _ \<Rightarrow> True | Inl _ \<Rightarrow> False)
    | _ \<Rightarrow> False" by code_simp
  then obtain s where run: "asset_json (sample_export []) (Some [''ups-12'']) ?r [] = Inr (Some s)"
    and "CsvMap_from_serialization_info plain_getString sample_reader s \<notin> range Inl"
    by (auto split: sum.split_asm option.split_asm)
  then obtain cm where cm: "CsvMap_from_serialization_info plain_getString sample_reader s = Inr cm"
    by (cases "CsvMap_from_serialization_info plain_getString sample_reader s") auto
  have "asset_names (sample_export []) ?r [] = Inr (12, ''ups-12'', ''UPS 12'')" by code_simp
  with exported_json_read_back [OF run plain_reads_values] cm
  have "mandatory_missing cm = '''' \<and> get cm 1 ''name'' = Inr ''UPS 12''" by auto
  with run cm show ?thesis by blast
qed

theorem exported_json_only_requested_witness:
  "\<exists>doc. export_asset_json (sample_export []) (Some [''ups-12'', ''ups-99'']) [] = Inr doc \<and> length (si_members doc) = 1 \<and>
     (\<forall>m \<in> set (si_members doc). \<exists>L r. L = [''ups-12'', ''ups-99''] \<and> asset_json (sample_export []) (Some L) r [] = Inr (Some m)) \<and>
   export_asset_json (sample_export []) None [] = Inr (array '''' [])"
proof -
  let ?D = "sample_export []"
  have "case export_asset_json ?D (Some [''ups-12'', ''ups-99'']) [] of Inr doc \<Rightarrow> length (si_members doc) = 1 | Inl _ \<Rightarrow> False"
    "case export_asset_json ?D None [] of Inr doc \<Rightarrow> True | Inl _ \<Rightarrow> False"
    by code_simp+
  then obtain doc doc' where run: "export_asset_json ?D (Some [''ups-12'', ''ups-99'']) [] = Inr doc"
    "export_asset_json ?D None [] = Inr doc'" and one: "length (si_members doc) = 1" by (auto split: sum.splits)
  from exported_json_only_requested [OF run(1)] exported_json_only_requested [OF run(2)] run one
  show ?thesis by (intro exI [of _ doc]) fastforce
qed

end
