(* ===== verification/JsonText.thy ===== *)
theory JsonText
  imports Utils
begin

text \<open>
  JSON as text: a value and the texts that denote it (RFC 8259), for the functions that write JSON by
  appending to a string. A number, \<open>null\<close>, \<open>true\<close> or \<open>false\<close> is kept as its text.
\<close>

datatype json =
    JString string
  | JPlain string
  | JObject "(string \<times> json) list"
  | JArray "json list"

subsection \<open>Strings, numbers\<close>

definition blank :: "string \<Rightarrow> bool" where
  "blank w \<longleftrightarrow> set w \<subseteq> {CHR '' '', CHR 0x09, CHR 0x0A, CHR 0x0D}"

definition is_hex :: "char \<Rightarrow> bool" where
  "is_hex c \<longleftrightarrow> isdigit c \<or> c \<in> set ''abcdefABCDEF''"

definition hex_val :: "char \<Rightarrow> nat" where
  "hex_val c = (if isdigit c then char_code c - 48 else if char_code c \<ge> 97 then char_code c - 87 else char_code c - 55)"

definition unicode :: "string \<Rightarrow> string" where
  \<comment> \<open>the character of four hexadecimal digits; the characters here are bytes, so a code point above 255 keeps its
     escape (what the program writes escapes bytes only)\<close>
  "unicode h = (let n = foldl (\<lambda>a c. 16 * a + hex_val c) 0 h in if n < 256 then [char_of n] else CHR 0x5C # CHR ''u'' # h)"

fun unescape :: "string \<Rightarrow> string option" where
  \<comment> \<open>the characters a string literal stands for\<close>
  "unescape [] = Some []"
| "unescape (c # s) =
     (if c = CHR 0x5C
      then (case s of
              e # t \<Rightarrow>
                (case map_of [(CHR 0x22, CHR 0x22), (CHR 0x5C, CHR 0x5C), (CHR ''/'', CHR ''/''), (CHR ''b'', CHR 0x08),
                        (CHR ''f'', CHR 0x0C), (CHR ''n'', CHR 0x0A), (CHR ''r'', CHR 0x0D), (CHR ''t'', CHR 0x09)] e of
                   Some x \<Rightarrow> map_option ((#) x) (unescape t)
                 | None \<Rightarrow> if e = CHR ''u'' \<and> length t \<ge> 4 \<and> list_all is_hex (take 4 t)
                           then map_option ((@) (unicode (take 4 t))) (unescape (drop 4 t)) else None)
            | [] \<Rightarrow> None)
      else if c = CHR 0x22 \<or> char_code c < 32 then None
      else map_option ((#) c) (unescape s))"

definition literal_text :: "string \<Rightarrow> string \<Rightarrow> bool" where
  "literal_text s v \<longleftrightarrow> (\<exists>body. s = CHR 0x22 # body @ [CHR 0x22] \<and> unescape body = Some v)"

definition plain :: "string \<Rightarrow> bool" where
  \<comment> \<open>no character that a string literal has to escape\<close>
  "plain s \<longleftrightarrow> list_all (\<lambda>c. c \<noteq> CHR 0x22 \<and> c \<noteq> CHR 0x5C \<and> char_code c \<ge> 32) s"

definition in_quotes :: "string \<Rightarrow> string" where
  "in_quotes s = CHR 0x22 # s @ [CHR 0x22]"

lemma unescape_plain: "plain s \<Longrightarrow> unescape s = Some s"
  by (induction s) (auto simp: plain_def)

lemma literal_quoted [intro]: "plain s \<Longrightarrow> literal_text (in_quotes s) s"
  by (auto simp: literal_text_def in_quotes_def unescape_plain)

lemma plain_append [simp]: "plain (s @ t) \<longleftrightarrow> plain s \<and> plain t"
  by (simp add: plain_def)

lemma plain_Nil [simp]: "plain []"
  by (simp add: plain_def)

definition number_text :: "string \<Rightarrow> bool" where
  \<comment> \<open>a minus sign, digits without a leading zero, a fraction, an exponent\<close>
  "number_text s \<longleftrightarrow>
     (let t = (if starts_with s ''-'' then tl s else s); ds = takeWhile isdigit t; r = dropWhile isdigit t;
          fr = takeWhile isdigit (tl r); r' = (if starts_with r ''.'' then dropWhile isdigit (tl r) else r);
          x = (if r' \<noteq> [] \<and> hd (tl r' @ '' '') \<in> {CHR ''+'', CHR ''-''} then tl (tl r') else tl r')
      in ds \<noteq> [] \<and> (hd ds = CHR ''0'' \<longrightarrow> length ds = 1) \<and> (starts_with r ''.'' \<longrightarrow> fr \<noteq> []) \<and>
         (r' = [] \<or> hd r' \<in> {CHR ''e'', CHR ''E''} \<and> x \<noteq> [] \<and> list_all isdigit x))"

definition plain_value :: "string \<Rightarrow> bool" where
  "plain_value s \<longleftrightarrow> s \<in> {''null'', ''true'', ''false''} \<or> number_text s"

lemma to_string_list_all [simp]: "list_all isdigit (to_string n)"
  by (auto simp: list_all_iff dest: to_string_digits)

lemma hd_to_string: "hd (to_string n) = CHR ''0'' \<Longrightarrow> length (to_string n) = 1"
proof (induction n rule: to_string.induct)
  case (1 n)
  show ?case
  proof (cases "n < 10")
    case True
    then show ?thesis by (subst to_string.simps) simp
  next
    case False
    then have s: "to_string n = to_string (n div 10) @ [digit_char (n mod 10)]" by (subst to_string.simps) simp
    with 1(2) have "hd (to_string (n div 10)) = CHR ''0''" by simp
    with 1(1) False have "length (to_string (n div 10)) = 1" by simp
    then obtain c where c: "to_string (n div 10) = [c]" by (auto simp: length_Suc_conv)
    with \<open>hd (to_string (n div 10)) = CHR ''0''\<close> have "digits_val (to_string (n div 10)) = 0"
      by (simp add: digits_val_def digit_val_def char_code_def)
    with False show ?thesis by simp
  qed
qed

lemma number_to_string: "number_text (to_string n)"
proof -
  have digits: "takeWhile isdigit (to_string n) = to_string n" "dropWhile isdigit (to_string n) = []"
    using to_string_list_all [of n] by (auto simp: list_all_iff)
  have sign: "starts_with (to_string n) ''-'' = False" "starts_with [] ''.'' = False"
    using to_string_digits [of "CHR ''-''" n] by (auto simp: starts_with_iff isdigit_def char_code_def)
  show ?thesis
    by (simp only: number_text_def Let_def sign if_False digits) (simp add: hd_to_string)
qed

subsection \<open>Values\<close>

inductive value_text :: "string \<Rightarrow> json \<Rightarrow> bool"
  and members_text :: "string \<Rightarrow> (string \<times> json) list \<Rightarrow> bool"
  and elements_text :: "string \<Rightarrow> json list \<Rightarrow> bool" where
  VString: "literal_text s v \<Longrightarrow> value_text s (JString v)"
| VPlain: "plain_value s \<Longrightarrow> value_text s (JPlain s)"
| VObject: "members_text s ms \<Longrightarrow> value_text (''{'' @ s @ ''}'') (JObject ms)"
| VArray: "elements_text s vs \<Longrightarrow> value_text (''['' @ s @ '']'') (JArray vs)"
| VBlank: "blank w \<Longrightarrow> value_text s v \<Longrightarrow> blank u \<Longrightarrow> value_text (w @ s @ u) v"
| MNil: "blank w \<Longrightarrow> members_text w []"
| MOne: "blank w \<Longrightarrow> literal_text k key \<Longrightarrow> blank u \<Longrightarrow> value_text s v \<Longrightarrow> members_text (w @ k @ u @ '':'' @ s) [(key, v)]"
| MCons: "members_text s [m] \<Longrightarrow> members_text t (n # ms) \<Longrightarrow> members_text (s @ '','' @ t) (m # n # ms)"
| ENil: "blank w \<Longrightarrow> elements_text w []"
| EOne: "value_text s v \<Longrightarrow> elements_text s [v]"
| ECons: "value_text s v \<Longrightarrow> elements_text t (u # vs) \<Longrightarrow> elements_text (s @ '','' @ t) (v # u # vs)"

lemma members_append:
  "members_text s ms \<Longrightarrow> ms \<noteq> [] \<Longrightarrow> members_text t ns \<Longrightarrow> ns \<noteq> [] \<Longrightarrow> members_text (s @ '','' @ t) (ms @ ns)"
proof (induction s ms rule: value_text_members_text_elements_text.inducts(2) [of _ _ "\<lambda>_ _. True" _ "\<lambda>_ _. True"])
  case (MOne w k key u s v)
  obtain n ns' where ns: "ns = n # ns'" using MOne.prems by (cases ns) auto
  have "members_text (w @ k @ u @ '':'' @ s) [(key, v)]"
    using MOne by (intro value_text_members_text_elements_text.MOne) auto
  from value_text_members_text_elements_text.MCons [OF this] MOne.prems show ?case by (simp add: ns)
next
  case (MCons s m t' n ms)
  then have "members_text (t' @ '','' @ t) (n # ms @ ns)" by simp
  from value_text_members_text_elements_text.MCons [OF MCons(1) this] show ?case by simp
qed auto

text \<open>A loop that writes a comma after every element but the last.\<close>

fun separated :: "string list \<Rightarrow> string" where
  "separated [] = ''''"
| "separated [s] = s"
| "separated (s # t # ts) = s @ '','' @ separated (t # ts)"

lemma separated_elements: "list_all2 value_text ss vs \<Longrightarrow> elements_text (separated ss) vs"
proof (induction ss arbitrary: vs rule: separated.induct)
  case 1
  then show ?case by (simp add: ENil blank_def)
next
  case (2 s)
  then show ?case by (auto simp: list_all2_Cons1 intro: EOne)
next
  case (3 s t ts)
  from 3(2) obtain v u us where v: "vs = v # u # us" and s: "value_text s v" and r: "list_all2 value_text (t # ts) (u # us)"
    by (auto simp: list_all2_Cons1)
  from ECons [OF s 3(1) [OF r]] show ?case by (simp add: v)
qed

lemma separated_members:
  "list_all2 (\<lambda>s m. members_text s [m]) ss ms \<Longrightarrow> members_text (separated ss) ms"
proof (induction ss arbitrary: ms rule: separated.induct)
  case 1
  then show ?case by (simp add: MNil blank_def)
next
  case (2 s)
  then show ?case by (auto simp: list_all2_Cons1)
next
  case (3 s t ts)
  from 3(2) obtain m n ns where m: "ms = m # n # ns" and s: "members_text s [m]"
    and r: "list_all2 (\<lambda>s m. members_text s [m]) (t # ts) (n # ns)"
    by (auto simp: list_all2_Cons1)
  from MCons [OF s 3(1) [OF r]] show ?case by (simp add: m)
qed

definition writes_members :: "(string \<Rightarrow> string \<Rightarrow> string) \<Rightarrow> bool" where
  \<comment> \<open>the documented behaviour of \<open>utils::json::jsonify(key, value)\<close>\<close>
  "writes_members jsonify \<longleftrightarrow> (\<forall>k v. members_text (jsonify k v) [(k, JString v)])"

subsection \<open>Appending members to an object\<close>

text \<open>
  What a piece of text adds to an object: \<open>leads\<close> to more, ending in a comma, or \<open>tails\<close> what is there,
  beginning with one.
\<close>

definition leads :: "string \<Rightarrow> (string \<times> json) list \<Rightarrow> bool" where
  "leads t ms \<longleftrightarrow> (\<exists>s. t = s @ '','' \<and> members_text s ms \<and> ms \<noteq> [])"

definition tails :: "string \<Rightarrow> (string \<times> json) list \<Rightarrow> bool" where
  "tails t ms \<longleftrightarrow> t = '''' \<and> ms = [] \<or> (\<exists>w s. blank w \<and> t = w @ '','' @ s \<and> members_text s ms \<and> ms \<noteq> [])"

named_theorems json_intros \<open>the members a piece of text adds\<close>

lemma blank_simps [simp]: "blank ''''" "blank '' ''"
  by (simp_all add: blank_def)

lemma members_trailing: "members_text s ms \<Longrightarrow> ms \<noteq> [] \<Longrightarrow> blank w \<Longrightarrow> members_text (s @ w) ms"
proof (induction s ms rule: value_text_members_text_elements_text.inducts(2) [of _ _ "\<lambda>_ _. True" _ "\<lambda>_ _. True"])
  case (MOne w' k key u s v)
  have "value_text (s @ w) v" using VBlank [of "[]" s v w] MOne by simp
  with MOne value_text_members_text_elements_text.MOne [of w' k key u "s @ w" v] show ?case by simp
next
  case (MCons s m t n ms)
  then show ?case using value_text_members_text_elements_text.MCons [of s m "t @ w" n ms] by simp
qed auto

lemma leads_one [json_intros]: "members_text s [m] \<Longrightarrow> leads (s @ '','') [m]"
  by (auto simp: leads_def)

lemma leads_append: "leads t ms \<Longrightarrow> leads u ns \<Longrightarrow> leads (t @ u) (ms @ ns)"
  unfolding leads_def by (metis append.assoc append_is_Nil_conv members_append)

lemma leads_Cons: "members_text s [m] \<Longrightarrow> leads u ns \<Longrightarrow> leads (s @ '','' @ u) (m # ns)"
  using leads_append [OF leads_one] by fastforce

lemma tails_Nil [simp, json_intros]: "tails '''' []"
  by (simp add: tails_def)

lemma tails_after: "members_text s ms \<Longrightarrow> ms \<noteq> [] \<Longrightarrow> tails u ns \<Longrightarrow> members_text (s @ u) (ms @ ns)"
  unfolding tails_def using members_append [OF members_trailing] by auto

lemma tails_append: "tails t ms \<Longrightarrow> tails u ns \<Longrightarrow> tails (t @ u) (ms @ ns)"
proof -
  assume t: "tails t ms" and u: "tails u ns"
  show "tails (t @ u) (ms @ ns)"
  proof (cases "t = '''' \<and> ms = []")
    case True
    with u show ?thesis by simp
  next
    case False
    with t obtain w s where ws: "blank w" "t = w @ '','' @ s" "members_text s ms" "ms \<noteq> []" by (auto simp: tails_def)
    from tails_after [OF ws(3,4) u] ws show ?thesis
      unfolding tails_def by (intro disjI2 exI [of _ w] exI [of _ "s @ u"]) simp
  qed
qed

lemma tails_members: "members_text s ms \<Longrightarrow> ms \<noteq> [] \<Longrightarrow> tails ('','' @ s) ms"
  unfolding tails_def using blank_simps(1) by (metis append_Nil)

lemma object_text:
  "leads t ms \<Longrightarrow> members_text s [m] \<Longrightarrow> tails u ns \<Longrightarrow> value_text (''{'' @ t @ s @ u @ ''}'') (JObject (ms @ m # ns))"
proof -
  assume "leads t ms" "members_text s [m]" "tails u ns"
  then have "members_text (t @ s @ u) (ms @ m # ns)"
    using members_append [of _ ms "s @ u" "m # ns"] tails_after [of s "[m]" u ns] by (auto simp: leads_def)
  from VObject [OF this] show ?thesis by simp
qed

lemma member_quoted: "plain k \<Longrightarrow> blank w \<Longrightarrow> blank u \<Longrightarrow> value_text s v \<Longrightarrow> members_text (w @ in_quotes k @ u @ '':'' @ s) [(k, v)]"
  by (rule MOne [OF _ literal_quoted])

lemma value_after_blank: "value_text s v \<Longrightarrow> value_text (CHR '' '' # s) v"
  using VBlank [of "'' ''" s v "''''"] by simp

lemma value_array [json_intros]: "elements_text s vs \<Longrightarrow> value_text (CHR ''['' # s @ '']'') (JArray vs)"
  using VArray [of s vs] by simp

lemma value_object [json_intros]: "members_text s ms \<Longrightarrow> value_text (CHR ''{'' # s @ ''}'') (JObject ms)"
  using VObject [of s ms] by simp

lemma value_bool [json_intros]: "value_text (if b then ''true'' else ''false'') (JPlain (if b then ''true'' else ''false''))"
  by (cases b) (auto intro!: VPlain simp: plain_value_def)

lemma value_quoted [json_intros]: "plain s \<Longrightarrow> value_text (in_quotes s) (JString s)"
  by (intro VString literal_quoted)

text \<open>
  A writer of members with this behaviour, with the escapes of the standard.
\<close>

definition hex_digit :: "nat \<Rightarrow> char" where
  "hex_digit n = (if n < 10 then char_of (48 + n) else char_of (87 + n))"

definition escaped :: "char \<Rightarrow> string" where
  "escaped c =
     (if c = CHR 0x22 \<or> c = CHR 0x5C then [CHR 0x5C, c]
      else if char_code c < 32 then CHR 0x5C # ''u00'' @ [hex_digit (char_code c div 16), hex_digit (char_code c mod 16)]
      else [c])"

definition write_member :: "string \<Rightarrow> string \<Rightarrow> string" where
  "write_member k v = in_quotes (concat (map escaped k)) @ '' : '' @ in_quotes (concat (map escaped v))"

lemma hex_digits: "list_all (\<lambda>n. is_hex (hex_digit n) \<and> hex_val (hex_digit n) = n) [0..<16]"
  by code_simp

lemma unescape_escaped: "unescape (escaped c @ s) = map_option ((#) c) (unescape s)"
proof (cases "char_code c < 32 \<and> c \<noteq> CHR 0x22 \<and> c \<noteq> CHR 0x5C")
  case True
  let ?a = "char_code c div 16" and ?b = "char_code c mod 16"
  have "?a < 16" "?b < 16" using True by auto
  with hex_digits have h: "is_hex (hex_digit ?a)" "is_hex (hex_digit ?b)" "hex_val (hex_digit ?a) = ?a" "hex_val (hex_digit ?b) = ?b"
    by (simp_all add: list_all_iff)
  have z: "is_hex CHR ''0''" "hex_val CHR ''0'' = 0" by (simp_all add: is_hex_def hex_val_def isdigit_def char_code_def)
  have c: "char_of (char_code c) = c" by (simp add: char_code_def)
  have "unicode [CHR ''0'', CHR ''0'', hex_digit ?a, hex_digit ?b] = [c]"
    using True by (simp add: unicode_def h z c)
  moreover have "(@) [c] = (#) c" by (rule ext) simp
  ultimately show ?thesis using True h z by (simp add: escaped_def)
next
  case False
  then show ?thesis by (auto simp: escaped_def char_code_def)
qed

lemma unescape_concat_escaped: "unescape (concat (map escaped s)) = Some s"
  by (induction s) (simp_all add: unescape_escaped)

lemma write_member_writes: "writes_members write_member"
proof -
  have "literal_text (in_quotes (concat (map escaped s))) s" for s
    by (auto simp: literal_text_def in_quotes_def unescape_concat_escaped)
  then show ?thesis
    unfolding writes_members_def write_member_def
    using MOne [of "''''" _ _ "'' ''"] value_after_blank [OF VString] by fastforce
qed

end
