(* ===== verification/AssetJson.thy ===== *)
theory AssetJson
  imports AssetComputed ExportJson JsonText
begin

text \<open>
  \<open>src/shared/utils_json.cc\<close>, \<open>getJsonAsset\<close>: an asset as a JSON text, written by appending to a string.
  \<open>utils::json::jsonify\<close>, the shared memory of the metrics and the arithmetic of \<open>double\<close> are parameters.
\<close>

record 'f json_env =
  jsonify :: "string \<Rightarrow> string \<Rightarrow> string"
  read_metric_value :: "string \<Rightarrow> string \<Rightarrow> string option" \<comment> \<open>\<open>None\<close>: a code other than 0\<close>
  stod :: "string \<Rightarrow> 'f option" \<comment> \<open>\<open>None\<close>: it throws\<close>
  double_zero :: 'f
  double_nan :: 'f
  isnan :: "'f \<Rightarrow> bool"
  double_text :: "'f \<Rightarrow> string" \<comment> \<open>\<open>std::to_string\<close>\<close>
  is_rack :: "nat \<Rightarrow> bool"

datatype stop =
    Empty_text \<comment> \<open>\<open>json = ""; return json;\<close>\<close>
  | Stop fault

definition s_rack_realpower_nominal :: "'f json_env \<Rightarrow> string \<Rightarrow> 'f" where
  "s_rack_realpower_nominal J name =
     (case read_metric_value J name ''realpower.nominal'' of
        None \<Rightarrow> double_zero J
      | Some v \<Rightarrow> (case stod J v of Some x \<Rightarrow> x | None \<Rightarrow> double_nan J))"

subsection \<open>Names\<close>

definition asked :: "string + 'a \<Rightarrow> stop + 'a" where
  "asked q = (case q of Inl w \<Rightarrow> Inl (Stop (Thrown w)) | Inr x \<Rightarrow> Inr x)"

definition ext_name :: "('d, 'h) computed_db \<Rightarrow> nat \<Rightarrow> 'd \<Rightarrow> stop + string" where
  \<comment> \<open>the external name, unless both names are empty\<close>
  "ext_name D i d =
     bindE (asked (id_to_name_ext_name D i d)) (\<lambda>(iname, ename).
       if iname = '''' \<and> ename = '''' then Inl Empty_text else Inr ename)"

subsection \<open>Groups, power links, parents\<close>

fun groups_texts :: "'f json_env \<Rightarrow> ('d, 'h) computed_db \<Rightarrow> (nat \<times> string) list \<Rightarrow> 'd \<Rightarrow> stop + string list" where
  "groups_texts J D [] d = Inr []"
| "groups_texts J D ((i, n) # gs) d =
     bindE (ext_name D i d) (\<lambda>name.
     bindE (groups_texts J D gs d) (\<lambda>ts.
       Inr ((''{'' @ jsonify J ''id'' n @ '','' @ jsonify J ''name'' name @ ''}'') # ts)))"

definition power_text :: "'f json_env \<Rightarrow> tmp_link \<Rightarrow> string \<Rightarrow> string" where
  "power_text J l name =
     ''{'' @ jsonify J ''src_name'' name @ '','' @ jsonify J ''src_id'' (tl_src_name l) @
     (if tl_src_socket l \<noteq> '''' then '','' @ jsonify J ''src_socket'' (tl_src_socket l) else '''') @
     (if tl_dest_socket l \<noteq> '''' then '','' @ jsonify J ''dest_socket'' (tl_dest_socket l) else '''') @ ''}''"

fun powers_texts :: "'f json_env \<Rightarrow> ('d, 'h) computed_db \<Rightarrow> tmp_link list \<Rightarrow> 'd \<Rightarrow> stop + string list" where
  "powers_texts J D [] d = Inr []"
| "powers_texts J D (l # ls) d =
     bindE (ext_name D (tl_src_id l) d) (\<lambda>name.
     bindE (powers_texts J D ls d) (\<lambda>ts. Inr (power_text J l name # ts)))"

definition parent_text :: "'f json_env \<Rightarrow> nat \<times> string \<times> string \<times> string \<Rightarrow> string \<Rightarrow> string" where
  "parent_text J p name = (case p of (i, n, ty, sub) \<Rightarrow>
     ''{'' @ jsonify J ''id'' n @ '','' @ jsonify J ''name'' name @ '','' @ jsonify J ''type'' ty @ '','' @
     jsonify J ''sub_type'' sub @ ''}'')"

fun parents_loop ::
  "'f json_env \<Rightarrow> ('d, 'h) computed_db \<Rightarrow> (nat \<times> string \<times> string \<times> string) list \<Rightarrow> 'd \<Rightarrow> stop + string" where
  \<comment> \<open>a space instead of the comma after the last\<close>
  "parents_loop J D [] d = Inr ''''"
| "parents_loop J D (p # ps) d =
     bindE (ext_name D (fst p) d) (\<lambda>name.
     bindE (parents_loop J D ps d) (\<lambda>t.
       Inr (parent_text J p name @ (if ps \<noteq> [] then '','' else '' '') @ t)))"

definition location_text :: "'f json_env \<Rightarrow> ('d, 'h) computed_db \<Rightarrow> nat \<Rightarrow> string \<times> string \<Rightarrow> 'd \<Rightarrow> string" where
  "location_text J D parent_id parent_names d =
     (if parent_id \<noteq> 0
      then jsonify J ''location_uri'' (''/api/v1/asset/'' @ fst parent_names) @ '','' @
           jsonify J ''location_id'' (fst parent_names) @ '','' @
           jsonify J ''location'' (snd parent_names) @ '','' @
           jsonify J ''location_type'' (location_type (export_db.truncate D) parent_id d) @ '',''
      else in_quotes ''location'' @ '':'' @ in_quotes '''' @ '','' @ in_quotes ''location_type'' @ '':'' @ in_quotes '''' @ '','')"

definition type_text ::
  "'f json_env \<Rightarrow> ('d, 'h) computed_db \<Rightarrow> web_element \<Rightarrow> 'd \<Rightarrow> stop + string \<times> ext_map" where
  \<comment> \<open>the subtype and the parents; the attributes that are left for \<open>ext\<close>\<close>
  "type_text J D w d =
     (if be_type_id (basic w) = GROUP D
      then Inr (case map_of (ext w) ''type'' of
                  Some (v, _) \<Rightarrow> ('','' @ jsonify J ''sub_type'' (strip v), map_erase ''type'' (ext w))
                | None \<Rightarrow> ('''', ext w))
      else bindE (parents_loop J D (parents w) d) (\<lambda>t.
             Inr ('','' @ jsonify J ''sub_type'' (strip (be_subtype_name (basic w))) @ '', '' @ in_quotes ''parents'' @
                  '' : ['' @ t @ '']'', ext w)))"

subsection \<open>Attributes\<close>

record special =
  x_outlets :: "(string \<times> Outlet) list"
  x_ips :: "string list"
  x_macs :: "string list"
  x_fqdns :: "string list"
  x_hosts :: "string list"

definition numbered_key :: "string \<Rightarrow> string \<Rightarrow> bool" where
  \<comment> \<open>\<open>^ip\.[0-9][0-9]*$\<close> and its siblings, by what comes before the number\<close>
  "numbered_key prefix key \<longleftrightarrow>
     starts_with key prefix \<and> drop (length prefix) key \<noteq> [] \<and> list_all isdigit (drop (length prefix) key)"

definition ext_text :: "'f json_env \<Rightarrow> string \<Rightarrow> string \<Rightarrow> bool \<Rightarrow> string" where
  "ext_text J k v ro =
     ''{'' @ jsonify J k v @ '','' @ in_quotes ''read_only'' @ '' :'' @ (if ro then ''true'' else ''false'') @ ''}''"

definition ext_step :: "'f json_env \<Rightarrow> string \<Rightarrow> string \<Rightarrow> bool \<Rightarrow> special \<Rightarrow> special \<times> string list" where
  \<comment> \<open>one attribute: what it is collected into, or its element of \<open>ext\<close>\<close>
  "ext_step J k v ro x =
     (if k = ''name'' \<or> k = ''location_type'' then (x, [])
      else if outlet_regex ''.label'' True k
      then (x\<lparr> x_outlets := put_outlet (getOutletNumber k) (\<lambda>y. y\<lparr> label := v, label_r := ro \<rparr>) (x_outlets x) \<rparr>, [])
      else if outlet_regex ''.group'' True k
      then (x\<lparr> x_outlets := put_outlet (getOutletNumber k) (\<lambda>y. y\<lparr> ogroup := v, group_r := ro \<rparr>) (x_outlets x) \<rparr>, [])
      else if outlet_regex ''.type'' True k
      then (x\<lparr> x_outlets := put_outlet (getOutletNumber k) (\<lambda>y. y\<lparr> otype := v, type_r := ro \<rparr>) (x_outlets x) \<rparr>, [])
      else if numbered_key ''ip.'' k then (x\<lparr> x_ips := x_ips x @ [v] \<rparr>, [])
      else if numbered_key ''mac.'' k then (x\<lparr> x_macs := x_macs x @ [v] \<rparr>, [])
      else if numbered_key ''fqdn.'' k then (x\<lparr> x_fqdns := x_fqdns x @ [v] \<rparr>, [])
      else if numbered_key ''hostname.'' k then (x\<lparr> x_hosts := x_hosts x @ [v] \<rparr>, [])
      else (x, [ext_text J k v ro]))"

fun ext_loop :: "'f json_env \<Rightarrow> ext_map \<Rightarrow> special \<Rightarrow> special \<times> string list" where
  "ext_loop J [] x = (x, [])"
| "ext_loop J ((k, v, ro) # xs) x =
     (case ext_step J k v ro x of (x, ts) \<Rightarrow> case ext_loop J xs x of (x, ts') \<Rightarrow> (x, ts @ ts'))"

definition no_special :: special where
  "no_special = \<lparr> x_outlets = [], x_ips = [], x_macs = [], x_fqdns = [], x_hosts = [] \<rparr>"

definition tag_texts :: "'f json_env \<Rightarrow> string \<Rightarrow> string list" where
  "tag_texts J tag =
     (if tag \<noteq> '''' then [''{'' @ jsonify J ''asset_tag'' tag @ '', '' @ in_quotes ''read_only'' @ '' : false}''] else [])"

definition list_text :: "string \<Rightarrow> string list \<Rightarrow> string" where
  \<comment> \<open>the addresses and names, as they are stored\<close>
  "list_text start vs = (if vs \<noteq> [] then start @ separated (map in_quotes vs) @ '']'' else '''')"

subsection \<open>Outlets\<close>

definition outlet_attr_text :: "'f json_env \<Rightarrow> string \<Rightarrow> string \<Rightarrow> bool \<Rightarrow> string" where
  "outlet_attr_text J n v ro =
     ''{'' @ in_quotes ''name'' @ '':'' @ in_quotes n @ '','' @ jsonify J ''value'' v @ '','' @ in_quotes ''read_only'' @ '' : '' @
     (if ro then ''true'' else ''false'') @ ''}''"

definition outlet_text :: "'f json_env \<Rightarrow> string \<times> Outlet \<Rightarrow> string" where
  "outlet_text J x = (case x of (n, y) \<Rightarrow>
     in_quotes n @ '' : ['' @
     (if label y \<noteq> '''' then outlet_attr_text J ''label'' (label y) (label_r y) else '''') @
     (if ogroup y \<noteq> ''''
      then (if label y \<noteq> '''' then '','' else '''') @ outlet_attr_text J ''group'' (ogroup y) (group_r y) else '''') @
     (if otype y \<noteq> ''''
      then (if label y \<noteq> '''' \<or> ogroup y \<noteq> '''' then '','' else '''') @ outlet_attr_text J ''type'' (otype y) (type_r y)
      else '''') @ '']'')"

definition outlets_text :: "'f json_env \<Rightarrow> (string \<times> Outlet) list \<Rightarrow> string" where
  "outlets_text J outlets =
     (if outlets \<noteq> [] then '', '' @ in_quotes ''outlets'' @ '': {'' @ separated (map (outlet_text J) outlets) @ ''}'' else '''')"

subsection \<open>Computed values\<close>

definition int_or_null :: "int \<Rightarrow> string" where
  "int_or_null n = (if n \<ge> 0 then int_to_string n else ''null'')"

definition count_text :: "string \<times> int \<Rightarrow> string" where
  "count_text x = in_quotes (fst x) @ '':'' @ int_or_null (snd x)"

definition computed_text ::
  "'f json_env \<Rightarrow> ('d, 'h) computed_db \<Rightarrow> basic_element \<Rightarrow> 'd \<Rightarrow> stop + string" where
  "computed_text J D b d =
     (if is_rack J (be_type_id b)
      then (case free_u_size D (be_id b) d of
              None \<Rightarrow> Inl (Stop Overflow)
            | Some freeusize \<Rightarrow>
                let realpower = s_rack_realpower_nominal J (c_str (be_name b)) in
                (case rack_outlets_available D (be_id b) d [] of
                   None \<Rightarrow> Inl (Stop Overflow)
                 | Some (rv, res) \<Rightarrow>
                     if rv \<noteq> 0 then Inl Empty_text
                     else Inr (in_quotes ''freeusize'' @ '':'' @ int_or_null freeusize @ '','' @
                            in_quotes ''realpower.nominal'' @ '':'' @
                            (if isnan J realpower then ''null'' else double_text J realpower) @ '', '' @
                            in_quotes ''outlet.available'' @ '' : {'' @ separated (map count_text res) @ ''}'')))
      else Inr '''')"

subsection \<open>The asset\<close>

definition head_text :: "'f json_env \<Rightarrow> basic_element \<Rightarrow> string \<Rightarrow> string" where
  "head_text J b ename =
     jsonify J ''id'' (be_name b) @ '','' @
     in_quotes ''power_devices_in_uri'' @ '': '' @
       in_quotes (''/api/v1/assets?in='' @ be_name b @ ''&sub_type=epdu,pdu,feed,genset,ups,sts,rackcontroller'') @ '','' @
     jsonify J ''name'' ename @ '','' @ jsonify J ''status'' (be_status b) @ '','' @
     jsonify J ''priority'' (CHR ''P'' # to_string (be_priority b)) @ '','' @
     jsonify J ''type'' (be_type_name b) @ '',''"

definition ext_part :: "'f json_env \<Rightarrow> string \<Rightarrow> ext_map \<Rightarrow> string" where
  "ext_part J tag exts =
     (let x = fst (ext_loop J exts no_special); ts = snd (ext_loop J exts no_special)
      in '', '' @ in_quotes ''ext'' @ '' : ['' @ separated (tag_texts J tag @ ts) @ '']'' @
         list_text ('', '' @ in_quotes ''ips'' @ '' : ['') (x_ips x) @
         list_text ('', '' @ in_quotes ''macs'' @ '' : ['') (x_macs x) @
         list_text ('', '' @ in_quotes ''fqdns'' @ '' : ['') (x_fqdns x) @
         list_text ('' , '' @ in_quotes ''hostnames'' @ '' : ['') (x_hosts x) @
         outlets_text J (x_outlets x))"

definition asset_text :: "'f json_env \<Rightarrow> ('d, 'h) computed_db \<Rightarrow> web_element \<Rightarrow> 'd \<Rightarrow> stop + string" where
  "asset_text J D w d =
     (let b = basic w in
      bindE (asked (id_to_name_ext_name D (be_parent_id b) d)) (\<lambda>parent_names.
      bindE (ext_name D (be_id b) d) (\<lambda>asset_ext_name.
      bindE (groups_texts J D (groups w) d) (\<lambda>gs.
      bindE (if be_type_id b = DEVICE D
             then bindE (powers_texts J D (powers w) d) (\<lambda>ps.
                    Inr ('', '' @ in_quotes ''powers'' @ '': ['' @ separated ps @ '']''))
             else Inr '''') (\<lambda>powers_part.
      bindE (type_text J D w d) (\<lambda>(type_part, exts).
      bindE (computed_text J D b d) (\<lambda>computed.
        Inr (''{'' @ head_text J b asset_ext_name @ location_text J D (be_parent_id b) parent_names d @
             in_quotes ''groups'' @ '': ['' @ separated gs @ '']'' @ powers_part @ type_part @
             ext_part J (be_asset_tag b) exts @ '', '' @ in_quotes ''computed'' @ '' : {'' @ computed @ ''}}''))))))))"

definition json_of_asset :: "'f json_env \<Rightarrow> ('d, 'h) computed_db \<Rightarrow> int \<Rightarrow> 'd \<Rightarrow> fault + string" where
  \<comment> \<open>\<open>getJsonAsset\<close>\<close>
  "json_of_asset J D elemId d =
     (case get_item1 (manager_db.truncate D) (nat (to_uint32 elemId)) d of
        Failed _ \<Rightarrow> Inr ''''
      | Item w \<Rightarrow> (case asset_text J D w d of
            Inr t \<Rightarrow> Inr t | Inl Empty_text \<Rightarrow> Inr '''' | Inl (Stop e) \<Rightarrow> Inl e))"

subsection \<open>What is collected from the attributes\<close>

definition values_of :: "string \<Rightarrow> ext_map \<Rightarrow> string list" where
  "values_of prefix exts = map (\<lambda>(k, v, ro). v) (filter (\<lambda>(k, v, ro). numbered_key prefix k) exts)"

definition outlet_key :: "string \<Rightarrow> bool" where
  "outlet_key k \<longleftrightarrow> outlet_regex ''.label'' True k \<or> outlet_regex ''.group'' True k \<or> outlet_regex ''.type'' True k"

definition ordinary :: "string \<Rightarrow> bool" where
  \<comment> \<open>an attribute that is not shown elsewhere\<close>
  "ordinary k \<longleftrightarrow> k \<noteq> ''name'' \<and> k \<noteq> ''location_type'' \<and> \<not> outlet_key k \<and>
     \<not> numbered_key ''ip.'' k \<and> \<not> numbered_key ''mac.'' k \<and> \<not> numbered_key ''fqdn.'' k \<and> \<not> numbered_key ''hostname.'' k"

lemma numbered_key_not_outlet:
  "numbered_key ''ip.'' k \<Longrightarrow> \<not> outlet_regex t b k" "numbered_key ''mac.'' k \<Longrightarrow> \<not> outlet_regex t b k"
  "numbered_key ''fqdn.'' k \<Longrightarrow> \<not> outlet_regex t b k" "numbered_key ''hostname.'' k \<Longrightarrow> \<not> outlet_regex t b k"
  by (auto simp: numbered_key_def outlet_regex_def starts_with_iff)

lemma numbered_key_disjoint:
  "numbered_key ''ip.'' k \<Longrightarrow> k \<noteq> ''name'' \<and> k \<noteq> ''location_type''"
  "numbered_key ''mac.'' k \<Longrightarrow> \<not> numbered_key ''ip.'' k \<and> k \<noteq> ''name'' \<and> k \<noteq> ''location_type''"
  "numbered_key ''fqdn.'' k \<Longrightarrow> \<not> numbered_key ''ip.'' k \<and> \<not> numbered_key ''mac.'' k \<and> k \<noteq> ''name'' \<and> k \<noteq> ''location_type''"
  "numbered_key ''hostname.'' k \<Longrightarrow> \<not> numbered_key ''ip.'' k \<and> \<not> numbered_key ''mac.'' k \<and> \<not> numbered_key ''fqdn.'' k \<and>
     k \<noteq> ''name'' \<and> k \<noteq> ''location_type''"
  by (auto simp: numbered_key_def starts_with_iff)

lemmas numbered_keys = numbered_key_not_outlet numbered_key_disjoint

lemma ext_step_collects:
  "snd (ext_step J k v ro x) = (if ordinary k then [ext_text J k v ro] else [])"
  "x_ips (fst (ext_step J k v ro x)) = x_ips x @ (if numbered_key ''ip.'' k then [v] else [])"
  "x_macs (fst (ext_step J k v ro x)) = x_macs x @ (if numbered_key ''mac.'' k then [v] else [])"
  "x_fqdns (fst (ext_step J k v ro x)) = x_fqdns x @ (if numbered_key ''fqdn.'' k then [v] else [])"
  "x_hosts (fst (ext_step J k v ro x)) = x_hosts x @ (if numbered_key ''hostname.'' k then [v] else [])"
  using numbered_keys [of k] by (auto simp: ext_step_def ordinary_def outlet_key_def)

lemma ext_loop_Cons:
  "fst (ext_loop J ((k, v, ro) # xs) x) = fst (ext_loop J xs (fst (ext_step J k v ro x)))"
  "snd (ext_loop J ((k, v, ro) # xs) x) = snd (ext_step J k v ro x) @ snd (ext_loop J xs (fst (ext_step J k v ro x)))"
  by (simp_all split: prod.splits)

lemma ext_loop_collects:
  "snd (ext_loop J exts x) = map (\<lambda>(k, v, ro). ext_text J k v ro) (filter (\<lambda>(k, v, ro). ordinary k) exts)"
  "x_ips (fst (ext_loop J exts x)) = x_ips x @ values_of ''ip.'' exts"
  "x_macs (fst (ext_loop J exts x)) = x_macs x @ values_of ''mac.'' exts"
  "x_fqdns (fst (ext_loop J exts x)) = x_fqdns x @ values_of ''fqdn.'' exts"
  "x_hosts (fst (ext_loop J exts x)) = x_hosts x @ values_of ''hostname.'' exts"
proof (induction exts arbitrary: x)
  case (Cons e exts)
  obtain k v ro where e: "e = (k, v, ro)" by (cases e) auto
  { case 1 show ?case by (simp add: e ext_loop_Cons ext_step_collects Cons.IH del: ext_loop.simps)
  next
    case 2 show ?case by (simp add: e ext_loop_Cons ext_step_collects values_of_def Cons.IH del: ext_loop.simps)
  next
    case 3 show ?case by (simp add: e ext_loop_Cons ext_step_collects values_of_def Cons.IH del: ext_loop.simps)
  next
    case 4 show ?case by (simp add: e ext_loop_Cons ext_step_collects values_of_def Cons.IH del: ext_loop.simps)
  next
    case 5 show ?case by (simp add: e ext_loop_Cons ext_step_collects values_of_def Cons.IH del: ext_loop.simps) }
qed (simp_all add: values_of_def)

text \<open>An outlet is filed under the digits of its key.\<close>

lemma takeWhile_digits_dot: "takeWhile (\<lambda>c. c \<noteq> CHR ''.'') (takeWhile isdigit r @ CHR ''.'' # t) = takeWhile isdigit r"
  by (induction r) (auto simp: isdigit_def char_code_def)

lemma outlet_number:
  assumes "outlet_regex (CHR ''.'' # t) True k"
  shows "list_all isdigit (getOutletNumber k)"
proof -
  from assms obtain r where k: "k = ''outlet.'' @ r" and r: "dropWhile isdigit r = CHR ''.'' # t"
    by (auto simp: outlet_regex_def starts_with_iff Let_def)
  have "r = takeWhile isdigit r @ CHR ''.'' # t" using takeWhile_dropWhile_id [of isdigit r] r by simp
  then have "takeWhile (\<lambda>c. c \<noteq> CHR ''.'') r = takeWhile isdigit r" by (metis takeWhile_digits_dot)
  then show ?thesis by (auto simp: getOutletNumber_def k list_all_iff dest: set_takeWhileD)
qed

definition digit_keys :: "(string \<times> 'a) list \<Rightarrow> bool" where
  "digit_keys m \<longleftrightarrow> (\<forall>n \<in> set (map fst m). list_all isdigit n)"

lemma digit_keys_put_outlet: "digit_keys m \<Longrightarrow> list_all isdigit n \<Longrightarrow> digit_keys (put_outlet n f m)"
  by (simp only: digit_keys_def put_outlet_def set_fst_map_put) blast

lemma ext_step_digit_keys: "digit_keys (x_outlets x) \<Longrightarrow> digit_keys (x_outlets (fst (ext_step J k v ro x)))"
  using outlet_number [of "''label''" k] outlet_number [of "''group''" k] outlet_number [of "''type''" k]
  by (simp add: ext_step_def digit_keys_put_outlet)

lemma ext_loop_digit_keys: "digit_keys (x_outlets x) \<Longrightarrow> digit_keys (x_outlets (fst (ext_loop J exts x)))"
proof (induction exts arbitrary: x)
  case (Cons e exts)
  obtain k v ro where e: "e = (k, v, ro)" by (cases e) auto
  from Cons show ?case by (simp add: e ext_loop_Cons ext_step_digit_keys del: ext_loop.simps)
qed simp

lemma plain_digits: "list_all isdigit s \<Longrightarrow> plain s"
  by (induction s) (auto simp: plain_def isdigit_def char_code_def)

lemma plain_keys [simp]:
  "plain ''read_only''" "plain ''name''" "plain ''location''" "plain ''location_type''" "plain ''groups''" "plain ''powers''"
  "plain ''parents''" "plain ''ext''" "plain ''ips''" "plain ''macs''" "plain ''fqdns''" "plain ''hostnames''" "plain ''outlets''"
  "plain ''computed''" "plain ''freeusize''" "plain ''realpower.nominal''" "plain ''outlet.available''"
  "plain ''power_devices_in_uri''" "plain ''label''" "plain ''group''" "plain ''type''" "plain ''sum''"
  "plain ''/api/v1/assets?in=''" "plain ''&sub_type=epdu,pdu,feed,genset,ups,sts,rackcontroller''"
  by (simp_all add: plain_def char_code_def)

subsection \<open>The value of an asset\<close>

definition strings :: "(string \<times> string) list \<Rightarrow> (string \<times> json) list" where
  "strings kvs = map (\<lambda>(k, v). (k, JString v)) kvs"

definition bool_value :: "bool \<Rightarrow> json" where
  "bool_value b = JPlain (if b then ''true'' else ''false'')"

definition ename_of :: "('d, 'h) computed_db \<Rightarrow> 'd \<Rightarrow> nat \<Rightarrow> string" where
  "ename_of D d i = (case id_to_name_ext_name D i d of Inr (_, e) \<Rightarrow> e | Inl _ \<Rightarrow> '''')"

definition group_value :: "('d, 'h) computed_db \<Rightarrow> 'd \<Rightarrow> nat \<times> string \<Rightarrow> json" where
  "group_value D d g = JObject (strings [(''id'', snd g), (''name'', ename_of D d (fst g))])"

definition power_value :: "('d, 'h) computed_db \<Rightarrow> 'd \<Rightarrow> tmp_link \<Rightarrow> json" where
  "power_value D d l = JObject (strings ([(''src_name'', ename_of D d (tl_src_id l)), (''src_id'', tl_src_name l)] @
     (if tl_src_socket l \<noteq> '''' then [(''src_socket'', tl_src_socket l)] else []) @
     (if tl_dest_socket l \<noteq> '''' then [(''dest_socket'', tl_dest_socket l)] else [])))"

definition parent_value :: "('d, 'h) computed_db \<Rightarrow> 'd \<Rightarrow> nat \<times> string \<times> string \<times> string \<Rightarrow> json" where
  "parent_value D d p = (case p of (i, n, ty, sub) \<Rightarrow>
     JObject (strings [(''id'', n), (''name'', ename_of D d i), (''type'', ty), (''sub_type'', sub)]))"

definition attr_value :: "string \<Rightarrow> string \<Rightarrow> bool \<Rightarrow> json" where
  "attr_value k v ro = JObject [(k, JString v), (''read_only'', bool_value ro)]"

definition outlet_attr_value :: "string \<Rightarrow> string \<Rightarrow> bool \<Rightarrow> json" where
  "outlet_attr_value n v ro =
     JObject [(''name'', JString n), (''value'', JString v), (''read_only'', bool_value ro)]"

definition outlet_member :: "string \<times> Outlet \<Rightarrow> string \<times> json" where
  "outlet_member x = (case x of (n, y) \<Rightarrow> (n, JArray
     ((if label y \<noteq> '''' then [outlet_attr_value ''label'' (label y) (label_r y)] else []) @
      (if ogroup y \<noteq> '''' then [outlet_attr_value ''group'' (ogroup y) (group_r y)] else []) @
      (if otype y \<noteq> '''' then [outlet_attr_value ''type'' (otype y) (type_r y)] else []))))"

definition list_member :: "string \<Rightarrow> string list \<Rightarrow> (string \<times> json) list" where
  "list_member k vs = (if vs \<noteq> [] then [(k, JArray (map JString vs))] else [])"

definition computed_members :: "'f json_env \<Rightarrow> ('d, 'h) computed_db \<Rightarrow> basic_element \<Rightarrow> 'd \<Rightarrow> (string \<times> json) list" where
  "computed_members J D b d =
     (case (free_u_size D (be_id b) d, rack_outlets_available D (be_id b) d []) of
        (Some n, Some (_, res)) \<Rightarrow>
          if is_rack J (be_type_id b)
          then let x = s_rack_realpower_nominal J (c_str (be_name b)) in
               [(''freeusize'', JPlain (int_or_null n)),
                (''realpower.nominal'', JPlain (if isnan J x then ''null'' else double_text J x)),
                (''outlet.available'', JObject (map (\<lambda>(k, m). (k, JPlain (int_or_null m))) res))]
          else []
      | _ \<Rightarrow> [])"

definition head_members :: "basic_element \<Rightarrow> string \<Rightarrow> (string \<times> string) list" where
  "head_members b ename =
     [(''id'', be_name b),
      (''power_devices_in_uri'', ''/api/v1/assets?in='' @ be_name b @ ''&sub_type=epdu,pdu,feed,genset,ups,sts,rackcontroller''),
      (''name'', ename), (''status'', be_status b), (''priority'', CHR ''P'' # to_string (be_priority b)),
      (''type'', be_type_name b)]"

definition location_members :: "('d, 'h) computed_db \<Rightarrow> nat \<Rightarrow> string \<times> string \<Rightarrow> 'd \<Rightarrow> (string \<times> string) list" where
  "location_members D p names d =
     (if p \<noteq> 0
      then [(''location_uri'', ''/api/v1/asset/'' @ fst names), (''location_id'', fst names), (''location'', snd names),
            (''location_type'', location_type (export_db.truncate D) p d)]
      else [(''location'', ''''), (''location_type'', '''')])"

definition type_members :: "('d, 'h) computed_db \<Rightarrow> web_element \<Rightarrow> 'd \<Rightarrow> (string \<times> json) list" where
  "type_members D w d =
     (if be_type_id (basic w) = GROUP D
      then (case map_of (ext w) ''type'' of Some (v, _) \<Rightarrow> [(''sub_type'', JString (strip v))] | None \<Rightarrow> [])
      else [(''sub_type'', JString (strip (be_subtype_name (basic w)))),
            (''parents'', JArray (map (parent_value D d) (parents w)))])"

definition shown_exts :: "('d, 'h) computed_db \<Rightarrow> web_element \<Rightarrow> ext_map" where
  \<comment> \<open>the attribute \<open>type\<close> of a group is its subtype\<close>
  "shown_exts D w = (if be_type_id (basic w) = GROUP D then map_erase ''type'' (ext w) else ext w)"

definition ext_members :: "'f json_env \<Rightarrow> string \<Rightarrow> ext_map \<Rightarrow> (string \<times> json) list" where
  "ext_members J tag exts =
     (''ext'', JArray ((if tag \<noteq> '''' then [attr_value ''asset_tag'' tag False] else []) @
        map (\<lambda>(k, v, ro). attr_value k v ro) (filter (\<lambda>(k, v, ro). ordinary k) exts))) #
     list_member ''ips'' (values_of ''ip.'' exts) @ list_member ''macs'' (values_of ''mac.'' exts) @
     list_member ''fqdns'' (values_of ''fqdn.'' exts) @ list_member ''hostnames'' (values_of ''hostname.'' exts) @
     (let os = x_outlets (fst (ext_loop J exts no_special))
      in if os \<noteq> [] then [(''outlets'', JObject (map outlet_member os))] else [])"

definition asset_value :: "'f json_env \<Rightarrow> ('d, 'h) computed_db \<Rightarrow> web_element \<Rightarrow> 'd \<Rightarrow> json" where
  "asset_value J D w d =
     (let b = basic w; p = (case id_to_name_ext_name D (be_parent_id b) d of Inr ns \<Rightarrow> ns | Inl _ \<Rightarrow> ('''', '''')) in
      JObject
        (strings (head_members b (ename_of D d (be_id b)) @ location_members D (be_parent_id b) p d) @
         (''groups'', JArray (map (group_value D d) (groups w))) #
         (if be_type_id b = DEVICE D then [(''powers'', JArray (map (power_value D d) (powers w)))] else []) @
         type_members D w d @ ext_members J (be_asset_tag b) (shown_exts D w) @
         [(''computed'', JObject (computed_members J D b d))]))"

definition unescaped_ok :: "'f json_env \<Rightarrow> web_element \<Rightarrow> bool" where
  \<comment> \<open>what is written as it is needs no escape, and a number that is not a NaN is finite\<close>
  "unescaped_ok J w \<longleftrightarrow> plain (be_name (basic w)) \<and>
     (\<forall>(k, v, ro) \<in> set (ext w). numbered_key ''ip.'' k \<or> numbered_key ''mac.'' k \<or> numbered_key ''fqdn.'' k \<or>
        numbered_key ''hostname.'' k \<longrightarrow> plain v) \<and>
     (let x = s_rack_realpower_nominal J (c_str (be_name (basic w))) in isnan J x \<or> number_text (double_text J x))"

subsection \<open>The text denotes the value\<close>

lemma jsonify_member [json_intros]: "writes_members j \<Longrightarrow> members_text (j k v) [(k, JString v)]"
  by (simp add: writes_members_def)

lemma value_strings:
  "writes_members j \<Longrightarrow> value_text (CHR ''{'' # separated (map (\<lambda>(k, v). j k v) kvs) @ ''}'') (JObject (strings kvs))"
  by (intro value_object separated_members) (auto simp: strings_def list_all2_conv_all_nth writes_members_def split: prod.splits)

lemma asked_Inr [simp]: "asked q = Inr x \<longleftrightarrow> q = Inr x"
  by (auto simp: asked_def split: sum.splits)

lemma ext_name_Inr: "ext_name D i d = Inr n \<Longrightarrow> ename_of D d i = n"
  by (auto simp: ext_name_def ename_of_def bindE_eq_Inr_iff split: if_splits)

lemma groups_text:
  assumes W: "writes_members (jsonify J)"
  shows "groups_texts J D gs d = Inr ts \<Longrightarrow> list_all2 value_text ts (map (group_value D d) gs)"
proof (induction gs arbitrary: ts)
  case (Cons g gs)
  obtain i n where g: "g = (i, n)" by (cases g) auto
  from Cons.prems obtain name ts' where n: "ext_name D i d = Inr name" and r: "groups_texts J D gs d = Inr ts'"
    and ts: "ts = (''{'' @ jsonify J ''id'' n @ '','' @ jsonify J ''name'' name @ ''}'') # ts'"
    by (auto simp: g bindE_eq_Inr_iff)
  from value_strings [OF W, of "[(''id'', n), (''name'', name)]"] Cons.IH [OF r] ts ext_name_Inr [OF n]
  show ?case by (simp add: g group_value_def)
qed simp

lemma power_text_value:
  assumes W: "writes_members (jsonify J)"
  shows "ename_of D d (tl_src_id l) = name \<Longrightarrow> value_text (power_text J l name) (power_value D d l)"
  using value_strings [OF W, of "[(''src_name'', name), (''src_id'', tl_src_name l)] @
     (if tl_src_socket l \<noteq> '''' then [(''src_socket'', tl_src_socket l)] else []) @
     (if tl_dest_socket l \<noteq> '''' then [(''dest_socket'', tl_dest_socket l)] else [])"]
  by (simp add: power_text_def power_value_def split: if_splits)

lemma powers_text_value:
  assumes W: "writes_members (jsonify J)"
  shows "powers_texts J D ls d = Inr ts \<Longrightarrow> list_all2 value_text ts (map (power_value D d) ls)"
  by (induction ls arbitrary: ts) (auto simp: bindE_eq_Inr_iff intro!: power_text_value [OF W] ext_name_Inr)

lemma parent_text_value:
  assumes W: "writes_members (jsonify J)"
  shows "ename_of D d (fst p) = name \<Longrightarrow> value_text (parent_text J p name) (parent_value D d p)"
  using value_strings [OF W, of "[(''id'', fst (snd p)), (''name'', name), (''type'', fst (snd (snd p))),
    (''sub_type'', snd (snd (snd p)))]"]
  by (cases p) (simp add: parent_text_def parent_value_def)

lemma parents_text_value:
  assumes W: "writes_members (jsonify J)"
  shows "parents_loop J D ps d = Inr t \<Longrightarrow> elements_text t (map (parent_value D d) ps)"
proof (induction ps arbitrary: t)
  case Nil
  then show ?case by (simp add: ENil)
next
  case (Cons p ps)
  from Cons.prems obtain name t' where n: "ext_name D (fst p) d = Inr name" and r: "parents_loop J D ps d = Inr t'"
    and t: "t = parent_text J p name @ (if ps \<noteq> [] then '','' else '' '') @ t'"
    by (auto simp: bindE_eq_Inr_iff)
  note v = parent_text_value [OF W ext_name_Inr [OF n]]
  show ?case
  proof (cases ps)
    case Nil
    with r t EOne [OF VBlank [of "''''", OF _ v, of "'' ''"]] show ?thesis by simp
  next
    case (Cons q qs)
    with ECons [OF v, of t' "parent_value D d q"] Cons.IH [OF r] t show ?thesis by simp
  qed
qed

lemma location_leads:
  assumes W: "writes_members (jsonify J)"
  shows "leads (location_text J D p names d) (strings (location_members D p names d))"
proof -
  have raw: "members_text (in_quotes k @ '':'' @ in_quotes v) [(k, JString v)]" if "plain k" "plain v" for k v
    using member_quoted [OF that(1), of "''''" "''''", OF _ _ value_quoted [OF that(2)]] by simp
  note leads_Cons [OF jsonify_member [OF W]] leads_one [OF jsonify_member [OF W]]
  note j = this
  show ?thesis
    using j(1) [OF j(1) [OF j(1) [OF j(2)]], of "''location_uri''" "''/api/v1/asset/'' @ fst names" "''location_id''" "fst names"
        "''location''" "snd names" "''location_type''" "location_type (export_db.truncate D) p d"]
      leads_Cons [OF raw [of "''location''" "''''"] leads_one [OF raw [of "''location_type''" "''''"]]]
    by (simp add: location_text_def location_members_def strings_def)
qed

lemma head_leads:
  assumes W: "writes_members (jsonify J)"
  shows "plain (be_name b) \<Longrightarrow> leads (head_text J b n) (strings (head_members b n))"
proof -
  assume p: "plain (be_name b)"
  let ?u = "''/api/v1/assets?in='' @ be_name b @ ''&sub_type=epdu,pdu,feed,genset,ups,sts,rackcontroller''"
  have u: "plain ?u" using p by (simp only: plain_append plain_keys simp_thms)
  have uri: "members_text (in_quotes ''power_devices_in_uri'' @ '': '' @ in_quotes ?u) [(''power_devices_in_uri'', JString ?u)]"
    using member_quoted [of "''power_devices_in_uri''" "''''" "''''", OF _ _ _ value_after_blank [OF value_quoted [OF u]]] by simp
  note j = leads_Cons [OF jsonify_member [OF W]] and l = leads_one [OF jsonify_member [OF W]]
  from j [OF leads_Cons [OF uri j [OF j [OF j [OF l]]]]] show ?thesis
    by (simp add: head_text_def head_members_def strings_def)
qed

lemma tails_member:
  "plain k \<Longrightarrow> value_text s v \<Longrightarrow> tails ('', '' @ in_quotes k @ '': '' @ s) [(k, v)]"
  "plain k \<Longrightarrow> value_text s v \<Longrightarrow> tails ('', '' @ in_quotes k @ '' : '' @ s) [(k, v)]"
  "plain k \<Longrightarrow> value_text s v \<Longrightarrow> tails ('' , '' @ in_quotes k @ '' : '' @ s) [(k, v)]"
proof -
  assume p: "plain k" and v: "value_text s v"
  note m = tails_members [OF member_quoted [OF p _ _ value_after_blank [OF v]], of "'' ''"]
  show "tails ('', '' @ in_quotes k @ '': '' @ s) [(k, v)]" using m [of "''''"] by simp
  show c: "tails ('', '' @ in_quotes k @ '' : '' @ s) [(k, v)]" using m [of "'' ''"] by simp
  show "tails ('' , '' @ in_quotes k @ '' : '' @ s) [(k, v)]"
    unfolding tails_def
    by (intro disjI2 exI [of _ "'' ''"] exI [of _ "'' '' @ in_quotes k @ '' : '' @ s"])
      (use member_quoted [OF p _ _ value_after_blank [OF v], of "'' ''" "'' ''"] in simp)
qed

lemma tails_jsonify: "writes_members j \<Longrightarrow> tails (CHR '','' # j k v) [(k, JString v)]"
  using tails_members [OF jsonify_member] by simp

lemma map_erase_absent: "map_of m k = None \<Longrightarrow> map_erase k m = m"
  by (induction m) (auto simp: map_erase_def split: if_splits)

lemma type_tails:
  assumes W: "writes_members (jsonify J)" and "type_text J D w d = Inr (t, exts)"
  shows "tails t (type_members D w d)" and "exts = shown_exts D w"
proof -
  show "tails t (type_members D w d)"
  proof (cases "be_type_id (basic w) = GROUP D")
    case True
    with assms(2) show ?thesis
      by (auto simp: type_text_def type_members_def tails_jsonify [OF W] split: option.splits)
  next
    case False
    with assms(2) obtain ps where ps: "parents_loop J D (parents w) d = Inr ps"
      and t: "t = '','' @ jsonify J ''sub_type'' (strip (be_subtype_name (basic w))) @ '', '' @ in_quotes ''parents'' @
                  '' : ['' @ ps @ '']''"
      by (auto simp: type_text_def bindE_eq_Inr_iff)
    have "tails ('', '' @ in_quotes ''parents'' @ '' : '' @ (CHR ''['' # ps @ '']''))
        [(''parents'', JArray (map (parent_value D d) (parents w)))]"
      by (intro tails_member(2) value_array parents_text_value [OF W ps]) simp
    from tails_append [OF tails_jsonify [OF W] this] False show ?thesis
      by (simp add: t type_members_def)
  qed
  show "exts = shown_exts D w"
    using assms(2) by (auto simp: type_text_def shown_exts_def bindE_eq_Inr_iff map_erase_absent split: if_splits option.splits)
qed

lemma bool_text: "value_text (if b then ''true'' else ''false'') (bool_value b)"
  unfolding bool_value_def by (rule value_bool)

lemma ext_text_value:
  assumes W: "writes_members (jsonify J)"
  shows "value_text (ext_text J k v ro) (attr_value k v ro)"
proof -
  have "members_text (in_quotes ''read_only'' @ '' :'' @ (if ro then ''true'' else ''false'')) [(''read_only'', bool_value ro)]"
    using member_quoted [of "''read_only''" "''''" "'' ''", OF _ _ _ bool_text] by simp
  from value_object [OF MCons [OF jsonify_member [OF W] this]] show ?thesis by (simp add: ext_text_def attr_value_def)
qed

lemma tag_texts_value:
  assumes W: "writes_members (jsonify J)"
  shows "list_all2 value_text (tag_texts J tag) (if tag \<noteq> '''' then [attr_value ''asset_tag'' tag False] else [])"
proof -
  have "members_text ('' '' @ in_quotes ''read_only'' @ '' : false'') [(''read_only'', bool_value False)]"
    using member_quoted [of "''read_only''" "'' ''" "'' ''", OF _ _ _ value_after_blank [OF bool_text [of False]]] by simp
  from value_object [OF MCons [OF jsonify_member [OF W] this]] show ?thesis by (simp add: tag_texts_def attr_value_def)
qed

lemma list_tails:
  assumes "\<forall>v \<in> set vs. plain v" and "plain k"
  shows "tails (list_text ('', '' @ in_quotes k @ '' : ['') vs) (list_member k vs)"
    and "tails (list_text ('' , '' @ in_quotes k @ '' : ['') vs) (list_member k vs)"
proof -
  have "list_all2 value_text (map in_quotes vs) (map JString vs)"
    using assms(1) by (auto simp: list_all2_conv_all_nth intro: value_quoted)
  note v = value_array [OF separated_elements [OF this]]
  show "tails (list_text ('', '' @ in_quotes k @ '' : ['') vs) (list_member k vs)"
    "tails (list_text ('' , '' @ in_quotes k @ '' : ['') vs) (list_member k vs)"
    using tails_member(2,3) [OF assms(2) v] by (simp_all add: list_text_def list_member_def)
qed

lemma outlet_attr_text_value:
  assumes W: "writes_members (jsonify J)" and "plain n"
  shows "value_text (outlet_attr_text J n v ro) (outlet_attr_value n v ro)"
proof -
  have "members_text (in_quotes ''read_only'' @ '' : '' @ (if ro then ''true'' else ''false'')) [(''read_only'', bool_value ro)]"
    using member_quoted [of "''read_only''" "''''" "'' ''", OF _ _ _ value_after_blank [OF bool_text]] by simp
  note r = MCons [OF jsonify_member [OF W] this]
  have "members_text (in_quotes ''name'' @ '':'' @ in_quotes n) [(''name'', JString n)]"
    using member_quoted [of "''name''" "''''" "''''", OF _ _ _ value_quoted [OF assms(2)]] by simp
  from value_object [OF MCons [OF this r]] show ?thesis by (simp add: outlet_attr_text_def outlet_attr_value_def)
qed

lemma outlet_text_value:
  assumes W: "writes_members (jsonify J)" and "list_all isdigit (fst x)"
  shows "members_text (outlet_text J x) [outlet_member x]"
proof -
  obtain n y where x: "x = (n, y)" by (cases x) auto
  note a = outlet_attr_text_value [OF W]
  have "list_all2 value_text
     ((if label y \<noteq> '''' then [outlet_attr_text J ''label'' (label y) (label_r y)] else []) @
      (if ogroup y \<noteq> '''' then [outlet_attr_text J ''group'' (ogroup y) (group_r y)] else []) @
      (if otype y \<noteq> '''' then [outlet_attr_text J ''type'' (otype y) (type_r y)] else []))
     ((if label y \<noteq> '''' then [outlet_attr_value ''label'' (label y) (label_r y)] else []) @
      (if ogroup y \<noteq> '''' then [outlet_attr_value ''group'' (ogroup y) (group_r y)] else []) @
      (if otype y \<noteq> '''' then [outlet_attr_value ''type'' (otype y) (type_r y)] else []))"
    (is "list_all2 _ ?ts ?vs")
    using a [of "''label''"] a [of "''group''"] a [of "''type''"] by simp
  from value_after_blank [OF value_array [OF separated_elements [OF this]]]
  have m: "members_text (in_quotes n @ '' : ['' @ separated ?ts @ '']'') [(n, JArray ?vs)]"
    using member_quoted [OF plain_digits, of n "''''" "'' ''"] assms(2) by (simp add: x)
  show ?thesis
    by (cases "label y = ''''"; cases "ogroup y = ''''"; cases "otype y = ''''")
      (use m in \<open>simp_all add: x outlet_text_def outlet_member_def\<close>)
qed

lemma outlets_tails:
  assumes W: "writes_members (jsonify J)" and "digit_keys os"
  shows "tails (outlets_text J os) (if os \<noteq> [] then [(''outlets'', JObject (map outlet_member os))] else [])"
proof -
  have "list_all2 (\<lambda>s m. members_text s [m]) (map (outlet_text J) os) (map outlet_member os)"
    using assms(2) by (auto simp: list_all2_conv_all_nth digit_keys_def intro!: outlet_text_value [OF W])
  from tails_member(1) [OF _ value_object [OF separated_members [OF this]], of "''outlets''"]
  show ?thesis by (simp add: outlets_text_def)
qed

lemma ext_tails:
  assumes W: "writes_members (jsonify J)"
    and "\<forall>p \<in> {''ip.'', ''mac.'', ''fqdn.'', ''hostname.''}. \<forall>v \<in> set (values_of p exts). plain v"
  shows "tails (ext_part J tag exts) (ext_members J tag exts)"
proof -
  let ?x = "fst (ext_loop J exts no_special)"
  have "list_all2 value_text (tag_texts J tag @ snd (ext_loop J exts no_special))
     ((if tag \<noteq> '''' then [attr_value ''asset_tag'' tag False] else []) @
        map (\<lambda>(k, v, ro). attr_value k v ro) (filter (\<lambda>(k, v, ro). ordinary k) exts))"
    by (intro list_all2_appendI tag_texts_value [OF W])
      (auto simp: ext_loop_collects list_all2_conv_all_nth intro!: ext_text_value [OF W] split: prod.splits)
  note e = tails_member(2) [OF _ value_array [OF separated_elements [OF this]], of "''ext''"]
  have "digit_keys (x_outlets ?x)" by (rule ext_loop_digit_keys) (simp add: no_special_def digit_keys_def)
  note o = outlets_tails [OF W this]
  have l: "tails (list_text ('', '' @ in_quotes ''ips'' @ '' : ['') (x_ips ?x)) (list_member ''ips'' (values_of ''ip.'' exts))"
    "tails (list_text ('', '' @ in_quotes ''macs'' @ '' : ['') (x_macs ?x)) (list_member ''macs'' (values_of ''mac.'' exts))"
    "tails (list_text ('', '' @ in_quotes ''fqdns'' @ '' : ['') (x_fqdns ?x)) (list_member ''fqdns'' (values_of ''fqdn.'' exts))"
    "tails (list_text ('' , '' @ in_quotes ''hostnames'' @ '' : ['') (x_hosts ?x)) (list_member ''hostnames'' (values_of ''hostname.'' exts))"
    unfolding ext_loop_collects using assms(2) list_tails by (simp_all add: no_special_def)
  from tails_append [OF e tails_append [OF l(1) tails_append [OF l(2) tails_append [OF l(3) tails_append [OF l(4) o]]]]]
  show ?thesis by (simp add: ext_part_def ext_members_def Let_def)
qed

lemma plain_value_int_or_null: "plain_value (int_or_null n)"
  by (simp add: int_or_null_def plain_value_def int_to_string_def number_to_string)

lemma plain_count_keys:
  assumes "rack_outlets_available D i d [] = Some (0, res)"
  shows "\<forall>k \<in> set (map fst res). plain k"
proof (rule rack_outlets_result [OF assms])
  fix rs
  assume smap: "smap res" and oth: "\<And>k. k \<noteq> ''sum'' \<Longrightarrow> k \<notin> to_string ` set (power_strips D rs) \<Longrightarrow> map_of res k = map_of [] k"
  show ?thesis
  proof
    fix k assume "k \<in> set (map fst res)"
    then have "map_of res k \<noteq> None" by (simp add: map_of_eq_None_iff)
    with oth [of k] have "k = ''sum'' \<or> k \<in> range to_string" by auto
    then show "plain k" using plain_digits [OF to_string_list_all] by auto
  qed
qed simp

lemma computed_members_text:
  assumes "computed_text J D b d = Inr t"
    and "let x = s_rack_realpower_nominal J (c_str (be_name b)) in isnan J x \<or> number_text (double_text J x)"
  shows "members_text t (computed_members J D b d)"
proof (cases "is_rack J (be_type_id b)")
  case False
  with assms(1) show ?thesis by (auto simp: computed_text_def computed_members_def MNil split: option.splits)
next
  case True
  let ?x = "s_rack_realpower_nominal J (c_str (be_name b))"
  from True assms(1) obtain n res where n: "free_u_size D (be_id b) d = Some n"
    and res: "rack_outlets_available D (be_id b) d [] = Some (0, res)"
    and t: "t = in_quotes ''freeusize'' @ '':'' @ int_or_null n @ '','' @ in_quotes ''realpower.nominal'' @ '':'' @
        (if isnan J ?x then ''null'' else double_text J ?x) @ '', '' @
        in_quotes ''outlet.available'' @ '' : {'' @ separated (map count_text res) @ ''}''"
    by (auto simp: computed_text_def Let_def split: option.splits if_splits)
  have member: "members_text (in_quotes k @ '':'' @ v) [(k, JPlain v)]" if "plain k" "plain_value v" for k v
    using member_quoted [OF that(1), of "''''" "''''", OF _ _ VPlain [OF that(2)]] by simp
  have "list_all2 (\<lambda>s m. members_text s [m]) (map count_text res) (map (\<lambda>(k, m). (k, JPlain (int_or_null m))) res)"
    using plain_count_keys [OF res] member [OF _ plain_value_int_or_null]
    by (auto simp: list_all2_conv_all_nth count_text_def split: prod.splits) (metis fst_conv nth_mem)
  from tails_member(2) [OF _ value_object [OF separated_members [OF this]], of "''outlet.available''"]
  have c: "tails ('', '' @ in_quotes ''outlet.available'' @ '' : {'' @ separated (map count_text res) @ ''}'')
      [(''outlet.available'', JObject (map (\<lambda>(k, m). (k, JPlain (int_or_null m))) res))]" by simp
  have "plain_value (if isnan J ?x then ''null'' else double_text J ?x)"
    using assms(2) by (auto simp: Let_def plain_value_def)
  from MCons [OF member [OF _ plain_value_int_or_null, of "''freeusize''" n] member [OF _ this, of "''realpower.nominal''"]]
  have "members_text (in_quotes ''freeusize'' @ '':'' @ int_or_null n @ '','' @ in_quotes ''realpower.nominal'' @ '':'' @
      (if isnan J ?x then ''null'' else double_text J ?x))
      [(''freeusize'', JPlain (int_or_null n)), (''realpower.nominal'', JPlain (if isnan J ?x then ''null'' else double_text J ?x))]"
    by simp
  from tails_after [OF this _ c] True show ?thesis by (simp add: t computed_members_def n res Let_def)
qed

lemma asset_text_denotes:
  assumes "asset_text J D w d = Inr t" and W: "writes_members (jsonify J)" and ok: "unescaped_ok J w"
  shows "value_text t (asset_value J D w d)"
proof -
  let ?b = "basic w"
  from assms(1) obtain p en gs pw tt exts co
    where p: "id_to_name_ext_name D (be_parent_id ?b) d = Inr p"
      and en: "ext_name D (be_id ?b) d = Inr en" and gs: "groups_texts J D (groups w) d = Inr gs"
      and pw: "(if be_type_id ?b = DEVICE D
             then bindE (powers_texts J D (powers w) d) (\<lambda>ps.
                    Inr ('', '' @ in_quotes ''powers'' @ '': ['' @ separated ps @ '']''))
             else Inr '''') = Inr pw"
      and tt: "type_text J D w d = Inr (tt, exts)" and co: "computed_text J D ?b d = Inr co"
      and t: "t = ''{'' @ head_text J ?b en @ location_text J D (be_parent_id ?b) p d @
             in_quotes ''groups'' @ '': ['' @ separated gs @ '']'' @ pw @ tt @
             ext_part J (be_asset_tag ?b) exts @ '', '' @ in_quotes ''computed'' @ '' : {'' @ co @ ''}}''"
    by (auto simp: asset_text_def Let_def bindE_eq_Inr_iff)
  have name: "plain (be_name ?b)" using ok by (simp add: unescaped_ok_def)
  have lead: "leads (head_text J ?b en @ location_text J D (be_parent_id ?b) p d)
      (strings (head_members ?b en @ location_members D (be_parent_id ?b) p d))"
    using leads_append [OF head_leads [OF W name] location_leads [OF W]] by (simp add: strings_def)
  have groups: "members_text (in_quotes ''groups'' @ '': ['' @ separated gs @ '']'') [(''groups'', JArray (map (group_value D d) (groups w)))]"
    using member_quoted [of "''groups''" "''''" "''''", OF _ _ _ value_after_blank [OF value_array [OF separated_elements [OF groups_text [OF W gs]]]]]
    by simp
  have powers: "tails pw (if be_type_id ?b = DEVICE D then [(''powers'', JArray (map (power_value D d) (powers w)))] else [])"
    using pw tails_member(1) [OF _ value_array [OF separated_elements [OF powers_text_value [OF W]]], of "''powers''"]
    by (auto simp: bindE_eq_Inr_iff split: if_splits)
  have "\<forall>p \<in> {''ip.'', ''mac.'', ''fqdn.'', ''hostname.''}. \<forall>v \<in> set (values_of p (shown_exts D w)). plain v"
  proof (intro ballI)
    fix p v assume p: "p \<in> {''ip.'', ''mac.'', ''fqdn.'', ''hostname.''}" and v: "v \<in> set (values_of p (shown_exts D w))"
    from v obtain k ro where "(k, v, ro) \<in> set (ext w)" and k: "numbered_key p k"
      by (auto simp: values_of_def shown_exts_def map_erase_def split: if_splits)
    then have "numbered_key ''ip.'' k \<or> numbered_key ''mac.'' k \<or> numbered_key ''fqdn.'' k \<or> numbered_key ''hostname.'' k \<longrightarrow> plain v"
      using ok unfolding unescaped_ok_def by blast
    with k p show "plain v" by auto
  qed
  note ext = ext_tails [OF W this]
  have computed: "tails ('', '' @ in_quotes ''computed'' @ '' : {'' @ co @ ''}'') [(''computed'', JObject (computed_members J D ?b d))]"
    using tails_member(2) [OF _ value_object [OF computed_members_text [OF co]], of "''computed''"] ok
    by (simp add: unescaped_ok_def)
  note tail = tails_append [OF powers tails_append [OF type_tails(1) [OF W tt] tails_append [OF ext computed]]]
  from object_text [OF lead groups tail] p ext_name_Inr [OF en] type_tails(2) [OF W tt] show ?thesis
    by (simp add: t asset_value_def Let_def)
qed

subsection \<open>When there is no text\<close>

definition nameless :: "('d, 'h) computed_db \<Rightarrow> 'd \<Rightarrow> nat \<Rightarrow> bool" where
  "nameless D d i \<longleftrightarrow> id_to_name_ext_name D i d = Inr ('''', '''')"

lemma asked_Inl [simp]: "asked q = Inl e \<longleftrightarrow> (\<exists>w. q = Inl w \<and> e = Stop (Thrown w))"
  by (auto simp: asked_def split: sum.splits)

lemma ext_name_empty: "ext_name D i d = Inl Empty_text \<longleftrightarrow> nameless D d i"
  by (auto simp: ext_name_def nameless_def bindE_eq_Inl_iff)

lemma ext_name_named: "ext_name D i d = Inr n \<Longrightarrow> \<not> nameless D d i"
  by (auto simp: ext_name_def nameless_def bindE_eq_Inr_iff)

lemma groups_texts_names:
  "groups_texts J D gs d = Inl Empty_text \<Longrightarrow> \<exists>g \<in> set gs. nameless D d (fst g)"
  "groups_texts J D gs d = Inr ts \<Longrightarrow> \<forall>g \<in> set gs. \<not> nameless D d (fst g)"
  by (induction gs arbitrary: ts) (fastforce simp: bindE_eq_Inl_iff bindE_eq_Inr_iff ext_name_empty dest: ext_name_named)+

lemma powers_texts_names:
  "powers_texts J D ls d = Inl Empty_text \<Longrightarrow> \<exists>l \<in> set ls. nameless D d (tl_src_id l)"
  "powers_texts J D ls d = Inr ts \<Longrightarrow> \<forall>l \<in> set ls. \<not> nameless D d (tl_src_id l)"
  by (induction ls arbitrary: ts) (auto simp: bindE_eq_Inl_iff bindE_eq_Inr_iff ext_name_empty dest: ext_name_named)

lemma parents_loop_names:
  "parents_loop J D ps d = Inl Empty_text \<Longrightarrow> \<exists>p \<in> set ps. nameless D d (fst p)"
  "parents_loop J D ps d = Inr t \<Longrightarrow> \<forall>p \<in> set ps. \<not> nameless D d (fst p)"
  by (induction ps arbitrary: t) (auto simp: bindE_eq_Inl_iff bindE_eq_Inr_iff ext_name_empty dest: ext_name_named)

definition incomplete :: "'f json_env \<Rightarrow> ('d, 'h) computed_db \<Rightarrow> web_element \<Rightarrow> 'd \<Rightarrow> bool" where
  \<comment> \<open>a name is missing, or the outlets of a rack cannot be read\<close>
  "incomplete J D w d \<longleftrightarrow>
     nameless D d (be_id (basic w)) \<or> (\<exists>g \<in> set (groups w). nameless D d (fst g)) \<or>
     be_type_id (basic w) = DEVICE D \<and> (\<exists>l \<in> set (powers w). nameless D d (tl_src_id l)) \<or>
     be_type_id (basic w) \<noteq> GROUP D \<and> (\<exists>p \<in> set (parents w). nameless D d (fst p)) \<or>
     is_rack J (be_type_id (basic w)) \<and> (\<exists>rv res. rack_outlets_available D (be_id (basic w)) d [] = Some (rv, res) \<and> rv \<noteq> 0)"

lemma type_text_names:
  "type_text J D w d = Inl Empty_text \<Longrightarrow> be_type_id (basic w) \<noteq> GROUP D \<and> (\<exists>p \<in> set (parents w). nameless D d (fst p))"
  "type_text J D w d = Inr r \<Longrightarrow> be_type_id (basic w) \<noteq> GROUP D \<Longrightarrow> \<forall>p \<in> set (parents w). \<not> nameless D d (fst p)"
  by (auto simp: type_text_def bindE_eq_Inl_iff bindE_eq_Inr_iff split: if_splits option.splits
      dest: parents_loop_names)

lemma computed_text_outlets:
  "computed_text J D b d = Inl Empty_text \<Longrightarrow>
     is_rack J (be_type_id b) \<and> (\<exists>rv res. rack_outlets_available D (be_id b) d [] = Some (rv, res) \<and> rv \<noteq> 0)"
  "computed_text J D b d = Inr t \<Longrightarrow> is_rack J (be_type_id b) \<Longrightarrow>
     rack_outlets_available D (be_id b) d [] = Some (rv, res) \<Longrightarrow> rv = 0"
  by (auto simp: computed_text_def Let_def split: if_splits option.splits)

lemma asset_text_empty: "asset_text J D w d = Inl Empty_text \<Longrightarrow> incomplete J D w d"
  unfolding asset_text_def incomplete_def Let_def
  by (auto simp: bindE_eq_Inl_iff ext_name_empty split: if_splits
      dest!: groups_texts_names(1) powers_texts_names(1) type_text_names(1) computed_text_outlets(1))

lemma asset_text_complete: "asset_text J D w d = Inr t \<Longrightarrow> t \<noteq> '''' \<and> \<not> incomplete J D w d"
  unfolding asset_text_def incomplete_def Let_def
  by (auto simp: bindE_eq_Inr_iff split: if_splits
      dest!: ext_name_named groups_texts_names(2) powers_texts_names(2) type_text_names(2) computed_text_outlets(2))

subsection \<open>An asset of the installation\<close>

definition sample_ext :: "(string \<times> string \<times> bool) list" where
  "sample_ext = [(''hostname.1'', ''ups.lan'', False), (''ip.1'', ''10.0.0.7'', False), (''model'', ''9PX'', True),
     (''name'', ''UPS 12'', False), (''outlet.1.label'', ''left'', True), (''outlet.1.type'', ''iec'', False)]"

definition sample_assets_db :: "(string list, unit) computed_db" where
  "sample_assets_db = (sample_computed sample_rack ''8'' 0)\<lparr>
     select_ext_attributes := (\<lambda>i d. Inr (Item sample_ext)),
     select_asset_device_links_to := (\<lambda>i d. Inr (Item
       [\<lparr> tl_src_id = 1, tl_src_name = ''dc-1'', tl_src_socket = '''', tl_dest_socket = ''2'' \<rparr>])) \<rparr>"

definition sample_json :: "int json_env" where
  \<comment> \<open>no metrics; a type 20 is a rack\<close>
  "sample_json = \<lparr> jsonify = write_member, read_metric_value = (\<lambda>n m. None), stod = (\<lambda>s. None), double_zero = 0,
     double_nan = - 1, isnan = (\<lambda>x. x < 0), double_text = (\<lambda>x. ''0''), is_rack = (\<lambda>t. t = 20) \<rparr>"

subsection \<open>Properties\<close>

text \<open>C5. A JSON text of an asset denotes, by the grammar of JSON, the object of the asset: its names and
  attributes, its location, groups, power links and parents by their external names, the attributes
  collected into addresses, host names and outlets, the other attributes, and the computed values of
  a rack; provided that the library writes the members it is asked to and that what is written
  without escapes (the internal name and the addresses) needs none and the nominal power is a number.\<close>

theorem asset_json_denotes_asset:
  assumes "json_of_asset J D i d = Inr t" and "t \<noteq> ''''" and "writes_members (jsonify J)"
    and "\<And>w. get_item1 (manager_db.truncate D) (nat (to_uint32 i)) d = Item w \<Longrightarrow> unescaped_ok J w"
  shows "\<exists>w. get_item1 (manager_db.truncate D) (nat (to_uint32 i)) d = Item w \<and> value_text t (asset_value J D w d)"
proof -
  from assms(1,2) obtain w where w: "get_item1 (manager_db.truncate D) (nat (to_uint32 i)) d = Item w"
    and t: "asset_text J D w d = Inr t"
    by (auto simp: json_of_asset_def split: reply.splits sum.splits stop.splits)
  from asset_text_denotes [OF t assms(3) assms(4) [OF w]] w show ?thesis by blast
qed

lemma sample_asset: "case get_item1 (manager_db.truncate sample_assets_db) (nat (to_uint32 12)) [] of
    Item w \<Rightarrow> be_name (basic w) = ''rackcontroller-0'' \<and> ext w = sample_ext | Failed _ \<Rightarrow> False"
  by code_simp

theorem asset_json_denotes_asset_witness:
  "\<exists>t w. json_of_asset sample_json sample_assets_db 12 [] = Inr t \<and> value_text t (asset_value sample_json sample_assets_db w [])"
proof -
  have run: "case json_of_asset sample_json sample_assets_db 12 [] of Inr t \<Rightarrow> t \<noteq> '''' | Inl _ \<Rightarrow> False" by code_simp
  then obtain t where t: "json_of_asset sample_json sample_assets_db 12 [] = Inr t" "t \<noteq> ''''" by (auto split: sum.splits)
  have j: "writes_members (jsonify sample_json)" by (simp add: sample_json_def write_member_writes)
  have "unescaped_ok sample_json w" if "get_item1 (manager_db.truncate sample_assets_db) (nat (to_uint32 12)) [] = Item w" for w
  proof -
    have w: "be_name (basic w) = ''rackcontroller-0''" "ext w = sample_ext" using sample_asset that by auto
    have "number_text ''0''" by code_simp
    then show ?thesis
      by (simp add: unescaped_ok_def w sample_ext_def sample_json_def s_rack_realpower_nominal_def plain_def char_code_def)
  qed
  from asset_json_denotes_asset [OF t j this] t show ?thesis by blast
qed

text \<open>C21. There is no JSON text of an asset (an empty string) exactly when the asset cannot be read, or it or
  one of its groups, power sources or parents has neither name, or the outlets of a rack cannot be read.\<close>

theorem asset_json_empty_iff:
  assumes "json_of_asset J D i d = Inr t"
  shows "t = '''' \<longleftrightarrow> (case get_item1 (manager_db.truncate D) (nat (to_uint32 i)) d of
           Failed _ \<Rightarrow> True | Item w \<Rightarrow> incomplete J D w d)"
proof (cases "get_item1 (manager_db.truncate D) (nat (to_uint32 i)) d")
  case (Item w)
  with assms asset_text_complete [of J D w d] asset_text_empty [of J D w d] show ?thesis
    by (auto simp: json_of_asset_def split: sum.splits stop.splits)
qed (use assms in \<open>simp add: json_of_asset_def\<close>)

theorem asset_json_empty_iff_witness:
  "json_of_asset sample_json sample_assets_db 13 [] = Inr '''' \<and>
   (\<exists>w. get_item1 (manager_db.truncate sample_assets_db) (nat (to_uint32 13)) [] = Item w \<and> incomplete sample_json sample_assets_db w [])"
proof -
  have run: "json_of_asset sample_json sample_assets_db 13 [] = Inr ''''" by code_simp
  have "case get_item1 (manager_db.truncate sample_assets_db) (nat (to_uint32 13)) [] of Item w \<Rightarrow> True | Failed _ \<Rightarrow> False"
    by code_simp
  with asset_json_empty_iff [OF run] run show ?thesis by (auto split: reply.splits)
qed

end
