(* ===== verification/AlertJson.thy ===== *)
theory AlertJson
  imports AssetJson Calendar
begin

text \<open>
  \<open>src/shared/utils_json.cc\<close>, \<open>getJsonAlert\<close>: an alert as a JSON text, with the names inside its
  description replaced. The regular expression of the replacement is matched the way the standard
  describes: groups are greedy and give characters back when the rest cannot match.
\<close>

record alert =
  a_name :: string
  a_rule :: string
  a_state :: string
  a_severity :: string
  a_description :: string
  a_metadata :: "string option" \<comment> \<open>\<open>None\<close> for a null pointer\<close>
  a_time :: nat
  a_ctime :: "nat option" \<comment> \<open>the number \<open>ctime\<close> of the auxiliary hash\<close>

record ('d, 'f) alert_env = "'f json_env" +
  print_datetime :: "tm \<Rightarrow> string" \<comment> \<open>\<open>strftime\<close> with the format of dates\<close>
  select_asset_element_web_byName :: "string \<Rightarrow> 'd \<Rightarrow> string + basic_element reply"

subsection \<open>The description\<close>

definition ends_with :: "string \<Rightarrow> string \<Rightarrow> bool" where
  "ends_with s t \<longleftrightarrow> drop (length s - length t) s = t"

definition key :: string where
  "key = ''ename'' @ [CHR 0x22]"

definition line_free :: "string \<Rightarrow> bool" where
  \<comment> \<open>\<open>.*\<close> matches it\<close>
  "line_free s \<longleftrightarrow> CHR 0x0A \<notin> set s \<and> CHR 0x0D \<notin> set s"

definition stop_here :: "string \<Rightarrow> (string \<times> string \<times> string) option" where
  \<comment> \<open>\<open>([^"]*)(".*)\<close>\<close>
  "stop_here r =
     (let v = takeWhile (\<lambda>c. c \<noteq> CHR 0x22) r; t = dropWhile (\<lambda>c. c \<noteq> CHR 0x22) r
      in if t \<noteq> [] \<and> line_free t then Some ('''', v, t) else None)"

fun value_split :: "string \<Rightarrow> (string \<times> string \<times> string) option" where
  \<comment> \<open>\<open>[:" ]*\<close> as long as what follows matches\<close>
  "value_split [] = stop_here []"
| "value_split (c # r) =
     (if c = CHR '':'' \<or> c = CHR 0x22 \<or> c = CHR '' ''
      then (case value_split r of Some (b, v, t) \<Rightarrow> Some (c # b, v, t) | None \<Rightarrow> stop_here (c # r))
      else stop_here (c # r))"

definition value_key :: string where
  "value_key = CHR 0x22 # ''value'' @ [CHR 0x22]"

definition match_tail :: "string \<Rightarrow> (string \<times> string \<times> string) option" where
  \<comment> \<open>the groups 2 to 4, after \<open>ename"\<close>\<close>
  "match_tail s =
     (let a = takeWhile (\<lambda>c. c \<in> set '':{ '') s; r = dropWhile (\<lambda>c. c \<in> set '':{ '') s
      in if starts_with r value_key
         then map_option (\<lambda>(b, v, t). (a @ value_key @ b, v, t)) (value_split (drop 7 r))
         else None)"

definition match_at :: "string \<Rightarrow> string \<Rightarrow> (string \<times> string \<times> string \<times> string) option" where
  "match_at p s = (if ends_with p key \<and> line_free p then map_option (\<lambda>m. (p, m)) (match_tail s) else None)"

fun regex_match :: "string \<Rightarrow> string \<Rightarrow> (string \<times> string \<times> string \<times> string) option" where
  \<comment> \<open>the longest first group that begins with the first argument\<close>
  "regex_match p [] = match_at p []"
| "regex_match p (c # s) =
     (case regex_match (p @ [c]) s of Some m \<Rightarrow> Some m | None \<Rightarrow> match_at p (c # s))"

lemma stop_here_Some: "stop_here r = Some (b, v, t) \<Longrightarrow> r = b @ v @ t"
  by (auto simp: stop_here_def Let_def split: if_splits)

lemma value_split_Some: "value_split r = Some (b, v, t) \<Longrightarrow> r = b @ v @ t"
  by (induction r arbitrary: b v t rule: value_split.induct) (auto split: if_splits option.splits dest: stop_here_Some)

lemma match_tail_Some:
  assumes "match_tail s = Some (g, v, t)"
  shows "s = g @ v @ t \<and> g \<noteq> []"
proof -
  let ?r = "dropWhile (\<lambda>c. c \<in> set '':{ '') s"
  from assms obtain b where r: "starts_with ?r value_key" and b: "value_split (drop 7 ?r) = Some (b, v, t)"
    and g: "g = takeWhile (\<lambda>c. c \<in> set '':{ '') s @ value_key @ b"
    by (auto simp: match_tail_def Let_def split: if_splits)
  from r obtain u where "?r = value_key @ u" by (auto simp: starts_with_iff)
  with value_split_Some [OF b] have "?r = value_key @ b @ v @ t" by (simp add: value_key_def)
  with takeWhile_dropWhile_id [of "\<lambda>c. c \<in> set '':{ ''" s]
  have "s = takeWhile (\<lambda>c. c \<in> set '':{ '') s @ value_key @ b @ v @ t" by metis
  moreover have "value_key \<noteq> []" by (simp add: value_key_def)
  ultimately show ?thesis unfolding g by simp
qed

lemma regex_match_Some: "regex_match p s = Some (g1, g2, g3, g4) \<Longrightarrow> p @ s = g1 @ g2 @ g3 @ g4 \<and> g2 \<noteq> []"
proof (induction p s rule: regex_match.induct)
  case (1 p)
  then show ?case using match_tail_Some [of "[]"] by (auto simp: match_at_def split: if_splits)
next
  case (2 p c s)
  then show ?case using match_tail_Some [of "c # s" g2 g3 g4] by (auto simp: match_at_def split: if_splits option.splits)
qed

function update_loop :: "string \<Rightarrow> string \<Rightarrow> string \<Rightarrow> string" where
  "update_loop ename search res =
     (case regex_match '''' search of
        None \<Rightarrow> search @ res
      | Some (g1, g2, g3, g4) \<Rightarrow> update_loop ename g1 (g2 @ ename @ g4 @ res))"
  by pat_completeness auto

termination
  by (relation "measure (\<lambda>(ename, search, res). length search)") (auto dest!: regex_match_Some)

declare update_loop.simps [simp del]

definition updateDescription :: "string \<Rightarrow> string \<Rightarrow> string" where
  "updateDescription ename description = update_loop ename description ''''"

subsection \<open>The alert\<close>

definition alert_text ::
  "('d, 'f) alert_env \<Rightarrow> string \<Rightarrow> alert \<Rightarrow> basic_element \<Rightarrow> string \<Rightarrow> string" where
  "alert_text A time a b ename =
     ''{'' @ jsonify A ''timestamp'' time @ '','' @ jsonify A ''rule_name'' (a_rule a) @ '','' @
     jsonify A ''element_id'' (a_name a) @ '','' @ jsonify A ''element_name'' ename @ '','' @
     jsonify A ''element_type'' (be_type_name b) @ '','' @ jsonify A ''element_sub_type'' (strip (be_subtype_name b)) @ '','' @
     jsonify A ''state'' (a_state a) @ '','' @ jsonify A ''severity'' (a_severity a) @ '','' @
     jsonify A ''description'' (updateDescription ename (a_description a)) @ '','' @
     jsonify A ''metadata'' (case a_metadata a of Some m \<Rightarrow> if m \<noteq> '''' then m else ''{}'' | None \<Rightarrow> ''{}'') @ ''}''"

definition time_t :: "nat \<Rightarrow> int" where
  \<comment> \<open>conversion from \<open>uint64_t\<close>\<close>
  "time_t n = signed_take_bit 63 (int n)"

definition json_of_alert ::
  "('d, 'f) alert_env \<Rightarrow> ('d, 'h) computed_db \<Rightarrow> alert \<Rightarrow> 'd \<Rightarrow> string + string" where
  \<comment> \<open>\<open>getJsonAlert\<close>; the names come over a connection of their own\<close>
  "json_of_alert A D a d =
     (case calendar_to_datetime (print_datetime A) (time_t (case a_ctime a of Some t \<Rightarrow> t | None \<Rightarrow> a_time a)) 64 of
        None \<Rightarrow> Inr ''''
      | Some time \<Rightarrow>
          bindE (select_asset_element_web_byName A (a_name a) d) (\<lambda>asset_element.
          case asset_element of Failed _ \<Rightarrow> Inr '''' | Item b \<Rightarrow>
          bindE (id_to_name_ext_name D (be_id b) d) (\<lambda>(iname, ename).
            if iname = '''' \<and> ename = '''' then Inr ''''
            else Inr (alert_text A time a b ename))))"

subsection \<open>Replacing the names in a description\<close>

fun key_free :: "string \<Rightarrow> bool" where
  "key_free [] = True"
| "key_free (c # s) = (\<not> starts_with (c # s) key \<and> key_free s)"

definition name_link :: string where
  \<comment> \<open>what comes between \<open>ename"\<close> and the name: \<open>: { "value":"\<close>\<close>
  "name_link = '': { '' @ value_key @ '':'' @ [CHR 0x22]"

fun with_names :: "string \<Rightarrow> (string \<times> string) list \<Rightarrow> string" where
  \<comment> \<open>a text with names, the last one first, each followed by its text\<close>
  "with_names t0 [] = t0"
| "with_names t0 ((v, t) # es) = with_names t0 es @ key @ name_link @ v @ CHR 0x22 # t"

definition replaceable :: "string \<times> string \<Rightarrow> bool" where
  "replaceable e \<longleftrightarrow> (case e of (v, t) \<Rightarrow>
     v \<noteq> '''' \<and> hd v \<noteq> CHR '':'' \<and> hd v \<noteq> CHR '' '' \<and> CHR 0x22 \<notin> set v \<and> \<not> ends_with v ''ename'' \<and> line_free v \<and>
     line_free t \<and> key_free t)"

lemma ends_with_iff: "ends_with s t \<longleftrightarrow> (\<exists>p. s = p @ t)"
  unfolding ends_with_def by (metis append_take_drop_id append_eq_conv_conj length_append add_diff_cancel_right')

lemma key_free_not: "\<not> key_free (a @ key @ b)"
proof (induction a)
  case Nil
  have "key_free s \<Longrightarrow> s \<noteq> [] \<Longrightarrow> \<not> starts_with s key" for s by (cases s) auto
  from this [of "key @ b"] show ?case by (auto simp: key_def starts_with_def)
qed simp

lemma quote_split:
  assumes "x @ CHR 0x22 # z = a @ CHR 0x22 # b" and "CHR 0x22 \<notin> set x" and "ends_with a ''ename''" and "\<not> ends_with x ''ename''"
  obtains a' where "z = a' @ CHR 0x22 # b" and "ends_with a' ''ename''"
proof -
  from assms(1) consider "x = a" | u where "a = x @ CHR 0x22 # u" "z = u @ CHR 0x22 # b"
    | u where "x = a @ CHR 0x22 # u"
    by (auto simp: append_eq_append_conv2 Cons_eq_append_conv append_eq_Cons_conv)
  then show ?thesis
  proof cases
    case (2 u)
    from assms(3) 2(1) obtain p where p: "x @ CHR 0x22 # u = p @ ''ename''" by (auto simp: ends_with_iff)
    then have "ends_with u ''ename''"
      by (auto simp: ends_with_iff append_eq_append_conv2 Cons_eq_append_conv append_eq_Cons_conv)
    with 2(2) show ?thesis using that by blast
  qed (use assms in auto)
qed

lemma key_end:
  assumes "t @ y = a @ CHR 0x22 # b" and "ends_with a ''ename''" and "key_free t" and "y = '''' \<or> y = key"
  shows "y = key \<and> b = ''''"
proof -
  from assms(2) obtain p where a: "a = p @ ''ename''" by (auto simp: ends_with_iff)
  have "t \<noteq> p @ key @ c" for c using key_free_not assms(3) by blast
  then have no: "t \<noteq> a @ CHR 0x22 # c" for c by (simp add: a key_def)
  with assms(1,4) show ?thesis
    by (auto simp: key_def append_eq_append_conv2 Cons_eq_append_conv append_eq_Cons_conv)
qed

lemma match_at_no_key: "\<not> ends_with p key \<Longrightarrow> match_at p s = None"
  by (simp add: match_at_def)

lemma regex_match_None: "(\<And>a b. s = a @ b \<Longrightarrow> match_at (p @ a) b = None) \<Longrightarrow> regex_match p s = None"
proof (induction p s rule: regex_match.induct)
  case (1 p)
  from 1 [of "[]" "[]"] show ?case by simp
next
  case (2 p c s)
  have "regex_match (p @ [c]) s = None" by (rule 2(1)) (use 2(2) [of "c # _"] in simp)
  with 2(2) [of "[]" "c # s"] show ?case by simp
qed

lemma regex_match_at:
  assumes "match_at (p @ x) s = Some m" and "\<And>a b. s = a @ b \<Longrightarrow> a \<noteq> [] \<Longrightarrow> match_at (p @ x @ a) b = None"
  shows "regex_match p (x @ s) = Some m"
  using assms
proof (induction x arbitrary: p)
  case Nil
  show ?case
  proof (cases s)
    case Nil
    with Nil.prems show ?thesis by simp
  next
    case (Cons c s')
    have "regex_match (p @ [c]) s' = None"
      by (rule regex_match_None) (use Nil.prems(2) [of "c # _"] Cons in simp)
    with Nil.prems(1) Cons show ?thesis by simp
  qed
next
  case (Cons c x)
  from Cons.prems Cons.IH [of "p @ [c]"] show ?case by simp
qed

lemma match_at_end: "match_at p '''' = None"
  by (simp add: match_at_def match_tail_def Let_def value_key_def starts_with_def)

lemma key_suffix:
  assumes "ends_with (p @ a) key" and "a \<noteq> []" and "p = '''' \<or> ends_with p [CHR 0x22]"
  obtains a' where "a = a' @ [CHR 0x22]" and "ends_with a' ''ename'' "
proof -
  from assms(1) obtain q where q: "p @ a = (q @ ''ename'') @ [CHR 0x22]" by (auto simp: ends_with_iff key_def)
  with assms(2) obtain a' where a: "a = a' @ [CHR 0x22]" and p: "p @ a' = q @ ''ename''"
    by (cases a rule: rev_cases) auto
  have "ends_with a' ''ename''"
    using p assms(3) by (auto simp: ends_with_iff append_eq_append_conv2 Cons_eq_append_conv append_eq_Cons_conv)
  with a show ?thesis using that by blast
qed

lemma no_key_in_text:
  assumes "key_free t" and "y = '''' \<or> y = key"
  shows "regex_match '''' (t @ y) = None"
proof (rule regex_match_None)
  fix a b assume ab: "t @ y = a @ b"
  show "match_at ('''' @ a) b = None"
  proof (cases "ends_with a key")
    case True
    then have "a \<noteq> []" by (auto simp: ends_with_def key_def)
    from key_suffix [of "''''" a] True \<open>a \<noteq> []\<close>
    obtain a' where a: "a = a' @ [CHR 0x22]" "ends_with a' ''ename''" by auto
    with key_end [of t y a' b] ab assms have "b = ''''" by simp
    then show ?thesis by (simp add: match_at_end)
  qed (simp add: match_at_no_key)
qed

lemma match_name:
  assumes "replaceable (v, t)" and "line_free p" and "ends_with p key" and "y = '''' \<or> y = key"
  shows "match_at p (name_link @ v @ CHR 0x22 # t @ y) = Some (p, name_link, v, CHR 0x22 # t @ y)"
proof -
  from assms(1) obtain c w where v: "v = c # w" and c: "c \<noteq> CHR '':''" "c \<noteq> CHR '' ''" "c \<noteq> CHR 0x22" "CHR 0x22 \<notin> set w"
    and lf: "line_free t"
    by (cases v) (auto simp: replaceable_def)
  have "line_free (CHR 0x22 # t @ y)" using lf assms(4) by (auto simp: line_free_def key_def)
  then have "stop_here (v @ CHR 0x22 # t @ y) = Some ('''', v, CHR 0x22 # t @ y)"
    using c by (simp add: v stop_here_def Let_def takeWhile_append dropWhile_append)
  then have "value_split (CHR '':'' # CHR 0x22 # v @ CHR 0x22 # t @ y) = Some ([CHR '':'', CHR 0x22], v, CHR 0x22 # t @ y)"
    using c by (simp add: v)
  then show ?thesis
    using assms(2,3) by (simp add: match_at_def match_tail_def name_link_def value_key_def Let_def starts_with_def)
qed

lemma no_key_after_name:
  assumes "replaceable (v, t)" and "y = '''' \<or> y = key" and "name_link @ v @ CHR 0x22 # t @ y = a @ b" and "a \<noteq> []"
  shows "match_at (x @ key @ a) b = None"
proof (cases "ends_with (x @ key @ a) key")
  case True
  have "ends_with (x @ key) [CHR 0x22]" by (auto simp: ends_with_iff key_def)
  with key_suffix [of "x @ key" a] True assms(4)
  obtain a1 where a: "a = a1 @ [CHR 0x22]" "ends_with a1 ''ename''" by auto
  have e: "'': { '' @ CHR 0x22 # ''value'' @ CHR 0x22 # '':'' @ CHR 0x22 # v @ CHR 0x22 # t @ y = a1 @ CHR 0x22 # b"
    using assms(3) by (simp add: a name_link_def value_key_def)
  obtain a2 where e: "''value'' @ CHR 0x22 # '':'' @ CHR 0x22 # v @ CHR 0x22 # t @ y = a2 @ CHR 0x22 # b"
    and a2: "ends_with a2 ''ename''"
    by (rule quote_split [OF e _ a(2)]) (auto simp: ends_with_def)
  obtain a3 where e: "'':'' @ CHR 0x22 # v @ CHR 0x22 # t @ y = a3 @ CHR 0x22 # b" and a3: "ends_with a3 ''ename''"
    by (rule quote_split [OF e _ a2]) (auto simp: ends_with_def)
  obtain a4 where e: "v @ CHR 0x22 # t @ y = a4 @ CHR 0x22 # b" and a4: "ends_with a4 ''ename''"
    by (rule quote_split [OF e _ a3]) (auto simp: ends_with_def)
  obtain a5 where "t @ y = a5 @ CHR 0x22 # b" "ends_with a5 ''ename''"
    by (rule quote_split [OF e _ a4]) (use assms(1) in \<open>auto simp: replaceable_def\<close>)
  from key_end [OF this _ assms(2)] assms(1) have "b = ''''" by (simp add: replaceable_def)
  then show ?thesis by (simp add: match_at_end)
qed (simp add: match_at_no_key)

lemma line_free_simps [simp]:
  "line_free (s @ t) \<longleftrightarrow> line_free s \<and> line_free t" "line_free (c # t) \<longleftrightarrow> c \<noteq> CHR 0x0A \<and> c \<noteq> CHR 0x0D \<and> line_free t"
  "line_free ''''" "line_free key" "line_free name_link"
  by (auto simp: line_free_def key_def name_link_def value_key_def)

lemma line_free_with_names: "line_free t0 \<Longrightarrow> \<forall>e \<in> set es. replaceable e \<Longrightarrow> line_free (with_names t0 es)"
  by (induction t0 es rule: with_names.induct) (auto simp: replaceable_def)

lemma update_loop_names:
  assumes "line_free t0" and "key_free t0" and "\<forall>e \<in> set es. replaceable e" and "y = '''' \<or> y = key"
  shows "update_loop ename (with_names t0 es @ y) res = with_names t0 (map (\<lambda>(v, t). (ename, t)) es) @ y @ res"
  using assms(3,4)
proof (induction es arbitrary: y res)
  case Nil
  then show ?case by (simp add: update_loop.simps [of _ "t0 @ y"] no_key_in_text [OF assms(2)])
next
  case (Cons e es)
  obtain v t where e: "e = (v, t)" by (cases e) auto
  let ?x = "with_names t0 es @ key" and ?s = "name_link @ v @ CHR 0x22 # t @ y"
  have r: "replaceable (v, t)" using Cons.prems(1) by (simp add: e)
  have "line_free ?x" using line_free_with_names [OF assms(1)] Cons.prems(1) by simp
  moreover have "ends_with ?x key" by (auto simp: ends_with_iff)
  ultimately have "match_at ?x ?s = Some (?x, name_link, v, CHR 0x22 # t @ y)"
    using match_name [OF r] Cons.prems(2) by blast
  then have "regex_match '''' (?x @ ?s) = Some (?x, name_link, v, CHR 0x22 # t @ y)"
    by (intro regex_match_at) (use no_key_after_name [OF r Cons.prems(2)] in simp_all)
  then have "update_loop ename (?x @ ?s) res = update_loop ename ?x (name_link @ ename @ CHR 0x22 # t @ y @ res)"
    by (simp add: update_loop.simps [of _ "?x @ ?s"] del: append_assoc) simp
  also have "\<dots> = with_names t0 (map (\<lambda>(v, t). (ename, t)) es) @ key @ name_link @ ename @ CHR 0x22 # t @ y @ res"
    using Cons.IH [of key] Cons.prems(1) by simp
  finally show ?case by (simp add: e)
qed

lemma alert_text_value:
  assumes "writes_members (jsonify A)"
  shows "value_text (alert_text A time a b ename)
     (JObject (strings [(''timestamp'', time), (''rule_name'', a_rule a), (''element_id'', a_name a), (''element_name'', ename),
        (''element_type'', be_type_name b), (''element_sub_type'', strip (be_subtype_name b)), (''state'', a_state a),
        (''severity'', a_severity a), (''description'', updateDescription ename (a_description a)),
        (''metadata'', case a_metadata a of Some m \<Rightarrow> if m \<noteq> '''' then m else ''{}'' | None \<Rightarrow> ''{}'')]))"
    (is "value_text _ (JObject (strings ?kvs))")
  using value_strings [OF assms, of ?kvs] by (simp add: alert_text_def)

definition quoted_name :: "string \<Rightarrow> string" where
  "quoted_name rest = ''power of {'' @ in_quotes ''ename'' @ '': { '' @ in_quotes ''value'' @ '':'' @ rest"

text \<open>A name that is empty is not replaced: the quotes around it are taken for separators.\<close>

lemma empty_name_breaks_description:
  "updateDescription ''UPS 12'' (quoted_name ([CHR 0x22, CHR 0x22] @ '', '' @ in_quotes ''assetLink'' @ ''}'')) =
     quoted_name ([CHR 0x22, CHR 0x22] @ ''UPS 12'' @ [CHR 0x22] @ ''assetLink'' @ [CHR 0x22] @ ''}'')"
  by code_simp

definition sample_alert :: alert where
  "sample_alert = \<lparr> a_name = ''rackcontroller-0'', a_rule = ''load'', a_state = ''ACTIVE'', a_severity = ''WARNING'',
     a_description = with_names ''Load of {'' [(''ups-12'', ''} is high'')], a_metadata = None, a_time = 0, a_ctime = Some 1600000000 \<rparr>"

definition sample_alert_env :: "(string list, int) alert_env" where
  "sample_alert_env = json_env.extend sample_json
     (alert_env.fields rfc11_print (\<lambda>n d. Inr (sample_basic 12)))"

subsection \<open>Properties\<close>

text \<open>C15. In the description of an alert every name that is written as the value of an \<open>ename\<close>, when it is
  not empty and holds no quote, is replaced by the external name of the asset, and nothing else is
  changed.\<close>

theorem description_names_replaced:
  assumes "line_free t0" and "key_free t0" and "\<forall>e \<in> set es. replaceable e"
  shows "updateDescription ename (with_names t0 es) = with_names t0 (map (\<lambda>(v, t). (ename, t)) es)"
  using update_loop_names [OF assms, of "''''" ename "''''"] by (simp add: updateDescription_def)

theorem description_names_replaced_witness:
  "updateDescription ''UPS 12'' (with_names ''Load of {'' [(''ups-13'', ''} is high''), (''ups-12'', ''} or {'')]) =
     with_names ''Load of {'' [(''UPS 12'', ''} is high''), (''UPS 12'', ''} or {'')]"
proof -
  have "line_free ''Load of {'' \<and> key_free ''Load of {'' \<and> list_all replaceable [(''ups-13'', ''} is high''), (''ups-12'', ''} or {'')]"
    by code_simp
  with description_names_replaced [of "''Load of {''" "[(''ups-13'', ''} is high''), (''ups-12'', ''} or {'')]" "''UPS 12''"]
  show ?thesis by (simp add: list_all_iff)
qed

text \<open>The JSON text of an alert denotes, by the grammar of JSON, an object of strings with the time, rule,
  state and severity of the alert, the names, type and stripped subtype of the asset it is about and
  the description with the names replaced.\<close>

theorem alert_json_denotes_alert:
  assumes "json_of_alert A D a d = Inr t" and "t \<noteq> ''''" and "writes_members (jsonify A)"
  shows "\<exists>time b ename. select_asset_element_web_byName A (a_name a) d = Inr (Item b) \<and>
     value_text t
     (JObject (strings [(''timestamp'', time), (''rule_name'', a_rule a), (''element_id'', a_name a), (''element_name'', ename),
        (''element_type'', be_type_name b), (''element_sub_type'', strip (be_subtype_name b)), (''state'', a_state a),
        (''severity'', a_severity a), (''description'', updateDescription ename (a_description a)),
        (''metadata'', case a_metadata a of Some m \<Rightarrow> if m \<noteq> '''' then m else ''{}'' | None \<Rightarrow> ''{}'')]))"
proof -
  from assms(1,2) obtain time b iname ename where "select_asset_element_web_byName A (a_name a) d = Inr (Item b)"
    and "t = alert_text A time a b ename"
    by (auto simp: json_of_alert_def bindE_eq_Inr_iff split: option.splits reply.splits if_splits)
  with alert_text_value [OF assms(3)] show ?thesis by blast
qed

theorem alert_json_denotes_alert_witness:
  "\<exists>t v. json_of_alert sample_alert_env sample_assets_db sample_alert [] = Inr t \<and> value_text t v"
proof -
  have "case json_of_alert sample_alert_env sample_assets_db sample_alert [] of Inr t \<Rightarrow> t \<noteq> '''' | Inl _ \<Rightarrow> False" by code_simp
  then obtain t where t: "json_of_alert sample_alert_env sample_assets_db sample_alert [] = Inr t" "t \<noteq> ''''"
    by (auto split: sum.splits)
  have "writes_members (jsonify sample_alert_env)"
    by (simp add: sample_alert_env_def json_env.defs sample_json_def write_member_writes)
  from alert_json_denotes_alert [OF t this] t show ?thesis by blast
qed

definition created_at :: "alert \<Rightarrow> nat" where
  "created_at a = (case a_ctime a of Some t \<Rightarrow> t | None \<Rightarrow> a_time a)"

lemma time_t_int: "n < 2 ^ 63 \<Longrightarrow> time_t n = int n"
  unfolding time_t_def by (rule signed_take_bit_int_eq_self) simp_all

text \<open>C28. The time in the JSON text of an alert is read by \<open>datetime_to_calendar\<close> as the time the alert was created at
  (its own time when it does not say), to the second, in whatever time zone the reader runs and whatever becomes
  of its variable \<open>TZ\<close>. It is for a text that is not empty (the asset is known), a time whose year fits an
  \<open>int\<close>, format macros that agree on that date and whose text has the expected length, more than 0 and less
  than the 64 bytes of the buffer, and \<open>utils::json::jsonify\<close> writing members as it is documented to.\<close>

theorem alert_time_read_back:
  assumes "json_of_alert A D a d = Inr t" and "t \<noteq> ''''" and "writes_members (jsonify A)"
      and "created_at a < 2 ^ 63" and "gmtime (int (created_at a)) = Some T"
      and "scan (print_datetime A T) = Some (scanned_of T)" and "length (print_datetime A T) = n" and "0 < n" and "n < 64"
  shows "\<exists>time rest. value_text t (JObject (strings ((''timestamp'', time) # rest))) \<and>
     (\<forall>other stale p. \<exists>q. datetime_to_calendar scan n other stale (Some time) p = outcome.Value (int (created_at a), q))"
proof -
  let ?time = "print_datetime A T"
  have "calendar_to_datetime (print_datetime A) (time_t (created_at a)) 64 = Some ?time"
    using assms(4,5,7-9) by (auto simp: time_t_int intro: calendar_to_datetime_Some)
  with assms(1,2) obtain b ename where "t = alert_text A ?time a b ename"
    by (auto simp: json_of_alert_def created_at_def bindE_eq_Inr_iff split: option.splits reply.splits if_splits)
  with alert_text_value [OF assms(3)] have "\<exists>rest. value_text t (JObject (strings ((''timestamp'', ?time) # rest)))"
    by blast
  moreover have "datetime_to_calendar scan n other stale (Some ?time) p =
      outcome.Value (int (created_at a), restored stale p)" for other stale p
    using calendar_read_back [of _ T scan ?time n, OF assms(5) _ assms(6,7)] by simp
  ultimately show ?thesis by blast
qed

theorem alert_time_read_back_witness:
  "\<exists>t time rest. json_of_alert sample_alert_env sample_assets_db sample_alert [] = Inr t \<and>
     value_text t (JObject (strings ((''timestamp'', time) # rest))) \<and>
     (\<forall>other stale p. \<exists>q. datetime_to_calendar rfc11_scan 15 other stale (Some time) p = outcome.Value (1600000000, q))"
proof -
  let ?T = "\<lparr>tm_year = 120, tm_mon = 8, tm_mday = 13, tm_hour = 12, tm_min = 26, tm_sec = 40, tm_isdst = 0\<rparr>"
  have g: "gmtime (int (created_at sample_alert)) = Some ?T" and c: "created_at sample_alert = 1600000000"
    and f: "rfc11_scan (rfc11_print ?T) = Some (scanned_of ?T)" "length (rfc11_print ?T) = 15"
    by code_simp+
  have "case json_of_alert sample_alert_env sample_assets_db sample_alert [] of Inr t \<Rightarrow> t \<noteq> '''' | Inl _ \<Rightarrow> False" by code_simp
  then obtain t where t: "json_of_alert sample_alert_env sample_assets_db sample_alert [] = Inr t" "t \<noteq> ''''"
    by (auto split: sum.splits)
  have e: "print_datetime sample_alert_env = rfc11_print"
    by (simp add: sample_alert_env_def json_env.defs alert_env.defs)
  have "writes_members (jsonify sample_alert_env)"
    by (simp add: sample_alert_env_def json_env.defs sample_json_def write_member_writes)
  from alert_time_read_back [OF t this _ g, of rfc11_scan 15] t(1) f c e show ?thesis by simp
qed

end
