(* ===== verification/SseEvents.thy ===== *)
theory SseEvents
  imports Sse AlertJson
begin

text \<open>
  \<open>src/web/src/sse.cc\<close> and \<open>sse.h\<close>: the connection of an object to the message bus, from \<open>connectMalamute\<close>
  to the destructor, and the events as a client reads them: the handlers of the object together with
  the texts of \<open>utils_json.cc\<close>. The client, the pipe and the poller are allocated by the bus library,
  which is a parameter; what is allocated and not yet destroyed is part of the state.
\<close>

subsection \<open>The connection\<close>

datatype resource = Client nat | Poller nat

record wire =
  clientMlm :: "nat option" \<comment> \<open>\<open>None\<close> for \<open>NULL\<close>\<close>
  pipe :: "nat option"
  poller :: "nat option"
  live :: "resource list" \<comment> \<open>allocated by the bus library\<close>

record bus_env =
  client_new :: "resource list \<Rightarrow> nat option" \<comment> \<open>\<open>mlm_client_new\<close>\<close>
  client_connect :: "nat \<Rightarrow> bool"
  client_msgpipe :: "nat \<Rightarrow> nat option" \<comment> \<open>owned by the client\<close>
  poller_new :: "resource list \<Rightarrow> nat \<Rightarrow> nat option" \<comment> \<open>\<open>zpoller_new\<close>\<close>
  set_consumer :: "nat option \<Rightarrow> string \<Rightarrow> string \<Rightarrow> int"
  last_command :: "nat option \<Rightarrow> string option" \<comment> \<open>of the latest message\<close>
  last_subject :: "nat option \<Rightarrow> string option"

definition Sse_wire :: "resource list \<Rightarrow> wire" where
  \<comment> \<open>a new object\<close>
  "Sse_wire rs = \<lparr> clientMlm = None, pipe = None, poller = None, live = rs \<rparr>"

definition Sse_destroy :: "wire \<Rightarrow> resource list" where
  \<comment> \<open>the destructor: what is still allocated after it\<close>
  "Sse_destroy w =
     (let rs = (case clientMlm w of Some c \<Rightarrow> remove1 (Client c) (live w) | None \<Rightarrow> live w)
      in (case poller w of Some p \<Rightarrow> remove1 (Poller p) rs | None \<Rightarrow> rs))"

definition connectMalamute :: "bus_env \<Rightarrow> wire \<Rightarrow> load_msg \<times> wire" where
  "connectMalamute B w =
     (case client_new B (live w) of
        None \<Rightarrow> (load_msg.Translate ''mlm_client_new() failed.'', w\<lparr> clientMlm := None \<rparr>)
      | Some c \<Rightarrow>
          let w = w\<lparr> clientMlm := Some c, live := Client c # live w \<rparr>
          in if \<not> client_connect B c then (load_msg.Translate ''mlm_client_connect() failed.'', w)
             else (case client_msgpipe B c of
                     None \<Rightarrow> (load_msg.Translate ''mlm_client_msgpipe()'', w\<lparr> pipe := None \<rparr>)
                   | Some p \<Rightarrow>
                       let w = w\<lparr> pipe := Some p \<rparr>
                       in (case poller_new B (live w) p of
                             None \<Rightarrow> (load_msg.Translate ''zpoller_new() failed.'', w\<lparr> poller := None \<rparr>)
                           | Some q \<Rightarrow> (Ok, w\<lparr> poller := Some q, live := Poller q # live w \<rparr>))))"

definition consumeStream :: "bus_env \<Rightarrow> string \<Rightarrow> string \<Rightarrow> wire \<Rightarrow> int" where
  "consumeStream B stream pattern w = set_consumer B (clientMlm w) (c_str stream) (c_str pattern)"

definition isMessageComesFrom :: "bus_env \<Rightarrow> string option \<Rightarrow> wire \<Rightarrow> bool" where
  "isMessageComesFrom B channel w =
     (case (last_command B (clientMlm w), channel) of (Some command, Some ch) \<Rightarrow> command = ch | _ \<Rightarrow> False)"

definition messageCommand :: "bus_env \<Rightarrow> wire \<Rightarrow> string" where
  "messageCommand B w = (case last_command B (clientMlm w) of Some command \<Rightarrow> command | None \<Rightarrow> '''')"

definition messageSubject :: "bus_env \<Rightarrow> wire \<Rightarrow> string" where
  "messageSubject B w = (case last_subject B (clientMlm w) of Some subject \<Rightarrow> subject | None \<Rightarrow> '''')"

definition setToken :: "string \<Rightarrow> Sse \<Rightarrow> Sse" where
  "setToken v s = s\<lparr> token := v \<rparr>"

definition setDatacenter :: "string \<Rightarrow> Sse \<Rightarrow> Sse" where
  "setDatacenter v s = s\<lparr> datacenter := v \<rparr>"

definition setDatacenterId :: "nat \<Rightarrow> Sse \<Rightarrow> Sse" where
  "setDatacenterId v s = s\<lparr> datacenter_id := v \<rparr>"

text \<open>The destructor of an object that has tried to connect once frees what the attempt allocated, whether it
  succeeded or not, and the attempt succeeds exactly when all three handles are there.\<close>

theorem connection_released:
  assumes "connectMalamute B (Sse_wire rs) = (m, w)"
  shows "Sse_destroy w = rs \<and>
     (m = Ok \<longleftrightarrow> clientMlm w \<noteq> None \<and> pipe w \<noteq> None \<and> poller w \<noteq> None)"
  using assms by (auto simp: connectMalamute_def Sse_wire_def Sse_destroy_def Let_def split: option.splits if_splits)

definition sample_wires :: "bool \<Rightarrow> bus_env" where
  "sample_wires pollers = \<lparr> client_new = (\<lambda>rs. Some (length rs)), client_connect = (\<lambda>c. True), client_msgpipe = (\<lambda>c. Some c),
     poller_new = (\<lambda>rs p. if pollers then Some (length rs) else None), set_consumer = (\<lambda>c s p. 0),
     last_command = (\<lambda>c. Some ''STREAM DELIVER''), last_subject = (\<lambda>c. None) \<rparr>"

theorem connection_released_witness:
  "Sse_destroy (snd (connectMalamute (sample_wires False) (Sse_wire [Client 7]))) = [Client 7] \<and>
   fst (connectMalamute (sample_wires False) (Sse_wire [Client 7])) \<noteq> Ok"
proof -
  obtain m w where run: "connectMalamute (sample_wires False) (Sse_wire [Client 7]) = (m, w)" by fastforce
  have "poller w = None"
    using run by (auto simp: connectMalamute_def Sse_wire_def sample_wires_def)
  with connection_released [OF run] run show ?thesis by simp
qed

text \<open>An object that connects a second time forgets its first client.\<close>

lemma connecting_twice_leaks:
  "Sse_destroy (snd (connectMalamute (sample_wires True) (snd (connectMalamute (sample_wires True) (Sse_wire []))))) =
     [Poller 1, Client 0]"
  by code_simp

subsection \<open>Events\<close>

lemma frame_denotes:
  assumes "plain topic" and "value_text payload v"
  shows "\<exists>body. frame topic payload = ''data:'' @ body @ [CHR 0x0A, CHR 0x0A] \<and>
     value_text body (JObject [(''topic'', JString topic), (''payload'', v)])"
proof -
  let ?body = "CHR ''{'' # ((in_quotes ''topic'' @ '':'' @ in_quotes topic) @ '','' @ in_quotes ''payload'' @ '':'' @ payload) @ ''}''"
  have keys: "plain ''topic''" "plain ''payload''" by (simp_all add: plain_def char_code_def)
  have "members_text (in_quotes ''topic'' @ '':'' @ in_quotes topic) [(''topic'', JString topic)]"
    using member_quoted [OF keys(1), of "''''" "''''"] value_quoted [OF assms(1)] by simp
  moreover have "members_text (in_quotes ''payload'' @ '':'' @ payload) [(''payload'', v)]"
    using member_quoted [OF keys(2), of "''''" "''''"] assms(2) by simp
  ultimately have "value_text ?body (JObject [(''topic'', JString topic), (''payload'', v)])"
    by (intro value_object MCons)
  moreover have "frame topic payload = ''data:'' @ ?body @ [CHR 0x0A, CHR 0x0A]"
    by (simp add: frame_def quot_def in_quotes_def)
  ultimately show ?thesis by blast
qed

definition same_alert :: "fty_proto \<Rightarrow> alert \<Rightarrow> bool" where
  \<comment> \<open>the message as the object sees it and as \<open>getJsonAlert\<close> does\<close>
  "same_alert p a \<longleftrightarrow> a_name a = proto_name p \<and> a_rule a = rule p \<and> a_state a = proto_state p \<and> a_severity a = severity p"

definition alert_members :: "string \<Rightarrow> fty_proto \<Rightarrow> alert \<Rightarrow> basic_element \<Rightarrow> string \<Rightarrow> (string \<times> string) list" where
  "alert_members time p a b ename =
     [(''timestamp'', time), (''rule_name'', rule p), (''element_id'', proto_name p), (''element_name'', ename),
      (''element_type'', be_type_name b), (''element_sub_type'', strip (be_subtype_name b)), (''state'', proto_state p),
      (''severity'', severity p), (''description'', updateDescription ename (a_description a)),
      (''metadata'', case a_metadata a of Some m \<Rightarrow> if m \<noteq> '''' then m else ''{}'' | None \<Rightarrow> ''{}'')]"

lemma alert_payload:
  assumes "json_of_alert A D a d = Inr t" and "t \<noteq> ''''" and "same_alert p a" and "writes_members (jsonify A)"
  shows "\<exists>time b ename. value_text t (JObject (strings (alert_members time p a b ename)))"
proof -
  from assms(1,2) obtain time b iname ename where "t = alert_text A time a b ename"
    by (auto simp: json_of_alert_def bindE_eq_Inr_iff split: option.splits reply.splits if_splits)
  with alert_text_value [OF assms(4), of time a b ename] assms(3) show ?thesis
    by (auto simp: alert_members_def same_alert_def)
qed

lemma alert_handler_text:
  assumes "changeFtyProtoAlert2Json E p s = (ev, s')" and "ev \<noteq> ''''"
  shows "ev = frame (''alarm/'' @ rule p) (env.getJsonAlert E p) \<and> env.getJsonAlert E p \<noteq> '''' \<and>
    proto_name p \<in> dom (map_of (assetsOfDatacenter s))"
  using assms by (auto simp: changeFtyProtoAlert2Json_def Let_def split: if_splits prod.splits bool.splits)

text \<open>C38. The event sent for an alert is a line of data that denotes, by the grammar of JSON, an object with the
  topic of the rule and the alert as its payload, about an asset of the datacenter that is watched; provided that
  the name of the rule needs no escape, which is not written when it does.\<close>

theorem alert_event_denotes:
  assumes "changeFtyProtoAlert2Json E p s = (ev, s')" and "ev \<noteq> ''''"
    and "json_of_alert A D a d = Inr (env.getJsonAlert E p)" and "same_alert p a" and "writes_members (jsonify A)"
    and "plain (rule p)"
  shows "\<exists>body time b ename. ev = ''data:'' @ body @ [CHR 0x0A, CHR 0x0A] \<and>
     value_text body (JObject [(''topic'', JString (''alarm/'' @ rule p)),
       (''payload'', JObject (strings (alert_members time p a b ename)))]) \<and>
     proto_name p \<in> dom (map_of (assetsOfDatacenter s))"
proof -
  note ev = alert_handler_text [OF assms(1,2)]
  have "plain (''alarm/'' @ rule p)" using assms(6) by (simp add: plain_def char_code_def)
  moreover obtain time b ename where "value_text (env.getJsonAlert E p) (JObject (strings (alert_members time p a b ename)))"
    using alert_payload [OF assms(3) _ assms(4,5)] ev by blast
  ultimately show ?thesis using frame_denotes ev by metis
qed

definition text_or_empty :: "'e + string \<Rightarrow> string" where
  "text_or_empty r = (case r of Inr t \<Rightarrow> t | Inl _ \<Rightarrow> '''')"

definition sample_events :: env where
  "sample_events = \<lparr> getJsonAlert = (\<lambda>p. text_or_empty (json_of_alert sample_alert_env sample_assets_db sample_alert [])),
     getJsonAsset = (\<lambda>i. text_or_empty (json_of_asset sample_json sample_assets_db i [])),
     name_to_asset_id = (\<lambda>n. 12), verify_token = (\<lambda>t. Some 60), select_byId = (\<lambda>i. Inr ''dc-1''),
     select_by_container = (\<lambda>i. Returns 0 []), select_without_container = Returns 0 [] \<rparr>"

definition sample_watcher :: Sse where
  "sample_watcher = Sse_new\<lparr> assetsOfDatacenter := [(''rackcontroller-0'', 5)] \<rparr>"

definition sample_message :: fty_proto where
  "sample_message = \<lparr> proto_name = ''rackcontroller-0'', operation = ''update'', aux = [], rule = ''load'',
     proto_state = ''ACTIVE'', severity = ''WARNING'' \<rparr>"

theorem alert_event_denotes_witness:
  "\<exists>ev v. fst (changeFtyProtoAlert2Json sample_events sample_message sample_watcher) = ''data:'' @ ev @ [CHR 0x0A, CHR 0x0A] \<and>
     value_text ev (JObject [(''topic'', JString ''alarm/load''), (''payload'', v)])"
proof -
  have "fst (changeFtyProtoAlert2Json sample_events sample_message sample_watcher) \<noteq> ''''"
    "case json_of_alert sample_alert_env sample_assets_db sample_alert [] of Inr t \<Rightarrow> True | Inl _ \<Rightarrow> False"
    "plain (rule sample_message)" "same_alert sample_message sample_alert" "''alarm/'' @ rule sample_message = ''alarm/load''"
    by code_simp+
  moreover have "writes_members (jsonify sample_alert_env)"
    by (simp add: sample_alert_env_def json_env.defs sample_json_def write_member_writes)
  moreover from calculation(2) have
    "json_of_alert sample_alert_env sample_assets_db sample_alert [] = Inr (env.getJsonAlert sample_events sample_message)"
    by (auto simp: sample_events_def text_or_empty_def split: sum.splits)
  moreover obtain ev s' where "changeFtyProtoAlert2Json sample_events sample_message sample_watcher = (ev, s')" by fastforce
  ultimately show ?thesis
    using alert_event_denotes [of sample_events sample_message sample_watcher ev s' sample_alert_env sample_assets_db sample_alert "[]"]
    by auto
qed

text \<open>
  What the handler of an asset writes: nothing, an empty object for an asset that left the datacenter, or the
  text of the asset.
\<close>

definition asset_event :: "env \<Rightarrow> string \<Rightarrow> string \<Rightarrow> bool" where
  "asset_event E n ev \<longleftrightarrow> ev = '''' \<or> ev = frame (''asset/'' @ n) ''{}'' \<or>
     ev = frame (''asset/'' @ n) (env.getJsonAsset E (env.name_to_asset_id E n)) \<and> env.getJsonAsset E (env.name_to_asset_id E n) \<noteq> ''''"

lemma asset_event_intros:
  "asset_event E n ''''" "asset_event E n (frame (''asset/'' @ n) ''{}'')" "asset_event E n (fst (asset_tail E n '''' s))"
  "asset_event E n (fst (asset_tail E n (frame (''asset/'' @ n) ''{}'') s))"
  by (simp_all add: asset_event_def asset_tail_def Let_def)

lemma asset_handler_text: "asset_event E (proto_name p) (fst (changeFtyProtoAsset2Json E p s))"
  unfolding changeFtyProtoAsset2Json_def Let_def if_distrib [of fst] fst_conv
  by (intro conjI impI asset_event_intros if_split [THEN iffD2])

text \<open>The event sent for an asset denotes an object with the topic of the asset and, as its payload, the asset or,
  for one that was deleted or has left the datacenter, an empty object.\<close>

theorem asset_event_denotes:
  assumes "changeFtyProtoAsset2Json E p s = (ev, s')" and "ev \<noteq> ''''" and "plain (proto_name p)"
    and "json_of_asset J D i d = Inr (env.getJsonAsset E i)" and "i = env.name_to_asset_id E (proto_name p)"
    and "writes_members (jsonify J)"
    and "\<And>w. get_item1 (manager_db.truncate D) (nat (to_uint32 i)) d = Item w \<Longrightarrow> unescaped_ok J w"
  shows "\<exists>body v. ev = ''data:'' @ body @ [CHR 0x0A, CHR 0x0A] \<and>
     value_text body (JObject [(''topic'', JString (''asset/'' @ proto_name p)), (''payload'', v)]) \<and>
     (v = JObject [] \<or>
      (\<exists>w. get_item1 (manager_db.truncate D) (nat (to_uint32 i)) d = Item w \<and> v = asset_value J D w d))"
proof -
  have topic: "plain (''asset/'' @ proto_name p)" using assms(3) by (simp add: plain_def char_code_def)
  have "value_text ''{}'' (JObject [])" using value_object [OF MNil, of "''''"] by simp
  from frame_denotes [OF topic this] have left: ?thesis if "ev = frame (''asset/'' @ proto_name p) ''{}''"
    using that by blast
  have kept: ?thesis if "ev = frame (''asset/'' @ proto_name p) (env.getJsonAsset E i)" and "env.getJsonAsset E i \<noteq> ''''"
  proof -
    from assms(4) that(2) obtain w where w: "get_item1 (manager_db.truncate D) (nat (to_uint32 i)) d = Item w"
      and t: "asset_text J D w d = Inr (env.getJsonAsset E i)"
      by (auto simp: json_of_asset_def split: reply.splits sum.splits stop.splits)
    from frame_denotes [OF topic asset_text_denotes [OF t assms(6) assms(7) [OF w]]] that(1) w show ?thesis by blast
  qed
  have "asset_event E (proto_name p) ev" using asset_handler_text [of E p s] assms(1) by simp
  with assms(2) left kept show ?thesis unfolding asset_event_def assms(5) [symmetric] by blast
qed

end
