(* ===== verification/Configure.thy ===== *)
theory Configure
  imports ImportStore "HOL-Library.Sublist"
begin

text \<open>
  \<open>src/shared/configure_inform.cc\<close>: the messages by which the other agents learn of assets that were
  created or changed. The state is the log of the messages the bus has taken; the bus, the database
  and the texts of the operations are parameters.
\<close>

record asset_message = \<comment> \<open>the arguments of \<open>fty_proto_encode_asset\<close>\<close>
  am_aux :: hash
  am_name :: string
  am_operation :: string
  am_ext :: hash

datatype message =
    Stream string asset_message \<comment> \<open>\<open>mlm_client_send\<close>: a subject of the stream of assets\<close>
  | Mailbox string string string \<comment> \<open>\<open>mlm_client_sendto\<close>: an address, a subject and the one frame\<close>

type_synonym bus = "message list"

record 'o inform_env =
  mlm_client_new :: bool \<comment> \<open>whether there is a client\<close>
  mlm_client_connect :: "string \<Rightarrow> bool"
  mlm_client_set_producer :: bool
  taken :: "bus \<Rightarrow> message \<Rightarrow> bool" \<comment> \<open>whether the bus takes a message after those of the log\<close>
  operation2str :: "'o \<Rightarrow> string"
  FTY_PROTO_ASSET_OP_CREATE :: string
  FTY_PROTO_ASSET_OP_UPDATE :: string
  UPS :: nat
  get_dc_upses :: "string \<Rightarrow> bool \<times> hash" \<comment> \<open>\<open>DBUptime::get_dc_upses\<close> and the table it fills\<close>

definition zhash_update :: "hash \<Rightarrow> string \<Rightarrow> string \<Rightarrow> hash" where
  \<comment> \<open>as \<open>zhash_insert\<close>, but the item of a key that is present is replaced\<close>
  "zhash_update h key item = map_put (c_str key) (c_str item) h"

fun s_map2zhash_loop :: "(string \<times> string) list \<Rightarrow> hash \<Rightarrow> hash" where
  "s_map2zhash_loop [] h = h"
| "s_map2zhash_loop (it # m) h = s_map2zhash_loop m (zhash_insert h (fst it) (snd it))"

definition s_map2zhash :: "(string \<times> string) list \<Rightarrow> hash" where
  "s_map2zhash m = s_map2zhash_loop m []"

definition send :: "'o inform_env \<Rightarrow> message \<Rightarrow> bus \<Rightarrow> bool \<times> bus" where
  "send E m log = (if taken E log m then (True, log @ [m]) else (False, log))"

subsection \<open>The topology of an element\<close>

definition hash_name :: "nat \<Rightarrow> string" where
  "hash_name i = ''parent_name.'' @ to_string i"

fun parent_names :: "nat \<Rightarrow> parent_columns list \<Rightarrow> hash \<times> string \<Rightarrow> hash \<times> string" where
  \<comment> \<open>the callback from column \<open>parent_name<i>\<close> on: the table and \<open>dc_name\<close>\<close>
  "parent_names i [] s = s"
| "parent_names i (c # cs) (aux, dc_name) =
     (let foo = (case parent_name c of Some n \<Rightarrow> n | None \<Rightarrow> '''')
      in parent_names (i + 1) cs
           (if foo \<noteq> '''' then (zhash_insert aux (hash_name i) foo, foo) else (aux, dc_name)))"

fun parents_rows :: "parent_columns list list \<Rightarrow> hash \<times> string \<Rightarrow> hash \<times> string" where
  "parents_rows [] s = s"
| "parents_rows (levels # rs) s = parents_rows rs (parent_names 1 levels s)"

definition asset_aux :: "('d, 'h) manager_db \<Rightarrow> imported \<Rightarrow> hash" where
  \<comment> \<open>the table before the parents are known\<close>
  "asset_aux D e =
     zhash_insert (zhash_insert (zhash_insert (zhash_insert (zhash_insert []
       ''priority'' (to_string (m_priority e)))
       ''type'' (typeid_to_type D (m_type_id e)))
       ''subtype'' (subtypeid_to_subtype D (m_subtype_id e)))
       ''parent'' (to_string (m_parent_id e)))
       ''status'' (m_status e)"

definition subject_of :: "('d, 'h) manager_db \<Rightarrow> imported \<Rightarrow> string" where
  "subject_of D e = c_str (typeid_to_type D (m_type_id e) @ ''.'' @ subtypeid_to_subtype D (m_subtype_id e) @ ''@'' @ m_name e)"

definition asset_msg :: "'o inform_env \<Rightarrow> ('d, 'h) manager_db \<Rightarrow> imported \<Rightarrow> 'o \<Rightarrow> hash \<Rightarrow> message" where
  "asset_msg E D e operation aux =
     Stream (subject_of D e)
       \<lparr> am_aux = aux, am_name = c_str (m_name e), am_operation = c_str (operation2str E operation), am_ext = s_map2zhash (m_ext e) \<rparr>"

definition republish_msg :: "imported \<Rightarrow> message" where
  "republish_msg e = Mailbox ''asset-agent'' ''REPUBLISH'' (c_str (m_name e))"

definition inventory_msg :: "'o inform_env \<Rightarrow> string \<Rightarrow> message" where
  \<comment> \<open>the data for the uptime of a data centre; a failure to read them is logged only\<close>
  "inventory_msg E dc_name =
     Stream (c_str (''datacenter.unknown@'' @ dc_name))
       \<lparr> am_aux = zhash_update (snd (get_dc_upses E (c_str dc_name))) ''type'' ''datacenter'', am_name = c_str dc_name,
          am_operation = ''inventory'', am_ext = [] \<rparr>"

definition changes :: "'o inform_env \<Rightarrow> 'o \<Rightarrow> bool" where
  "changes E operation \<longleftrightarrow> c_str (operation2str E operation) = FTY_PROTO_ASSET_OP_CREATE E \<or>
     c_str (operation2str E operation) = FTY_PROTO_ASSET_OP_UPDATE E"

subsection \<open>Sending\<close>

definition configure_row ::
  "'o inform_env \<Rightarrow> ('d, 'h) manager_db \<Rightarrow> 'd \<Rightarrow> imported \<times> 'o \<Rightarrow> bus \<Rightarrow> (string + unit) \<times> bus" where
  "configure_row E D d oneRow log =
     (case oneRow of (e, operation) \<Rightarrow>
     (case select_asset_element_super_parent D (m_id e) d of
        Inl err \<Rightarrow> (Inl err, log)
      | Inr (r, rs) \<Rightarrow>
          if r = - 1 then (Inl ''persist::select_asset_element_super_parent () failed.'', log)
          else
            let (aux, dc_name) = parents_rows rs (asset_aux D e, '''');
                (ok, log) = send E (asset_msg E D e operation aux) log
            in if \<not> ok then (Inl ''mlm_client_send () failed.'', log)
               else
                 let log = (if changes E operation then snd (send E (republish_msg e) log) else log)
                 in if m_subtype_id e = UPS E
                    then (let (ok, log) = send E (inventory_msg E dc_name) log
                          in (if ok then Inr () else Inl ''mlm_client_send () failed.'', log))
                    else (Inr (), log)))"

fun configure_loop ::
  "'o inform_env \<Rightarrow> ('d, 'h) manager_db \<Rightarrow> 'd \<Rightarrow> (imported \<times> 'o) list \<Rightarrow> bus \<Rightarrow> (string + unit) \<times> bus" where
  "configure_loop E D d [] log = (Inr (), log)"
| "configure_loop E D d (row # rs) log =
     (case configure_row E D d row log of
        (Inl err, log) \<Rightarrow> (Inl err, log)
      | (Inr _, log) \<Rightarrow> configure_loop E D d rs log)"

definition send_configure ::
  "'o inform_env \<Rightarrow> ('d, 'h) manager_db \<Rightarrow> 'd \<Rightarrow> (imported \<times> 'o) list \<Rightarrow> string \<Rightarrow> bus \<Rightarrow> (string + unit) \<times> bus" where
  "send_configure E D d rs agent_name log =
     (if \<not> mlm_client_new E then (Inl '' mlm_client_new () failed.'', log)
      else if \<not> mlm_client_connect E (c_str agent_name) then (Inl '' mlm_client_connect () failed.'', log)
      else if \<not> mlm_client_set_producer E then (Inl '' mlm_client_set_producer () failed.'', log)
      else case connect_error D of
             Some err \<Rightarrow> (Inl err, log)
           | None \<Rightarrow> configure_loop E D d rs log)"

definition send_configure_one ::
  "'o inform_env \<Rightarrow> ('d, 'h) manager_db \<Rightarrow> 'd \<Rightarrow> imported \<Rightarrow> 'o \<Rightarrow> string \<Rightarrow> bus \<Rightarrow> (string + unit) \<times> bus" where
  "send_configure_one E D d row action_type agent_name log = send_configure E D d [(row, action_type)] agent_name log"

definition send_configure_pair ::
  "'o inform_env \<Rightarrow> ('d, 'h) manager_db \<Rightarrow> 'd \<Rightarrow> imported \<times> 'o \<Rightarrow> string \<Rightarrow> bus \<Rightarrow> (string + unit) \<times> bus" where
  "send_configure_pair E D d row agent_name log = send_configure E D d [row] agent_name log"

subsection \<open>What is sent\<close>

text \<open>
  The specification, in its own words: the rows whose topology is known, the messages about one of them,
  and what becomes of a list of messages on the bus.
\<close>

definition topology :: "('d, 'h) manager_db \<Rightarrow> 'd \<Rightarrow> imported \<Rightarrow> (hash \<times> string) option" where
  \<comment> \<open>the table of an element with its ancestors and the name of the last one, when they can be read\<close>
  "topology D d e =
     (case select_asset_element_super_parent D (m_id e) d of
        Inl _ \<Rightarrow> None
      | Inr (r, rs) \<Rightarrow> if r = - 1 then None else Some (parents_rows rs (asset_aux D e, '''')))"

definition expected :: "'o inform_env \<Rightarrow> ('d, 'h) manager_db \<Rightarrow> 'd \<Rightarrow> imported \<times> 'o \<Rightarrow> message list" where
  \<comment> \<open>the messages about one row\<close>
  "expected E D d row =
     (let (e, operation) = row; ty = typeid_to_type D (m_type_id e); sub = subtypeid_to_subtype D (m_subtype_id e);
          name = c_str (m_name e); op = c_str (operation2str E operation)
      in case topology D d e of
           None \<Rightarrow> []
         | Some (aux, dc) \<Rightarrow>
             [Stream (c_str (ty @ ''.'' @ sub @ ''@'' @ m_name e))
                \<lparr> am_aux = aux, am_name = name, am_operation = op, am_ext = s_map2zhash (m_ext e) \<rparr>] @
             (if op \<in> {FTY_PROTO_ASSET_OP_CREATE E, FTY_PROTO_ASSET_OP_UPDATE E}
              then [Mailbox ''asset-agent'' ''REPUBLISH'' name] else []) @
             (if m_subtype_id e = UPS E
              then [Stream (c_str (''datacenter.unknown@'' @ dc))
                      \<lparr> am_aux = zhash_update (snd (get_dc_upses E (c_str dc))) ''type'' ''datacenter'',
                        am_name = c_str dc, am_operation = ''inventory'', am_ext = [] \<rparr>]
              else []))"

fun streamed :: "message \<Rightarrow> bool" where
  "streamed (Stream _ _) = True"
| "streamed (Mailbox _ _ _) = False"

definition sent_of :: "message list \<Rightarrow> message list \<Rightarrow> bool \<Rightarrow> bool" where
  \<comment> \<open>part of the messages, in their order, of the stream a first part, and all of the stream if complete\<close>
  "sent_of sent msgs complete \<longleftrightarrow> subseq sent msgs \<and> prefix (filter streamed sent) (filter streamed msgs) \<and>
     (complete \<longrightarrow> filter streamed sent = filter streamed msgs)"

fun transmit :: "'o inform_env \<Rightarrow> message list \<Rightarrow> bus \<Rightarrow> bool \<times> bus" where
  \<comment> \<open>every message is offered in turn; a refused message of the stream is the end, a refused request is lost\<close>
  "transmit E [] log = (True, log)"
| "transmit E (m # ms) log =
     (if taken E log m then transmit E ms (log @ [m])
      else if streamed m then (False, log) else transmit E ms log)"

lemma transmit_append:
  "transmit E (xs @ ys) log =
     (case transmit E xs log of (True, log) \<Rightarrow> transmit E ys log | (False, log) \<Rightarrow> (False, log))"
  by (induction E xs log rule: transmit.induct) simp_all

lemma transmit_sent:
  "transmit E ms log = (ok, log') \<Longrightarrow> \<exists>sent. log' = log @ sent \<and> sent_of sent ms ok"
proof (induction ms arbitrary: log)
  case Nil
  then show ?case by (simp add: sent_of_def)
next
  case (Cons m ms)
  consider (taken) "taken E log m" | (lost) "\<not> taken E log m" "\<not> streamed m" | (stop) "\<not> taken E log m" "streamed m"
    by blast
  then show ?case
  proof cases
    case taken
    with Cons.prems have "transmit E ms (log @ [m]) = (ok, log')" by simp
    from Cons.IH [OF this] obtain sent where "log' = log @ m # sent" "sent_of sent ms ok" by auto
    then show ?thesis by (intro exI [of _ "m # sent"]) (auto simp: sent_of_def)
  next
    case lost
    with Cons.prems have "transmit E ms log = (ok, log')" by simp
    from Cons.IH [OF this] lost show ?thesis by (auto simp: sent_of_def)
  next
    case stop
    with Cons.prems show ?thesis by (simp add: sent_of_def)
  qed
qed

lemma expected_msgs:
  assumes "topology D d e = Some (aux, dc)"
  shows "expected E D d (e, operation) =
     asset_msg E D e operation aux # (if changes E operation then [republish_msg e] else []) @
     (if m_subtype_id e = UPS E then [inventory_msg E dc] else [])"
  using assms
  by (simp add: expected_def asset_msg_def subject_of_def republish_msg_def inventory_msg_def changes_def Let_def)

lemma streamed_msgs [simp]:
  "streamed (asset_msg E D e operation aux)" "\<not> streamed (republish_msg e)" "streamed (inventory_msg E dc_name)"
  by (simp_all add: asset_msg_def republish_msg_def inventory_msg_def)

lemma configure_row_unknown:
  assumes "topology D d (fst row) = None" and "configure_row E D d row log = (res, log')"
  shows "res \<noteq> Inr () \<and> log' = log"
  using assms by (auto simp: configure_row_def topology_def split: prod.splits sum.splits if_splits)

lemma configure_row_sends:
  assumes "topology D d (fst row) = Some p" and "configure_row E D d row log = (res, log')"
  shows "transmit E (expected E D d row) log = (res = Inr (), log')"
proof -
  obtain e operation aux dc where row: "row = (e, operation)" and p: "p = (aux, dc)" by (metis prod.collapse)
  obtain r rs where r: "select_asset_element_super_parent D (m_id e) d = Inr (r, rs)" "r \<noteq> - 1"
      "parents_rows rs (asset_aux D e, '''') = (aux, dc)"
    using assms(1) row p by (auto simp: topology_def split: sum.splits if_splits)
  have "expected E D d row = asset_msg E D e operation aux # (if changes E operation then [republish_msg e] else []) @
      (if m_subtype_id e = UPS E then [inventory_msg E dc] else [])"
    using assms(1) row p by (simp add: expected_msgs)
  with assms(2) r row show ?thesis
    by (cases "taken E log (asset_msg E D e operation aux)"; cases "changes E operation"; cases "m_subtype_id e = UPS E")
       (auto simp: configure_row_def send_def split: if_splits)
qed

lemma configure_loop_sends:
  "configure_loop E D d rs log = (res, log') \<Longrightarrow>
     (let known = takeWhile (\<lambda>row. topology D d (fst row) \<noteq> None) rs
      in \<exists>ok. transmit E (concat (map (expected E D d) known)) log = (ok, log') \<and>
              (res = Inr () \<longleftrightarrow> ok \<and> known = rs))"
proof (induction rs arbitrary: log)
  case Nil
  then show ?case by auto
next
  case (Cons row rs)
  obtain q log1 where row: "configure_row E D d row log = (q, log1)" by fastforce
  show ?case
  proof (cases "topology D d (fst row)")
    case None
    from configure_row_unknown [OF None row] obtain err where q: "q = Inl err" and "log1 = log"
      by (cases q) auto
    with Cons.prems row have "res = Inl err" "log' = log" by simp_all
    with None show ?thesis by (auto simp: Let_def)
  next
    case (Some p)
    note sends = configure_row_sends [OF Some row]
    show ?thesis
    proof (cases q)
      case (Inl err)
      with Cons.prems row have "res = Inl err" "log' = log1" by simp_all
      with Inl sends Some show ?thesis by (auto simp: Let_def transmit_append)
    next
      case (Inr u)
      with Cons.prems row have "configure_loop E D d rs log1 = (res, log')" by simp
      from Cons.IH [OF this] Inr sends Some show ?thesis by (simp add: Let_def transmit_append)
    qed
  qed
qed

lemma expected_prefix: "prefix (concat (map (expected E D d) (takeWhile P rs))) (concat (map (expected E D d) rs))"
  by (metis concat_append map_append prefixI takeWhile_dropWhile_id)

lemma sent_of_prefix: "sent_of sent ms ok \<Longrightarrow> prefix ms ms' \<Longrightarrow> sent_of sent ms' (ok \<and> ms = ms')"
  by (auto simp: sent_of_def prefix_def intro: subseq_order.order_trans [of _ ms])

subsection \<open>The parents an element is announced with\<close>

lemma smap_zhash_insert [simp]: "smap h \<Longrightarrow> smap (zhash_insert h k v)"
  by (simp add: map_of_zhash_insert)

lemma zhash_insert_lookup:
  "smap h \<Longrightarrow> map_of (zhash_insert h k v) q = (if map_of h (c_str k) = None \<and> q = c_str k then Some (c_str v) else map_of h q)"
  by (simp add: map_of_zhash_insert)

lemma smap_parent_names [simp]: "smap (fst s) \<Longrightarrow> smap (fst (parent_names i cs s))"
  by (induction i cs s rule: parent_names.induct) (auto simp: Let_def split: option.splits)

definition named :: "parent_columns list \<Rightarrow> string list" where
  \<comment> \<open>the names of the levels that have one\<close>
  "named cs = filter (\<lambda>n. n \<noteq> '''') (map (\<lambda>c. case parent_name c of Some n \<Rightarrow> n | None \<Rightarrow> '''') cs)"

lemma snd_parent_names: "snd (parent_names i cs (h, dc)) = (if named cs = [] then dc else last (named cs))"
  by (induction i cs "(h, dc)" arbitrary: h dc rule: parent_names.induct) (auto simp: named_def Let_def)

lemma c_str_hash_name [simp]: "c_str (hash_name j) = hash_name j"
  unfolding hash_name_def by (rule c_str_clean) (auto dest!: to_string_digits simp: isdigit_def char_code_def)

lemma hash_name_inj [simp]: "hash_name i = hash_name j \<longleftrightarrow> i = j"
  by (simp add: hash_name_def)

lemma zhash_insert_kept: "smap h \<Longrightarrow> map_of h q = Some v \<Longrightarrow> map_of (zhash_insert h k w) q = Some v"
  by (auto simp: zhash_insert_lookup)

lemma map_of_parent_names_kept:
  "smap h \<Longrightarrow> map_of h q = Some v \<Longrightarrow> map_of (fst (parent_names i cs (h, dc))) q = Some v"
  by (induction i cs "(h, dc)" arbitrary: h dc rule: parent_names.induct) (auto simp: Let_def zhash_insert_kept)

lemma map_of_parent_names:
  assumes "smap h" and "\<And>j. i \<le> j \<Longrightarrow> map_of h (hash_name j) = None"
    and "k < length cs" and "parent_name (cs ! k) = Some n" and "n \<noteq> ''''"
  shows "map_of (fst (parent_names i cs (h, dc))) (hash_name (i + k)) = Some (c_str n)"
  using assms
proof (induction cs arbitrary: i k h dc)
  case (Cons c cs)
  define foo where "foo = (case parent_name c of Some m \<Rightarrow> m | None \<Rightarrow> '''')"
  define h' where "h' = (if foo \<noteq> '''' then zhash_insert h (hash_name i) foo else h)"
  have names: "fst (parent_names i (c # cs) (h, dc)) = fst (parent_names (i + 1) cs (h', if foo \<noteq> '''' then foo else dc))"
    by (simp add: foo_def h'_def Let_def)
  have smap: "smap h'" using Cons.prems(1) by (simp add: h'_def)
  show ?case
  proof (cases k)
    case 0
    with Cons.prems have "map_of h' (hash_name i) = Some (c_str n)"
      by (simp add: h'_def foo_def zhash_insert_lookup)
    with 0 show ?thesis unfolding names by (simp add: map_of_parent_names_kept [OF smap])
  next
    case (Suc k')
    have "map_of (fst (parent_names (i + 1) cs (h', dc'))) (hash_name (i + 1 + k')) = Some (c_str n)" for dc'
      by (rule Cons.IH [OF smap]) (use Cons.prems Suc in \<open>auto simp: h'_def zhash_insert_lookup\<close>)
    with Suc show ?thesis unfolding names by simp
  qed
qed simp

lemma asset_aux_unnamed: "map_of (asset_aux D e) (hash_name j) = None"
  by (simp add: asset_aux_def zhash_insert_lookup c_str_def hash_name_def)

lemma smap_asset_aux: "smap (asset_aux D e)"
  by (simp add: asset_aux_def)

subsection \<open>Properties\<close>

lemma sent_of_weaken: "sent_of sent ms ok \<Longrightarrow> (ok' \<Longrightarrow> ok) \<Longrightarrow> sent_of sent ms ok'"
  by (auto simp: sent_of_def)

text \<open>C6. The messages on the bus after \<open>send_configure\<close> are exactly these. Without a connection to the bus or the
  data base there is none. Otherwise the rows are taken up to the first one whose ancestors cannot be read, and
  the messages about each are offered to the bus in turn: the asset with its ancestors, the request to publish it
  again when it was created or updated, and the inventory of the data centre after a UPS. A request that the bus
  refuses is lost silently, and the first message of the stream that it refuses is the end. The function returns
  exactly when the ancestors of all the rows are known and no message of the stream is refused. So of the stream
  a first part has been sent after an error, and all of it after a return.\<close>

theorem informed_in_order:
  assumes "send_configure E D d rs agent_name log = (res, log')"
  shows "if mlm_client_new E \<and> mlm_client_connect E (c_str agent_name) \<and> mlm_client_set_producer E \<and> connect_error D = None
         then (let known = takeWhile (\<lambda>row. topology D d (fst row) \<noteq> None) rs
               in \<exists>ok. transmit E (concat (map (expected E D d) known)) log = (ok, log') \<and>
                       (res = Inr () \<longleftrightarrow> ok \<and> known = rs) \<and>
                       (\<exists>sent. log' = log @ sent \<and> sent_of sent (concat (map (expected E D d) rs)) (res = Inr ())))
         else res \<noteq> Inr () \<and> log' = log"
proof (cases "mlm_client_new E \<and> mlm_client_connect E (c_str agent_name) \<and> mlm_client_set_producer E \<and> connect_error D = None")
  case True
  with assms have loop: "configure_loop E D d rs log = (res, log')" by (simp add: send_configure_def)
  define known where "known = takeWhile (\<lambda>row. topology D d (fst row) \<noteq> None) rs"
  obtain ok where sent: "transmit E (concat (map (expected E D d) known)) log = (ok, log')"
    and res: "res = Inr () \<longleftrightarrow> ok \<and> known = rs"
    using configure_loop_sends [OF loop] unfolding known_def Let_def by blast
  from transmit_sent [OF sent] obtain out where out: "log' = log @ out"
    "sent_of out (concat (map (expected E D d) known)) ok" by blast
  have "prefix (concat (map (expected E D d) known)) (concat (map (expected E D d) rs))"
    unfolding known_def by (rule expected_prefix)
  from sent_of_prefix [OF out(2) this] have "sent_of out (concat (map (expected E D d) rs)) (res = Inr ())"
    by (rule sent_of_weaken) (simp add: res)
  with out(1) sent res show ?thesis unfolding if_P [OF True] Let_def known_def by blast
next
  case False
  with assms show ?thesis by (auto simp: send_configure_def split: option.splits if_splits)
qed

definition sample_bus :: "asset_operation inform_env" where
  "sample_bus = \<lparr> mlm_client_new = True, mlm_client_connect = (\<lambda>a. a = ''web''), mlm_client_set_producer = True,
     taken = (\<lambda>log m. length log < 3), operation2str = (\<lambda>x. case x of Insert \<Rightarrow> ''create'' | Update \<Rightarrow> ''update''),
     FTY_PROTO_ASSET_OP_CREATE = ''create'', FTY_PROTO_ASSET_OP_UPDATE = ''update'', UPS = 1,
     get_dc_upses = (\<lambda>dc. (True, [(''ups0'', ''ups-1''), (''type'', ''none'')])) \<rparr>"

definition sample_levels :: "parent_columns list" where
  "sample_levels = map (\<lambda>n. \<lparr> id_parent = None, parent_name = n, id_type_parent = None, id_subtype_parent = None \<rparr>)
     [Some ''rack-2'', Some '''', Some ''dc-1'', None]"

definition sample_topology :: "(string list, unit) manager_db" where
  "sample_topology = sample_manager \<lparr> typeid_to_type := (\<lambda>i. ''device''), subtypeid_to_subtype := (\<lambda>i. ''ups''),
     select_asset_element_super_parent := (\<lambda>i d. Inr (0, [sample_levels])) \<rparr>"

definition sample_ups :: imported where
  "sample_ups = \<lparr> m_id = 12, m_name = ''ups-12'', m_status = ''active'', m_parent_id = 2, m_priority = 1, m_type_id = 6,
     m_subtype_id = 1, m_asset_tag = '''', m_ext = [(''name'', ''UPS 12'')] \<rparr>"

theorem informed_in_order_witness:
  "\<exists>sent. snd (send_configure sample_bus sample_topology [] [(sample_ups, Update), (sample_ups, Insert)] ''web'' []) = sent \<and>
     sent_of sent (concat (map (expected sample_bus sample_topology []) [(sample_ups, Update), (sample_ups, Insert)])) False \<and>
     map (\<lambda>m. case m of Stream s a \<Rightarrow> s | Mailbox a s c \<Rightarrow> c) sent = [''device.ups@ups-12'', ''ups-12'', ''datacenter.unknown@dc-1'']"
proof -
  have "fst (send_configure sample_bus sample_topology [] [(sample_ups, Update), (sample_ups, Insert)] ''web'' []) \<noteq> Inr ()"
    "map (\<lambda>m. case m of Stream s a \<Rightarrow> s | Mailbox a s c \<Rightarrow> c)
       (snd (send_configure sample_bus sample_topology [] [(sample_ups, Update), (sample_ups, Insert)] ''web'' [])) =
     [''device.ups@ups-12'', ''ups-12'', ''datacenter.unknown@dc-1'']"
    by code_simp+
  moreover obtain res sent where run:
    "send_configure sample_bus sample_topology [] [(sample_ups, Update), (sample_ups, Insert)] ''web'' [] = (res, sent)"
    by fastforce
  moreover have "mlm_client_new sample_bus \<and> mlm_client_connect sample_bus (c_str ''web'') \<and>
      mlm_client_set_producer sample_bus \<and> connect_error sample_topology = None"
    by code_simp
  ultimately show ?thesis using informed_in_order [OF run, unfolded Let_def if_P] by auto
qed

text \<open>An element with one row of ancestors is announced with each of their names under its level, and a UPS is
  followed by the inventory of its outermost named ancestor, which is taken for the data centre.\<close>

theorem parents_announced:
  assumes "select_asset_element_super_parent D (m_id e) d = Inr (r, [levels])" and "r \<noteq> - 1"
  shows "\<exists>aux msgs. expected E D d (e, operation) = asset_msg E D e operation aux # msgs \<and>
       (\<forall>k < length levels. \<forall>n. parent_name (levels ! k) = Some n \<and> n \<noteq> '''' \<longrightarrow>
          map_of aux (hash_name (1 + k)) = Some (c_str n)) \<and>
       (m_subtype_id e = UPS E \<longrightarrow> last msgs = inventory_msg E (if named levels = [] then '''' else last (named levels)))"
proof -
  obtain aux dc_name where names: "parent_names 1 levels (asset_aux D e, '''') = (aux, dc_name)" by fastforce
  have "map_of aux (hash_name (1 + k)) = Some (c_str n)"
    if "k < length levels" "parent_name (levels ! k) = Some n" "n \<noteq> ''''" for k n
    using map_of_parent_names [where i = 1 and dc = "''''", OF smap_asset_aux [of D e] asset_aux_unnamed that] names by simp
  moreover have "dc_name = (if named levels = [] then '''' else last (named levels))"
    using snd_parent_names [of 1 levels "asset_aux D e" "''''"] names by simp
  ultimately show ?thesis using assms names
    by (auto simp: expected_def topology_def asset_msg_def subject_of_def inventory_msg_def Let_def)
qed

theorem parents_announced_witness:
  "\<exists>aux msgs. expected sample_bus sample_topology [] (sample_ups, Update) = asset_msg sample_bus sample_topology sample_ups Update aux # msgs \<and>
     map_of aux ''parent_name.3'' = Some ''dc-1'' \<and> last msgs = inventory_msg sample_bus ''dc-1''"
proof -
  have r: "select_asset_element_super_parent sample_topology (m_id sample_ups) [] = Inr (0, [sample_levels])"
    by (simp add: sample_topology_def)
  have levels: "2 < length sample_levels" "parent_name (sample_levels ! 2) = Some ''dc-1''" "c_str ''dc-1'' = ''dc-1''"
    "named sample_levels = [''rack-2'', ''dc-1'']" "m_subtype_id sample_ups = UPS sample_bus" "hash_name (Suc (Suc (Suc 0))) = ''parent_name.3''"
    by code_simp+
  from parents_announced [OF r, of sample_bus Update] obtain aux msgs where
    msgs: "expected sample_bus sample_topology [] (sample_ups, Update) = asset_msg sample_bus sample_topology sample_ups Update aux # msgs"
    and aux: "\<And>k n. k < length sample_levels \<Longrightarrow> parent_name (sample_levels ! k) = Some n \<and> n \<noteq> '''' \<Longrightarrow>
      map_of aux (hash_name (1 + k)) = Some (c_str n)"
    and "m_subtype_id sample_ups = UPS sample_bus \<Longrightarrow>
      last msgs = inventory_msg sample_bus (if named sample_levels = [] then '''' else last (named sample_levels))"
    by auto
  moreover have "map_of aux ''parent_name.3'' = Some ''dc-1''" using aux [OF levels(1), of "''dc-1''"] levels by simp
  ultimately show ?thesis using levels(4,5) by auto
qed

end
