(* ===== verification/Names.thy ===== *)
theory Names
  imports Utils
begin

text \<open>
  \<open>src/shared/ic.cc\<close>: conversion between character sets with \<open>iconv\<close>, in a buffer that grows until the
  result fits, and internal names made from external ones. \<open>iconv\<close> and the allocator are parameters; a
  loop that may not end is a partial function.
\<close>

datatype iconv_errno = E2BIG | Conversion_error

record 's iconv_env =
  iconv_open :: "string \<Rightarrow> string \<Rightarrow> 's option" \<comment> \<open>to, from\<close>
  iconv :: "'s \<Rightarrow> string \<Rightarrow> nat \<Rightarrow> 's \<times> nat \<times> string \<times> iconv_errno option"
    \<comment> \<open>from the input and the room left: the bytes consumed, the bytes written, the error\<close>
  malloc :: "nat \<Rightarrow> bool"

subsection \<open>Conversion\<close>

partial_function (option) s_convert ::
  "'s iconv_env \<Rightarrow> 's \<Rightarrow> string \<Rightarrow> nat \<Rightarrow> string \<Rightarrow> (iconv_errno option \<times> 's \<times> string \<times> nat) option" where
  "s_convert E cd inbuf capacity outbuf =
     (if inbuf = [] then Some (None, cd, outbuf, capacity)
      else case iconv E cd inbuf capacity of
             (cd', n, written, err) \<Rightarrow>
               (case err of
                  Some e \<Rightarrow> Some (Some e, cd', outbuf @ written, capacity - length written)
                | None \<Rightarrow> s_convert E cd' (drop n inbuf) (capacity - length written) (outbuf @ written)))"

partial_function (option) convert_loop ::
  "'s iconv_env \<Rightarrow> 's \<Rightarrow> string \<Rightarrow> nat \<Rightarrow> (string option \<times> nat) option" where
  \<comment> \<open>the result and its size\<close>
  "convert_loop E cd buf allocated =
     Option.bind (s_convert E cd buf allocated '''') (\<lambda>(res, cd', out, outlen).
       case res of
         None \<Rightarrow> Some (Some out, allocated - outlen)
       | Some e \<Rightarrow>
           if e = E2BIG
           then if malloc E (allocated + length buf) then convert_loop E cd' buf (allocated + length buf)
                else Some (None, allocated + length buf - outlen)
           else Some (None, allocated - outlen))"

definition ic_convert ::
  "'s iconv_env \<Rightarrow> string option \<Rightarrow> string option \<Rightarrow> string \<Rightarrow> (string option \<times> nat) option" where
  \<comment> \<open>the bytes of the buffer, the names of the character sets; the result and \<open>*outsize\<close>\<close>
  "ic_convert E buf from_set to_set =
     (case (buf, from_set) of
        (Some b, Some f) \<Rightarrow>
          if b = [] then Some (None, 0)
          else (case iconv_open E to_set f of
                  None \<Rightarrow> Some (None, 0)
                | Some cd \<Rightarrow> if malloc E (length b) then convert_loop E cd b (length b) else Some (None, 0))
      | _ \<Rightarrow> Some (None, 0))"

definition ic_utf8_to_ascii :: "'s iconv_env \<Rightarrow> string \<Rightarrow> string option option" where
  \<comment> \<open>of a C string, with its null character\<close>
  "ic_utf8_to_ascii E s =
     map_option fst (ic_convert E (Some (c_str s @ [CHR 0x00])) (Some ''UTF-8'') ''ASCII//TRANSLIT'')"

subsection \<open>Names\<close>

definition is_separator :: "char \<Rightarrow> bool" where
  "is_separator c \<longleftrightarrow> c \<in> set (''_- /'' @ [CHR 0x5C, CHR ''.''])"

fun name_loop :: "nat \<Rightarrow> nat \<Rightarrow> string \<Rightarrow> string" where
  \<comment> \<open>while the index is below the limit: letters and digits in lower case, a dot for a separator\<close>
  "name_loop limit j [] = ''''"
| "name_loop limit j (c # s) =
     (if \<not> j < limit then ''''
      else if isalnum c then tolower c # name_loop limit (j + 1) s
      else if is_separator c then CHR ''.'' # name_loop limit (j + 1) s
      else name_loop limit j s)"

definition name_limit :: "nat \<Rightarrow> nat" where
  \<comment> \<open>\<open>40 - strlen(assettype)\<close> in \<open>size_t\<close>\<close>
  "name_limit n = (if n \<le> 40 then 40 - n else 2 ^ 64 + 40 - n)"

definition ic_utf8_to_name :: "'s iconv_env \<Rightarrow> string option \<Rightarrow> string option \<Rightarrow> string option option" where
  "ic_utf8_to_name E s assettype =
     (case s of
        None \<Rightarrow> Some None
      | Some s \<Rightarrow>
          let assettype = (case assettype of None \<Rightarrow> ''unknown'' | Some t \<Rightarrow> if t = '''' then ''unknown'' else t) in
          (case ic_utf8_to_ascii E s of
             None \<Rightarrow> None
           | Some None \<Rightarrow> Some (Some assettype)
           | Some (Some bytes) \<Rightarrow>
               let ascii = c_str bytes in
               if \<not> malloc E (length ascii + length assettype + 2) then Some None
               else Some (Some (name_loop (name_limit (length assettype)) 0 ascii @ ''-'' @
                      map tolower (filter isalnum assettype)))))"

subsection \<open>A conversion ends\<close>

definition converts :: "'s iconv_env \<Rightarrow> 's \<Rightarrow> string \<Rightarrow> string \<Rightarrow> bool" where
  \<comment> \<open>\<open>iconv\<close> translates this string as \<open>t\<close>: all of it when the translation fits, and otherwise as much as
     fits and \<open>E2BIG\<close>, which leaves the descriptor as it was (the character sets have no shift states).
     Nothing is said of any other string: what cannot be translated is \<open>EILSEQ\<close> or \<open>EINVAL\<close>\<close>
  "converts E cd s t \<longleftrightarrow>
     (\<forall>n. if length t \<le> n then \<exists>cd'. iconv E cd s n = (cd', length s, t, None)
          else \<exists>k out. iconv E cd s n = (cd, k, out, Some E2BIG) \<and> length out \<le> n)"

lemma s_convert_fits:
  assumes "converts E cd s t" and "s \<noteq> []" and "length t \<le> n"
  shows "\<exists>cd'. s_convert E cd s n '''' = Some (None, cd', t, n - length t)"
proof -
  obtain cd' where "iconv E cd s n = (cd', length s, t, None)" using assms unfolding converts_def by metis
  then show ?thesis using assms(2) by (subst s_convert.simps) (simp add: s_convert.simps [of _ _ "[]"])
qed

lemma s_convert_too_big:
  assumes "converts E cd s t" and "s \<noteq> []" and "\<not> length t \<le> n"
  shows "\<exists>out left. s_convert E cd s n '''' = Some (Some E2BIG, cd, out, left)"
proof -
  obtain k out where "iconv E cd s n = (cd, k, out, Some E2BIG)"
    using assms unfolding converts_def by metis
  then show ?thesis using assms(2) by (subst s_convert.simps) simp
qed

lemma convert_loop_ends:
  assumes "converts E cd buf t" and "\<And>n. malloc E n" and "buf \<noteq> []"
  shows "convert_loop E cd buf n = Some (Some t, length t)"
proof (induction "length t - n" arbitrary: n rule: less_induct)
  case less
  show ?case
  proof (cases "length t \<le> n")
    case True
    with s_convert_fits [OF assms(1,3) True] show ?thesis by (subst convert_loop.simps) auto
  next
    case False
    then have "length t - (n + length buf) < length t - n" using assms(3) by (cases buf) auto
    from less [OF this] s_convert_too_big [OF assms(1,3) False] assms(2) show ?thesis
      by (subst convert_loop.simps) auto
  qed
qed

subsection \<open>The characters of a name\<close>

definition name_char :: "char \<Rightarrow> bool" where
  "name_char c \<longleftrightarrow> islower c \<or> isdigit c \<or> c = CHR ''.'' \<or> c = CHR ''-''"

lemma name_char_tolower: "isalnum c \<Longrightarrow> name_char (tolower c)"
  by (auto simp: name_char_def isalnum_def islower_def isupper_def isdigit_def tolower_def char_code_char_of char_code_def)

lemma name_loop_chars: "list_all name_char (name_loop limit j s)"
  by (induction limit j s rule: name_loop.induct) (auto simp: name_char_tolower, simp_all add: name_char_def)

lemma length_name_loop: "length (name_loop limit j s) \<le> length s" "length (name_loop limit j s) \<le> limit - j"
  by (induction limit j s rule: name_loop.induct) (auto simp: le_diff_conv2 split: if_splits)

definition sample_iconv :: "string iconv_env" where
  \<comment> \<open>letters with an accent are two bytes: the first is dropped\<close>
  "sample_iconv = \<lparr> iconv_open = (\<lambda>t f. if f = ''UTF-8'' then Some '''' else None),
     iconv = (\<lambda>cd s n. let out = filter (\<lambda>c. char_code c < 128) s in
        if length out \<le> n then (cd, length s, out, None) else (cd, 0, '''', Some E2BIG)),
     malloc = (\<lambda>n. True) \<rparr>"

lemma sample_converts: "converts sample_iconv cd s (filter (\<lambda>c. char_code c < 128) s)"
  by (auto simp: converts_def sample_iconv_def Let_def)

subsection \<open>Properties\<close>




text \<open>C33. A name made from an external name with a translation is at most 41 characters long when its type has
  at most 40, one more than announced, holds lower-case letters, digits, dots and dashes only, fits
  the buffer allocated for it, and ends in a dash and the type, even when nothing else is left.\<close>

theorem name_made:
  assumes "ic_utf8_to_ascii E s = Some (Some bytes)" and "ic_utf8_to_name E (Some s) (Some ty) = Some (Some n)" and "ty \<noteq> ''''"
  shows "list_all name_char n \<and> (length ty \<le> 40 \<longrightarrow> length n \<le> 41) \<and> length n + 1 \<le> length (c_str bytes) + length ty + 2 \<and>
     (\<exists>x. n = x @ ''-'' @ map tolower (filter isalnum ty))"
proof -
  let ?x = "name_loop (name_limit (length ty)) 0 (c_str bytes)" and ?y = "map tolower (filter isalnum ty)"
  from assms have n: "n = ?x @ ''-'' @ ?y"
    by (auto simp: ic_utf8_to_name_def Let_def split: if_splits)
  have len: "length n = length ?x + 1 + length (filter isalnum ty)" by (simp add: n)
  have x: "length ?x \<le> length (c_str bytes)" "length ty \<le> 40 \<Longrightarrow> length ?x \<le> 40 - length ty"
    using length_name_loop [of "name_limit (length ty)" 0 "c_str bytes"] by (auto simp: name_limit_def)
  have "length ty \<le> 40 \<Longrightarrow> length n \<le> 41" "length n + 1 \<le> length (c_str bytes) + length ty + 2"
    using length_filter_le [of isalnum ty] x unfolding len by linarith+
  moreover have "list_all name_char n"
    using name_loop_chars by (auto simp: n list_all_iff name_char_tolower) (simp add: name_char_def)
  ultimately show ?thesis using n by blast
qed

theorem name_made_witness:
  "ic_utf8_to_name sample_iconv (Some (replicate 50 CHR ''A'')) (Some ''ups'') = Some (Some (replicate 37 CHR ''a'' @ ''-ups'')) \<and>
   list_all name_char (replicate 37 CHR ''a'' @ ''-ups'')"
proof -
  let ?s = "replicate 50 CHR ''A''"
  have "ic_convert sample_iconv (Some (c_str ?s @ [CHR 0x00])) (Some ''UTF-8'') ''ASCII//TRANSLIT'' =
      Some (Some (filter (\<lambda>c. char_code c < 128) (c_str ?s @ [CHR 0x00])), length (filter (\<lambda>c. char_code c < 128) (c_str ?s @ [CHR 0x00])))"
    unfolding ic_convert_def using convert_loop_ends [OF sample_converts, of "c_str ?s @ [CHR 0x00]" "''''"] by (simp add: sample_iconv_def)
  then have a: "ic_utf8_to_ascii sample_iconv ?s = Some (Some (filter (\<lambda>c. char_code c < 128) (c_str ?s @ [CHR 0x00])))"
    by (simp add: ic_utf8_to_ascii_def)
  have t: "c_str (filter (\<lambda>c. char_code c < 128) (c_str ?s @ [CHR 0x00])) = ?s" by code_simp
  have l: "name_loop (name_limit (length ''ups'')) 0 ?s @ ''-'' @ map tolower (filter isalnum ''ups'') = replicate 37 CHR ''a'' @ ''-ups''"
    by code_simp
  have m: "malloc sample_iconv k" for k by (simp add: sample_iconv_def)
  have run: "ic_utf8_to_name sample_iconv (Some ?s) (Some ''ups'') = Some (Some (replicate 37 CHR ''a'' @ ''-ups''))"
    unfolding l [symmetric] by (simp only: ic_utf8_to_name_def Let_def option.case a t m) simp
  from name_made [OF a run] run show ?thesis by blast
qed

end
