(* ===== verification/Augtool.thy ===== *)
theory Augtool
  imports Utils
begin

text \<open>
  \<open>src/shared/augtool.cc\<close> and \<open>augtool.h\<close>: a session with the program \<open>augtool\<close>, one command at a time, and
  the values of its answers. The subprocess is a parameter: a state with the operations of
  \<open>fty::Process\<close>; \<open>fty::split\<close> is one too.
\<close>

record 'p process =
  new_process :: "string \<Rightarrow> string list \<Rightarrow> 'p"
  process_exists :: "'p \<Rightarrow> bool"
  process_run :: "'p \<Rightarrow> (string + unit) \<times> 'p"
  process_write :: "string \<Rightarrow> 'p \<Rightarrow> bool \<times> 'p"
  readAllStandardOutput :: "'p \<Rightarrow> string \<times> 'p"
  split_lines :: "string \<Rightarrow> string list" \<comment> \<open>\<open>fty::split(s, "\n")\<close>\<close>

record 'p augtool =
  m_process :: "'p option"

subsection \<open>Commands\<close>

definition command_line :: "string \<Rightarrow> string" where
  "command_line cmd = (if cmd = '''' \<or> last cmd \<noteq> CHR 0x0A then cmd @ [CHR 0x0A] else cmd)"

definition get_cmd_out_raw :: "'p process \<Rightarrow> string \<Rightarrow> 'p augtool \<Rightarrow> string \<times> 'p augtool" where
  "get_cmd_out_raw P cmd a =
     (case m_process a of
        None \<Rightarrow> ('''', a)
      | Some p \<Rightarrow>
          (case process_write P (command_line cmd) p of (writeSuccess, p) \<Rightarrow>
           case readAllStandardOutput P p of (out, p) \<Rightarrow>
             (if writeSuccess then out else '''', a\<lparr> m_process := Some p \<rparr>)))"

definition run_cmd :: "'p process \<Rightarrow> string \<Rightarrow> 'p augtool \<Rightarrow> 'p augtool" where
  "run_cmd P cmd a = snd (get_cmd_out_raw P cmd a)"

definition initialized :: "'p augtool \<Rightarrow> bool" where
  "initialized a \<longleftrightarrow> m_process a \<noteq> None"

definition save :: "'p process \<Rightarrow> 'p augtool \<Rightarrow> 'p augtool" where
  "save P a = run_cmd P ''save'' a"

subsection \<open>The values of an answer\<close>

definition line_value :: "bool \<Rightarrow> string \<Rightarrow> string + string option" where
  \<comment> \<open>\<open>None\<close>: the line is skipped; an exception when nothing follows the equals sign\<close>
  "line_value key_value line =
     (if CHR ''='' \<in> set line
      then (case dropWhile (\<lambda>c. c \<noteq> CHR ''='') line of
              _ # _ # v \<Rightarrow> Inr (Some v)
            | _ \<Rightarrow> Inl ''out_of_range'')
      else if key_value then Inr None else Inr (Some line))"

fun lines_loop :: "bool \<Rightarrow> string \<Rightarrow> (string \<Rightarrow> bool) \<Rightarrow> string list \<Rightarrow> string \<Rightarrow> string + string" where
  "lines_loop key_value sep flt [] r = Inr r"
| "lines_loop key_value sep flt (line # ls) r =
     bindE (line_value key_value line) (\<lambda>v.
       case v of
         None \<Rightarrow> lines_loop key_value sep flt ls r
       | Some v \<Rightarrow>
           if flt v then lines_loop key_value sep flt ls r
           else lines_loop key_value sep flt ls (r @ (if r = '''' then '''' else sep) @ v))"

definition get_cmd_out ::
  "'p process \<Rightarrow> string \<Rightarrow> bool \<Rightarrow> string \<Rightarrow> (string \<Rightarrow> bool) \<Rightarrow> 'p augtool \<Rightarrow> (string + string) \<times> 'p augtool" where
  "get_cmd_out P cmd key_value sep flt a =
     (case get_cmd_out_raw P cmd a of (out, a) \<Rightarrow>
        (let ls = split_lines P out
         in if length ls \<ge> 3 then lines_loop key_value sep flt (butlast (tl ls)) '''' else Inr '''', a))"

subsection \<open>The session\<close>

definition load :: "'p process \<Rightarrow> 'p augtool \<Rightarrow> 'p augtool" where
  "load P a = run_cmd P ''load'' (run_cmd P '''' a)"

definition lenses :: "string list" where
  "lenses = [''-S'', ''-I/usr/share/fty/lenses'', ''-e'']"

fun contains :: "string \<Rightarrow> string \<Rightarrow> bool" where
  "contains w [] = starts_with [] w"
| "contains w (c # s) = (starts_with (c # s) w \<or> contains w s)"

definition init :: "'p process \<Rightarrow> bool \<Rightarrow> 'p augtool \<Rightarrow> bool \<times> 'p augtool" where
  \<comment> \<open>every exception is caught, and the process forgotten\<close>
  "init P sudoer a =
     (if m_process a \<noteq> None then (True, a)
      else
        let p = (if sudoer then new_process P ''sudo'' (''augtool'' # lenses) else new_process P ''augtool'' lenses);
            failed = (False, a\<lparr> m_process := None \<rparr>)
        in if process_exists P p then (True, load P (a\<lparr> m_process := Some p \<rparr>))
           else (case process_run P p of
                   (Inl error, p) \<Rightarrow> failed
                 | (Inr _, p) \<Rightarrow>
                     (case get_cmd_out_raw P ''help'' (a\<lparr> m_process := Some p \<rparr>) of (outp, a') \<Rightarrow>
                        if contains ''match'' outp then (True, load P a') else failed)))"

record 'p instances =
  instance_sudoer :: "'p augtool option" \<comment> \<open>\<open>None\<close>: not constructed yet\<close>
  instance_nopriv :: "'p augtool option"

definition constructed :: "'p process \<Rightarrow> bool \<Rightarrow> 'p augtool option \<Rightarrow> 'p augtool" where
  \<comment> \<open>a static object is constructed at the first call\<close>
  "constructed P sudoer i = (case i of Some a \<Rightarrow> a | None \<Rightarrow> snd (init P sudoer \<lparr> m_process = None \<rparr>))"

definition get_instance :: "'p process \<Rightarrow> bool \<Rightarrow> 'p instances \<Rightarrow> 'p augtool option \<times> 'p instances" where
  "get_instance P sudoer I =
     (let I = \<lparr> instance_sudoer = Some (constructed P True (instance_sudoer I)),
               instance_nopriv = Some (constructed P False (instance_nopriv I)) \<rparr>;
          i = (if sudoer then instance_sudoer I else instance_nopriv I)
      in (case i of Some a \<Rightarrow> if m_process a \<noteq> None then Some a else None | None \<Rightarrow> None, I))"

subsection \<open>What an answer gives\<close>

definition answer_values :: "bool \<Rightarrow> (string \<Rightarrow> bool) \<Rightarrow> string list \<Rightarrow> string list" where
  "answer_values key_value flt ls =
     filter (\<lambda>v. \<not> flt v) (concat (map (\<lambda>l. case line_value key_value l of Inr (Some v) \<Rightarrow> [v] | _ \<Rightarrow> []) ls))"

lemma lines_loop_values:
  assumes "\<forall>l \<in> set ls. \<exists>v. line_value key_value l = Inr v"
  shows "lines_loop key_value sep flt ls r =
     Inr (if r = '''' then join_with sep (dropWhile (\<lambda>v. v = '''') (answer_values key_value flt ls))
          else join_with sep (r # answer_values key_value flt ls))"
  using assms
proof (induction ls arbitrary: r)
  case (Cons l ls)
  then obtain v where v: "line_value key_value l = Inr v" by auto
  have IH: "lines_loop key_value sep flt ls r' =
     Inr (if r' = '''' then join_with sep (dropWhile (\<lambda>v. v = '''') (answer_values key_value flt ls))
          else join_with sep (r' # answer_values key_value flt ls))" for r'
    using Cons by simp
  show ?case
  proof (cases v)
    case None
    with v IH show ?thesis by (simp add: answer_values_def)
  next
    case (Some u)
    with v IH show ?thesis by (auto simp: answer_values_def join_with_fold)
  qed
qed (simp add: answer_values_def)

lemma line_value_fails: "line_value key_value l = Inl e \<longleftrightarrow> e = ''out_of_range'' \<and> l \<noteq> '''' \<and> last l = CHR ''='' \<and> CHR ''='' \<notin> set (butlast l)"
proof (cases "CHR ''='' \<in> set l")
  case True
  then obtain a b where l: "l = a @ CHR ''='' # b" "CHR ''='' \<notin> set a" by (auto dest: split_list_first)
  then have "dropWhile (\<lambda>c. c \<noteq> CHR ''='') l = CHR ''='' # b" by (simp add: dropWhile_append)
  with l show ?thesis by (cases b rule: rev_cases) (auto simp: line_value_def butlast_append split: list.splits)
next
  case False
  then show ?thesis by (auto simp: line_value_def) (metis last_in_set)
qed

definition cut_short :: "string \<Rightarrow> bool" where
  \<comment> \<open>a line that ends in its first equals sign\<close>
  "cut_short l \<longleftrightarrow> l \<noteq> '''' \<and> last l = CHR ''='' \<and> CHR ''='' \<notin> set (butlast l)"

lemma lines_loop_result:
  "lines_loop key_value sep flt ls '''' =
     (if \<forall>l \<in> set ls. \<not> cut_short l
      then Inr (join_with sep (dropWhile (\<lambda>v. v = '''') (answer_values key_value flt ls)))
      else Inl ''out_of_range'')"
proof -
  have fails: "\<exists>l \<in> set ls. cut_short l \<Longrightarrow> lines_loop key_value sep flt ls r = Inl ''out_of_range''" for r
  proof (induction ls arbitrary: r)
    case (Cons l ls)
    show ?case
    proof (cases "line_value key_value l")
      case (Inl e)
      then show ?thesis using line_value_fails [of key_value l e] by simp
    next
      case (Inr v)
      then have "\<not> cut_short l" using line_value_fails [of key_value l "''out_of_range''"] by (auto simp: cut_short_def)
      with Cons Inr show ?thesis by (auto split: option.splits)
    qed
  qed simp
  have "\<exists>v. line_value key_value l = Inr v" if "\<not> cut_short l" for l
    using that line_value_fails [of key_value l] by (cases "line_value key_value l") (auto simp: cut_short_def)
  with lines_loop_values [of ls key_value sep flt "''''"] fails show ?thesis by (cases "\<forall>l \<in> set ls. \<not> cut_short l") auto
qed

definition commands :: "'p process \<Rightarrow> string list \<Rightarrow> 'p \<Rightarrow> 'p" where
  \<comment> \<open>the process after these commands\<close>
  "commands P cs p = fold (\<lambda>c p. snd (readAllStandardOutput P (snd (process_write P (command_line c) p)))) cs p"

lemma get_cmd_out_raw_process:
  "m_process a = Some p \<Longrightarrow> snd (get_cmd_out_raw P c a) = a\<lparr> m_process := Some (commands P [c] p) \<rparr>"
  by (simp add: get_cmd_out_raw_def commands_def split: prod.splits)

lemma load_process:
  "m_process a = Some p \<Longrightarrow> load P a = a\<lparr> m_process := Some (commands P ['''', ''load''] p) \<rparr>"
  by (simp add: load_def run_cmd_def get_cmd_out_raw_process commands_def)

subsection \<open>A program\<close>

record program =
  written_lines :: "string list"
  answers :: "(string \<times> string) list"

definition newline :: string where
  "newline = [CHR 0x0A]"

fun split_at_newline :: "string \<Rightarrow> string \<Rightarrow> string list" where
  "split_at_newline w [] = (if w = '''' then [] else [w])"
| "split_at_newline w (c # s) =
     (if c = CHR 0x0A then (if w = '''' then [] else [w]) @ split_at_newline '''' s else split_at_newline (w @ [c]) s)"

definition sample_process :: "program process" where
  \<comment> \<open>answers the last line it was given; echoes it first and ends in a prompt\<close>
  "sample_process = \<lparr> new_process = (\<lambda>n args. \<lparr> written_lines = [],
       answers = [(''help'' @ newline, ''match <path>''), (''match /files'' @ newline,
         ''/files/a = x'' @ newline @ ''a comment'' @ newline @ ''/files/b = y'')] \<rparr>),
     process_exists = (\<lambda>p. False), process_run = (\<lambda>p. (Inr (), p)),
     process_write = (\<lambda>l p. (True, p\<lparr> written_lines := written_lines p @ [l] \<rparr>)),
     readAllStandardOutput = (\<lambda>p.
       let l = (if written_lines p = [] then '''' else last (written_lines p));
           r = (case map_of (answers p) l of Some r \<Rightarrow> r | None \<Rightarrow> '''')
       in (l @ r @ newline @ ''augtool>'', p)),
     split_lines = split_at_newline '''' \<rparr>"

subsection \<open>Properties\<close>

text \<open>C32. The answer to a command, between the echo and the prompt, is reduced to the values of its lines, in
  their order, without the ones that are filtered out, joined by the separator, except that empty
  values before the first other value leave no separator; the call throws exactly when a line ends in
  its first equals sign.\<close>

theorem augtool_answer:
  assumes "get_cmd_out_raw P cmd a = (out, a')" and "split_lines P out = first # ls @ [prompt]" and "ls \<noteq> []"
  shows "get_cmd_out P cmd key_value sep flt a =
     (if \<forall>l \<in> set ls. \<not> cut_short l
      then Inr (join_with sep (dropWhile (\<lambda>v. v = '''') (answer_values key_value flt ls)))
      else Inl ''out_of_range'', a')"
proof -
  have "length (first # ls @ [prompt]) \<ge> 3" using assms(3) by (cases ls) auto
  then show ?thesis using assms(1,2) by (simp add: get_cmd_out_def lines_loop_result)
qed

definition sample_session :: "program augtool" where
  "sample_session = snd (init sample_process False \<lparr> m_process = None \<rparr>)"

theorem augtool_answer_witness:
  "fst (get_cmd_out sample_process ''match /files'' True '', '' (\<lambda>v. v = ''z'') sample_session) = Inr ''x, y''"
proof -
  let ?ls = "[''/files/a = x'', ''a comment'', ''/files/b = y'']"
  obtain out a' where raw: "get_cmd_out_raw sample_process ''match /files'' sample_session = (out, a')" by force
  have "split_lines sample_process (fst (get_cmd_out_raw sample_process ''match /files'' sample_session)) =
      ''match /files'' # ?ls @ [''augtool>'']"
    by code_simp
  with raw have l: "split_lines sample_process out = ''match /files'' # ?ls @ [''augtool>'']" by simp
  have v: "list_all (\<lambda>l. \<not> cut_short l) ?ls"
    "join_with '', '' (dropWhile (\<lambda>v. v = '''') (answer_values True (\<lambda>v. v = ''z'') ?ls)) = ''x, y''"
    by code_simp+
  from augtool_answer [OF raw l, of True "'', ''" "\<lambda>v. v = ''z''"] v show ?thesis by (simp add: list_all_iff)
qed

text \<open>A session can be used exactly when it started: then its process exists or has answered \<open>help\<close> with a
  text about \<open>match\<close>, and has been told to load the configuration as the last thing; otherwise the
  process is forgotten.\<close>

theorem session_started:
  assumes "init P sudoer \<lparr> m_process = None \<rparr> = (ok, a)"
  shows "(ok \<longleftrightarrow> m_process a \<noteq> None) \<and>
    (\<forall>p. m_process a = Some p \<longrightarrow>
      (\<exists>p0. p = commands P ['''', ''load''] p0 \<and>
         (process_exists P p0 \<or> (\<exists>p1. p0 = commands P [''help''] p1 \<and>
            contains ''match'' (fst (get_cmd_out_raw P ''help'' \<lparr> m_process = Some p1 \<rparr>))))))"
proof -
  let ?p = "if sudoer then new_process P ''sudo'' (''augtool'' # lenses) else new_process P ''augtool'' lenses"
  show ?thesis
  proof (cases "process_exists P ?p")
    case True
    with assms have "ok" "a = load P \<lparr> m_process = Some ?p \<rparr>" by (auto simp: init_def Let_def)
    with True load_process [of "\<lparr> m_process = Some ?p \<rparr>"] show ?thesis by auto
  next
    case False
    show ?thesis
    proof (cases "ok")
      case True
      with assms False obtain p1 outp a' where "get_cmd_out_raw P ''help'' \<lparr> m_process = Some p1 \<rparr> = (outp, a')"
        and "contains ''match'' outp" and a: "a = load P a'"
        by (auto simp: init_def Let_def split: prod.splits sum.splits if_splits)
      with get_cmd_out_raw_process [of "\<lparr> m_process = Some p1 \<rparr>" p1 P "''help''"]
      have "m_process a' = Some (commands P [''help''] p1)"
        and "contains ''match'' (fst (get_cmd_out_raw P ''help'' \<lparr> m_process = Some p1 \<rparr>))" by auto
      with True load_process [OF this(1)] a show ?thesis by auto
    next
      case ok: False
      with assms False have "m_process a = None"
        by (auto simp: init_def Let_def split: prod.splits sum.splits if_splits)
      with ok show ?thesis by simp
    qed
  qed
qed

theorem session_started_witness:
  "\<exists>p. m_process sample_session = Some p \<and> written_lines p = [''help'' @ newline, newline, ''load'' @ newline] \<and>
     fst (init sample_process False \<lparr> m_process = None \<rparr>)"
proof -
  have "map_option written_lines (m_process sample_session) = Some [''help'' @ newline, newline, ''load'' @ newline]"
    by code_simp
  then obtain p where p: "m_process sample_session = Some p" "written_lines p = [''help'' @ newline, newline, ''load'' @ newline]"
    by auto
  obtain ok where run: "init sample_process False \<lparr> m_process = None \<rparr> = (ok, sample_session)"
    by (metis prod.collapse sample_session_def)
  from session_started [OF run] p run show ?thesis by auto
qed

end
