(* ===== verification/Persist.thy ===== *)
theory Persist
  imports AssetDb
begin

text \<open>
  \<open>src/persist/dbhelpers.cc\<close>, \<open>persist_error.cc\<close>, \<open>monitor.cc\<close> and \<open>src/db/agentstate/agentstate.cc\<close>: between
  assets and monitored devices, and the saved state of the agents. The tables a statement reads are
  lists of rows; a connection is those tables or the text of the failure every statement throws.
\<close>

record tables =
  monitor_asset_relation :: "(nat \<times> nat option) list" \<comment> \<open>\<open>id_asset_element\<close>, \<open>id_discovered_device\<close>\<close>
  asset_types :: "(nat \<times> nat) list" \<comment> \<open>\<open>id_asset_element\<close>, \<open>id_type\<close>\<close>
  discovered_device :: "(string \<times> nat) list" \<comment> \<open>name, id\<close>
  agent_info :: "(string \<times> string) list" \<comment> \<open>one row per name\<close>

type_synonym conn = "string + tables"

subsection \<open>Errors\<close>

datatype bios_error =
    NotFound
  | InternalDBError string
  | ElementIsNotDevice
  | MonitorCounterpartNotFound
  | BadInput string

fun error_what :: "bios_error \<Rightarrow> msg" where
  "error_what NotFound = Translate ''Specified element was not found'' []"
| "error_what (InternalDBError m) = Raw m"
| "error_what ElementIsNotDevice = Translate ''Specified element is not a device'' []"
| "error_what MonitorCounterpartNotFound = Translate ''For specified device monitor counterpart was not found'' []"
| "error_what (BadInput m) = Raw m"

datatype 'a guarded =
    Aborted \<comment> \<open>an assertion fails\<close>
  | Thrown bios_error
  | Returned 'a

subsection \<open>Assets and monitored devices\<close>

definition relation_rows :: "tables \<Rightarrow> nat \<Rightarrow> (nat option \<times> nat option) list" where
  \<comment> \<open>the rows of the relation for an asset, left-joined with its type\<close>
  "relation_rows t i = map (\<lambda>(a, v). (v, map_of (asset_types t) a)) (filter (\<lambda>(a, v). a = i) (monitor_asset_relation t))"

definition get_or :: "nat \<Rightarrow> nat option \<Rightarrow> nat" where
  "get_or n v = (case v of Some m \<Rightarrow> m | None \<Rightarrow> n)"

definition convert_asset_to_monitor_old :: "nat \<Rightarrow> conn \<Rightarrow> nat \<Rightarrow> nat guarded" where
  \<comment> \<open>the first argument is the type of a device\<close>
  "convert_asset_to_monitor_old device c asset_element_id =
     (if asset_element_id = 0 then Aborted
      else case c of
             Inl e \<Rightarrow> Thrown (InternalDBError e)
           | Inr t \<Rightarrow>
               (case relation_rows t asset_element_id of
                  [] \<Rightarrow> Thrown NotFound
                | (v, ty) # _ \<Rightarrow>
                    let device_discovered_id = get_or 0 v; element_type_id = get_or 0 ty in
                    if element_type_id = 0 then Aborted
                    else if element_type_id \<noteq> device then Thrown ElementIsNotDevice
                    else if device_discovered_id = 0 then Thrown MonitorCounterpartNotFound
                    else Returned device_discovered_id))"

definition convert_asset_to_monitor_safe :: "nat \<Rightarrow> conn \<Rightarrow> nat \<Rightarrow> nat option \<Rightarrow> (int \<times> nat option) guarded" where
  \<comment> \<open>the last argument is what the pointer points to, \<open>None\<close> for a null pointer; the code and the new content\<close>
  "convert_asset_to_monitor_safe device c asset_element_id device_id =
     (case device_id of
        None \<Rightarrow> Returned (- 5, None)
      | Some old \<Rightarrow>
          (case convert_asset_to_monitor_old device c asset_element_id of
             Aborted \<Rightarrow> Aborted
           | Returned n \<Rightarrow> Returned (0, Some n)
           | Thrown NotFound \<Rightarrow> Returned (- 1, Some old)
           | Thrown (InternalDBError _) \<Rightarrow> Returned (- 2, Some old)
           | Thrown ElementIsNotDevice \<Rightarrow> Returned (- 3, Some old)
           | Thrown MonitorCounterpartNotFound \<Rightarrow> Returned (- 4, Some old)
           | Thrown (BadInput m) \<Rightarrow> Thrown (BadInput m)))"

definition convert_monitor_to_asset :: "conn \<Rightarrow> nat \<Rightarrow> nat guarded" where
  "convert_monitor_to_asset c discovered_device_id =
     (if discovered_device_id = 0 then Aborted
      else case c of
             Inl e \<Rightarrow> Thrown (InternalDBError e)
           | Inr t \<Rightarrow>
               (case filter (\<lambda>(a, v). v = Some discovered_device_id) (monitor_asset_relation t) of
                  [] \<Rightarrow> Thrown NotFound
                | (a, _) # _ \<Rightarrow> Returned a))"

definition convert_monitor_to_asset_safe :: "conn \<Rightarrow> nat \<Rightarrow> nat option \<Rightarrow> (int \<times> nat option) guarded" where
  "convert_monitor_to_asset_safe c discovered_device_id asset_element_id =
     (case asset_element_id of
        None \<Rightarrow> Returned (- 5, None)
      | Some old \<Rightarrow>
          (case convert_monitor_to_asset c discovered_device_id of
             Aborted \<Rightarrow> Aborted
           | Returned n \<Rightarrow> Returned (0, Some n)
           | Thrown NotFound \<Rightarrow> Returned (- 1, Some old)
           | Thrown (InternalDBError _) \<Rightarrow> Returned (- 2, Some old)
           | Thrown e \<Rightarrow> Thrown e))"

subsection \<open>Devices by name\<close>

definition select_device :: "('d, 'h) asset_db \<Rightarrow> (string \<Rightarrow> bool) \<Rightarrow> string \<Rightarrow> conn \<Rightarrow> string \<Rightarrow> db_reply \<times> nat" where
  \<comment> \<open>the second argument is \<open>persist::is_ok_name\<close>, the third the text of \<open>tntdb::NotFound\<close>; the reply and its item\<close>
  "select_device D is_ok_name not_found c device_name =
     (let ret = db_reply_new;
          bad = (\<lambda>sub m. (ret\<lparr> status := 0, errtype := DB_ERR D, errsubtype := sub, reply_msg := m \<rparr>, 0))
      in if \<not> is_ok_name device_name
         then bad (DB_ERROR_BADINPUT D) (Translate ''device name length is not in range [1, MAX_NAME_LENGTH]'' [])
         else (case c of
                 Inl e \<Rightarrow> bad (DB_ERROR_INTERNAL D) (Jsonify (Raw e))
               | Inr t \<Rightarrow>
                   (case filter (\<lambda>(n, i). n = device_name) (discovered_device t) of
                      [] \<Rightarrow> bad (DB_ERROR_NOTFOUND D) (Jsonify (Raw not_found))
                    | (_, i) # _ \<Rightarrow> (ret\<lparr> status := 1 \<rparr>, i))))"

subsection \<open>The state of the agents\<close>

definition update_agent_info :: "string \<Rightarrow> string \<Rightarrow> (conn, 'e, int \<times> nat) prog" where
  \<comment> \<open>insert, or replace the row of the same name; the code and the rows affected, 2 for a row that changed\<close>
  "update_agent_info agent_name info c =
     (case c of
        Inl _ \<Rightarrow> (Inr (1, 0), c)
      | Inr t \<Rightarrow>
          (let old = map_of (agent_info t) agent_name in
           (Inr (0, if old = None then 1 else if old = Some info then 0 else 2),
            Inr (t\<lparr> agent_info := map_put agent_name info (agent_info t) \<rparr>))))"

definition save_agent_info_on :: "string \<Rightarrow> string \<Rightarrow> (conn, 'e, int) prog" where
  "save_agent_info_on agent_name info c = (case update_agent_info agent_name info c of (Inl e, c) \<Rightarrow> (Inl e, c) | (Inr (r, _), c) \<Rightarrow> (Inr r, c))"

definition save_agent_info :: "bool \<Rightarrow> string \<Rightarrow> string \<Rightarrow> (conn, 'e, int) prog" where
  \<comment> \<open>over a new connection; the first argument is whether it can be made\<close>
  "save_agent_info connects agent_name info c =
     (if connects then save_agent_info_on agent_name info c else (Inr 1, c))"

definition load_agent_info_on :: "conn \<Rightarrow> string \<Rightarrow> int \<times> string" where
  "load_agent_info_on c agent_name =
     (case c of
        Inl _ \<Rightarrow> (- 1, '''')
      | Inr t \<Rightarrow> (case map_of (agent_info t) agent_name of
            None \<Rightarrow> (0, '''') | Some d \<Rightarrow> if d = '''' then (0, '''') else (0, d)))"

definition load_agent_info :: "bool \<Rightarrow> conn \<Rightarrow> string \<Rightarrow> string \<Rightarrow> int \<times> string" where
  \<comment> \<open>the last argument is the string to be filled, left as it is when no connection can be made\<close>
  "load_agent_info connects c agent_name old = (if connects then load_agent_info_on c agent_name else (- 1, old))"

subsection \<open>Properties\<close>

definition one_to_one :: "tables \<Rightarrow> bool" where
  \<comment> \<open>no device is related to two assets\<close>
  "one_to_one t \<longleftrightarrow> (\<forall>(a, v) \<in> set (monitor_asset_relation t). \<forall>(b, u) \<in> set (monitor_asset_relation t). v = u \<and> v \<noteq> None \<longrightarrow> a = b)"

text \<open>The device of an asset leads back to the asset, when no device is related to two; and the code of the
  call is 0 exactly then, otherwise the variable of the caller is left as it was.\<close>

theorem monitor_round_trip:
  assumes "convert_asset_to_monitor_safe device (Inr t) a (Some old) = Returned (rc, v)" and "one_to_one t"
  shows "(rc = 0 \<longrightarrow> (\<exists>n. v = Some n \<and> convert_monitor_to_asset_safe (Inr t) n (Some a) = Returned (0, Some a))) \<and>
         (rc \<noteq> 0 \<longrightarrow> v = Some old \<and> rc \<in> {- 1, - 3, - 4})"
proof (cases "rc = 0")
  case True
  with assms(1) obtain n where n: "convert_asset_to_monitor_old device (Inr t) a = Returned n" and v: "v = Some n"
    by (auto simp: convert_asset_to_monitor_safe_def split: guarded.splits bios_error.splits)
  from n obtain ty rest where "relation_rows t a = (Some n, ty) # rest" and pos: "n \<noteq> 0"
    by (auto simp: convert_asset_to_monitor_old_def get_or_def Let_def split: if_splits list.splits option.splits)
  then have "(Some n, ty) \<in> set (relation_rows t a)" by simp
  then have m: "(a, Some n) \<in> set (monitor_asset_relation t)" by (auto simp: relation_rows_def)
  obtain b u bs where f: "filter (\<lambda>(a, v). v = Some n) (monitor_asset_relation t) = (b, u) # bs"
    using m by (metis (mono_tags, lifting) case_prodI filter_empty_conv neq_Nil_conv surj_pair)
  then have "(b, u) \<in> set (filter (\<lambda>(a, v). v = Some n) (monitor_asset_relation t))" by simp
  then have "(b, Some n) \<in> set (monitor_asset_relation t)" by auto
  with m assms(2) have "b = a" unfolding one_to_one_def by fastforce
  with f pos True v show ?thesis by (simp add: convert_monitor_to_asset_safe_def convert_monitor_to_asset_def)
next
  case False
  with assms(1) show ?thesis
    by (auto simp: convert_asset_to_monitor_safe_def convert_asset_to_monitor_old_def Let_def
        split: guarded.splits bios_error.splits if_splits list.splits)
qed

definition sample_tables :: tables where
  "sample_tables = \<lparr> monitor_asset_relation = [(10, Some 1), (11, None), (12, Some 2)], asset_types = [(10, 6), (11, 6), (12, 5)],
     discovered_device = [(''ups-10'', 1)], agent_info = [] \<rparr>"

theorem monitor_round_trip_witness:
  "convert_asset_to_monitor_safe 6 (Inr sample_tables) 10 (Some 0) = Returned (0, Some 1) \<and>
   convert_monitor_to_asset_safe (Inr sample_tables) 1 (Some 10) = Returned (0, Some 10) \<and>
   convert_asset_to_monitor_safe 6 (Inr sample_tables) 12 (Some 7) = Returned (- 3, Some 7)"
proof -
  have r: "convert_asset_to_monitor_safe 6 (Inr sample_tables) 10 (Some 0) = Returned (0, Some 1)"
    "convert_asset_to_monitor_safe 6 (Inr sample_tables) 12 (Some 7) = Returned (- 3, Some 7)"
    by code_simp+
  have "one_to_one sample_tables" by (simp add: one_to_one_def sample_tables_def)
  from monitor_round_trip [OF r(1) this] r show ?thesis by simp
qed

text \<open>
  What an agent relies on: its state is the one it saved last, and no other agent's.
\<close>

locale saved_states =
  fixes save :: "'k \<Rightarrow> 'v \<Rightarrow> 's \<Rightarrow> 's"
    and load :: "'s \<Rightarrow> 'k \<Rightarrow> 'v"
    and ok :: "'s \<Rightarrow> bool"
  assumes save_ok: "ok s \<Longrightarrow> ok (save k v s)"
    and load_same: "ok s \<Longrightarrow> load (save k v s) k = v"
    and load_other: "ok s \<Longrightarrow> j \<noteq> k \<Longrightarrow> load (save k v s) j = load s j"
begin

definition save_all :: "('k \<times> 'v) list \<Rightarrow> 's \<Rightarrow> 's" where
  "save_all kvs s = fold (\<lambda>(k, v). save k v) kvs s"

lemma save_all_ok: "ok s \<Longrightarrow> ok (save_all kvs s)"
  unfolding save_all_def by (induction kvs arbitrary: s) (auto intro: save_ok)

lemma load_save_all: "ok s \<Longrightarrow> load (save_all kvs s) k = (case map_of (rev kvs) k of Some v \<Rightarrow> v | None \<Rightarrow> load s k)"
proof (induction kvs rule: rev_induct)
  case (snoc kv kvs)
  obtain j v where kv: "kv = (j, v)" by (cases kv)
  have "ok (save_all kvs s)" using save_all_ok snoc.prems .
  with snoc load_same load_other [of "save_all kvs s" k j v] show ?case
    by (auto simp: kv save_all_def)
qed (simp add: save_all_def)

end

definition saved :: "string \<Rightarrow> string \<Rightarrow> conn \<Rightarrow> conn" where
  "saved agent info c = snd (save_agent_info True agent info c :: (unit + int) \<times> conn)"

definition loaded :: "conn \<Rightarrow> string \<Rightarrow> string" where
  "loaded c agent = snd (load_agent_info True c agent '''')"

definition readable :: "conn \<Rightarrow> bool" where
  \<comment> \<open>the data base answers, and its key is unique\<close>
  "readable c \<longleftrightarrow> (case c of Inl _ \<Rightarrow> False | Inr t \<Rightarrow> smap (agent_info t))"

lemmas agent_state_defs = saved_def loaded_def readable_def save_agent_info_def save_agent_info_on_def update_agent_info_def
  load_agent_info_def load_agent_info_on_def Let_def

interpretation agent_states: saved_states saved loaded readable
  by unfold_locales (auto simp: agent_state_defs split: sum.splits option.splits)

definition save_states :: "(string \<times> string) list \<Rightarrow> conn \<Rightarrow> conn" where
  "save_states saves c = fold (\<lambda>(agent, info). saved agent info) saves c"

lemma load_readable: "readable c \<Longrightarrow> load_agent_info True c agent old = (0, loaded c agent)"
  by (auto simp: agent_state_defs split: sum.splits option.splits)

text \<open>C39. After any number of agents have saved their states, in any order, an agent loads the one it saved last,
  whatever its bytes, and an agent that saved none what it had before; without an error.\<close>

theorem agent_state_round_trip:
  assumes "readable c"
  shows "load_agent_info True (save_states saves c) agent old =
    (0, case map_of (rev saves) agent of Some info \<Rightarrow> info | None \<Rightarrow> snd (load_agent_info True c agent ''''))"
proof -
  have eq: "save_states saves c = agent_states.save_all saves c"
    by (simp add: save_states_def agent_states.save_all_def)
  show ?thesis
    unfolding eq load_readable [OF agent_states.save_all_ok [OF assms]] agent_states.load_save_all [OF assms]
    by (simp only: loaded_def)
qed

theorem agent_state_round_trip_witness:
  "load_agent_info True (save_states [(''nut'', ''a''), (''web'', ''w''), (''nut'', ''b'' @ [CHR 0x00] @ ''c'')] (Inr sample_tables)) ''nut'' '''' =
     (0, ''b'' @ [CHR 0x00] @ ''c'')"
proof -
  have "readable (Inr sample_tables)" by (simp add: readable_def sample_tables_def)
  from agent_state_round_trip [OF this, of "[(''nut'', ''a''), (''web'', ''w''), (''nut'', ''b'' @ [CHR 0x00] @ ''c'')]" "''nut''"]
  show ?thesis by simp
qed

end
