(* ===== verification/FileConvert.thy ===== *)
theory FileConvert
  imports Rest_Prelude
begin

text \<open>
  \<open>src/shared/magic.cc\<close>: the encoding of an uploaded file, and its conversion to UTF-8 in a temporary file.
  The file system is a map from paths to contents; \<open>mkstemp\<close>, libmagic and the program \<open>iconv\<close> are
  parameters.
\<close>

datatype exn = Logic_error string | Runtime_error string | Invalid_argument string

datatype magic_flag = MAGIC_ERROR | MAGIC_NO_CHECK_COMPRESS | MAGIC_NO_CHECK_TAR | MAGIC_MIME_ENCODING

type_synonym files = "string \<rightharpoonup> string"

record file_env =
  magic_open :: "magic_flag list \<Rightarrow> bool"
  magic_load :: "magic_flag list \<Rightarrow> bool"
  magic_file :: "magic_flag list \<Rightarrow> string option \<Rightarrow> string + string" \<comment> \<open>of the content, \<open>None\<close> for no file\<close>
  mkstemp :: "string \<Rightarrow> files \<Rightarrow> string + string" \<comment> \<open>the text of \<open>errno\<close>, or the path made from the template\<close>
  iconv_program :: "string \<Rightarrow> string \<Rightarrow> bool \<times> string" \<comment> \<open>of the encoding and the content: exit code 0, what is written\<close>

definition s_magic :: "file_env \<Rightarrow> string \<Rightarrow> magic_flag list \<Rightarrow> files \<Rightarrow> exn + string" where
  "s_magic E path flags fs =
     (if \<not> magic_open E flags then Inl (Logic_error ''fail to open magic_cookie'')
      else if \<not> magic_load E flags then Inl (Logic_error ''fail to load the magic database'')
      else case magic_file E flags (fs path) of
             Inl e \<Rightarrow> Inl (Logic_error (''fail to get the mime type for file '' @ path @ '': '' @ e))
           | Inr m \<Rightarrow> Inr m)"

definition file_type_encoding :: "file_env \<Rightarrow> string \<Rightarrow> files \<Rightarrow> exn + string \<times> string" where
  "file_type_encoding E path fs =
     (let flags = [MAGIC_ERROR, MAGIC_NO_CHECK_COMPRESS, MAGIC_NO_CHECK_TAR] in
      bindE (s_magic E path flags fs) (\<lambda>file_type.
      bindE (s_magic E path (MAGIC_MIME_ENCODING # flags) fs) (\<lambda>encoding.
        Inr (file_type, encoding))))"

definition supported :: "string \<Rightarrow> bool" where
  "supported encoding \<longleftrightarrow> encoding = ''utf-8'' \<or> encoding = ''utf-16le'' \<or> encoding = ''us-ascii''"

definition to_utf8 :: "file_env \<Rightarrow> string \<Rightarrow> string \<Rightarrow> string \<Rightarrow> (files, exn, string) prog" where
  \<comment> \<open>the branch for UTF-16: another temporary file, and the first one removed\<close>
  "to_utf8 E encoding path content fs =
     (case mkstemp E ''/tmp/convert-file-to-XXXXXX'' fs of
        Inl e \<Rightarrow> (Inl (Runtime_error e), fs)
      | Inr new_path \<Rightarrow>
          (case iconv_program E encoding content of (ok, written) \<Rightarrow>
             (let fs = (fs(new_path \<mapsto> written))(path := None)
              in if \<not> ok then (Inl (Runtime_error ''Can't convert input file to utf-8''), fs(new_path := None))
                 else (Inr new_path, fs))))"

definition convert_file :: "file_env \<Rightarrow> string \<Rightarrow> (files, exn, string) prog" where
  \<comment> \<open>of the content of the file; the path of the converted one\<close>
  "convert_file E content fs =
     (case mkstemp E ''/tmp/convert-file-from-XXXXXX'' fs of
        Inl e \<Rightarrow> (Inl (Runtime_error e), fs)
      | Inr path \<Rightarrow>
          (let fs = fs(path \<mapsto> content) in
           case file_type_encoding E path fs of
             Inl e \<Rightarrow> (Inl e, fs)
           | Inr (file_type, encoding) \<Rightarrow>
               if \<not> supported encoding
               then (Inl (Invalid_argument (''This file ('' @ file_type @
                       '') is not supported please try again with a different file.'')), fs(path := None))
               else if encoding = ''utf-16le'' then to_utf8 E encoding path content fs
               else (Inr path, fs)))"

subsection \<open>Properties\<close>

definition fresh_paths :: "file_env \<Rightarrow> bool" where
  \<comment> \<open>\<open>mkstemp\<close> makes a file that does not exist\<close>
  "fresh_paths E \<longleftrightarrow> (\<forall>template fs p. mkstemp E template fs = Inr p \<longrightarrow> fs p = None)"

text \<open>What libmagic reports of a content, from its three functions.\<close>

definition reports :: "file_env \<Rightarrow> magic_flag list \<Rightarrow> string \<Rightarrow> string \<Rightarrow> bool" where
  "reports E flags content m \<longleftrightarrow>
     magic_open E flags \<and> magic_load E flags \<and> magic_file E flags (Some content) = Inr m"

definition has_encoding :: "file_env \<Rightarrow> string \<Rightarrow> string \<Rightarrow> string \<Rightarrow> bool" where
  "has_encoding E content ty enc \<longleftrightarrow>
     reports E [MAGIC_ERROR, MAGIC_NO_CHECK_COMPRESS, MAGIC_NO_CHECK_TAR] content ty \<and>
     reports E [MAGIC_MIME_ENCODING, MAGIC_ERROR, MAGIC_NO_CHECK_COMPRESS, MAGIC_NO_CHECK_TAR] content enc"

definition converted :: "file_env \<Rightarrow> string \<Rightarrow> string \<Rightarrow> bool" where
  \<comment> \<open>a content reported to be UTF-8 or ASCII as it is; what \<open>iconv\<close> makes of one reported to be UTF-16\<close>
  "converted E content text \<longleftrightarrow>
     (\<exists>ty enc. has_encoding E content ty enc \<and>
        ((enc = ''utf-8'' \<or> enc = ''us-ascii'') \<and> text = content \<or>
         enc = ''utf-16le'' \<and> iconv_program E ''utf-16le'' content = (True, text)))"

definition refused :: "file_env \<Rightarrow> string \<Rightarrow> files \<Rightarrow> exn \<Rightarrow> bool" where
  \<comment> \<open>no temporary file, any other encoding, or a failure of \<open>iconv\<close>\<close>
  "refused E content fs e \<longleftrightarrow>
     (\<exists>w. mkstemp E ''/tmp/convert-file-from-XXXXXX'' fs = Inl w \<and> e = Runtime_error w) \<or>
     (\<exists>ty enc. has_encoding E content ty enc \<and>
        (enc \<noteq> ''utf-8'' \<and> enc \<noteq> ''us-ascii'' \<and> enc \<noteq> ''utf-16le'' \<and>
           e = Invalid_argument (''This file ('' @ ty @ '') is not supported please try again with a different file.'') \<or>
         enc = ''utf-16le'' \<and> \<not> fst (iconv_program E ''utf-16le'' content) \<and>
           e = Runtime_error ''Can't convert input file to utf-8''))"

lemma s_magic_reports: "fs path = Some content \<Longrightarrow> s_magic E path flags fs = Inr m \<longleftrightarrow> reports E flags content m"
  by (auto simp: s_magic_def reports_def split: sum.splits)

lemma file_type_encoding_reports:
  assumes "fs path = Some content"
  shows "file_type_encoding E path fs = Inr (ty, enc) \<longleftrightarrow> has_encoding E content ty enc"
  by (simp add: file_type_encoding_def has_encoding_def bindE_eq_Inr_iff s_magic_reports [of fs path, OF assms] Let_def)

lemma to_utf8_effect:
  assumes "fresh_paths E" and "to_utf8 E ''utf-16le'' path content (fs(path \<mapsto> content)) = (r, fs')" and "fs path = None"
    and "has_encoding E content ty ''utf-16le''"
  shows "(\<forall>p. r = Inr p \<longrightarrow> fs p = None \<and> (\<exists>text. converted E content text \<and> fs' = fs(p \<mapsto> text))) \<and>
    (\<forall>e. r = Inl e \<longrightarrow> fs' = fs \<and> refused E content fs e \<or> fs' = fs(path \<mapsto> content) \<and>
       mkstemp E ''/tmp/convert-file-to-XXXXXX'' (fs(path \<mapsto> content)) \<in> range Inl)"
proof (cases "mkstemp E ''/tmp/convert-file-to-XXXXXX'' (fs(path \<mapsto> content))")
  case (Inl e)
  with assms(2) show ?thesis by (auto simp: to_utf8_def)
next
  case (Inr p)
  with assms(1) have p: "(fs(path \<mapsto> content)) p = None" unfolding fresh_paths_def by blast
  then have d: "p \<noteq> path" "fs p = None" by (auto split: if_splits)
  then have fs: "fs(path \<mapsto> content, p \<mapsto> w, path := None, p := None) = fs" "fs(path \<mapsto> content, p \<mapsto> w, path := None) = fs(p \<mapsto> w)" for w
    using assms(3) by (auto simp: fun_eq_iff)
  obtain ok written where iconv: "iconv_program E ''utf-16le'' content = (ok, written)" by fastforce
  show ?thesis
  proof (cases ok)
    case True
    with iconv assms(4) have "converted E content written" by (auto simp: converted_def)
    with True iconv Inr assms(2) d fs show ?thesis by (auto simp: to_utf8_def)
  next
    case False
    with iconv assms(4) have "refused E content fs (Runtime_error ''Can't convert input file to utf-8'')"
      by (auto simp: refused_def)
    with False iconv Inr assms(2) fs show ?thesis by (auto simp: to_utf8_def)
  qed
qed

text \<open>C20. A conversion that succeeds leaves one new file and no other trace: with the content as it is when libmagic
  reports it to be UTF-8 or ASCII, and with what \<open>iconv\<close> makes of it when libmagic reports little-endian UTF-16;
  a content of any other encoding, binary ones included, is refused. A conversion that fails leaves no file when
  the first temporary file cannot be made, the encoding is not one of the three, or \<open>iconv\<close> fails, with the
  exception for each; it leaves the uploaded content in the first temporary file when libmagic does not report
  an encoding or the second temporary file cannot be made. \<open>mkstemp\<close> makes files that do not exist.\<close>

theorem conversion_leaves_one_file:
  assumes "fresh_paths E" and "convert_file E content fs = (r, fs')"
  shows "(\<forall>p. r = Inr p \<longrightarrow> fs p = None \<and> (\<exists>text. converted E content text \<and> fs' = fs(p \<mapsto> text))) \<and>
    (\<forall>e. r = Inl e \<longrightarrow> fs' = fs \<and> refused E content fs e \<or> (\<exists>p. fs' = fs(p \<mapsto> content) \<and>
       ((\<nexists>ty enc. has_encoding E content ty enc) \<or>
        mkstemp E ''/tmp/convert-file-to-XXXXXX'' (fs(p \<mapsto> content)) \<in> range Inl)))"
proof (cases "mkstemp E ''/tmp/convert-file-from-XXXXXX'' fs")
  case (Inl e)
  with assms(2) show ?thesis by (auto simp: convert_file_def refused_def)
next
  case path: (Inr path)
  with assms(1) have free: "fs path = None" unfolding fresh_paths_def by blast
  let ?fs = "fs(path \<mapsto> content)"
  note encoding = file_type_encoding_reports [of ?fs path content E]
  show ?thesis
  proof (cases "file_type_encoding E path ?fs")
    case (Inl e)
    with encoding have "\<nexists>ty enc. has_encoding E content ty enc" by (metis fun_upd_same sum.distinct(1))
    with Inl path assms(2) show ?thesis by (auto simp: convert_file_def Let_def)
  next
    case (Inr te)
    then obtain ty enc where te: "file_type_encoding E path ?fs = Inr (ty, enc)" by (cases te) simp
    with encoding [of ty enc] have has: "has_encoding E content ty enc" by simp
    have gone: "fs(path := None) = fs" using free by (auto simp: fun_eq_iff)
    consider (utf16) "enc = ''utf-16le''" | (as_is) "enc = ''utf-8'' \<or> enc = ''us-ascii''"
      | (other) "enc \<noteq> ''utf-8''" "enc \<noteq> ''us-ascii''" "enc \<noteq> ''utf-16le''" by blast
    then show ?thesis
    proof cases
      case utf16
      with path te assms(2) have "to_utf8 E ''utf-16le'' path content ?fs = (r, fs')"
        by (simp add: convert_file_def supported_def)
      from to_utf8_effect [OF assms(1) this free has [unfolded utf16]] show ?thesis by blast
    next
      case as_is
      then have "converted E content content" using has by (auto simp: converted_def)
      moreover have "r = Inr path" "fs' = ?fs"
        using as_is path te assms(2) by (auto simp: convert_file_def supported_def)
      ultimately show ?thesis using free by blast
    next
      case other
      then have "refused E content fs (Invalid_argument (''This file ('' @ ty @
          '') is not supported please try again with a different file.''))"
        using has unfolding refused_def by blast
      moreover have "r = Inl (Invalid_argument (''This file ('' @ ty @
          '') is not supported please try again with a different file.''))" "fs' = fs"
        using other path te assms(2) gone by (simp_all add: convert_file_def supported_def)
      ultimately show ?thesis by blast
    qed
  qed
qed

definition sample_files :: "string \<Rightarrow> bool \<Rightarrow> file_env" where
  \<comment> \<open>the encoding libmagic reports, and whether it can be loaded\<close>
  "sample_files encoding loads = \<lparr> magic_open = (\<lambda>f. True), magic_load = (\<lambda>f. loads),
     magic_file = (\<lambda>f c. Inr (if MAGIC_MIME_ENCODING \<in> set f then encoding else ''text'')),
     mkstemp = (\<lambda>t fs. if fs (t @ ''1'') = None then Inr (t @ ''1'') else Inl ''EEXIST''),
     iconv_program = (\<lambda>e s. (True, filter (\<lambda>c. c \<noteq> CHR 0x00) s)) \<rparr>"

lemma sample_files_fresh: "fresh_paths (sample_files encoding loads)"
  by (auto simp: fresh_paths_def sample_files_def split: if_splits)

theorem conversion_leaves_one_file_witness:
  "\<exists>fs1 fs2. convert_file (sample_files ''utf-16le'' True) (''a'' @ [CHR 0x00]) Map.empty = (Inr ''/tmp/convert-file-to-XXXXXX1'', fs1) \<and>
     fs1 = [''/tmp/convert-file-to-XXXXXX1'' \<mapsto> ''a''] \<and>
     convert_file (sample_files ''utf-8'' False) ''a'' Map.empty = (Inl (Logic_error ''fail to load the magic database''), fs2) \<and> fs2 \<noteq> Map.empty"
proof -
  have "fst (convert_file (sample_files ''utf-16le'' True) (''a'' @ [CHR 0x00]) Map.empty) = Inr ''/tmp/convert-file-to-XXXXXX1''"
    "snd (convert_file (sample_files ''utf-16le'' True) (''a'' @ [CHR 0x00]) Map.empty) ''/tmp/convert-file-to-XXXXXX1'' = Some ''a''"
    by code_simp+
  then obtain fs1 where run: "convert_file (sample_files ''utf-16le'' True) (''a'' @ [CHR 0x00]) Map.empty = (Inr ''/tmp/convert-file-to-XXXXXX1'', fs1)"
    and kept: "fs1 ''/tmp/convert-file-to-XXXXXX1'' = Some ''a''"
    by (metis prod.collapse snd_conv)
  from conversion_leaves_one_file [OF sample_files_fresh run] obtain u where "fs1 = [''/tmp/convert-file-to-XXXXXX1'' \<mapsto> u]"
    by blast
  with kept have fs1: "fs1 = [''/tmp/convert-file-to-XXXXXX1'' \<mapsto> ''a'']" by simp
  have "fst (convert_file (sample_files ''utf-8'' False) ''a'' Map.empty) = Inl (Logic_error ''fail to load the magic database'')"
    "snd (convert_file (sample_files ''utf-8'' False) ''a'' Map.empty) ''/tmp/convert-file-from-XXXXXX1'' = Some ''a''"
    by code_simp+
  then obtain fs2 where "convert_file (sample_files ''utf-8'' False) ''a'' Map.empty = (Inl (Logic_error ''fail to load the magic database''), fs2)"
    "fs2 \<noteq> Map.empty"
    by (metis prod.collapse snd_conv option.distinct(1))
  with run fs1 show ?thesis by blast
qed

end
