(* ===== verification/NetIface.thy ===== *)
theory NetIface
  imports Rest_Prelude "HOL-Library.Word"
begin

unbundle bit_operations_syntax

text \<open>
  \<open>src/web/src/iface.cc\<close>: the network interfaces and the state of one of them. To see whether a cable is
  plugged in, an interface that is down is brought up for a moment, so the flags of the interfaces
  are a state of the kernel that the function changes. \<open>getifaddrs\<close> and the other requests are
  parameters; with and without \<open>linux/ethtool.h\<close>.
\<close>

record ifaddr =
  ifa_name :: string
  ifa_flags :: "32 word"
  ifa_addr :: "(nat \<times> string \<times> string) option"
    \<comment> \<open>\<open>None\<close> for a null pointer; the family, the address and the mask as \<open>inet_ntoa\<close> writes them\<close>

record iface =
  ip :: "string list"
  netmask :: "string list"
  if_state :: string
  gateway :: string
  cable :: string
  mac :: string

definition iface_new :: iface where
  "iface_new = \<lparr> ip = [], netmask = [], if_state = '''', gateway = '''', cable = '''', mac = '''' \<rparr>"

type_synonym flags = "string \<Rightarrow> 16 word" \<comment> \<open>of the interfaces, in the kernel\<close>

record requests =
  SIOCGIFHWADDR :: "string \<Rightarrow> 8 word list option" \<comment> \<open>the six bytes of the address\<close>
  SIOCSIFFLAGS :: "string \<Rightarrow> 16 word \<Rightarrow> bool" \<comment> \<open>whether the flags can be set\<close>
  SIOCETHTOOL :: "string \<Rightarrow> flags \<Rightarrow> bool option" \<comment> \<open>whether there is a link\<close>

definition IFF_UP :: "32 word" where
  "IFF_UP = 1"

definition AF_INET :: nat where
  "AF_INET = 2"

definition get_ifaces :: "ifaddr list option \<Rightarrow> string list" where
  "get_ifaces start = (case start of None \<Rightarrow> [] | Some its \<Rightarrow> set_of_list (map ifa_name its))"

subsection \<open>The address of the hardware\<close>

definition hex_digit :: "nat \<Rightarrow> char" where
  "hex_digit n = (if n < 10 then char_of (48 + n) else char_of (87 + n))"

definition byte_text :: "8 word \<Rightarrow> string" where
  \<comment> \<open>\<open>%02x\<close>\<close>
  "byte_text b = [hex_digit (unat b div 16), hex_digit (unat b mod 16)]"

fun mac_loop :: "8 word list \<Rightarrow> string \<Rightarrow> string" where
  "mac_loop [] m = m"
| "mac_loop (b # bs) m = mac_loop bs (m @ (if m \<noteq> '''' then '':'' else '''') @ byte_text b)"

subsection \<open>One interface\<close>

definition set_flags :: "requests \<Rightarrow> string \<Rightarrow> 16 word \<Rightarrow> flags \<Rightarrow> bool \<times> flags" where
  "set_flags R n f k = (if SIOCSIFFLAGS R n f then (True, k(n := f)) else (False, k))"

definition probe :: "requests \<Rightarrow> bool \<Rightarrow> string \<Rightarrow> 32 word \<Rightarrow> iface \<Rightarrow> flags \<Rightarrow> iface \<times> flags" where
  \<comment> \<open>the cable of an interface; the second argument is whether there is \<open>linux/ethtool.h\<close>\<close>
  "probe R have_ethtool n f r k =
     (let up = f AND IFF_UP \<noteq> 0;
          (can, k) = (if up then (True, k) else set_flags R n (ucast (f OR IFF_UP)) k)
      in if can
         then (r\<lparr> cable := (if have_ethtool
                            then (case SIOCETHTOOL R n k of Some l \<Rightarrow> if l then ''yes'' else ''no'' | None \<Rightarrow> cable r)
                            else ''N/A'') \<rparr>,
               if up then k else snd (set_flags R n (ucast f) k))
         else (r\<lparr> cable := ''unknown'' \<rparr>, k))"

definition iface_step :: "requests \<Rightarrow> bool \<Rightarrow> ifaddr \<Rightarrow> iface \<times> flags \<Rightarrow> (iface \<times> flags) option" where
  \<comment> \<open>one address of the interface; \<open>None\<close>: a null pointer is followed\<close>
  "iface_step R have_ethtool it s =
     (case s of (r, k) \<Rightarrow>
        let n = take 15 (ifa_name it);
            r = r\<lparr> if_state := (if ifa_flags it AND IFF_UP \<noteq> 0 then ''up'' else ''down'') \<rparr>;
            r = (if mac r = '''' then (case SIOCGIFHWADDR R n of Some bs \<Rightarrow> r\<lparr> mac := mac_loop bs (mac r) \<rparr> | None \<Rightarrow> r) else r)
        in case probe R have_ethtool n (ifa_flags it) r k of
             (r, k) \<Rightarrow>
               (case ifa_addr it of
                  None \<Rightarrow> None
                | Some (family, a, m) \<Rightarrow>
                    if family = AF_INET then Some (r\<lparr> ip := ip r @ [a], netmask := netmask r @ [m] \<rparr>, k)
                    else Some (r, k)))"

fun iface_loop :: "requests \<Rightarrow> bool \<Rightarrow> string \<Rightarrow> ifaddr list \<Rightarrow> iface \<times> flags \<Rightarrow> (iface \<times> flags) option" where
  "iface_loop R have_ethtool name [] s = Some s"
| "iface_loop R have_ethtool name (it # its) s =
     (if ifa_name it \<noteq> name then iface_loop R have_ethtool name its s
      else case iface_step R have_ethtool it s of
             None \<Rightarrow> None | Some s \<Rightarrow> iface_loop R have_ethtool name its s)"

definition get_iface :: "requests \<Rightarrow> bool \<Rightarrow> ifaddr list option \<Rightarrow> string \<Rightarrow> flags \<Rightarrow> (iface \<times> flags) option" where
  "get_iface R have_ethtool start name k =
     (case start of None \<Rightarrow> Some (iface_new, k) | Some its \<Rightarrow> iface_loop R have_ethtool name its (iface_new, k))"

subsection \<open>Lemmas\<close>

lemma mac_loop_length: "length (mac_loop bs m) = (if m = '''' then 3 * length bs - 1 else length m + 3 * length bs)"
  by (induction bs arbitrary: m) (auto simp: byte_text_def)

definition flags_of :: "string \<Rightarrow> flags \<Rightarrow> ifaddr list \<Rightarrow> bool" where
  \<comment> \<open>the list shows the flags the interface has in the kernel, and its name is not too long for a request\<close>
  "flags_of name k its \<longleftrightarrow> length name \<le> 15 \<and>
     (\<forall>it \<in> set its. ifa_name it = name \<longrightarrow> ucast (ifa_flags it) = k name)"

lemma probe_keeps_flags:
  assumes "ucast f = k n" and "SIOCSIFFLAGS R n (ucast f)" and "probe R have_ethtool n f r k = (r', k')"
  shows "k' = k"
  using assms by (auto simp: probe_def set_flags_def Let_def fun_eq_iff split: if_splits)

lemma iface_step_keeps_flags:
  assumes "iface_step R have_ethtool it (r, k) = Some (r', k')" and "length (ifa_name it) \<le> 15"
    and "ucast (ifa_flags it) = k (ifa_name it)" and "SIOCSIFFLAGS R (ifa_name it) (ucast (ifa_flags it))"
  shows "k' = k"
  using assms by (auto simp: iface_step_def Let_def split: prod.splits option.splits if_splits dest!: probe_keeps_flags [rotated 2])

lemma iface_loop_keeps_flags:
  assumes "iface_loop R have_ethtool name its (r, k) = Some (r', k')" and "flags_of name k its"
    and "\<And>f. SIOCSIFFLAGS R name f"
  shows "k' = k"
  using assms(1,2)
proof (induction its arbitrary: r)
  case (Cons it its)
  show ?case
  proof (cases "ifa_name it = name")
    case True
    with Cons.prems(1) obtain s u where step: "iface_step R have_ethtool it (r, k) = Some (s, u)"
      and rest: "iface_loop R have_ethtool name its (s, u) = Some (r', k')"
      by (auto split: option.splits)
    have "u = k" by (rule iface_step_keeps_flags [OF step]) (use Cons.prems(2) True assms(3) in \<open>auto simp: flags_of_def\<close>)
    with rest Cons show ?thesis by (auto simp: flags_of_def)
  qed (use Cons in \<open>auto simp: flags_of_def\<close>)
qed simp

subsection \<open>Properties\<close>

text \<open>C31. Looking at an interface leaves its flags as they were, also when it was down and was brought up to see
  the cable, when the kernel does not refuse to set them.\<close>

theorem probing_keeps_flags:
  assumes "get_iface R have_ethtool start name k = Some (r, k')"
    and "\<And>its. start = Some its \<Longrightarrow> flags_of name k its" and "\<And>f. SIOCSIFFLAGS R name f"
  shows "k' = k"
  using assms(1,2) iface_loop_keeps_flags [OF _ _ assms(3)] by (auto simp: get_iface_def split: option.splits)

definition sample_requests :: requests where
  "sample_requests = \<lparr> SIOCGIFHWADDR = (\<lambda>n. Some [0, 0x1b, 0x21, 0xff, 0x0a, 9]), SIOCSIFFLAGS = (\<lambda>n f. True),
     SIOCETHTOOL = (\<lambda>n k. if k n AND 1 \<noteq> 0 then Some True else None) \<rparr>"

definition sample_addrs :: "ifaddr list" where
  "sample_addrs = [\<lparr> ifa_name = ''lo'', ifa_flags = 9, ifa_addr = Some (2, ''127.0.0.1'', ''255.0.0.0'') \<rparr>,
     \<lparr> ifa_name = ''eth0'', ifa_flags = 0x1002, ifa_addr = Some (17, '''', '''') \<rparr>,
     \<lparr> ifa_name = ''eth0'', ifa_flags = 0x1002, ifa_addr = Some (2, ''10.0.0.7'', ''255.255.255.0'') \<rparr>]"

theorem probing_keeps_flags_witness:
  "\<exists>r k'. get_iface sample_requests True (Some sample_addrs) ''eth0'' (\<lambda>n. 0x1002) = Some (r, k') \<and> k' = (\<lambda>n. 0x1002) \<and>
     mac r = ''00:1b:21:ff:0a:09'' \<and> if_state r = ''down'' \<and> cable r = ''yes'' \<and> ip r = [''10.0.0.7'']"
proof -
  have "case get_iface sample_requests True (Some sample_addrs) ''eth0'' (\<lambda>n. 0x1002) of None \<Rightarrow> False
    | Some (r, k') \<Rightarrow> mac r = ''00:1b:21:ff:0a:09'' \<and> if_state r = ''down'' \<and> cable r = ''yes'' \<and> ip r = [''10.0.0.7'']"
    by code_simp
  then obtain r k' where run: "get_iface sample_requests True (Some sample_addrs) ''eth0'' (\<lambda>n. 0x1002) = Some (r, k')"
    and r: "mac r = ''00:1b:21:ff:0a:09''" "if_state r = ''down''" "cable r = ''yes''" "ip r = [''10.0.0.7'']"
    by (auto split: option.splits prod.splits)
  have "k' = (\<lambda>n. 0x1002)"
    by (rule probing_keeps_flags [OF run]) (auto simp: flags_of_def sample_addrs_def sample_requests_def)
  with run r show ?thesis by blast
qed

text \<open>The address of the hardware of an interface is empty or six two-digit bytes with colons between.\<close>

theorem mac_has_17_characters:
  assumes "get_iface R have_ethtool start name k = Some (r, k')" and "\<And>n bs. SIOCGIFHWADDR R n = Some bs \<Longrightarrow> length bs = 6"
  shows "mac r = '''' \<or> length (mac r) = 17"
proof -
  have mac_probe: "probe R have_ethtool n f q u = (q', u') \<Longrightarrow> mac q' = mac q" for n f q u q' u'
    by (auto simp: probe_def Let_def split: prod.splits if_splits)
  have six: "SIOCGIFHWADDR R n = Some bs \<Longrightarrow> length (mac_loop bs '''') = 17" for n bs
    using assms(2) by (simp add: mac_loop_length)
  have step: "iface_step R have_ethtool it (q, u) = Some (q', u') \<Longrightarrow> mac q = '''' \<or> length (mac q) = 17 \<Longrightarrow>
      mac q' = '''' \<or> length (mac q') = 17" for it q u q' u'
    by (auto simp: iface_step_def Let_def split: prod.splits option.splits if_splits dest!: mac_probe dest: six)
  have "iface_loop R have_ethtool name its (q, u) = Some (r, k') \<Longrightarrow> mac q = '''' \<or> length (mac q) = 17 \<Longrightarrow>
      mac r = '''' \<or> length (mac r) = 17" for its q u
  proof (induction its arbitrary: q u)
    case (Cons it its)
    then show ?case by (auto split: if_splits option.splits dest: step)
  qed simp
  with assms(1) show ?thesis by (auto simp: get_iface_def iface_new_def split: option.splits)
qed

theorem mac_has_17_characters_witness:
  "\<exists>r k'. get_iface sample_requests True (Some sample_addrs) ''eth0'' (\<lambda>n. 0x1002) = Some (r, k') \<and> length (mac r) = 17"
proof -
  have "case get_iface sample_requests True (Some sample_addrs) ''eth0'' (\<lambda>n. 0x1002) of None \<Rightarrow> False | Some (r, k') \<Rightarrow> mac r \<noteq> ''''"
    by code_simp
  then obtain r k' where run: "get_iface sample_requests True (Some sample_addrs) ''eth0'' (\<lambda>n. 0x1002) = Some (r, k')" and "mac r \<noteq> ''''"
    by (auto split: option.splits prod.splits)
  moreover have "mac r = '''' \<or> length (mac r) = 17"
    by (rule mac_has_17_characters [OF run]) (auto simp: sample_requests_def)
  ultimately show ?thesis by blast
qed

end
