(* ===== verification/Decimal.thy ===== *)
theory Decimal
  imports Utils
begin

text \<open>
  \<open>src/shared/utilspp.cc\<close>, \<open>utils::math::stobiosf\<close>, and \<open>src/shared/utils.cc\<close>, \<open>string_to_double\<close>: texts of
  decimal numbers read as an integer and a scale, or as a floating-point number. The scanners
  \<open>std::stod\<close> and \<open>strtod\<close> are parameters; \<open>std::stoi\<close> is that of the standard over \<open>strtol\<close>, \<open>int64_t\<close> is
  kept at 64 bits.
\<close>

definition stoi :: "string \<Rightarrow> int option" where
  \<comment> \<open>\<open>None\<close> when it throws\<close>
  "stoi s = (case strtoll (c_str s) of (v, rest, erange) \<Rightarrow>
     if rest = c_str s \<or> erange \<or> \<not> is_int32 v then None else Some v)"

definition int64 :: "int \<Rightarrow> int outcome" where
  "int64 n = (if INT64_MIN \<le> n \<and> n \<le> INT64_MAX then Value n else Undefined)"

fun scaled :: "nat \<Rightarrow> int \<Rightarrow> int outcome" where
  "scaled 0 s = Value s"
| "scaled (Suc n) s = (case int64 (s * 10) of Value s \<Rightarrow> scaled n s | r \<Rightarrow> r)"

definition strip_zeroes :: "string \<Rightarrow> string" where
  "strip_zeroes s = rev (dropWhile (\<lambda>c. c = CHR ''0'') (rev s))"

definition add_fraction :: "int \<Rightarrow> string \<Rightarrow> int \<Rightarrow> (int \<times> int) outcome" where
  \<comment> \<open>the integer part, the text of the fraction and its value\<close>
  "add_fraction integer_part fraction_string fraction_part =
     (case scaled (length fraction_string) integer_part of
        Value s \<Rightarrow>
          (case int64 (if integer_part < 0 then s - fraction_part else s + fraction_part) of
             Value s \<Rightarrow>
               if s > INT32_MAX then Fails
               else if int (length fraction_string) - 1 > INT8_MAX then Fails
               else Value (to_int32 s, signed_take_bit 7 (- int (length fraction_string)))
           | _ \<Rightarrow> Undefined)
      | _ \<Rightarrow> Undefined)"

definition stobiosf :: "(string \<Rightarrow> (nat \<times> bool) option) \<Rightarrow> string \<Rightarrow> (int \<times> int) outcome" where
  \<comment> \<open>\<open>stod\<close> gives the number of characters taken and whether the number is is_number, \<open>None\<close> when it throws;
     the result is the integer and the scale, \<open>Fails\<close> for \<open>false\<close>\<close>
  "stobiosf stod s =
     (if s = '''' then Fails
      else case stod s of
             None \<Rightarrow> Fails
           | Some (pos, is_number) \<Rightarrow>
               if pos \<noteq> length s \<or> \<not> is_number then Fails
               else
                 let integer_string = takeWhile (\<lambda>c. c \<noteq> CHR ''.'') s in
                 (case stoi integer_string of
                    None \<Rightarrow> Fails
                  | Some integer_part \<Rightarrow>
                      if CHR ''.'' \<notin> set s then Value (integer_part, 0)
                      else
                        let fraction_string = strip_zeroes (drop (length integer_string + 1) s) in
                        if fraction_string = '''' then Value (integer_part, 0)
                        else (case stoi fraction_string of
                                None \<Rightarrow> Fails
                              | Some fraction_part \<Rightarrow> add_fraction integer_part fraction_string fraction_part)))"

definition string_to_double ::
  "(string \<Rightarrow> 'f \<times> string \<times> bool) \<Rightarrow> 'f \<Rightarrow> string \<Rightarrow> errno \<Rightarrow> 'f \<times> errno" where
  \<comment> \<open>\<open>strtod\<close> gives the number, the rest and whether it is out of range; the last argument is \<open>errno\<close> before the call\<close>
  "string_to_double strtod nan s e =
     (case strtod s of (result, rest, erange) \<Rightarrow>
        let e = (if erange then ERANGE else e);
            e = (if rest \<noteq> '''' then EINVAL else e)
        in (if e \<noteq> NoError then nan else result, e))"

subsection \<open>Plain decimals\<close>

lemma stoi_digits:
  assumes "list_all isdigit ds" and "ds \<noteq> ''''" and "int (digits_val ds) \<le> INT32_MAX"
  shows "stoi ds = Some (int (digits_val ds))"
proof -
  have "c_str ds = ds"
    using assms(1) by (auto simp: c_str_def list_all_iff isdigit_def char_code_def)
  then show ?thesis
    using assms by (auto simp: stoi_def strtoll_def scan_int_digits list_all_iff is_int32_def int_limits)
qed

lemma scaled_small:
  "0 \<le> s \<Longrightarrow> s * 10 ^ n \<le> INT32_MAX \<Longrightarrow> scaled n s = Value (s * 10 ^ n)"
proof (induction n arbitrary: s)
  case (Suc n)
  have "s * 10 * 1 \<le> s * 10 * 10 ^ n" using Suc.prems(1) by (intro mult_left_mono) simp_all
  with Suc.prems(2) have "s * 10 \<le> INT32_MAX" by (simp add: ac_simps)
  with Suc show ?case by (simp add: int64_def int_limits ac_simps)
qed simp

lemma small_int:
  "0 \<le> v \<Longrightarrow> v \<le> INT32_MAX \<Longrightarrow> to_int32 v = v" "0 \<le> v \<Longrightarrow> v \<le> INT32_MAX \<Longrightarrow> int64 v = Value v"
  by (simp_all add: to_int32_id is_int32_def int64_def int_limits)

lemma strip_zeroes_append:
  "f \<noteq> '''' \<Longrightarrow> last f \<noteq> CHR ''0'' \<Longrightarrow> strip_zeroes (f @ replicate z CHR ''0'') = f"
proof -
  assume f: "f \<noteq> ''''" "last f \<noteq> CHR ''0''"
  then obtain g c where g: "f = g @ [c]" by (metis append_butlast_last_id)
  have "dropWhile (\<lambda>c. c = CHR ''0'') (replicate z CHR ''0'' @ rev f) = rev f"
    using f(2) by (induction z) (simp_all add: g)
  then show ?thesis by (simp add: strip_zeroes_def)
qed

text \<open>A decimal without sign, with zeroes at its end or none, whose digits make a number of 31 bits is read as that
  number and the number of digits after the point, when those are at most 128.\<close>

theorem stobiosf_decimal:
  assumes s: "s = to_string n @ CHR ''.'' # f @ replicate z CHR ''0''"
    and f: "list_all isdigit f" "f \<noteq> ''''" "last f \<noteq> CHR ''0''"
    and stod: "stod s = Some (length s, True)"
    and small: "int n * 10 ^ length f + int (digits_val f) \<le> INT32_MAX"
  shows "stobiosf stod s = (if length f \<le> 128
     then Value (int n * 10 ^ length f + int (digits_val f), - int (length f)) else Fails)"
proof -
  have dot: "\<forall>c \<in> set (to_string n). c \<noteq> CHR ''.''"
    by (auto dest!: to_string_digits simp: isdigit_def char_code_def)
  then have int_s: "takeWhile (\<lambda>c. c \<noteq> CHR ''.'') s = to_string n" by (simp add: s takeWhile_append)
  have nn: "int n * 1 \<le> int n * 10 ^ length f" by (intro mult_left_mono) simp_all
  have parts: "int n \<le> INT32_MAX" "int (digits_val f) \<le> INT32_MAX" "int n * 10 ^ length f \<le> INT32_MAX"
    using small nn by (simp_all add: int_limits)
  have first: "stoi (to_string n) = Some (int n)"
    using stoi_digits [of "to_string n"] parts(1) by (auto simp: list_all_iff dest: to_string_digits)
  have rest: "strip_zeroes (drop (length (to_string n) + 1) s) = f" by (simp add: s strip_zeroes_append f)
  have v: "0 \<le> int n * 10 ^ length f + int (digits_val f)" by simp
  then have "to_int32 (int n * 10 ^ length f + int (digits_val f)) = int n * 10 ^ length f + int (digits_val f)"
    "int64 (int n * 10 ^ length f + int (digits_val f)) = Value (int n * 10 ^ length f + int (digits_val f))"
    using small by (rule small_int)+
  then have "add_fraction (int n) f (int (digits_val f)) = (if length f \<le> 128
     then Value (int n * 10 ^ length f + int (digits_val f), - int (length f)) else Fails)"
    using small parts scaled_small [of "int n" "length f"]
    by (auto simp: add_fraction_def int_limits signed_take_bit_int_eq_self)
  then show ?thesis
    using first rest f stod parts stoi_digits [OF f(1,2) parts(2)] by (simp add: stobiosf_def int_s Let_def) (simp add: s)
qed

theorem stobiosf_decimal_witness:
  "stobiosf (\<lambda>s. Some (length s, True)) ''230.500'' = Value (2305, - 1)"
proof -
  have "''230.500'' = to_string 230 @ CHR ''.'' # ''5'' @ replicate 2 CHR ''0''" "list_all isdigit ''5''" "digits_val ''5'' = 5"
    by code_simp+
  with stobiosf_decimal [of "''230.500''" 230 "''5''" 2 "\<lambda>s. Some (length s, True)"] show ?thesis by (simp add: int_limits)
qed

text \<open>
  What is not a plain decimal: the sign of a zero is lost, an exponent is read as digits or dropped, a value below
  the range is truncated to 32 bits instead of refused, and zeroes after the point overflow the sum.
\<close>

lemma stobiosf_surprises:
  "stobiosf (\<lambda>s. Some (length s, True)) ''-0.5'' = Value (5, - 1)"
  "stobiosf (\<lambda>s. Some (length s, True)) ''1e5'' = Value (1, 0)"
  "stobiosf (\<lambda>s. Some (length s, True)) ''1.5e3'' = Value (1005, - 3)"
  "stobiosf (\<lambda>s. Some (length s, True)) ''-3000.0000001'' = Value (64771071, - 7)"
  "stobiosf (\<lambda>s. Some (length s, True)) ''1.0000000000000000000001'' = Undefined"
  by code_simp+

text \<open>An error left by an earlier call turns a good number into NaN.\<close>

lemma string_to_double_stale_errno:
  assumes "strtod s = (x, '''', False)"
  shows "string_to_double strtod nan s NoError = (x, NoError)" and "string_to_double strtod nan s EINVAL = (nan, EINVAL)"
  by (simp_all add: string_to_double_def assms)

end
