(* ===== verification/Spec2Isabelle.thy ===== *)
theory Spec2Isabelle
  imports UpsStatus CidrList CidrOwn Agent Calendar TopicCache ImportCsv BiosCsv SseEvents Configure
    Names Augtool Persist FileConvert NetIface Decimal
begin

text \<open>
  A verification development for fty-rest, the REST layer of a product that manages data centres: its assets
  (data centres, rooms, racks, devices and groups), the links that power them, their alerts, and the tables
  and JSON texts in which they are imported, exported and shown.

  \<^bold>\<open>The program and its parts.\<close> The pages of \<open>src/ecpp\<close> call a library of C++ code under \<open>src/src\<close>. That
  library is what is modelled:

  \<^item> a table or a JSON text is read into a \<open>CsvMap\<close> (\<open>shared/csv.cc\<close>: theories \<open>CsvMap\<close>, \<open>JsonCsv\<close>), its rows are
    checked and stored by the import (\<open>db/inout/importcsv.cc\<close>: \<open>ImportText\<close> for single cells, \<open>ImportRc0\<close> for
    the choice of the rack controller, \<open>ImportRow\<close> and \<open>ImportStore\<close> for \<open>process_row\<close>, \<open>ImportCsv\<close> for the passes
    over a table) with dates of \<open>shared/utils.cc\<close> (\<open>DateText\<close>);
  \<^item> the import and the pages store assets by the transactions of \<open>db/asset_general.cc\<close> (\<open>AssetGeneral\<close>, over
    the interface \<open>AssetDb\<close> of the data base library), read them by the queries of \<open>persist/assetcrud.cc\<close>
    (\<open>AssetCrud\<close>) and read, list and delete them by \<open>asset_manager\<close> of \<open>shared/data.cc\<close> (\<open>AssetManager\<close>);
  \<^item> the export writes them back as a table or as JSON (\<open>db/inout/exportcsv.cc\<close>: \<open>ExportCsv\<close>, \<open>ExportJson\<close>), and
    the command \<open>bios-csv/bios-csv.cc\<close> exports and compares tables (\<open>BiosCsv\<close>);
  \<^item> \<open>web/src/asset_computed_impl.cc\<close> computes what is free in a rack (\<open>AssetComputed\<close>), \<open>shared/utils_json.cc\<close>
    writes an asset or an alert as JSON (\<open>AssetJson\<close>, \<open>AlertJson\<close>, against the grammar of \<open>JsonText\<close>), and
    \<open>web/src/sse.cc\<close> turns the messages of the bus into events for a client (\<open>Sse\<close>, \<open>SseEvents\<close>);
  \<^item> \<open>shared/configure_inform.cc\<close> tells the other agents of what an import has changed (\<open>Configure\<close>);
  \<^item> \<open>bios_agentpp.h\<close> is the base class of an agent on the bus, with its loop over messages (\<open>Agent\<close>);
  \<^item> the rest are utilities: addresses and lists of networks (\<open>shared/cidr.cc\<close>: \<open>Cidr\<close>, \<open>CidrList\<close>, and \<open>CidrOwn\<close> for
    the memory behind them), times and their texts (\<open>shared/utils.cc\<close>: \<open>Calendar\<close>, which an alert prints), the status
    of a UPS (\<open>shared/upsstatus.cc\<close>: \<open>UpsStatus\<close>), a cache (\<open>shared/topic_cache.cc\<close>: \<open>TopicCache\<close>), numbers and
    strings (\<open>shared/utils.cc\<close>, \<open>utilspp.cc\<close>: \<open>Utils\<close>, \<open>Decimal\<close>), character sets and names (\<open>shared/ic.cc\<close>:
    \<open>Names\<close>), the session with \<open>augtool\<close> (\<open>shared/augtool.cc\<close>: \<open>Augtool\<close>), uploaded files (\<open>shared/magic.cc\<close>:
    \<open>FileConvert\<close>), network interfaces (\<open>web/src/iface.cc\<close>: \<open>NetIface\<close>), and the tables of monitored devices
    and agent states (\<open>persist/dbhelpers.cc\<close>, \<open>monitor.cc\<close>, \<open>db/agentstate/agentstate.cc\<close>: \<open>Persist\<close>).

  \<^bold>\<open>How code becomes definitions.\<close> A function of the source is a definition of the same name, or of its name and
  what distinguishes it where a name is overloaded or taken (\<open>delete_item\<close>, \<open>send_configure_pair\<close>); its loops
  and callbacks are definitions of their own beside it. A struct or class is a record with the source's members,
  an object's method a function from the record to the record. \<open>Rest_Prelude\<close> has what all share: \<open>'e + 'a\<close> for a
  computation that may throw (\<open>bindE\<close>), \<open>('d, 'e, 'a) prog\<close> for one that changes a state \<open>'d\<close> and may throw
  after it has, sorted association lists for \<open>std::map\<close> and \<open>std::set\<close>, C strings (\<open>c_str\<close>) and decimal texts.
  Signed arithmetic keeps the width of the source; overflow, a read past an array, a null pointer followed or a
  loop that does not end is a value of its own (\<open>Undefined\<close>, \<open>Overflow\<close>, \<open>None\<close>), never an arbitrary one.

  \<^bold>\<open>What is a parameter.\<close> Code outside the repository is an argument: a record of functions for fty-common-db
  and tntdb (\<open>asset_db\<close>, extended by \<open>manager_db\<close>, \<open>import_db\<close>, \<open>export_db\<close>, \<open>computed_db\<close> as more of it is
  called), for libcidr, malamute and czmq, \<open>utils::json::jsonify\<close>, \<open>iconv\<close>, libmagic, \<open>fty::Process\<close> and the
  requests to the kernel. What a property needs of them is a named hypothesis with documented behaviour:
  \<open>writes_members\<close> (\<open>jsonify\<close> writes the member it is given), \<open>owns_agents\<close> and \<open>owns_messages\<close> (who frees what
  by \<open>bios_agent.h\<close> and \<open>ymsg.h\<close>), that the two macros of the format of dates agree on a date,
  \<open>converts\<close> (\<open>iconv\<close> translates the string in question where the translation fits and reports \<open>E2BIG\<close> where
  it does not; of other strings nothing is asked), \<open>fresh_paths\<close> (\<open>mkstemp\<close> makes a new file), a
  rollback restores the data base. Where the behaviour of such code is not documented, the theorem covers what it may do:
  whether the query for the assets swallows the exceptions of its callback (\<open>rows_seen\<close>), and what the pointer of
  \<open>getenv\<close> points to after \<open>setenv\<close> (\<open>stale\<close>). Every hypothesis is discharged at a concrete instance by the witness of the property.

  \<^bold>\<open>What the lemmas show.\<close> In the order of importance:

  \<^item> \<^emph>\<open>Assets stay consistent.\<close> Every operation on assets is atomic up to its commit, and failed ones might as well
    not have been in their batch (\<open>asset_operations_atomic\<close>, from the locale \<open>atomic_operations\<close>); the one failure after
    a commit, of the deactivation of a deleted device, is in the statement. The last data centre is kept; an import
    accounts for every row once and changes nothing without a licence, and what it reports is well formed; a
    bulk deletion removes requested assets only, with none left, of those the code sees, that hangs below or is
    powered by them.
  \<^item> \<^emph>\<open>Texts mean what they should.\<close> The JSON of an asset, of an alert and of the event that carries it denotes,
    by an inductive grammar of JSON, the object of the asset or alert (\<open>asset_json_denotes_asset\<close>,
    \<open>alert_event_denotes\<close>); an exported table and an exported JSON are read back by the import's
    reader, and \<open>bios-csv\<close> finds an exported table to correspond with itself; a time that is printed, also in an
    alert, is read back as that time in any time zone; the description of an alert has all names replaced and nothing else changed.
  \<^item> \<^emph>\<open>Messages are in order.\<close> \<open>send_configure\<close> sends exactly the messages about its rows, in their order, up to the first
    failure; an alert is published only when its state changes, in any run of the object (a step
    relation with reachable states).
  \<^item> \<^emph>\<open>Memory is owned.\<close> An agent destroys every message it receives once (\<open>agent_run_correct\<close>) and holds at most one
    connection, which it releases (\<open>agent_released\<close>); whatever a program does with addresses, no structure behind
    them is shared, freed twice or lost, and each object holds the value that \<open>Cidr\<close> gives it
    (\<open>addresses_own_their_memory\<close>, a refinement).
  \<^item> \<^emph>\<open>Loops end.\<close> An agent returns when it is interrupted and only then, the iteration over networks terminates and, on
    IPv4 networks without excludes, skips no host and ends after the last one, a conversion of characters ends with a buffer that fits, a search through parents ends.
  \<^item> \<^emph>\<open>Utilities meet their contracts\<close>, each over a locale where several operations share one: \<open>ranked_compare\<close>
    (addresses), \<open>title_table\<close> (tables), \<open>bounded_cache\<close>, \<open>saved_states\<close> (agent states), \<open>step_refinement\<close> (memory); all are interpreted on
    the definitions of the model.

  Where the code does not do what it means to, the theorem says what it does (\<open>bulk_deletion_order_undefined\<close>,
  \<open>update_loses_requested_status\<close>, \<open>network_address_returned\<close>, \<open>get_priority_zero\<close>, \<open>expired_wait_polls_twice\<close>, \<open>free_height_of_rack\<close> with its
  empty rack, \<open>empty_name_breaks_description\<close>).

  \<^bold>\<open>Termination and bounds.\<close> No definition uses fuel. Loops over data are structural or decrease a
  measure: the passes of \<open>import_passes\<close> the rows not yet imported, \<open>s_read_si\<close> the size of the tree, \<open>parent_loop\<close>
  of \<open>Sse\<close> the keys left in a finite hash, \<open>update_loop\<close> of \<open>AlertJson\<close> the text before a match, the loops of
  \<open>gmtime\<close> the days that are left. What may run for ever in the source (\<open>next_loop\<close> of \<open>CidrList\<close>, \<open>collect_rows\<close> and \<open>isAnyParent\<close> of \<open>AssetManager\<close> on cyclic data,
  \<open>s_convert\<close> and \<open>convert_loop\<close> of \<open>Names\<close>, \<open>main_loop\<close> of \<open>Agent\<close>) is a partial function,
  and that it returns is proved where it does.

  \<^bold>\<open>Not modelled.\<close> \<open>bios_agent.h\<close>, \<open>ymsg.h\<close> and \<open>app.h\<close> declare functions whose bodies are not in the repository;
  \<open>dbtypes.h\<close>, \<open>db/types.h\<close> and \<open>cleanup.h\<close> hold type names and macros that call a destructor. The formats of dates are
  macros of another repository; \<open>rfc11_print\<close> and \<open>rfc11_scan\<close> are the instance the comment of \<open>utils.h\<close> describes. Left
  out as output or plain access: the usage text of \<open>bios-csv\<close>, \<open>s_rt_encode_GET\<close> (which nothing calls), the accessors
  of tuples in \<open>db/dbhelpers.h\<close>. Logging, mutexes, pauses and the release of memory are left out, except where a handle
  or the memory is part of the state (\<open>SseEvents\<close>, \<open>Agent\<close>, \<open>CidrOwn\<close>). The pages of \<open>src/ecpp\<close>, the scripts and the
  tests are not C++ of the library.
\<close>

end
